(* ===== verification/Prelude.thy ===== *)
theory Prelude
  imports Complex_Main
begin

text \<open>
  Shared vocabulary of the development: Rust results and orderings, the checked and
  saturating integer operations the sources use, and generic facts about them. Unsigned
  machine integers are natural numbers and signed ones are integers; every operation of the
  sources that can leave the width of its type is one of the definitions below, which writes
  the bound out. The collections \<open>result_simps\<close> and \<open>machine_simps\<close> hold the rules that the
  component theories give to the simplifier.
\<close>

named_theorems result_simps
named_theorems machine_simps

subsection \<open>Results\<close>

text \<open>A Rust \<open>Result\<close> is a sum: \<open>Err e\<close> is the left and \<open>Ok v\<close> the right injection.\<close>

type_synonym ('a, 'e) result = "'e + 'a"

abbreviation Err :: "'e \<Rightarrow> ('a, 'e) result" where
  "Err \<equiv> Inl"

abbreviation Ok :: "'a \<Rightarrow> ('a, 'e) result" where
  "Ok \<equiv> Inr"

text \<open>The question-mark operator: continue with the value, return the error.\<close>

definition and_then :: "('a, 'e) result \<Rightarrow> ('a \<Rightarrow> ('b, 'e) result) \<Rightarrow> ('b, 'e) result" where
  "and_then r f = (case r of Inl e \<Rightarrow> Inl e | Inr v \<Rightarrow> f v)"

definition ok_or :: "'a option \<Rightarrow> 'e \<Rightarrow> ('a, 'e) result" where
  "ok_or x e = (case x of None \<Rightarrow> Inl e | Some v \<Rightarrow> Inr v)"

definition map_err :: "('a, 'd) result \<Rightarrow> ('d \<Rightarrow> 'e) \<Rightarrow> ('a, 'e) result" where
  "map_err r f = (case r of Inl e \<Rightarrow> Inl (f e) | Inr v \<Rightarrow> Inr v)"

definition is_ok :: "('a, 'e) result \<Rightarrow> bool" where
  "is_ok r = (case r of Inl _ \<Rightarrow> False | Inr _ \<Rightarrow> True)"

subsection \<open>Orderings\<close>

datatype Ordering = Less | Equal | Greater

fun reverse_ordering :: "Ordering \<Rightarrow> Ordering" where
  "reverse_ordering Less = Greater"
| "reverse_ordering Equal = Equal"
| "reverse_ordering Greater = Less"

definition then_ordering :: "Ordering \<Rightarrow> Ordering \<Rightarrow> Ordering" where
  "then_ordering a b = (case a of Equal \<Rightarrow> b | _ \<Rightarrow> a)"

text \<open>\<open>Ord::cmp\<close> of a type that HOL orders linearly (integers of every width, characters).\<close>

definition cmp_of :: "'a::linorder \<Rightarrow> 'a \<Rightarrow> Ordering" where
  "cmp_of a b = (if a < b then Less else if a = b then Equal else Greater)"

text \<open>\<open>Ord::cmp\<close> of slices and strings: lexicographic, a proper prefix is less.\<close>

fun list_cmp :: "('a \<Rightarrow> 'a \<Rightarrow> Ordering) \<Rightarrow> 'a list \<Rightarrow> 'a list \<Rightarrow> Ordering" where
  "list_cmp c [] [] = Equal"
| "list_cmp c [] (y # ys) = Less"
| "list_cmp c (x # xs) [] = Greater"
| "list_cmp c (x # xs) (y # ys) = then_ordering (c x y) (list_cmp c xs ys)"

definition pair_cmp ::
  "('a \<Rightarrow> 'a \<Rightarrow> Ordering) \<Rightarrow> ('b \<Rightarrow> 'b \<Rightarrow> Ordering) \<Rightarrow> 'a \<times> 'b \<Rightarrow> 'a \<times> 'b \<Rightarrow> Ordering" where
  "pair_cmp c d p q = then_ordering (c (fst p) (fst q)) (d (snd p) (snd q))"

text \<open>Strings compare byte by byte.\<close>

definition char_cmp :: "char \<Rightarrow> char \<Rightarrow> Ordering" where
  "char_cmp a b = cmp_of (of_char a :: nat) (of_char b)"

definition str_cmp :: "string \<Rightarrow> string \<Rightarrow> Ordering" where
  "str_cmp = list_cmp char_cmp"

subsection \<open>Machine integers\<close>

definition u32_max :: nat where "u32_max = 2 ^ 32 - 1"

definition u64_max :: nat where "u64_max = 2 ^ 64 - 1"

definition u128_max :: nat where "u128_max = 2 ^ 128 - 1"

definition i64_min :: int where "i64_min = - (2 ^ 63)"

definition i64_max :: int where "i64_max = 2 ^ 63 - 1"

definition i128_min :: int where "i128_min = - (2 ^ 127)"

definition i128_max :: int where "i128_max = 2 ^ 127 - 1"

definition in_i128 :: "int \<Rightarrow> bool" where
  "in_i128 x \<longleftrightarrow> i128_min \<le> x \<and> x \<le> i128_max"

text \<open>\<open>checked_add\<close>, \<open>checked_mul\<close> and \<open>checked_pow\<close> of an unsigned type with maximum \<open>m\<close>.\<close>

definition checked_add :: "nat \<Rightarrow> nat \<Rightarrow> nat \<Rightarrow> nat option" where
  "checked_add m a b = (if a + b \<le> m then Some (a + b) else None)"

definition checked_mul :: "nat \<Rightarrow> nat \<Rightarrow> nat \<Rightarrow> nat option" where
  "checked_mul m a b = (if a * b \<le> m then Some (a * b) else None)"

definition checked_pow :: "nat \<Rightarrow> nat \<Rightarrow> nat \<Rightarrow> nat option" where
  "checked_pow m a n = (if a ^ n \<le> m then Some (a ^ n) else None)"

definition checked_sub :: "nat \<Rightarrow> nat \<Rightarrow> nat option" where
  "checked_sub a b = (if b \<le> a then Some (a - b) else None)"

definition saturating_add :: "nat \<Rightarrow> nat \<Rightarrow> nat \<Rightarrow> nat" where
  "saturating_add m a b = min m (a + b)"

definition saturating_mul :: "nat \<Rightarrow> nat \<Rightarrow> nat \<Rightarrow> nat" where
  "saturating_mul m a b = min m (a * b)"

text \<open>\<open>saturating_sub\<close> of an unsigned type is the subtraction of natural numbers.\<close>

definition saturating_sub :: "nat \<Rightarrow> nat \<Rightarrow> nat" where
  "saturating_sub a b = a - b"

definition checked_i128 :: "int \<Rightarrow> int option" where
  "checked_i128 x = (if in_i128 x then Some x else None)"

text \<open>Rust's \<open>/\<close> and \<open>%\<close> on signed integers truncate towards zero.\<close>

definition trunc_div :: "int \<Rightarrow> int \<Rightarrow> int" where
  "trunc_div a b = sgn a * sgn b * (\<bar>a\<bar> div \<bar>b\<bar>)"

definition trunc_mod :: "int \<Rightarrow> int \<Rightarrow> int" where
  "trunc_mod a b = sgn a * (\<bar>a\<bar> mod \<bar>b\<bar>)"

subsection \<open>Rules for results\<close>

lemma and_then_simps [simp]:
  "and_then (Inl e) f = Inl e"
  "and_then (Inr v) f = f v"
  by (simp_all add: and_then_def)

lemma and_then_Ok_iff [result_simps]:
  "and_then r f = Inr w \<longleftrightarrow> (\<exists>v. r = Inr v \<and> f v = Inr w)"
  by (cases r) simp_all

lemma and_then_assoc: "and_then (and_then r f) g = and_then r (\<lambda>v. and_then (f v) g)"
  by (cases r) simp_all

lemma ok_or_simps [simp]:
  "ok_or None e = Inl e"
  "ok_or (Some v) e = Inr v"
  by (simp_all add: ok_or_def)

lemma ok_or_Ok_iff [result_simps]: "ok_or x e = Inr v \<longleftrightarrow> x = Some v"
  by (cases x) simp_all

lemma map_err_simps [simp]:
  "map_err (Inl e) f = Inl (f e)"
  "map_err (Inr v) f = Inr v"
  by (simp_all add: map_err_def)

lemma map_err_Ok_iff [result_simps]: "map_err r f = Inr v \<longleftrightarrow> r = Inr v"
  by (cases r) simp_all

lemma is_ok_simps [simp]: "\<not> is_ok (Inl e)" "is_ok (Inr v)"
  by (simp_all add: is_ok_def)

subsection \<open>Rules for orderings\<close>

lemma cmp_of_eq_iff [simp]:
  "cmp_of a b = Less \<longleftrightarrow> a < b"
  "cmp_of a b = Equal \<longleftrightarrow> a = b"
  "cmp_of a b = Greater \<longleftrightarrow> b < a"
  by (auto simp: cmp_of_def)

lemma cmp_of_refl [simp]: "cmp_of a a = Equal"
  by (simp add: cmp_of_def)

lemma reverse_reverse_ordering [simp]: "reverse_ordering (reverse_ordering a) = a"
  by (cases a) simp_all

lemma reverse_ordering_eq_iff [simp]:
  "reverse_ordering a = Less \<longleftrightarrow> a = Greater"
  "reverse_ordering a = Equal \<longleftrightarrow> a = Equal"
  "reverse_ordering a = Greater \<longleftrightarrow> a = Less"
  by (cases a; simp)+

lemma reverse_cmp_of: "reverse_ordering (cmp_of a b) = cmp_of b a"
  by (auto simp: cmp_of_def)

lemma then_ordering_simps [simp]:
  "then_ordering Less b = Less"
  "then_ordering Equal b = b"
  "then_ordering Greater b = Greater"
  by (simp_all add: then_ordering_def)

lemma then_ordering_eq_iff:
  "then_ordering a b = Less \<longleftrightarrow> a = Less \<or> a = Equal \<and> b = Less"
  "then_ordering a b = Equal \<longleftrightarrow> a = Equal \<and> b = Equal"
  by (cases a; simp)+

lemma reverse_then_ordering:
  "reverse_ordering (then_ordering a b) = then_ordering (reverse_ordering a) (reverse_ordering b)"
  by (cases a) simp_all

subsection \<open>Rules for machine integers\<close>

lemma checked_add_Some_iff [machine_simps]:
  "checked_add m a b = Some c \<longleftrightarrow> a + b \<le> m \<and> c = a + b"
  by (auto simp: checked_add_def)

lemma checked_mul_Some_iff [machine_simps]:
  "checked_mul m a b = Some c \<longleftrightarrow> a * b \<le> m \<and> c = a * b"
  by (auto simp: checked_mul_def)

lemma checked_pow_Some_iff [machine_simps]:
  "checked_pow m a n = Some c \<longleftrightarrow> a ^ n \<le> m \<and> c = a ^ n"
  by (auto simp: checked_pow_def)

lemma checked_sub_Some_iff [machine_simps]:
  "checked_sub a b = Some c \<longleftrightarrow> b \<le> a \<and> c = a - b"
  by (auto simp: checked_sub_def)

lemma checked_i128_Some_iff [machine_simps]:
  "checked_i128 x = Some y \<longleftrightarrow> in_i128 x \<and> y = x"
  by (auto simp: checked_i128_def)

lemma trunc_mod_eq_0_iff: "trunc_mod a b = 0 \<longleftrightarrow> b dvd a"
  by (simp add: trunc_mod_def sgn_0_0 dvd_eq_mod_eq_0 [symmetric] abs_dvd_iff dvd_abs_iff) auto

lemma trunc_div_pos:
  assumes "0 < b" and "b dvd a"
  shows "trunc_div a b = a div b"
proof -
  from assms(2) obtain k where a: "a = b * k" ..
  have "\<bar>b * k\<bar> div \<bar>b\<bar> = \<bar>k\<bar>" using assms(1) by (simp add: abs_mult)
  then have "trunc_div a b = sgn (b * k) * sgn b * \<bar>k\<bar>"
    by (simp add: trunc_div_def a)
  also have "\<dots> = sgn k * \<bar>k\<bar>" using assms(1) by (simp add: sgn_mult)
  also have "\<dots> = k" by (rule sgn_mult_abs)
  finally show ?thesis using assms(1) by (simp add: a)
qed

end
