(* ===== verification/BTree_Map.thy ===== *)
theory BTree_Map
  imports Prelude
begin

text \<open>
  The standard library's \<open>BTreeMap\<close> and \<open>BTreeSet\<close>, as the sources use them: a map is the list
  of its entries in increasing key order, and every operation finds keys with the \<open>Ord::cmp\<close> of
  the key type, which is the parameter \<open>cmp\<close>. The locale \<open>rust_ord\<close> is the contract that
  \<open>Ord\<close> asks of a key type (a total order that agrees with \<open>Eq\<close>) on the values \<open>valid\<close> of
  that type; the laws of the map operations are proved once, under that contract.
\<close>

type_synonym ('k, 'v) btree = "('k \<times> 'v) list"

fun bt_get :: "('k \<Rightarrow> 'k \<Rightarrow> Ordering) \<Rightarrow> 'k \<Rightarrow> ('k, 'v) btree \<Rightarrow> 'v option" where
  "bt_get cmp k [] = None"
| "bt_get cmp k ((k', v') # m) =
     (case cmp k k' of Less \<Rightarrow> None | Equal \<Rightarrow> Some v' | Greater \<Rightarrow> bt_get cmp k m)"

fun bt_insert ::
  "('k \<Rightarrow> 'k \<Rightarrow> Ordering) \<Rightarrow> 'k \<Rightarrow> 'v \<Rightarrow> ('k, 'v) btree \<Rightarrow> ('k, 'v) btree" where
  "bt_insert cmp k v [] = [(k, v)]"
| "bt_insert cmp k v ((k', v') # m) =
     (case cmp k k' of
        Less \<Rightarrow> (k, v) # (k', v') # m
      | Equal \<Rightarrow> (k', v) # m
      | Greater \<Rightarrow> (k', v') # bt_insert cmp k v m)"

fun bt_remove :: "('k \<Rightarrow> 'k \<Rightarrow> Ordering) \<Rightarrow> 'k \<Rightarrow> ('k, 'v) btree \<Rightarrow> ('k, 'v) btree" where
  "bt_remove cmp k [] = []"
| "bt_remove cmp k ((k', v') # m) =
     (case cmp k k' of
        Less \<Rightarrow> (k', v') # m
      | Equal \<Rightarrow> m
      | Greater \<Rightarrow> (k', v') # bt_remove cmp k m)"

definition bt_contains :: "('k \<Rightarrow> 'k \<Rightarrow> Ordering) \<Rightarrow> 'k \<Rightarrow> ('k, 'v) btree \<Rightarrow> bool" where
  "bt_contains cmp k m \<longleftrightarrow> bt_get cmp k m \<noteq> None"

definition bt_first :: "('k, 'v) btree \<Rightarrow> ('k \<times> 'v) option" where
  "bt_first m = (case m of [] \<Rightarrow> None | e # _ \<Rightarrow> Some e)"

definition bt_last :: "('k, 'v) btree \<Rightarrow> ('k \<times> 'v) option" where
  "bt_last m = (if m = [] then None else Some (last m))"

text \<open>\<open>iter().collect()\<close> into a map: insert the entries in order.\<close>

fun bt_collect ::
  "('k \<Rightarrow> 'k \<Rightarrow> Ordering) \<Rightarrow> ('k, 'v) btree \<Rightarrow> ('k \<times> 'v) list \<Rightarrow> ('k, 'v) btree" where
  "bt_collect cmp m [] = m"
| "bt_collect cmp m ((k, v) # kvs) = bt_collect cmp (bt_insert cmp k v m) kvs"

text \<open>Every key is valid and the keys increase strictly.\<close>

definition bt_wf :: "('k \<Rightarrow> 'k \<Rightarrow> Ordering) \<Rightarrow> ('k \<Rightarrow> bool) \<Rightarrow> ('k, 'v) btree \<Rightarrow> bool" where
  "bt_wf cmp valid m \<longleftrightarrow>
     list_all valid (map fst m) \<and> sorted_wrt (\<lambda>a b. cmp a b = Less) (map fst m)"

lemma bt_wf_Nil [simp]: "bt_wf cmp valid []"
  by (simp add: bt_wf_def)

lemma bt_wf_Cons:
  "bt_wf cmp valid ((k, v) # m) \<longleftrightarrow>
     valid k \<and> (\<forall>k' \<in> fst ` set m. cmp k k' = Less) \<and> bt_wf cmp valid m"
  by (auto simp: bt_wf_def)

lemma bt_wf_tl: "bt_wf cmp valid m \<Longrightarrow> bt_wf cmp valid (tl m)"
  by (cases m) (auto simp: bt_wf_Cons)

lemma bt_wf_butlast: "bt_wf cmp valid m \<Longrightarrow> bt_wf cmp valid (butlast m)"
proof (cases m rule: rev_cases)
  case (snoc ys y)
  then show "bt_wf cmp valid m \<Longrightarrow> ?thesis"
    by (simp add: bt_wf_def sorted_wrt_append)
qed simp

lemma bt_remove_subset: "set (bt_remove cmp k m) \<subseteq> set m"
proof (induction m)
  case (Cons e m)
  then show ?case by (cases e; cases "cmp k (fst e)") auto
qed simp

lemma length_bt_insert_le: "length (bt_insert cmp k v m) \<le> Suc (length m)"
proof (induction m)
  case (Cons e m)
  then show ?case by (cases e; cases "cmp k (fst e)") auto
qed simp

lemma length_bt_remove_le: "length (bt_remove cmp k m) \<le> length m"
proof (induction m)
  case (Cons e m)
  then show ?case by (cases e; cases "cmp k (fst e)") auto
qed simp

lemma option_ext: "(\<And>w. x = Some w \<longleftrightarrow> y = Some w) \<Longrightarrow> x = y"
  by (cases x; cases y) auto

locale rust_ord =
  fixes cmp :: "'k \<Rightarrow> 'k \<Rightarrow> Ordering"
    and valid :: "'k \<Rightarrow> bool"
  assumes cmp_Equal_iff: "valid a \<Longrightarrow> valid b \<Longrightarrow> cmp a b = Equal \<longleftrightarrow> a = b"
    and cmp_reverse: "valid a \<Longrightarrow> valid b \<Longrightarrow> cmp b a = reverse_ordering (cmp a b)"
    and cmp_Less_trans:
      "valid a \<Longrightarrow> valid b \<Longrightarrow> valid c \<Longrightarrow> cmp a b = Less \<Longrightarrow> cmp b c = Less \<Longrightarrow> cmp a c = Less"
begin

lemma cmp_refl: "valid a \<Longrightarrow> cmp a a = Equal"
  by (simp add: cmp_Equal_iff)

lemma cmp_Greater_iff: "valid a \<Longrightarrow> valid b \<Longrightarrow> cmp a b = Greater \<longleftrightarrow> cmp b a = Less"
  using cmp_reverse [of a b] by simp

lemma wf_key_valid: "bt_wf cmp valid m \<Longrightarrow> (k, v) \<in> set m \<Longrightarrow> valid k"
  by (auto simp: bt_wf_def list_all_iff)

lemma get_None_if_less:
  assumes "bt_wf cmp valid m" "valid k" "\<forall>k' \<in> fst ` set m. cmp k k' = Less"
  shows "bt_get cmp k m = None"
  using assms by (cases m) (auto simp: bt_wf_Cons)

lemma less_all_trans:
  assumes "bt_wf cmp valid m" "valid a" "valid b" "cmp a b = Less"
    and "\<forall>k' \<in> fst ` set m. cmp b k' = Less"
  shows "\<forall>k' \<in> fst ` set m. cmp a k' = Less"
proof
  fix k' assume k': "k' \<in> fst ` set m"
  then have "valid k'" using assms(1) wf_key_valid by fastforce
  with assms k' show "cmp a k' = Less" by (blast intro: cmp_Less_trans)
qed

lemma get_Some_iff:
  assumes "bt_wf cmp valid m" "valid k"
  shows "bt_get cmp k m = Some v \<longleftrightarrow> (k, v) \<in> set m"
  using assms
proof (induction m)
  case Nil
  then show ?case by simp
next
  case (Cons e m)
  obtain k' v' where e: "e = (k', v')" by force
  have wf: "valid k'" "bt_wf cmp valid m" "\<forall>x \<in> fst ` set m. cmp k' x = Less"
    using Cons.prems by (auto simp: e bt_wf_Cons)
  show ?case
  proof (cases "cmp k k'")
    case Less
    then have "\<forall>x \<in> fst ` set m. cmp k x = Less"
      using less_all_trans wf Cons.prems by blast
    then have "(k, v) \<notin> set m" using cmp_refl [OF Cons.prems(2)] by force
    moreover have "k \<noteq> k'" using Less cmp_refl [OF Cons.prems(2)] by auto
    ultimately show ?thesis using Less by (simp add: e)
  next
    case Equal
    then have "k = k'" using cmp_Equal_iff Cons.prems(2) wf(1) by blast
    moreover have "(k, v) \<notin> set m"
      using wf(3) \<open>k = k'\<close> cmp_refl [OF Cons.prems(2)] by force
    ultimately show ?thesis using Equal by (auto simp: e)
  next
    case Greater
    then have "k \<noteq> k'" using cmp_refl [OF Cons.prems(2)] by auto
    with Greater Cons wf show ?thesis by (auto simp: e)
  qed
qed

lemma set_insert:
  "bt_wf cmp valid m \<Longrightarrow> valid k \<Longrightarrow>
     set (bt_insert cmp k v m) = insert (k, v) {e \<in> set m. fst e \<noteq> k}"
proof (induction m)
  case (Cons e m)
  obtain k' v' where e: "e = (k', v')" by force
  have wf: "valid k'" "bt_wf cmp valid m" "\<forall>x \<in> fst ` set m. cmp k' x = Less"
    using Cons.prems by (auto simp: e bt_wf_Cons)
  show ?case
  proof (cases "cmp k k'")
    case Less
    then have "k \<notin> fst ` set (e # m)"
      using less_all_trans [OF wf(2) Cons.prems(2) wf(1) Less wf(3)] cmp_refl [OF Cons.prems(2)]
      by (force simp: e)
    with Less show ?thesis by (force simp: e)
  next
    case Equal
    then have "k = k'" using cmp_Equal_iff Cons.prems(2) wf(1) by blast
    moreover have "k' \<notin> fst ` set m" using wf(3) cmp_refl [OF wf(1)] by force
    ultimately show ?thesis using Equal by (force simp: e)
  next
    case Greater
    then have "k \<noteq> k'" using cmp_refl [OF Cons.prems(2)] by force
    then have "{x \<in> set (e # m). fst x \<noteq> k} = insert e {x \<in> set m. fst x \<noteq> k}"
      by (auto simp: e)
    with Greater Cons.IH [OF wf(2) Cons.prems(2)] show ?thesis by (simp add: e insert_commute)
  qed
qed simp

lemma set_fst_insert: "bt_wf cmp valid m \<Longrightarrow> valid k \<Longrightarrow>
    fst ` set (bt_insert cmp k v m) = insert k (fst ` set m)"
  by (force simp: set_insert)

lemma wf_insert: "bt_wf cmp valid m \<Longrightarrow> valid k \<Longrightarrow> bt_wf cmp valid (bt_insert cmp k v m)"
proof (induction m)
  case Nil
  then show ?case by (simp add: bt_wf_def)
next
  case (Cons e m)
  obtain k' v' where e: "e = (k', v')" by force
  have wf: "valid k'" "bt_wf cmp valid m" "\<forall>x \<in> fst ` set m. cmp k' x = Less"
    using Cons.prems by (auto simp: e bt_wf_Cons)
  show ?case
  proof (cases "cmp k k'")
    case Less
    then have "\<forall>x \<in> fst ` set m. cmp k x = Less"
      using less_all_trans [OF wf(2) Cons.prems(2) wf(1) Less wf(3)] by blast
    with Less Cons.prems show ?thesis by (simp add: e bt_wf_Cons)
  next
    case Equal
    with wf show ?thesis by (simp add: e bt_wf_Cons)
  next
    case Greater
    then have "cmp k' k = Less" using cmp_Greater_iff Cons.prems(2) wf(1) by blast
    moreover have "bt_wf cmp valid (bt_insert cmp k v m)"
      using Cons.IH Cons.prems(2) wf(2) by blast
    ultimately show ?thesis
      using Greater wf set_fst_insert [OF wf(2) Cons.prems(2), of v]
      by (simp only: e bt_wf_Cons bt_insert.simps Ordering.case) auto
  qed
qed

lemma set_remove:
  "bt_wf cmp valid m \<Longrightarrow> valid k \<Longrightarrow>
     set (bt_remove cmp k m) = {e \<in> set m. fst e \<noteq> k}"
proof (induction m)
  case (Cons e m)
  obtain k' v' where e: "e = (k', v')" by force
  have wf: "valid k'" "bt_wf cmp valid m" "\<forall>x \<in> fst ` set m. cmp k' x = Less"
    using Cons.prems by (auto simp: e bt_wf_Cons)
  show ?case
  proof (cases "cmp k k'")
    case Less
    then have "k \<notin> fst ` set (e # m)"
      using less_all_trans [OF wf(2) Cons.prems(2) wf(1) Less wf(3)] cmp_refl [OF Cons.prems(2)]
      by (force simp: e)
    with Less show ?thesis by (force simp: e)
  next
    case Equal
    then have "k = k'" using cmp_Equal_iff Cons.prems(2) wf(1) by blast
    moreover have "k' \<notin> fst ` set m" using wf(3) cmp_refl [OF wf(1)] by force
    ultimately show ?thesis using Equal by (force simp: e)
  next
    case Greater
    then have "k \<noteq> k'" using cmp_refl [OF Cons.prems(2)] by force
    then have "{x \<in> set (e # m). fst x \<noteq> k} = insert e {x \<in> set m. fst x \<noteq> k}"
      by (auto simp: e)
    with Greater Cons.IH [OF wf(2) Cons.prems(2)] show ?thesis by (simp add: e)
  qed
qed simp

lemma wf_remove: "bt_wf cmp valid m \<Longrightarrow> bt_wf cmp valid (bt_remove cmp k m)"
proof (induction m)
  case Nil
  then show ?case by simp
next
  case (Cons e m)
  obtain k' v' where e: "e = (k', v')" by force
  have wf: "valid k'" "bt_wf cmp valid m" "\<forall>x \<in> fst ` set m. cmp k' x = Less"
    using Cons.prems by (auto simp: e bt_wf_Cons)
  have "fst ` set (bt_remove cmp k m) \<subseteq> fst ` set m"
    using bt_remove_subset by (rule image_mono)
  then have "\<forall>x \<in> fst ` set (bt_remove cmp k m). cmp k' x = Less"
    using wf(3) by blast
  then have "bt_wf cmp valid ((k', v') # bt_remove cmp k m)"
    using Cons.IH wf(1,2) unfolding bt_wf_Cons by blast
  then show ?case using Cons.prems wf(2) by (cases "cmp k k'") (simp_all add: e)
qed

text \<open>What a lookup returns after an insertion and after a removal.\<close>

lemma get_insert:
  assumes "bt_wf cmp valid m" "valid k" "valid j"
  shows "bt_get cmp j (bt_insert cmp k v m) = (if j = k then Some v else bt_get cmp j m)"
  by (rule option_ext)
    (use assms in \<open>auto simp: get_Some_iff wf_insert set_insert\<close>)

lemma get_remove:
  assumes "bt_wf cmp valid m" "valid k" "valid j"
  shows "bt_get cmp j (bt_remove cmp k m) = (if j = k then None else bt_get cmp j m)"
  by (rule option_ext)
    (use assms in \<open>auto simp: get_Some_iff wf_remove set_remove\<close>)

lemma insert_snoc:
  assumes "bt_wf cmp valid m" "valid k" "\<forall>k' \<in> fst ` set m. cmp k' k = Less"
  shows "bt_insert cmp k v m = m @ [(k, v)]"
  using assms
proof (induction m)
  case (Cons e m)
  obtain k' v' where e: "e = (k', v')" by force
  have "valid k'" "cmp k' k = Less" using Cons.prems by (auto simp: e bt_wf_Cons)
  then have "cmp k k' = Greater" using cmp_Greater_iff Cons.prems by blast
  with Cons show ?case by (auto simp: e bt_wf_Cons)
qed simp

text \<open>Collecting entries whose keys already increase gives the list itself.\<close>

lemma collect_sorted:
  "bt_wf cmp valid (m @ kvs) \<Longrightarrow> bt_collect cmp m kvs = m @ kvs"
proof (induction kvs arbitrary: m)
  case Nil
  then show ?case by simp
next
  case (Cons e kvs)
  obtain k v where e: "e = (k, v)" by force
  have "bt_wf cmp valid m" "valid k" "\<forall>k' \<in> fst ` set m. cmp k' k = Less"
    using Cons.prems by (auto simp: e bt_wf_def sorted_wrt_append)
  then have "bt_insert cmp k v m = m @ [(k, v)]" by (rule insert_snoc)
  with Cons show ?case by (simp add: e)
qed

lemma wf_collect:
  "bt_wf cmp valid m \<Longrightarrow> list_all valid (map fst kvs) \<Longrightarrow> bt_wf cmp valid (bt_collect cmp m kvs)"
  by (induction kvs arbitrary: m) (auto simp: wf_insert)

lemma remove_first:
  assumes "bt_wf cmp valid ((k, v) # m)"
  shows "bt_remove cmp k ((k, v) # m) = m"
  using assms by (simp add: bt_wf_Cons cmp_refl)

lemma remove_last:
  assumes "bt_wf cmp valid (m @ [(k, v)])"
  shows "bt_remove cmp k (m @ [(k, v)]) = m"
  using assms
proof (induction m)
  case Nil
  then show ?case by (simp add: bt_wf_Cons cmp_refl)
next
  case (Cons e m)
  obtain k' v' where e: "e = (k', v')" by force
  have "valid k'" "valid k" "cmp k' k = Less" using Cons.prems by (auto simp: e bt_wf_def)
  then have "cmp k k' = Greater" using cmp_Greater_iff by blast
  with Cons show ?case by (simp add: e bt_wf_Cons)
qed

end

text \<open>The key types HOL orders linearly satisfy the contract on all their values.\<close>

interpretation lin: rust_ord "cmp_of :: 'a::linorder \<Rightarrow> 'a \<Rightarrow> Ordering" "\<lambda>_. True"
  by unfold_locales (auto simp: reverse_cmp_of)

text \<open>Tuples and slices inherit the contract from their components.\<close>

lemma rust_ord_pair:
  assumes "rust_ord c v" "rust_ord d w"
  shows "rust_ord (pair_cmp c d) (\<lambda>p. v (fst p) \<and> w (snd p))"
proof -
  have c1: "v a \<Longrightarrow> v b \<Longrightarrow> c a b = Equal \<longleftrightarrow> a = b" for a b
    using assms(1) by (rule rust_ord.cmp_Equal_iff)
  have d1: "w a \<Longrightarrow> w b \<Longrightarrow> d a b = Equal \<longleftrightarrow> a = b" for a b
    using assms(2) by (rule rust_ord.cmp_Equal_iff)
  have c2: "v a \<Longrightarrow> v b \<Longrightarrow> c b a = reverse_ordering (c a b)" for a b
    using assms(1) by (rule rust_ord.cmp_reverse)
  have d2: "w a \<Longrightarrow> w b \<Longrightarrow> d b a = reverse_ordering (d a b)" for a b
    using assms(2) by (rule rust_ord.cmp_reverse)
  have c3: "v a \<Longrightarrow> v b \<Longrightarrow> v e \<Longrightarrow> c a b = Less \<Longrightarrow> c b e = Less \<Longrightarrow> c a e = Less" for a b e
    using assms(1) by (rule rust_ord.cmp_Less_trans)
  have d3: "w a \<Longrightarrow> w b \<Longrightarrow> w e \<Longrightarrow> d a b = Less \<Longrightarrow> d b e = Less \<Longrightarrow> d a e = Less" for a b e
    using assms(2) by (rule rust_ord.cmp_Less_trans)
  show ?thesis
  proof
    fix a b assume "v (fst a) \<and> w (snd a)" "v (fst b) \<and> w (snd b)"
    then show "pair_cmp c d a b = Equal \<longleftrightarrow> a = b"
      by (auto simp: pair_cmp_def then_ordering_eq_iff c1 d1 prod_eq_iff)
    from \<open>v (fst a) \<and> w (snd a)\<close> \<open>v (fst b) \<and> w (snd b)\<close>
    show "pair_cmp c d b a = reverse_ordering (pair_cmp c d a b)"
      using c2 [of "fst a" "fst b"] d2 [of "snd a" "snd b"]
      by (simp add: pair_cmp_def reverse_then_ordering)
  next
    fix a b e
    assume "v (fst a) \<and> w (snd a)" "v (fst b) \<and> w (snd b)" "v (fst e) \<and> w (snd e)"
      and "pair_cmp c d a b = Less" "pair_cmp c d b e = Less"
    then show "pair_cmp c d a e = Less"
      unfolding pair_cmp_def then_ordering_eq_iff
      by (metis c1 c3 d3)
  qed
qed

lemma rust_ord_list:
  assumes "rust_ord c v"
  shows "rust_ord (list_cmp c) (list_all v)"
proof -
  have c1: "v a \<Longrightarrow> v b \<Longrightarrow> c a b = Equal \<longleftrightarrow> a = b" for a b
    using assms(1) by (rule rust_ord.cmp_Equal_iff)
  have c2: "v a \<Longrightarrow> v b \<Longrightarrow> c b a = reverse_ordering (c a b)" for a b
    using assms(1) by (rule rust_ord.cmp_reverse)
  have c3: "v a \<Longrightarrow> v b \<Longrightarrow> v e \<Longrightarrow> c a b = Less \<Longrightarrow> c b e = Less \<Longrightarrow> c a e = Less" for a b e
    using assms(1) by (rule rust_ord.cmp_Less_trans)
  show ?thesis
  proof
    fix a b :: "'a list"
    show "list_all v a \<Longrightarrow> list_all v b \<Longrightarrow> list_cmp c a b = Equal \<longleftrightarrow> a = b"
    proof (induction a arbitrary: b)
      case Nil
      then show ?case by (cases b) simp_all
    next
      case (Cons x xs)
      then show ?case by (cases b) (auto simp: then_ordering_eq_iff c1)
    qed
  next
    fix a b :: "'a list"
    show "list_all v a \<Longrightarrow> list_all v b \<Longrightarrow>
        list_cmp c b a = reverse_ordering (list_cmp c a b)"
    proof (induction a arbitrary: b)
      case Nil
      then show ?case by (cases b) simp_all
    next
      case (Cons x xs)
      then show ?case
        using c2 [of x] by (cases b) (simp_all add: reverse_then_ordering)
    qed
  next
    fix a b e :: "'a list"
    show "list_all v a \<Longrightarrow> list_all v b \<Longrightarrow> list_all v e \<Longrightarrow>
        list_cmp c a b = Less \<Longrightarrow> list_cmp c b e = Less \<Longrightarrow> list_cmp c a e = Less"
    proof (induction a arbitrary: b e)
      case Nil
      then show ?case by (cases b; cases e) simp_all
    next
      case (Cons x xs)
      obtain y ys where b: "b = y # ys" using Cons.prems by (cases b) auto
      obtain z zs where e: "e = z # zs" using Cons.prems b by (cases e) auto
      have vs: "v x" "v y" "v z" "list_all v xs" "list_all v ys" "list_all v zs"
        using Cons.prems by (auto simp: b e)
      have "c x y = Less \<or> x = y \<and> list_cmp c xs ys = Less"
        "c y z = Less \<or> y = z \<and> list_cmp c ys zs = Less"
        using Cons.prems vs by (auto simp: b e then_ordering_eq_iff c1)
      then have "c x z = Less \<or> x = z \<and> list_cmp c xs zs = Less"
        using vs c3 Cons.IH [of ys zs] by blast
      then show ?case using vs by (auto simp: e then_ordering_eq_iff c1)
    qed
  qed
qed

text \<open>Strings are keys of the maps of order identifiers.\<close>

lemma rust_ord_char: "rust_ord char_cmp (\<lambda>_. True)"
  by unfold_locales (auto simp: char_cmp_def reverse_cmp_of of_char_eq_iff)

interpretation str: rust_ord str_cmp "list_all (\<lambda>_. True)"
  unfolding str_cmp_def by (rule rust_ord_list [OF rust_ord_char])

end
