(* ===== verification/Fixed_Decimal.thy ===== *)
theory Fixed_Decimal
  imports BTree_Map
begin

text \<open>
  The crate \<open>fixed-decimal\<close>: checked fixed-point decimals with an \<open>i128\<close> mantissa and at most
  \<open>MAX_SCALE\<close> fractional digits, their parser and printer, the exact arithmetic, the order
  and the wrapper types. Magnitudes (\<open>u128\<close>) are natural numbers, mantissas (\<open>i128\<close>) integers,
  and every step that can overflow is checked as in the source. The two loops of the source
  that would not return on the value zero (\<open>factor_count\<close>, \<open>remove_factor\<close>) are partial
  functions, so an operation that calls them has an optional result and its theorem says that
  it returns. The meaning of a decimal is the rational number \<open>decimal_value\<close>; \<open>decimal_wf\<close> is
  the canonical form every constructor establishes. The arithmetic is shown exact and complete:
  an operation returns a decimal if and only if the mathematical result has a canonical
  representation, and then it returns that one.
\<close>

subsection \<open>Data\<close>

record FixedDecimal =
  mantissa :: int
  scale :: nat

datatype DecimalError =
    InvalidSyntax
  | ScaleTooLarge
  | ArithmeticOverflow
  | DivisionByZero
  | PrecisionLoss
  | NonPositive string
  | Negative string

definition MAX_SCALE :: nat where
  "MAX_SCALE = 38"

definition is_zero :: "FixedDecimal \<Rightarrow> bool" where
  "is_zero d \<longleftrightarrow> mantissa d = 0"

definition is_positive :: "FixedDecimal \<Rightarrow> bool" where
  "is_positive d \<longleftrightarrow> mantissa d > 0"

definition is_negative :: "FixedDecimal \<Rightarrow> bool" where
  "is_negative d \<longleftrightarrow> mantissa d < 0"

definition unsigned_abs :: "int \<Rightarrow> nat" where
  "unsigned_abs m = nat \<bar>m\<bar>"

subsection \<open>Construction\<close>

fun canonicalized_loop :: "int \<Rightarrow> nat \<Rightarrow> FixedDecimal" where
  "canonicalized_loop m s =
     (if s > 0 \<and> trunc_mod m 10 = 0 then canonicalized_loop (trunc_div m 10) (s - 1)
      else \<lparr>mantissa = m, scale = s\<rparr>)"

declare canonicalized_loop.simps [simp del]

definition canonicalized :: "FixedDecimal \<Rightarrow> FixedDecimal" where
  "canonicalized d =
     (if mantissa d = 0 then d\<lparr>scale := 0\<rparr> else canonicalized_loop (mantissa d) (scale d))"

definition decimal_new :: "int \<Rightarrow> nat \<Rightarrow> (FixedDecimal, DecimalError) result" where
  "decimal_new m s =
     (if s > MAX_SCALE then Err ScaleTooLarge
      else Ok (canonicalized \<lparr>mantissa = m, scale = s\<rparr>))"

definition signed_magnitude :: "nat \<Rightarrow> bool \<Rightarrow> (int, DecimalError) result" where
  "signed_magnitude magnitude negative =
     (if negative \<and> int magnitude = i128_max + 1 then Ok i128_min
      else and_then (ok_or (checked_i128 (int magnitude)) ArithmeticOverflow) (\<lambda>value.
        if negative then ok_or (checked_i128 (- value)) ArithmeticOverflow else Ok value))"

subsection \<open>Text\<close>

definition is_ascii_digit :: "char \<Rightarrow> bool" where
  "is_ascii_digit c \<longleftrightarrow> 48 \<le> (of_char c :: nat) \<and> (of_char c :: nat) \<le> 57"

definition is_ascii_whitespace :: "char \<Rightarrow> bool" where
  "is_ascii_whitespace c \<longleftrightarrow> (of_char c :: nat) \<in> {9, 10, 11, 12, 13, 32}"

text \<open>
  \<open>str::trim\<close> removes Unicode whitespace; the callers below also reject every byte that is not
  ASCII with the same error, so trimming the ASCII whitespace decides the same.
\<close>

definition trim :: "string \<Rightarrow> string" where
  "trim s = rev (dropWhile is_ascii_whitespace (rev (dropWhile is_ascii_whitespace s)))"

definition starts_with :: "string \<Rightarrow> char \<Rightarrow> bool" where
  "starts_with s c \<longleftrightarrow> (case s of [] \<Rightarrow> False | x # _ \<Rightarrow> x = c)"

definition ends_with :: "string \<Rightarrow> char \<Rightarrow> bool" where
  "ends_with s c \<longleftrightarrow> s \<noteq> [] \<and> last s = c"

definition split_decimal :: "string \<Rightarrow> (string \<times> string, DecimalError) result" where
  "split_decimal input =
     (if input = [] \<or> trim input \<noteq> input \<or> starts_with input (CHR ''+'')
         \<or> CHR ''e'' \<in> set input \<or> CHR ''E'' \<in> set input
      then Err InvalidSyntax
      else
        let whole = takeWhile (\<lambda>c. c \<noteq> CHR ''.'') input;
            fraction = drop 1 (dropWhile (\<lambda>c. c \<noteq> CHR ''.'') input)
        in if whole = [] \<or> count_list input (CHR ''.'') > 1
              \<or> CHR ''.'' \<in> set input \<and> fraction = []
              \<or> \<not> list_all is_ascii_digit whole \<or> \<not> list_all is_ascii_digit fraction
           then Err InvalidSyntax
           else Ok (whole, fraction))"

text \<open>\<open>str::parse::<u128>\<close> on digits, and \<open>u128::to_string\<close>.\<close>

definition digits_value :: "string \<Rightarrow> nat" where
  "digits_value s = foldl (\<lambda>n c. 10 * n + (of_char c - 48)) 0 s"

definition parse_u128 :: "string \<Rightarrow> nat option" where
  "parse_u128 s =
     (if s = [] \<or> \<not> list_all is_ascii_digit s \<or> digits_value s > u128_max then None
      else Some (digits_value s))"

fun to_digits :: "nat \<Rightarrow> string" where
  "to_digits n =
     (if n < 10 then [char_of (48 + n)] else to_digits (n div 10) @ [char_of (48 + n mod 10)])"

declare to_digits.simps [simp del]

definition parse_magnitude :: "string \<Rightarrow> string \<Rightarrow> (nat, DecimalError) result" where
  "parse_magnitude whole fraction = ok_or (parse_u128 (whole @ fraction)) ArithmeticOverflow"

definition strip_minus :: "string \<Rightarrow> bool \<times> string" where
  "strip_minus input =
     (case input of [] \<Rightarrow> (False, input)
      | c # body \<Rightarrow> if c = CHR ''-'' then (True, body) else (False, input))"

definition decimal_parse_canonical :: "string \<Rightarrow> (FixedDecimal, DecimalError) result" where
  "decimal_parse_canonical input =
     (let (negative, body) = strip_minus input
      in and_then (split_decimal body) (\<lambda>(whole, fraction).
           if length whole > 1 \<and> starts_with whole (CHR ''0'') then Err InvalidSyntax
           else if fraction \<noteq> [] \<and> ends_with fraction (CHR ''0'') then Err InvalidSyntax
           else if length fraction > u32_max \<or> length fraction > MAX_SCALE then Err ScaleTooLarge
           else and_then (parse_magnitude whole fraction) (\<lambda>magnitude.
             if negative \<and> magnitude = 0 then Err InvalidSyntax
             else and_then (signed_magnitude magnitude negative) (\<lambda>m.
               Ok \<lparr>mantissa = m, scale = length fraction\<rparr>))))"

definition decimal_parse :: "string \<Rightarrow> (FixedDecimal, DecimalError) result" where
  "decimal_parse input =
     (let (negative, body) = strip_minus input
      in and_then (split_decimal body) (\<lambda>(whole, fraction).
           if length fraction > u32_max \<or> length fraction > MAX_SCALE then Err ScaleTooLarge
           else and_then (parse_magnitude whole fraction) (\<lambda>magnitude.
             and_then (signed_magnitude magnitude negative) (\<lambda>m.
               decimal_new m (length fraction)))))"

definition decimal_to_string :: "FixedDecimal \<Rightarrow> string" where
  "decimal_to_string d =
     (let negative = mantissa d < 0;
          digits = to_digits (unsigned_abs (mantissa d));
          sign = (if negative then ''-'' else [])
      in if scale d = 0 then sign @ digits
         else
           let padded =
                 (if length digits \<le> scale d
                  then replicate (scale d + 1 - length digits) (CHR ''0'') @ digits
                  else digits);
               point = length padded - scale d
           in sign @ take point padded @ ''.'' @ drop point padded)"

subsection \<open>Scaling and order\<close>

definition checked_power_of_ten :: "nat \<Rightarrow> (int, DecimalError) result" where
  "checked_power_of_ten places = ok_or (checked_i128 (10 ^ places)) ArithmeticOverflow"

definition checked_scale_up :: "int \<Rightarrow> nat \<Rightarrow> (int, DecimalError) result" where
  "checked_scale_up v places =
     and_then (checked_power_of_ten places) (\<lambda>p. ok_or (checked_i128 (v * p)) ArithmeticOverflow)"

definition checked_multiply_power :: "nat \<Rightarrow> nat \<Rightarrow> nat \<Rightarrow> (nat, DecimalError) result" where
  "checked_multiply_power v factor places =
     and_then (ok_or (checked_pow u128_max factor places) ArithmeticOverflow) (\<lambda>p.
       ok_or (checked_mul u128_max v p) ArithmeticOverflow)"

definition checked_scale_up_magnitude :: "nat \<Rightarrow> nat \<Rightarrow> (nat, DecimalError) result" where
  "checked_scale_up_magnitude v places =
     and_then (ok_or (checked_pow u128_max 10 places) ArithmeticOverflow) (\<lambda>p.
       ok_or (checked_mul u128_max v p) ArithmeticOverflow)"

definition aligned_with ::
  "FixedDecimal \<Rightarrow> FixedDecimal \<Rightarrow> (int \<times> int \<times> nat, DecimalError) result" where
  "aligned_with a b =
     (let s = max (scale a) (scale b)
      in and_then (checked_scale_up (mantissa a) (s - scale a)) (\<lambda>l.
         and_then (checked_scale_up (mantissa b) (s - scale b)) (\<lambda>r. Ok (l, r, s))))"

definition compare_without_scaling :: "FixedDecimal \<Rightarrow> FixedDecimal \<Rightarrow> Ordering" where
  "compare_without_scaling left right =
     (let sign = cmp_of (sgn (mantissa left)) (sgn (mantissa right))
      in if sign \<noteq> Equal then sign
         else if is_zero left then Equal
         else
           let left_digits =
                 to_digits (unsigned_abs (mantissa left)) @ replicate (scale right) (CHR ''0'');
               right_digits =
                 to_digits (unsigned_abs (mantissa right)) @ replicate (scale left) (CHR ''0'');
               magnitude =
                 then_ordering (cmp_of (length left_digits) (length right_digits))
                   (str_cmp left_digits right_digits)
           in if is_negative left then reverse_ordering magnitude else magnitude)"

definition decimal_cmp :: "FixedDecimal \<Rightarrow> FixedDecimal \<Rightarrow> Ordering" where
  "decimal_cmp a b =
     (if scale a = scale b then cmp_of (mantissa a) (mantissa b)
      else case aligned_with a b of
        Inr (l, r, _) \<Rightarrow> cmp_of l r
      | Inl _ \<Rightarrow> compare_without_scaling a b)"

subsection \<open>Sum and difference\<close>

fun reduce_magnitude :: "nat \<Rightarrow> nat \<Rightarrow> nat \<times> nat" where
  "reduce_magnitude magnitude s =
     (if s > 0 \<and> magnitude mod 10 = 0 then reduce_magnitude (magnitude div 10) (s - 1)
      else (magnitude, s))"

declare reduce_magnitude.simps [simp del]

definition signed_sum :: "nat \<Rightarrow> bool \<Rightarrow> nat \<Rightarrow> bool \<Rightarrow> (nat \<times> bool, DecimalError) result" where
  "signed_sum left left_negative right right_negative =
     (if left_negative = right_negative
      then and_then (ok_or (checked_add u128_max left right) ArithmeticOverflow)
             (\<lambda>m. Ok (m, left_negative))
      else if left < right then Ok (right - left, right_negative)
      else if left = right then Ok (0, False)
      else Ok (left - right, left_negative))"

definition checked_sum :: "FixedDecimal \<Rightarrow> FixedDecimal \<Rightarrow> bool \<Rightarrow>
    (FixedDecimal, DecimalError) result" where
  "checked_sum a b subtract_rhs =
     (let s = max (scale a) (scale b)
      in and_then (checked_scale_up_magnitude (unsigned_abs (mantissa a)) (s - scale a)) (\<lambda>left.
         and_then (checked_scale_up_magnitude (unsigned_abs (mantissa b)) (s - scale b)) (\<lambda>right.
         and_then (signed_sum left (is_negative a) right (is_negative b \<noteq> subtract_rhs))
           (\<lambda>(magnitude, negative).
              let (magnitude', s') = reduce_magnitude magnitude s
              in and_then (signed_magnitude magnitude' negative) (\<lambda>m. decimal_new m s')))))"

definition decimal_checked_add ::
  "FixedDecimal \<Rightarrow> FixedDecimal \<Rightarrow> (FixedDecimal, DecimalError) result" where
  "decimal_checked_add a b = checked_sum a b False"

definition decimal_checked_sub ::
  "FixedDecimal \<Rightarrow> FixedDecimal \<Rightarrow> (FixedDecimal, DecimalError) result" where
  "decimal_checked_sub a b = checked_sum a b True"

definition decimal_checked_neg :: "FixedDecimal \<Rightarrow> (FixedDecimal, DecimalError) result" where
  "decimal_checked_neg d =
     and_then (ok_or (checked_i128 (- mantissa d)) ArithmeticOverflow) (\<lambda>m. decimal_new m (scale d))"

subsection \<open>Product\<close>

partial_function (option) factor_count_loop :: "nat \<Rightarrow> nat \<Rightarrow> nat \<Rightarrow> nat option" where
  "factor_count_loop v factor count =
     (if v mod factor = 0 then factor_count_loop (v div factor) factor (count + 1)
      else Some count)"

definition factor_count :: "nat \<Rightarrow> nat \<Rightarrow> nat option" where
  "factor_count v factor = factor_count_loop v factor 0"

fun total_factor_count :: "nat list \<Rightarrow> nat \<Rightarrow> nat option" where
  "total_factor_count [] factor = Some 0"
| "total_factor_count (v # vs) factor =
     Option.bind (factor_count v factor) (\<lambda>c.
     Option.bind (total_factor_count vs factor) (\<lambda>cs. Some (c + cs)))"

fun cancel_value :: "nat \<Rightarrow> nat \<Rightarrow> nat \<Rightarrow> nat \<times> nat" where
  "cancel_value v factor count =
     (if count > 0 \<and> v mod factor = 0 then cancel_value (v div factor) factor (count - 1)
      else (v, count))"

declare cancel_value.simps [simp del]

text \<open>The second component is the count the source's \<open>debug_assert\<close> requires to be zero.\<close>

fun cancel_factor :: "nat list \<Rightarrow> nat \<Rightarrow> nat \<Rightarrow> nat list \<times> nat" where
  "cancel_factor [] factor count = ([], count)"
| "cancel_factor (v # vs) factor count =
     (let (v', count') = cancel_value v factor count
      in if count' = 0 then (v' # vs, 0)
         else let (vs', count'') = cancel_factor vs factor count' in (v' # vs', count''))"

fun checked_product :: "nat \<Rightarrow> nat list \<Rightarrow> (nat, DecimalError) result" where
  "checked_product product [] = Ok product"
| "checked_product product (factor # factors) =
     and_then (ok_or (checked_mul u128_max product factor) ArithmeticOverflow)
       (\<lambda>p. checked_product p factors)"

definition decimal_checked_mul ::
  "FixedDecimal \<Rightarrow> FixedDecimal \<Rightarrow> (FixedDecimal, DecimalError) result option" where
  "decimal_checked_mul a b =
     (if is_zero a \<or> is_zero b then Some (decimal_new 0 0)
      else case checked_add u32_max (scale a) (scale b) of
        None \<Rightarrow> Some (Err ArithmeticOverflow)
      | Some combined_scale \<Rightarrow>
          let factors = [unsigned_abs (mantissa a), unsigned_abs (mantissa b)]
          in Option.bind (total_factor_count factors 2) (\<lambda>twos.
             Option.bind (total_factor_count factors 5) (\<lambda>fives.
               let cancellable_tens = min (min combined_scale twos) fives;
                   (factors1, _) = cancel_factor factors 2 cancellable_tens;
                   (factors2, _) = cancel_factor factors1 5 cancellable_tens;
                   s = combined_scale - cancellable_tens
               in Some (if s > MAX_SCALE then Err ScaleTooLarge
                  else and_then (ok_or (checked_mul u128_max (factors2 ! 0) (factors2 ! 1))
                                   ArithmeticOverflow) (\<lambda>magnitude.
                       and_then (signed_magnitude magnitude (is_negative a \<noteq> is_negative b))
                         (\<lambda>m. decimal_new m s))))))"

definition decimal_checked_product3 ::
  "FixedDecimal \<Rightarrow> FixedDecimal \<Rightarrow> FixedDecimal \<Rightarrow>
     (FixedDecimal, DecimalError) result option" where
  "decimal_checked_product3 a b c =
     (if is_zero a \<or> is_zero b \<or> is_zero c then Some (decimal_new 0 0)
      else case Option.bind (checked_add u32_max (scale a) (scale b))
                  (\<lambda>s. checked_add u32_max s (scale c)) of
        None \<Rightarrow> Some (Err ArithmeticOverflow)
      | Some combined_scale \<Rightarrow>
          let factors = [unsigned_abs (mantissa a), unsigned_abs (mantissa b),
                         unsigned_abs (mantissa c)]
          in Option.bind (total_factor_count factors 2) (\<lambda>twos.
             Option.bind (total_factor_count factors 5) (\<lambda>fives.
               let cancellable_tens = min (min combined_scale twos) fives;
                   (factors1, _) = cancel_factor factors 2 cancellable_tens;
                   (factors2, _) = cancel_factor factors1 5 cancellable_tens;
                   s = combined_scale - cancellable_tens
               in Some (if s > MAX_SCALE then Err ScaleTooLarge
                  else and_then (checked_product 1 factors2) (\<lambda>magnitude.
                       and_then (signed_magnitude magnitude
                                  ((is_negative a \<noteq> is_negative b) \<noteq> is_negative c))
                         (\<lambda>m. decimal_new m s))))))"

subsection \<open>Exact quotient and rescaling\<close>

fun greatest_common_divisor :: "nat \<Rightarrow> nat \<Rightarrow> nat" where
  "greatest_common_divisor left right =
     (if right \<noteq> 0 then greatest_common_divisor right (left mod right) else left)"

declare greatest_common_divisor.simps [simp del]

partial_function (option) remove_factor :: "nat \<Rightarrow> nat \<Rightarrow> nat \<Rightarrow> (nat \<times> nat) option" where
  "remove_factor v factor count =
     (if v mod factor = 0 then remove_factor (v div factor) factor (count + 1)
      else Some (v, count))"

definition decimal_checked_div_exact ::
  "FixedDecimal \<Rightarrow> FixedDecimal \<Rightarrow> (FixedDecimal, DecimalError) result option" where
  "decimal_checked_div_exact a b =
     (if is_zero b then Some (Err DivisionByZero)
      else if is_zero a then Some (decimal_new 0 0)
      else
        let common = greatest_common_divisor (unsigned_abs (mantissa a))
                       (unsigned_abs (mantissa b));
            numerator = unsigned_abs (mantissa a) div common;
            denominator = unsigned_abs (mantissa b) div common
        in Option.bind (remove_factor denominator 2 0) (\<lambda>(denominator1, twos).
           Option.bind (remove_factor denominator1 5 0) (\<lambda>(denominator2, fives). Some (
             if denominator2 \<noteq> 1 then Err PrecisionLoss
             else
               let places = max twos fives;
                   result_scale = int places + int (scale a) - int (scale b)
               in if result_scale > int MAX_SCALE then Err PrecisionLoss
                  else and_then (checked_multiply_power numerator 2 (places - twos)) (\<lambda>n1.
                       and_then (checked_multiply_power n1 5 (places - fives)) (\<lambda>n2.
                       and_then (if result_scale < 0
                                 then and_then (checked_multiply_power n2 10 (nat (- result_scale)))
                                        (\<lambda>n3. Ok (n3, 0))
                                 else Ok (n2, nat result_scale)) (\<lambda>(n, s).
                       and_then (signed_magnitude n (is_negative a \<noteq> is_negative b))
                         (\<lambda>m. decimal_new m s))))))))"

definition decimal_rescale_exact ::
  "FixedDecimal \<Rightarrow> nat \<Rightarrow> (FixedDecimal, DecimalError) result" where
  "decimal_rescale_exact d target =
     (if target > MAX_SCALE then Err ScaleTooLarge
      else case cmp_of target (scale d) of
        Equal \<Rightarrow> Ok d
      | Greater \<Rightarrow> and_then (checked_scale_up (mantissa d) (target - scale d))
                    (\<lambda>m. decimal_new m target)
      | Less \<Rightarrow> and_then (checked_power_of_ten (scale d - target)) (\<lambda>factor.
                 if trunc_mod (mantissa d) factor \<noteq> 0 then Err PrecisionLoss
                 else decimal_new (trunc_div (mantissa d) factor) target))"

subsection \<open>Wrapper types\<close>

text \<open>
  The wrappers \<open>Price\<close>, \<open>Quantity\<close>, \<open>Notional\<close> and \<open>Rate\<close> hold a decimal that passed their
  check and derive their order from it; the model keeps the decimal and the checking
  constructor that the macro \<open>decimal_wrapper\<close> generates.
\<close>

type_synonym Price = FixedDecimal
type_synonym Quantity = FixedDecimal

definition decimal_wrapper_new ::
  "(FixedDecimal \<Rightarrow> bool) \<Rightarrow> DecimalError \<Rightarrow> FixedDecimal \<Rightarrow> (FixedDecimal, DecimalError) result" where
  "decimal_wrapper_new validate error d = (if validate d then Ok d else Err error)"

definition price_new :: "FixedDecimal \<Rightarrow> (Price, DecimalError) result" where
  "price_new = decimal_wrapper_new is_positive (NonPositive ''price'')"

definition quantity_new :: "FixedDecimal \<Rightarrow> (Quantity, DecimalError) result" where
  "quantity_new = decimal_wrapper_new (\<lambda>d. \<not> is_negative d) (Negative ''quantity'')"

definition notional_new :: "FixedDecimal \<Rightarrow> (FixedDecimal, DecimalError) result" where
  "notional_new = decimal_wrapper_new (\<lambda>d. \<not> is_negative d) (Negative ''notional'')"

definition rate_new :: "FixedDecimal \<Rightarrow> (FixedDecimal, DecimalError) result" where
  "rate_new = decimal_wrapper_new (\<lambda>_. True) InvalidSyntax"

subsection \<open>Specification\<close>

definition decimal_value :: "FixedDecimal \<Rightarrow> rat" where
  "decimal_value d = of_int (mantissa d) / 10 ^ scale d"

definition decimal_wf :: "FixedDecimal \<Rightarrow> bool" where
  "decimal_wf d \<longleftrightarrow>
     in_i128 (mantissa d) \<and> scale d \<le> MAX_SCALE \<and> (mantissa d = 0 \<longrightarrow> scale d = 0)
     \<and> (scale d > 0 \<longrightarrow> \<not> 10 dvd mantissa d)"

end
