(* ===== verification/Decimal_Canonical.thy ===== *)
theory Decimal_Canonical
  imports Fixed_Decimal
begin

text \<open>
  The canonical form of decimals: the constructor establishes it, a canonical decimal is
  determined by its value, and the order \<open>decimal_cmp\<close> is the order of the values. These
  facts discharge the \<open>Ord\<close> contract of \<open>BTree_Map\<close> for prices.
\<close>

named_theorems decimal_simps

subsection \<open>Arithmetic helpers\<close>

lemma numeral_bounds [machine_simps]:
  "in_i128 x \<longleftrightarrow> - 170141183460469231731687303715884105728 \<le> x
                 \<and> x \<le> 170141183460469231731687303715884105727"
  "u128_max = 340282366920938463463374607431768211455"
  "u32_max = 4294967295"
  by (simp_all add: in_i128_def i128_min_def i128_max_def u128_max_def u32_max_def)

lemma in_i128_abs: "in_i128 x \<Longrightarrow> \<bar>x\<bar> \<le> 2 ^ 127"
  by (auto simp: in_i128_def i128_min_def i128_max_def)

lemma in_i128_mono: "in_i128 x \<Longrightarrow> \<bar>y\<bar> < \<bar>x\<bar> \<Longrightarrow> in_i128 y"
  by (auto simp: in_i128_def i128_min_def i128_max_def)

lemma not_in_i128: "\<bar>x\<bar> > 2 ^ 127 \<Longrightarrow> \<not> in_i128 x"
  using in_i128_abs by force

lemma pow10_bound: "n \<le> 38 \<Longrightarrow> (10::int) ^ n \<le> 10 ^ 38"
  by (rule power_increasing) auto

lemma unsigned_abs_int [simp]: "int (unsigned_abs m) = \<bar>m\<bar>"
  by (simp add: unsigned_abs_def)

lemma unsigned_abs_0_iff [simp]: "unsigned_abs m = 0 \<longleftrightarrow> m = 0"
  by (simp add: unsigned_abs_def)

lemma unsigned_abs_dvd_iff: "int k dvd m \<longleftrightarrow> k dvd unsigned_abs m"
  by (metis dvd_abs_iff int_dvd_int_iff unsigned_abs_int)

subsection \<open>Reduced pairs\<close>

text \<open>A pair is reduced when no factor ten can be moved from the mantissa into the scale.\<close>

definition reduced :: "int \<Rightarrow> nat \<Rightarrow> bool" where
  "reduced m s \<longleftrightarrow> (m = 0 \<longrightarrow> s = 0) \<and> (s > 0 \<longrightarrow> \<not> 10 dvd m)"

abbreviation ratio :: "int \<Rightarrow> nat \<Rightarrow> rat" where
  "ratio m s \<equiv> of_int m / 10 ^ s"

lemma decimal_wf_iff:
  "decimal_wf d \<longleftrightarrow>
     in_i128 (mantissa d) \<and> scale d \<le> MAX_SCALE \<and> reduced (mantissa d) (scale d)"
  by (auto simp: decimal_wf_def reduced_def)

lemma ratio_eq_iff: "ratio m s = ratio n t \<longleftrightarrow> m * 10 ^ t = n * 10 ^ s"
proof -
  have "ratio m s = ratio n t \<longleftrightarrow> of_int m * 10 ^ t = (of_int n * 10 ^ s :: rat)"
    by (simp add: frac_eq_eq)
  also have "\<dots> \<longleftrightarrow> of_int (m * 10 ^ t) = (of_int (n * 10 ^ s) :: rat)"
    by simp
  also have "\<dots> \<longleftrightarrow> m * 10 ^ t = n * 10 ^ s" by (rule of_int_eq_iff)
  finally show ?thesis .
qed

lemma ratio_less_iff: "ratio m s < ratio n t \<longleftrightarrow> m * 10 ^ t < n * 10 ^ s"
proof -
  have "ratio m s < ratio n t \<longleftrightarrow> of_int m * 10 ^ t < (of_int n * 10 ^ s :: rat)"
    by (simp add: divide_less_eq less_divide_eq mult.commute field_simps)
  also have "\<dots> \<longleftrightarrow> of_int (m * 10 ^ t) < (of_int (n * 10 ^ s) :: rat)"
    by simp
  also have "\<dots> \<longleftrightarrow> m * 10 ^ t < n * 10 ^ s" by (rule of_int_less_iff)
  finally show ?thesis .
qed

lemma reduced_scale_le:
  assumes "reduced m s" and "m * 10 ^ t = n * 10 ^ s"
  shows "s \<le> t"
proof (rule ccontr)
  assume "\<not> s \<le> t"
  then obtain k where s: "s = t + Suc k" by (metis less_iff_Suc_add not_le add_Suc_right)
  then have "m * 10 ^ t = (n * 10 ^ Suc k) * 10 ^ t"
    using assms(2) by (simp add: power_add mult_ac)
  then have "m = n * 10 ^ Suc k" by simp
  then have "10 dvd m" by simp
  with assms(1) s show False by (auto simp: reduced_def)
qed

lemma reduced_unique:
  assumes "reduced m s" "reduced n t" "ratio m s = ratio n t"
  shows "m = n \<and> s = t"
proof -
  have eq: "m * 10 ^ t = n * 10 ^ s" using assms(3) by (simp only: ratio_eq_iff)
  have "s \<le> t" using assms(1) eq by (rule reduced_scale_le)
  moreover have "t \<le> s" using assms(2) eq [symmetric] by (rule reduced_scale_le)
  ultimately have "s = t" by simp
  with eq show ?thesis by simp
qed

text \<open>A canonical decimal is determined by its value.\<close>

lemma decimal_wf_unique:
  assumes "decimal_wf a" "decimal_wf b" "decimal_value a = decimal_value b"
  shows "a = b"
proof -
  have "mantissa a = mantissa b \<and> scale a = scale b"
    using assms by (intro reduced_unique) (auto simp: decimal_wf_iff decimal_value_def)
  then show ?thesis by (cases a; cases b) simp
qed

text \<open>A value given by a reduced pair has at most one canonical representation: the pair.\<close>

lemma reduced_representable:
  assumes "reduced m s"
  shows "decimal_wf d \<and> decimal_value d = ratio m s \<longleftrightarrow>
           d = \<lparr>mantissa = m, scale = s\<rparr> \<and> in_i128 m \<and> s \<le> MAX_SCALE"
proof
  assume d: "decimal_wf d \<and> decimal_value d = ratio m s"
  then have "mantissa d = m \<and> scale d = s"
    using assms by (intro reduced_unique) (auto simp: decimal_wf_iff decimal_value_def)
  with d show "d = \<lparr>mantissa = m, scale = s\<rparr> \<and> in_i128 m \<and> s \<le> MAX_SCALE"
    by (cases d) (auto simp: decimal_wf_iff)
next
  assume "d = \<lparr>mantissa = m, scale = s\<rparr> \<and> in_i128 m \<and> s \<le> MAX_SCALE"
  with assms show "decimal_wf d \<and> decimal_value d = ratio m s"
    by (simp add: decimal_wf_iff decimal_value_def)
qed

subsection \<open>The constructor\<close>

lemma canonicalized_loop_reduced:
  "canonicalized_loop m s = \<lparr>mantissa = m, scale = s\<rparr>" if "reduced m s"
  using that by (subst canonicalized_loop.simps) (auto simp: reduced_def trunc_mod_eq_0_iff)

lemma canonicalized_loop_spec:
  assumes "m \<noteq> 0"
  shows "reduced (mantissa (canonicalized_loop m s)) (scale (canonicalized_loop m s))
         \<and> ratio (mantissa (canonicalized_loop m s)) (scale (canonicalized_loop m s)) = ratio m s
         \<and> \<bar>mantissa (canonicalized_loop m s)\<bar> \<le> \<bar>m\<bar>
         \<and> (mantissa (canonicalized_loop m s) = m \<or> \<bar>mantissa (canonicalized_loop m s)\<bar> < \<bar>m\<bar>)
         \<and> scale (canonicalized_loop m s) \<le> s"
  using assms
proof (induction m s rule: canonicalized_loop.induct)
  case (1 m s)
  show ?case
  proof (cases "s > 0 \<and> trunc_mod m 10 = 0")
    case True
    then have "10 dvd m" by (simp add: trunc_mod_eq_0_iff)
    then obtain n where m: "m = 10 * n" ..
    have td: "trunc_div m 10 = n" by (simp add: trunc_div_pos m)
    have n: "n \<noteq> 0" using 1(2) m by simp
    obtain t where s: "s = Suc t" using True by (cases s) auto
    have eq: "canonicalized_loop m s = canonicalized_loop n t"
      using True by (subst canonicalized_loop.simps) (simp add: td s)
    have IH: "reduced (mantissa (canonicalized_loop n t)) (scale (canonicalized_loop n t))
         \<and> ratio (mantissa (canonicalized_loop n t)) (scale (canonicalized_loop n t)) = ratio n t
         \<and> \<bar>mantissa (canonicalized_loop n t)\<bar> \<le> \<bar>n\<bar>
         \<and> (mantissa (canonicalized_loop n t) = n \<or> \<bar>mantissa (canonicalized_loop n t)\<bar> < \<bar>n\<bar>)
         \<and> scale (canonicalized_loop n t) \<le> t"
      using 1(1) [OF True] n by (simp add: td s)
    have "ratio n t = ratio m s" by (simp add: m s)
    moreover have "\<bar>n\<bar> < \<bar>m\<bar>" using n m by simp
    ultimately show ?thesis using IH unfolding eq by (auto simp: s)
  next
    case False
    then have "canonicalized_loop m s = \<lparr>mantissa = m, scale = s\<rparr>"
      by (subst canonicalized_loop.simps) auto
    moreover have "reduced m s" using False 1(2) by (auto simp: reduced_def trunc_mod_eq_0_iff)
    ultimately show ?thesis by simp
  qed
qed

lemma canonicalized_spec:
  assumes "in_i128 m" "s \<le> MAX_SCALE"
  shows "decimal_wf (canonicalized \<lparr>mantissa = m, scale = s\<rparr>)
         \<and> decimal_value (canonicalized \<lparr>mantissa = m, scale = s\<rparr>) = ratio m s"
proof (cases "m = 0")
  case True
  then show ?thesis using assms
    by (simp add: canonicalized_def decimal_wf_iff decimal_value_def reduced_def)
next
  case False
  with canonicalized_loop_spec [OF False, of s] assms show ?thesis
    using in_i128_mono [OF assms(1)]
    by (auto simp: canonicalized_def decimal_wf_iff decimal_value_def)
qed

lemma decimal_new_spec:
  assumes "in_i128 m"
  shows "decimal_new m s = Ok d \<longleftrightarrow> s \<le> MAX_SCALE \<and> decimal_wf d \<and> decimal_value d = ratio m s"
proof (cases "s \<le> MAX_SCALE")
  case True
  note c = canonicalized_spec [OF assms True]
  show ?thesis
  proof
    assume "decimal_new m s = Ok d"
    then show "s \<le> MAX_SCALE \<and> decimal_wf d \<and> decimal_value d = ratio m s"
      using c True by (auto simp: decimal_new_def)
  next
    assume "s \<le> MAX_SCALE \<and> decimal_wf d \<and> decimal_value d = ratio m s"
    then have "d = canonicalized \<lparr>mantissa = m, scale = s\<rparr>"
      using c by (intro decimal_wf_unique) auto
    then show "decimal_new m s = Ok d" using True by (simp add: decimal_new_def)
  qed
qed (simp add: decimal_new_def)

lemma decimal_new_0 [simp]: "decimal_new 0 s = (if s > MAX_SCALE then Err ScaleTooLarge
    else Ok \<lparr>mantissa = 0, scale = 0\<rparr>)"
  by (simp add: decimal_new_def canonicalized_def)

lemma decimal_new_reduced:
  "reduced m s \<Longrightarrow> s \<le> MAX_SCALE \<Longrightarrow> decimal_new m s = Ok \<lparr>mantissa = m, scale = s\<rparr>"
  by (auto simp: decimal_new_def canonicalized_def canonicalized_loop_reduced reduced_def)

lemma signed_magnitude_eq:
  "signed_magnitude n negative =
     (let m = (if negative then - int n else int n)
      in if in_i128 m then Ok m else Err ArithmeticOverflow)"
  by (auto simp: signed_magnitude_def Let_def checked_i128_def numeral_bounds(1)
      i128_max_def i128_min_def)

text \<open>
  The tail shared by the arithmetic operations: a signed magnitude over a reduced pair returns
  exactly the canonical representation of the value, if there is one.
\<close>

lemma signed_new_reduced:
  assumes "reduced (if negative then - int n else int n) s" "s \<le> MAX_SCALE"
  shows "and_then (signed_magnitude n negative) (\<lambda>m. decimal_new m s) = Ok d \<longleftrightarrow>
           decimal_wf d \<and> decimal_value d = ratio (if negative then - int n else int n) s"
  using reduced_representable [OF assms(1), of d] assms decimal_new_reduced [OF assms]
  by (auto simp: signed_magnitude_eq Let_def)

lemma signed_new_spec:
  "and_then (signed_magnitude n negative) (\<lambda>m. decimal_new m s) = Ok d \<Longrightarrow>
     decimal_wf d \<and> decimal_value d = ratio (if negative then - int n else int n) s"
  using decimal_new_spec by (auto simp: signed_magnitude_eq Let_def split: if_splits)

end
