(* ===== verification/Decimal_Text.thy ===== *)
theory Decimal_Text
  imports Decimal_Canonical
begin

text \<open>
  The text of decimals: digit strings and their values, and the round trip between
  \<open>decimal_parse_canonical\<close> and \<open>decimal_to_string\<close>, which makes the canonical text unique.
\<close>

subsection \<open>Digit strings\<close>

abbreviation all_digits :: "string \<Rightarrow> bool" where
  "all_digits s \<equiv> list_all is_ascii_digit s"

lemma is_ascii_digit_iff: "is_ascii_digit c \<longleftrightarrow> (\<exists>n < 10. c = char_of (48 + n :: nat))"
proof
  assume c: "is_ascii_digit c"
  then have "c = char_of (48 + (of_char c - 48) :: nat)" "of_char c - 48 < (10 :: nat)"
    by (auto simp: is_ascii_digit_def)
  then show "\<exists>n < 10. c = char_of (48 + n :: nat)" by blast
next
  assume "\<exists>n < 10. c = char_of (48 + n :: nat)"
  then show "is_ascii_digit c"
    by (auto simp: is_ascii_digit_def of_char_of)
qed

lemma of_char_digit [simp]: "n < 10 \<Longrightarrow> of_char (char_of (48 + n :: nat)) = 48 + (n :: nat)"
  by (simp add: of_char_of)

lemma digit_char_inj: "n < 10 \<Longrightarrow> m < 10 \<Longrightarrow>
    char_of (48 + n :: nat) = char_of (48 + m :: nat) \<longleftrightarrow> n = m"
  by (metis add_left_cancel of_char_digit)

lemma char_0_eq: "CHR ''0'' = char_of (48 + 0 :: nat)"
  by code_simp

lemma digit_simps [simp]:
  "is_ascii_digit (CHR ''0'')" "\<not> is_ascii_digit (CHR ''.'')" "\<not> is_ascii_digit (CHR ''-'')"
  "\<not> is_ascii_digit (CHR ''+'')" "\<not> is_ascii_digit (CHR ''e'')" "\<not> is_ascii_digit (CHR ''E'')"
  by (simp_all add: is_ascii_digit_def)

lemma digit_not_whitespace: "is_ascii_digit c \<Longrightarrow> \<not> is_ascii_whitespace c"
  by (auto simp: is_ascii_digit_def is_ascii_whitespace_def)

lemma digits_value_Nil [simp]: "digits_value [] = 0"
  by (simp add: digits_value_def)

lemma digits_value_snoc: "digits_value (s @ [c]) = 10 * digits_value s + (of_char c - 48)"
  by (simp add: digits_value_def)

lemma digits_value_append:
  "digits_value (s @ t) = digits_value s * 10 ^ length t + digits_value t"
proof (induction t rule: rev_induct)
  case (snoc c t)
  have "digits_value ((s @ t) @ [c]) = 10 * digits_value (s @ t) + (of_char c - 48)"
    by (rule digits_value_snoc)
  with snoc show ?case by (simp add: digits_value_snoc algebra_simps)
qed simp

lemma digits_value_zeros: "digits_value (replicate n (CHR ''0'')) = 0"
  by (induction n) (simp_all add: replicate_append_same [symmetric] digits_value_snoc)

lemma digits_value_Cons: "digits_value (c # s) = (of_char c - 48) * 10 ^ length s + digits_value s"
  using digits_value_append [of "[c]" s] by (simp add: digits_value_def)

lemma digits_value_bound: "all_digits s \<Longrightarrow> digits_value s < 10 ^ length s"
proof (induction s)
  case (Cons c s)
  then have "of_char c - 48 \<le> (9 :: nat)" by (auto simp: is_ascii_digit_def)
  then have "(of_char c - 48) * 10 ^ length s \<le> (9 :: nat) * 10 ^ length s"
    by (rule mult_right_mono) simp
  moreover have "digits_value s < 10 ^ length s" using Cons by simp
  ultimately show ?case
    unfolding digits_value_Cons length_Cons power_Suc by linarith
qed simp

lemma all_digits_zeros [simp]: "all_digits (replicate n (CHR ''0''))"
  by (induction n) auto

text \<open>Strings of digits of one length are determined by their value.\<close>

lemma digits_value_inj:
  "all_digits s \<Longrightarrow> all_digits t \<Longrightarrow> length s = length t \<Longrightarrow> digits_value s = digits_value t \<Longrightarrow>
     s = t"
proof (induction s arbitrary: t rule: rev_induct)
  case (snoc c s)
  then obtain d u where t: "t = u @ [d]" by (cases t rule: rev_cases) auto
  obtain m n where mn: "m < 10" "n < 10" "c = char_of (48 + m :: nat)" "d = char_of (48 + n :: nat)"
    using snoc.prems by (auto simp: t is_ascii_digit_iff)
  have eq: "10 * digits_value s + m = 10 * digits_value u + n"
    using snoc.prems mn by (simp add: t digits_value_snoc)
  then have "(10 * digits_value s + m) mod 10 = (10 * digits_value u + n) mod 10" by simp
  then have "m = n" using mn by simp
  moreover with eq have "digits_value s = digits_value u" by simp
  moreover have "s = u" using snoc calculation by (simp add: t)
  ultimately show ?case by (simp add: t mn)
qed simp

lemma digits_value_to_digits [simp]: "digits_value (to_digits n) = n"
proof (induction n rule: to_digits.induct)
  case (1 n)
  show ?case
  proof (cases "n < 10")
    case True
    then show ?thesis by (subst to_digits.simps) (simp add: digits_value_def)
  next
    case False
    then show ?thesis
      using 1 by (subst to_digits.simps) (simp add: digits_value_snoc)
  qed
qed

lemma all_digits_to_digits [simp]: "all_digits (to_digits n)"
proof (induction n rule: to_digits.induct)
  case (1 n)
  have d: "k < 10 \<Longrightarrow> is_ascii_digit (char_of (48 + k :: nat))" for k
    by (auto simp: is_ascii_digit_iff)
  show ?case
  proof (cases "n < 10")
    case True
    then show ?thesis by (subst to_digits.simps) (simp add: d)
  next
    case False
    then show ?thesis using 1 by (subst to_digits.simps) (simp add: d)
  qed
qed

lemma to_digits_nonempty [simp]: "to_digits n \<noteq> []"
  by (subst to_digits.simps) simp

text \<open>The printed number has no leading zero, unless it is the one digit zero.\<close>

lemma hd_to_digits: "0 < n \<Longrightarrow> hd (to_digits n) \<noteq> CHR ''0''"
proof (induction n rule: to_digits.induct)
  case (1 n)
  show ?case
  proof (cases "n < 10")
    case True
    then show ?thesis
      using 1(2) digit_char_inj [of n 0] unfolding char_0_eq by (subst to_digits.simps) simp
  next
    case False
    with 1 have "hd (to_digits (n div 10)) \<noteq> CHR ''0''" by simp
    with False show ?thesis by (subst to_digits.simps) simp
  qed
qed

lemma to_digits_0 [simp]: "to_digits 0 = ''0''"
  by (subst to_digits.simps) (simp add: char_0_eq)

lemma digits_lower_bound:
  assumes "all_digits s" "s \<noteq> []" "hd s \<noteq> CHR ''0''"
  shows "10 ^ (length s - 1) \<le> digits_value s"
proof -
  obtain c t where s: "s = c # t" using assms(2) by (cases s) auto
  obtain n where n: "n < 10" "c = char_of (48 + n :: nat)"
    using assms(1) by (auto simp: s is_ascii_digit_iff)
  have "n \<noteq> 0" using assms(3) n by (auto simp: s char_0_eq)
  then have "(1::nat) * 10 ^ length t \<le> n * 10 ^ length t"
    by (intro mult_right_mono) auto
  then have "10 ^ length t \<le> n * 10 ^ length t + digits_value t" by linarith
  then show ?thesis using n by (simp add: s digits_value_Cons)
qed

text \<open>A digit string without leading zero is what the printer prints for its value.\<close>

lemma to_digits_digits_value:
  assumes "all_digits s" "s \<noteq> []" "length s > 1 \<longrightarrow> hd s \<noteq> CHR ''0''"
  shows "to_digits (digits_value s) = s"
  using assms
proof (induction s rule: rev_induct)
  case (snoc c s)
  obtain n where n: "n < 10" "c = char_of (48 + n :: nat)"
    using snoc.prems by (auto simp: is_ascii_digit_iff)
  have v: "digits_value (s @ [c]) = 10 * digits_value s + n"
    using n by (simp add: digits_value_snoc)
  show ?case
  proof (cases "s = []")
    case True
    then show ?thesis using n v by (subst to_digits.simps) simp
  next
    case False
    then have h: "hd s \<noteq> CHR ''0''" "all_digits s" using snoc.prems by auto
    have "10 ^ (length s - 1) \<le> digits_value s" using h False by (intro digits_lower_bound) auto
    moreover have "(1::nat) \<le> 10 ^ (length s - 1)" by simp
    ultimately have pos: "0 < digits_value s" by linarith
    have "to_digits (digits_value s) = s" using snoc.IH False h by simp
    then show ?thesis using pos n(1) unfolding v
      by (subst to_digits.simps) (simp add: n(2))
  qed
qed simp

subsection \<open>Splitting at the decimal point\<close>

lemma trim_id:
  assumes "s \<noteq> []" "\<not> is_ascii_whitespace (hd s)" "\<not> is_ascii_whitespace (last s)"
  shows "trim s = s"
proof -
  have "dropWhile is_ascii_whitespace s = s" using assms by (cases s) auto
  moreover have "dropWhile is_ascii_whitespace (rev s) = rev s"
    using assms by (cases s rule: rev_cases) auto
  ultimately show ?thesis by (simp add: trim_def)
qed

definition join_decimal :: "string \<Rightarrow> string \<Rightarrow> string" where
  "join_decimal whole fraction = (if fraction = [] then whole else whole @ ''.'' @ fraction)"

lemma digits_no_special: "all_digits w \<Longrightarrow> \<not> is_ascii_digit c \<Longrightarrow> c \<notin> set w"
  by (auto simp: list_all_iff)

lemma takeWhile_digits: "all_digits w \<Longrightarrow> takeWhile (\<lambda>c. c \<noteq> CHR ''.'') w = w"
  "all_digits w \<Longrightarrow> dropWhile (\<lambda>c. c \<noteq> CHR ''.'') w = []"
  using digits_no_special [of w "CHR ''.''"] by (auto simp: takeWhile_eq_all_conv dropWhile_eq_Nil_conv)

lemma span_at:
  "c \<notin> set w \<Longrightarrow> takeWhile (\<lambda>x. x \<noteq> c) (w @ c # f) = w"
  "c \<notin> set w \<Longrightarrow> dropWhile (\<lambda>x. x \<noteq> c) (w @ c # f) = c # f"
  by (induction w) auto

lemma split_decimal_join:
  assumes "all_digits w" "all_digits f" "w \<noteq> []"
  shows "split_decimal (join_decimal w f) = Ok (w, f)"
proof -
  let ?s = "join_decimal w f"
  have ne: "?s \<noteq> []" using assms by (simp add: join_decimal_def)
  have hd: "is_ascii_digit (hd ?s)"
    using assms by (cases w) (auto simp: join_decimal_def)
  have "last ?s \<in> set (w @ f)" using assms by (auto simp: join_decimal_def)
  then have last: "is_ascii_digit (last ?s)" using assms by (auto simp: list_all_iff)
  have trim: "trim ?s = ?s" using ne hd last digit_not_whitespace by (intro trim_id) auto
  have plus: "\<not> starts_with ?s (CHR ''+'')"
    using hd by (cases ?s) (auto simp: starts_with_def)
  have e: "CHR ''e'' \<notin> set ?s" "CHR ''E'' \<notin> set ?s"
    using digits_no_special assms by (auto simp: join_decimal_def)
  have dots: "CHR ''.'' \<notin> set w" "CHR ''.'' \<notin> set f"
    using digits_no_special assms by auto
  have parts: "takeWhile (\<lambda>c. c \<noteq> CHR ''.'') ?s = w
      \<and> drop 1 (dropWhile (\<lambda>c. c \<noteq> CHR ''.'') ?s) = f"
  proof (cases "f = []")
    case True
    then have "?s = w" by (simp add: join_decimal_def)
    then show ?thesis
      by (simp only: takeWhile_digits [OF assms(1)] True drop_Nil simp_thms)
  next
    case False
    then have "?s = w @ CHR ''.'' # f" by (simp add: join_decimal_def)
    then show ?thesis by (simp add: span_at [OF dots(1)])
  qed
  have "count_list ?s (CHR ''.'') \<le> 1"
    using dots by (simp add: join_decimal_def)
  moreover have "CHR ''.'' \<in> set ?s \<longrightarrow> f \<noteq> []" using dots by (auto simp: join_decimal_def)
  ultimately show ?thesis
    using ne trim plus e assms
    unfolding split_decimal_def Let_def parts [THEN conjunct1] parts [THEN conjunct2] by auto
qed

lemma split_decimal_Ok_iff:
  "split_decimal s = Ok (w, f) \<longleftrightarrow> all_digits w \<and> all_digits f \<and> w \<noteq> [] \<and> s = join_decimal w f"
proof
  assume ok: "split_decimal s = Ok (w, f)"
  then have parts: "w = takeWhile (\<lambda>c. c \<noteq> CHR ''.'') s"
    "f = drop 1 (dropWhile (\<lambda>c. c \<noteq> CHR ''.'') s)"
    and props: "w \<noteq> []" "CHR ''.'' \<in> set s \<longrightarrow> f \<noteq> []" "all_digits w" "all_digits f"
    by (auto simp: split_decimal_def Let_def split: if_splits)
  have "s = join_decimal w f"
  proof (cases "CHR ''.'' \<in> set s")
    case True
    then obtain w' t where t: "s = w' @ CHR ''.'' # t" "CHR ''.'' \<notin> set w'"
      using split_list_first by metis
    have "w = w'" unfolding parts(1) t(1) by (rule span_at(1) [OF t(2)])
    moreover have "f = t" unfolding parts(2) t(1) by (simp add: span_at(2) [OF t(2)])
    moreover have "f \<noteq> []" using props(2) True by simp
    ultimately show ?thesis by (simp add: t(1) join_decimal_def)
  next
    case False
    then have "takeWhile (\<lambda>c. c \<noteq> CHR ''.'') s = s" "dropWhile (\<lambda>c. c \<noteq> CHR ''.'') s = []"
      by (auto simp: takeWhile_eq_all_conv dropWhile_eq_Nil_conv)
    then have "w = s" "f = []" by (simp_all only: parts drop_Nil)
    then show ?thesis by (simp add: join_decimal_def)
  qed
  with props show "all_digits w \<and> all_digits f \<and> w \<noteq> [] \<and> s = join_decimal w f" by blast
next
  assume "all_digits w \<and> all_digits f \<and> w \<noteq> [] \<and> s = join_decimal w f"
  then show "split_decimal s = Ok (w, f)" using split_decimal_join by blast
qed

lemma strip_minus_join:
  assumes "all_digits w" "w \<noteq> []"
  shows "strip_minus ((if negative then ''-'' else []) @ join_decimal w f) = (negative, join_decimal w f)"
  using assms by (cases w) (auto simp: strip_minus_def join_decimal_def)

lemma strip_minus_eq: "strip_minus s = (negative, body) \<Longrightarrow> s = (if negative then ''-'' else []) @ body"
  by (auto simp: strip_minus_def split: list.splits if_splits)

subsection \<open>Round trip\<close>

text \<open>The whole and fractional digits that the printer writes.\<close>

definition printed_parts :: "nat \<Rightarrow> nat \<Rightarrow> string \<times> string" where
  "printed_parts n s =
     (let digits = to_digits n;
          padded = (if length digits \<le> s
                    then replicate (s + 1 - length digits) (CHR ''0'') @ digits else digits)
      in (take (length padded - s) padded, drop (length padded - s) padded))"

lemma decimal_to_string_parts:
  "decimal_to_string d =
     (if mantissa d < 0 then ''-'' else [])
     @ join_decimal (fst (printed_parts (unsigned_abs (mantissa d)) (scale d)))
         (snd (printed_parts (unsigned_abs (mantissa d)) (scale d)))"
  by (auto simp: decimal_to_string_def printed_parts_def join_decimal_def Let_def)

text \<open>What a whole part and a fraction must satisfy to be the canonical text of \<open>n\<close>.\<close>

definition canonical_parts :: "nat \<Rightarrow> nat \<Rightarrow> string \<Rightarrow> string \<Rightarrow> bool" where
  "canonical_parts n s w f \<longleftrightarrow>
     all_digits w \<and> all_digits f \<and> w \<noteq> [] \<and> length f = s \<and> digits_value (w @ f) = n
     \<and> (length w > 1 \<longrightarrow> hd w \<noteq> CHR ''0'')"

lemma all_digits_take: "all_digits s \<Longrightarrow> all_digits (take n s)"
  by (auto simp: list_all_iff dest: in_set_takeD)

lemma all_digits_drop: "all_digits s \<Longrightarrow> all_digits (drop n s)"
  by (auto simp: list_all_iff dest: in_set_dropD)

lemma canonical_parts_split:
  assumes "all_digits p" "length p = k + s" "0 < k" "digits_value p = n"
    and "k > 1 \<longrightarrow> hd p \<noteq> CHR ''0''"
  shows "canonical_parts n s (take k p) (drop k p)"
  using assms all_digits_take [OF assms(1), of k] all_digits_drop [OF assms(1), of k]
  by (auto simp: canonical_parts_def hd_take)

lemma printed_parts_canonical:
  "canonical_parts n s (fst (printed_parts n s)) (snd (printed_parts n s))"
proof -
  let ?d = "to_digits n"
  show ?thesis
  proof (cases "length ?d \<le> s")
    case True
    let ?p = "replicate (s + 1 - length ?d) (CHR ''0'') @ ?d"
    have len: "length ?p = s + 1" using True by simp
    have "canonical_parts n s (take 1 ?p) (drop 1 ?p)"
      using len by (intro canonical_parts_split)
        (simp_all add: digits_value_append digits_value_zeros list_all_append)
    then show ?thesis using True len by (simp add: printed_parts_def Let_def)
  next
    case False
    have "hd ?d \<noteq> CHR ''0''" if "length ?d - s > 1"
    proof -
      have "n \<noteq> 0" using that by (cases "n = 0") auto
      then show ?thesis using hd_to_digits by simp
    qed
    then have "canonical_parts n s (take (length ?d - s) ?d) (drop (length ?d - s) ?d)"
      using False by (intro canonical_parts_split) auto
    then show ?thesis using False by (simp add: printed_parts_def Let_def)
  qed
qed

lemma canonical_parts_unique:
  assumes "canonical_parts n s w f"
  shows "printed_parts n s = (w, f)"
proof -
  let ?d = "to_digits n"
  have wf: "all_digits (w @ f)" "w @ f \<noteq> []" "digits_value (w @ f) = n" "length f = s" "w \<noteq> []"
    using assms by (auto simp: canonical_parts_def)
  show ?thesis
  proof (cases "hd w = CHR ''0''")
    case False
    then have "to_digits (digits_value (w @ f)) = w @ f"
      using wf by (intro to_digits_digits_value) auto
    then have d: "?d = w @ f" using wf by simp
    then have "\<not> length ?d \<le> s" using wf by simp
    then show ?thesis using wf d by (simp add: printed_parts_def Let_def)
  next
    case True
    then have "length w = 1" using assms wf(5) by (cases w) (auto simp: canonical_parts_def)
    then have w: "w = [CHR ''0'']" using True by (cases w) auto
    have n: "n = digits_value f" "n < 10 ^ s"
      using wf digits_value_bound [of f] by (auto simp: w digits_value_Cons)
    show ?thesis
    proof (cases "s = 0")
      case True
      then show ?thesis using n wf by (simp add: printed_parts_def w Let_def)
    next
      case False
      have "length ?d \<le> s"
      proof (rule ccontr)
        assume "\<not> length ?d \<le> s"
        then have ge: "s \<le> length ?d - 1" by simp
        have "n \<noteq> 0" using \<open>\<not> length ?d \<le> s\<close> False by (cases "n = 0") auto
        then have "10 ^ (length ?d - 1) \<le> n"
          using digits_lower_bound [of ?d] hd_to_digits [of n] by simp
        moreover have "(10::nat) ^ s \<le> 10 ^ (length ?d - 1)" using ge by (rule power_increasing) simp
        ultimately show False using n by linarith
      qed
      moreover have "replicate (s + 1 - length ?d) (CHR ''0'') @ ?d = w @ f"
        using calculation wf
        by (intro digits_value_inj)
           (auto simp: list_all_append digits_value_append digits_value_zeros w)
      ultimately show ?thesis using wf by (simp add: printed_parts_def Let_def w)
    qed
  qed
qed

lemma last_digit_dvd:
  assumes "all_digits s" "s \<noteq> []"
  shows "10 dvd digits_value s \<longleftrightarrow> last s = CHR ''0''"
proof -
  obtain c t where s: "s = t @ [c]" using assms(2) by (cases s rule: rev_cases) auto
  obtain n where n: "n < 10" "c = char_of (48 + n :: nat)"
    using assms(1) by (auto simp: s is_ascii_digit_iff)
  have "10 dvd 10 * digits_value t + n \<longleftrightarrow> n = 0"
    using n(1) by presburger
  moreover have "c = CHR ''0'' \<longleftrightarrow> n = 0"
    using digit_char_inj [of n 0] n unfolding char_0_eq by simp
  ultimately show ?thesis using n by (simp add: s digits_value_snoc)
qed

lemma fraction_reduced:
  assumes "all_digits w" "all_digits f" "f \<noteq> [] \<longrightarrow> last f \<noteq> CHR ''0''"
    and "\<bar>m\<bar> = int (digits_value (w @ f))"
  shows "reduced m (length f)"
proof (cases "f = []")
  case False
  then have "\<not> 10 dvd digits_value (w @ f)"
    using assms last_digit_dvd [of "w @ f"] by (simp add: list_all_append)
  moreover have "10 dvd m \<longleftrightarrow> 10 dvd digits_value (w @ f)"
  proof -
    have "10 dvd m \<longleftrightarrow> int 10 dvd \<bar>m\<bar>" by simp
    then show ?thesis unfolding assms(4) int_dvd_int_iff .
  qed
  ultimately show ?thesis by (auto simp: reduced_def)
qed (simp add: reduced_def)

lemma parse_canonical_sound:
  assumes "decimal_parse_canonical s = Ok d"
  shows "decimal_wf d \<and> decimal_to_string d = s"
proof -
  obtain negative body where sb: "strip_minus s = (negative, body)" by force
  obtain w f m where
    split: "split_decimal body = Ok (w, f)"
    and lead: "\<not> (length w > 1 \<and> starts_with w (CHR ''0''))"
    and trail: "\<not> (f \<noteq> [] \<and> ends_with f (CHR ''0''))"
    and len: "length f \<le> MAX_SCALE"
    and zero: "\<not> (negative \<and> digits_value (w @ f) = 0)"
    and sm: "signed_magnitude (digits_value (w @ f)) negative = Ok m"
    and d: "d = \<lparr>mantissa = m, scale = length f\<rparr>"
    using assms
    by (auto simp: decimal_parse_canonical_def sb result_simps parse_magnitude_def parse_u128_def
        split: if_splits prod.splits)
  let ?n = "digits_value (w @ f)"
  have parts: "all_digits w" "all_digits f" "w \<noteq> []" "body = join_decimal w f"
    using split by (auto simp: split_decimal_Ok_iff)
  have m: "m = (if negative then - int ?n else int ?n)" "in_i128 m"
    using sm by (auto simp: signed_magnitude_eq Let_def split: if_splits)
  have "length w > 1 \<longrightarrow> hd w \<noteq> CHR ''0''"
    using lead parts(3) by (cases w) (auto simp: starts_with_def)
  then have "canonical_parts ?n (length f) w f" using parts by (simp add: canonical_parts_def)
  then have pp: "printed_parts ?n (length f) = (w, f)" by (rule canonical_parts_unique)
  have abs: "unsigned_abs m = ?n" "m < 0 \<longleftrightarrow> negative"
    using m zero by (auto simp: unsigned_abs_def)
  have "decimal_to_string d = s"
    using strip_minus_eq [OF sb] abs pp parts(4) by (simp add: decimal_to_string_parts d)
  moreover have "reduced m (length f)"
    using parts trail m(1) by (intro fraction_reduced [of w]) (auto simp: ends_with_def)
  ultimately show ?thesis using m len by (simp add: d decimal_wf_iff)
qed

lemma parse_canonical_complete:
  assumes "decimal_wf d"
  shows "decimal_parse_canonical (decimal_to_string d) = Ok d"
proof -
  let ?n = "unsigned_abs (mantissa d)" and ?neg = "mantissa d < 0"
  obtain w f where pp: "printed_parts ?n (scale d) = (w, f)" by force
  have cp: "canonical_parts ?n (scale d) w f" using printed_parts_canonical [of ?n "scale d"] pp by simp
  then have parts: "all_digits w" "all_digits f" "w \<noteq> []" "length f = scale d"
    "digits_value (w @ f) = ?n" "length w > 1 \<longrightarrow> hd w \<noteq> CHR ''0''"
    by (auto simp: canonical_parts_def)
  have strip: "strip_minus (decimal_to_string d) = (?neg, join_decimal w f)"
    using strip_minus_join [OF parts(1,3), of ?neg f] by (simp add: decimal_to_string_parts pp)
  have split: "split_decimal (join_decimal w f) = Ok (w, f)" using parts by (simp add: split_decimal_Ok_iff)
  have lead: "\<not> (length w > 1 \<and> starts_with w (CHR ''0''))"
    using parts by (cases w) (auto simp: starts_with_def)
  have trail: "\<not> (f \<noteq> [] \<and> ends_with f (CHR ''0''))"
  proof
    assume f: "f \<noteq> [] \<and> ends_with f (CHR ''0'')"
    then have "10 dvd digits_value (w @ f)"
      using parts last_digit_dvd [of "w @ f"] by (auto simp: list_all_append ends_with_def)
    then have "10 dvd ?n" using parts(5) by simp
    then have "10 dvd mantissa d" using unsigned_abs_dvd_iff [of 10 "mantissa d"] by simp
    moreover have "scale d > 0" using f unfolding parts(4) [symmetric] by simp
    ultimately show False using assms by (simp add: decimal_wf_def)
  qed
  have bound: "int ?n \<le> 2 ^ 127" using assms in_i128_abs by (simp add: decimal_wf_def)
  then have "?n \<le> u128_max" by (simp add: unsigned_abs_def u128_max_def)
  then have mag: "parse_u128 (w @ f) = Some ?n"
    using parts by (simp add: parse_u128_def list_all_append)
  have sm: "signed_magnitude ?n ?neg = Ok (mantissa d)"
    using assms by (auto simp: signed_magnitude_eq Let_def decimal_wf_def)
  have len: "length f \<le> u32_max" "length f \<le> MAX_SCALE"
    using assms parts(4) by (auto simp: decimal_wf_def MAX_SCALE_def u32_max_def)
  show ?thesis
    using lead trail mag sm len parts(4)
    by (auto simp: decimal_parse_canonical_def strip split parse_magnitude_def)
qed

end
