(* ===== verification/Decimal_Order.thy ===== *)
theory Decimal_Order
  imports Decimal_Text
begin

text \<open>
  The order of decimals. \<open>decimal_cmp\<close> compares mantissas at equal scale, aligned mantissas
  when the alignment fits \<open>i128\<close>, and digit strings otherwise; all three agree with the order
  of the values. This discharges the \<open>Ord\<close> contract of the map keys for canonical decimals.
\<close>

lemma str_cmp_digits:
  "all_digits s \<Longrightarrow> all_digits t \<Longrightarrow> length s = length t \<Longrightarrow>
     str_cmp s t = cmp_of (digits_value s) (digits_value t)"
proof (induction s arbitrary: t)
  case Nil
  then show ?case by (simp add: str_cmp_def)
next
  case (Cons c s)
  then obtain d u where t: "t = d # u" by (cases t) auto
  obtain m n where mn: "m < 10" "n < 10" "c = char_of (48 + m :: nat)" "d = char_of (48 + n :: nat)"
    using Cons.prems by (auto simp: t is_ascii_digit_iff)
  have len: "length s = length u" and dig: "all_digits s" "all_digits u"
    using Cons.prems by (auto simp: t)
  have b: "digits_value s < 10 ^ length u" "digits_value u < 10 ^ length u"
    using digits_value_bound dig len by force+
  have less: "x < y \<Longrightarrow> x * 10 ^ length u + digits_value s < y * 10 ^ length u + digits_value u"
    "y < x \<Longrightarrow> y * 10 ^ length u + digits_value u < x * 10 ^ length u + digits_value s" for x y :: nat
  proof -
    have *: "a < 10 ^ k \<Longrightarrow> x < y \<Longrightarrow> x * 10 ^ k + a < y * 10 ^ k + b" for a b k x y :: nat
    proof -
      assume a: "a < 10 ^ k" and xy: "x < y"
      have "Suc x * 10 ^ k \<le> y * 10 ^ k" using xy by (intro mult_right_mono) auto
      then show ?thesis using a by simp
    qed
    show "x < y \<Longrightarrow> x * 10 ^ length u + digits_value s < y * 10 ^ length u + digits_value u"
      "y < x \<Longrightarrow> y * 10 ^ length u + digits_value u < x * 10 ^ length u + digits_value s"
      using * b by blast+
  qed
  have IH: "list_cmp char_cmp s u = cmp_of (digits_value s) (digits_value u)"
    using Cons.IH dig len by (simp add: str_cmp_def)
  consider "m < n" | "m = n" | "n < m" by linarith
  then show ?case
  proof cases
    case 1
    then show ?thesis using mn less(1) [OF 1] len
      by (simp add: t str_cmp_def char_cmp_def digits_value_Cons cmp_of_def)
  next
    case 2
    then show ?thesis using mn len IH
      by (simp add: t str_cmp_def char_cmp_def digits_value_Cons cmp_of_def)
  next
    case 3
    then show ?thesis using mn less(2) [OF 3] len
      by (simp add: t str_cmp_def char_cmp_def digits_value_Cons cmp_of_def)
  qed
qed

text \<open>Digit strings without leading zeros: the longer one is the greater number.\<close>

lemma shorter_is_less:
  assumes "all_digits s" "all_digits t" "t \<noteq> []" "hd t \<noteq> CHR ''0''" "length s < length t"
  shows "digits_value s < digits_value t"
proof -
  have "digits_value s < 10 ^ length s" using assms(1) by (rule digits_value_bound)
  also have "(10::nat) ^ length s \<le> 10 ^ (length t - 1)"
    using assms(5) by (intro power_increasing) auto
  also have "\<dots> \<le> digits_value t" using assms by (intro digits_lower_bound)
  finally show ?thesis .
qed

lemma cmp_digit_strings:
  assumes "all_digits s" "all_digits t" "s \<noteq> []" "t \<noteq> []"
    and "hd s \<noteq> CHR ''0''" "hd t \<noteq> CHR ''0''"
  shows "then_ordering (cmp_of (length s) (length t)) (str_cmp s t)
         = cmp_of (digits_value s) (digits_value t)"
proof -
  consider "length s < length t" | "length s = length t" | "length t < length s" by linarith
  then show ?thesis
  proof cases
    case 1
    then have "digits_value s < digits_value t" using shorter_is_less assms by blast
    with 1 show ?thesis by (simp add: cmp_of_def)
  next
    case 2
    then show ?thesis using str_cmp_digits assms by simp
  next
    case 3
    then have "digits_value t < digits_value s" using shorter_is_less assms by blast
    with 3 show ?thesis by (simp add: cmp_of_def)
  qed
qed

lemma cmp_of_int: "cmp_of (int a) (int b) = cmp_of a b"
  by (simp add: cmp_of_def)

abbreviation cross_cmp :: "FixedDecimal \<Rightarrow> FixedDecimal \<Rightarrow> Ordering" where
  "cross_cmp a b \<equiv> cmp_of (mantissa a * 10 ^ scale b) (mantissa b * 10 ^ scale a)"

lemma cmp_of_sgn:
  fixes x y p q :: int
  assumes "cmp_of (sgn x) (sgn y) \<noteq> Equal" "0 < p" "0 < q"
  shows "cmp_of (sgn x) (sgn y) = cmp_of (x * p) (y * q)"
proof -
  have s: "sgn (x * p) = sgn x" "sgn (y * q) = sgn y" using assms by (simp_all add: sgn_mult)
  have "cmp_of (sgn a) (sgn b) \<noteq> Equal \<Longrightarrow> cmp_of (sgn a) (sgn b) = cmp_of a b" for a b :: int
    by (cases "a < 0"; cases "a = 0"; cases "b < 0"; cases "b = 0") (simp_all add: cmp_of_def)
  then show ?thesis using assms(1) unfolding s [symmetric] by blast
qed

lemma compare_without_scaling_cross: "compare_without_scaling a b = cross_cmp a b"
proof (cases "cmp_of (sgn (mantissa a)) (sgn (mantissa b)) = Equal")
  case False
  moreover have "cmp_of (sgn (mantissa a)) (sgn (mantissa b)) = cross_cmp a b"
    using False by (rule cmp_of_sgn) simp_all
  ultimately show ?thesis
    by (simp only: compare_without_scaling_def Let_def not_False_eq_True if_True)
next
  case True
  then have sgn: "sgn (mantissa a) = sgn (mantissa b)" by simp
  show ?thesis
  proof (cases "mantissa a = 0")
    case True
    then have "mantissa b = 0" using sgn by (simp add: sgn_0_0)
    with True show ?thesis by (simp add: compare_without_scaling_def is_zero_def)
  next
    case False
    then have nz: "mantissa b \<noteq> 0" using sgn by (auto simp: sgn_0_0)
    let ?l = "to_digits (unsigned_abs (mantissa a)) @ replicate (scale b) (CHR ''0'')"
    let ?r = "to_digits (unsigned_abs (mantissa b)) @ replicate (scale a) (CHR ''0'')"
    have v: "digits_value ?l = unsigned_abs (mantissa a) * 10 ^ scale b"
      "digits_value ?r = unsigned_abs (mantissa b) * 10 ^ scale a"
      by (simp_all add: digits_value_append digits_value_zeros)
    have "then_ordering (cmp_of (length ?l) (length ?r)) (str_cmp ?l ?r)
          = cmp_of (digits_value ?l) (digits_value ?r)"
      using False nz hd_to_digits
      by (intro cmp_digit_strings) (auto simp: list_all_append unsigned_abs_def)
    also have "\<dots> = cmp_of (int (digits_value ?l)) (int (digits_value ?r))"
      by (rule cmp_of_int [symmetric])
    also have "\<dots> = cmp_of (\<bar>mantissa a\<bar> * 10 ^ scale b) (\<bar>mantissa b\<bar> * 10 ^ scale a)"
      unfolding v by simp
    finally have mag: "then_ordering (cmp_of (length ?l) (length ?r)) (str_cmp ?l ?r)
          = cmp_of (\<bar>mantissa a\<bar> * 10 ^ scale b) (\<bar>mantissa b\<bar> * 10 ^ scale a)" .
    show ?thesis
    proof (cases "mantissa a < 0")
      case True
      then have neg: "mantissa b < 0" using sgn by (simp add: sgn_if split: if_splits)
      have "compare_without_scaling a b
          = reverse_ordering (cmp_of (\<bar>mantissa a\<bar> * 10 ^ scale b) (\<bar>mantissa b\<bar> * 10 ^ scale a))"
        unfolding compare_without_scaling_def Let_def mag using True sgn
        by (simp add: is_zero_def is_negative_def)
      also have "\<dots> = cross_cmp a b"
        using True neg by (simp add: reverse_cmp_of) (simp add: cmp_of_def)
      finally show ?thesis .
    next
      case False
      then have "mantissa a > 0" using \<open>mantissa a \<noteq> 0\<close> by simp
      then have pos: "mantissa b > 0" using sgn by (simp add: sgn_if split: if_splits)
      have "compare_without_scaling a b
          = cmp_of (\<bar>mantissa a\<bar> * 10 ^ scale b) (\<bar>mantissa b\<bar> * 10 ^ scale a)"
        unfolding compare_without_scaling_def Let_def mag using \<open>mantissa a > 0\<close> sgn
        by (simp add: is_zero_def is_negative_def)
      then show ?thesis using \<open>mantissa a > 0\<close> pos by simp
    qed
  qed
qed

lemma cmp_of_mult: "0 < p \<Longrightarrow> cmp_of (x * p) (y * p) = cmp_of x y" for x y p :: int
  by (simp add: cmp_of_def)

lemma aligned_with_cross:
  assumes "aligned_with a b = Ok (l, r, s)"
  shows "cmp_of l r = cross_cmp a b"
proof -
  have lr: "l = mantissa a * 10 ^ (max (scale a) (scale b) - scale a)"
    "r = mantissa b * 10 ^ (max (scale a) (scale b) - scale b)"
    using assms by (auto simp: aligned_with_def Let_def result_simps checked_scale_up_def
        checked_power_of_ten_def machine_simps)
  have a: "l * 10 ^ scale a = mantissa a * 10 ^ max (scale a) (scale b)"
    and b: "r * 10 ^ scale b = mantissa b * 10 ^ max (scale a) (scale b)"
    by (simp_all add: lr mult.assoc flip: power_add)
  have "cmp_of l r = cmp_of (l * (10 ^ scale a * 10 ^ scale b)) (r * (10 ^ scale a * 10 ^ scale b))"
    by (rule cmp_of_mult [symmetric]) simp
  also have "l * (10 ^ scale a * 10 ^ scale b)
      = (mantissa a * 10 ^ scale b) * 10 ^ max (scale a) (scale b)"
    using a by (simp add: mult_ac)
  also have "r * (10 ^ scale a * 10 ^ scale b)
      = (mantissa b * 10 ^ scale a) * 10 ^ max (scale a) (scale b)"
    using b by (simp add: mult_ac)
  also have "cmp_of ((mantissa a * 10 ^ scale b) * 10 ^ max (scale a) (scale b))
      ((mantissa b * 10 ^ scale a) * 10 ^ max (scale a) (scale b)) = cross_cmp a b"
    by (rule cmp_of_mult) simp
  finally show ?thesis .
qed

lemma decimal_cmp_cross: "decimal_cmp a b = cross_cmp a b"
proof (cases "scale a = scale b")
  case True
  then show ?thesis by (simp add: decimal_cmp_def cmp_of_mult)
next
  case False
  then show ?thesis
    using aligned_with_cross compare_without_scaling_cross
    by (auto simp: decimal_cmp_def split: sum.splits)
qed

lemma decimal_cmp_value: "decimal_cmp a b = cmp_of (decimal_value a) (decimal_value b)"
  unfolding decimal_cmp_cross decimal_value_def cmp_of_def ratio_less_iff ratio_eq_iff ..

interpretation price: rust_ord decimal_cmp decimal_wf
proof
  fix a b
  assume "decimal_wf a" "decimal_wf b"
  then show "decimal_cmp a b = Equal \<longleftrightarrow> a = b"
    using decimal_wf_unique by (auto simp: decimal_cmp_value)
next
  fix a b
  show "decimal_cmp b a = reverse_ordering (decimal_cmp a b)"
    by (simp add: decimal_cmp_value reverse_cmp_of)
next
  fix a b c
  show "decimal_cmp a b = Less \<Longrightarrow> decimal_cmp b c = Less \<Longrightarrow> decimal_cmp a c = Less"
    by (simp add: decimal_cmp_value)
qed

end
