(* ===== verification/Decimal_Arith.thy ===== *)
theory Decimal_Arith
  imports Decimal_Order
begin

text \<open>
  The arithmetic of decimals. Every operation is shown exact and complete with respect to
  \<open>decimal_value\<close>: it returns \<open>Ok d\<close> if and only if \<open>d\<close> is the canonical representation of the
  mathematical result, so each error means that the result has no representation. The
  operations whose loops are partial functions are shown to return.
\<close>

subsection \<open>Representability\<close>

abbreviation represents :: "FixedDecimal \<Rightarrow> rat \<Rightarrow> bool" where
  "represents d x \<equiv> decimal_wf d \<and> decimal_value d = x"

abbreviation signed :: "bool \<Rightarrow> nat \<Rightarrow> int" where
  "signed negative n \<equiv> (if negative then - int n else int n)"

lemma not_represents_large:
  assumes "reduced m s" "\<bar>m\<bar> > 2 ^ 127"
  shows "\<not> represents d (ratio m s)"
  using reduced_representable [OF assms(1), of d] not_in_i128 [OF assms(2)] by blast

lemma not_represents_scale:
  assumes "reduced m s" "s > MAX_SCALE"
  shows "\<not> represents d (ratio m s)"
  using reduced_representable [OF assms(1), of d] assms(2) by auto

lemma signed_new_iff:
  assumes "s \<le> MAX_SCALE" "in_i128 (signed negative n) \<or> reduced (signed negative n) s"
  shows "and_then (signed_magnitude n negative) (\<lambda>m. decimal_new m s) = Ok d \<longleftrightarrow>
           represents d (ratio (signed negative n) s)"
proof (cases "in_i128 (signed negative n)")
  case True
  then have "signed_magnitude n negative = Ok (signed negative n)"
    by (simp add: signed_magnitude_eq Let_def)
  then show ?thesis using decimal_new_spec [OF True, of s d] assms(1) by simp
next
  case False
  with assms show ?thesis using signed_new_reduced [of negative n s d] by blast
qed

lemma signed_abs: "signed (m < 0) (unsigned_abs m) = m"
  by (simp add: unsigned_abs_def)

lemma abs_signed_add: "\<bar>signed p m + signed p n\<bar> = \<bar>signed p m\<bar> + \<bar>signed p n\<bar>"
  by simp

subsection \<open>Sum, difference and negation\<close>

lemma reduce_magnitude_spec:
  "reduce_magnitude n s = (n', s') \<Longrightarrow>
     s' \<le> s \<and> n = n' * 10 ^ (s - s') \<and> (s' > 0 \<longrightarrow> \<not> 10 dvd n')"
proof (induction n s rule: reduce_magnitude.induct)
  case (1 n s)
  show ?case
  proof (cases "s > 0 \<and> n mod 10 = 0")
    case True
    then have r: "reduce_magnitude (n div 10) (s - 1) = (n', s')"
      using "1.prems" by (subst (asm) reduce_magnitude.simps) simp
    have IH: "s' \<le> s - 1 \<and> n div 10 = n' * 10 ^ (s - 1 - s') \<and> (s' > 0 \<longrightarrow> \<not> 10 dvd n')"
      using "1.IH" [OF True r] .
    have "n = 10 * (n div 10)" using True by presburger
    also have "\<dots> = n' * 10 ^ Suc (s - 1 - s')" using IH by simp
    also have "Suc (s - 1 - s') = s - s'" using conjunct1 [OF IH] conjunct1 [OF True] by arith
    finally have "n = n' * 10 ^ (s - s')" .
    moreover have "s' \<le> s" using conjunct1 [OF IH] by arith
    ultimately show ?thesis using IH by blast
  next
    case False
    then have "n' = n" "s' = s"
      using "1.prems" by (auto simp: reduce_magnitude.simps [of n s] split: if_splits)
    with False show ?thesis by auto
  qed
qed

lemma signed_sum_Ok:
  "signed_sum l lneg r rneg = Ok (n, negative) \<Longrightarrow>
     signed negative n = signed lneg l + signed rneg r"
  by (auto simp: signed_sum_def result_simps machine_simps split: if_splits)

lemma signed_sum_Err:
  "signed_sum l lneg r rneg = Err e \<Longrightarrow> lneg = rneg \<and> l + r > u128_max"
  by (auto simp: signed_sum_def checked_add_def split: if_splits)

lemma scale_up_magnitude_eq:
  "k \<le> MAX_SCALE \<Longrightarrow> checked_scale_up_magnitude v k =
     (if v * 10 ^ k \<le> u128_max then Ok (v * 10 ^ k) else Err ArithmeticOverflow)"
proof -
  assume "k \<le> MAX_SCALE"
  then have "(10::nat) ^ k \<le> 10 ^ 38" by (intro power_increasing) (auto simp: MAX_SCALE_def)
  also have "\<dots> \<le> u128_max" by (simp add: u128_max_def)
  finally show ?thesis
    by (simp add: checked_scale_up_magnitude_def checked_pow_def checked_mul_def)
qed

text \<open>
  An aligned operand that leaves \<open>u128\<close> makes the sum unrepresentable: it is a multiple of ten,
  the other operand is not, and their sum is too large and already reduced.
\<close>

lemma overflow_not_represents:
  assumes "10 dvd A" "\<not> 10 dvd B" "\<bar>A\<bar> > int u128_max" "\<bar>B\<bar> \<le> 2 ^ 127"
  shows "\<not> represents d (ratio (A + B) s)"
proof (rule not_represents_large)
  have nd: "\<not> 10 dvd A + B" using assms(1,2) by (simp add: dvd_add_right_iff)
  then show "reduced (A + B) s" by (auto simp: reduced_def)
  have "\<bar>A\<bar> \<noteq> 2 ^ 128"
  proof
    assume "\<bar>A\<bar> = 2 ^ 128"
    moreover have "10 dvd \<bar>A\<bar>" using assms(1) by simp
    ultimately show False by simp
  qed
  then show "\<bar>A + B\<bar> > 2 ^ 127" using assms(3,4) by (simp add: u128_max_def)
qed

lemma sum_overflow_not_represents:
  assumes a: "decimal_wf a" and b: "decimal_wf b" and s: "s = max (scale a) (scale b)"
    and A: "A = mantissa a * 10 ^ (s - scale a)" and B: "\<bar>B\<bar> = \<bar>mantissa b * 10 ^ (s - scale b)\<bar>"
    and big: "\<bar>A + B\<bar> = \<bar>A\<bar> + \<bar>B\<bar>" "\<bar>A\<bar> + \<bar>B\<bar> > int u128_max"
  shows "\<not> represents d (ratio (A + B) s)"
proof (rule not_represents_large)
  have ma: "\<bar>mantissa a\<bar> \<le> 2 ^ 127" "\<bar>mantissa b\<bar> \<le> 2 ^ 127"
    using a b in_i128_abs by (auto simp: decimal_wf_def)
  have B10: "10 dvd B \<longleftrightarrow> 10 dvd mantissa b * 10 ^ (s - scale b)"
    by (metis B dvd_abs_iff)
  show "\<bar>A + B\<bar> > 2 ^ 127" using big by (simp add: u128_max_def)
  have "\<not> 10 dvd A + B" if "s > 0"
  proof (cases "scale a" "scale b" rule: linorder_cases)
    case less
    then have "10 dvd A" by (simp add: A s)
    moreover have "\<not> 10 dvd B" using less b by (auto simp: B10 s decimal_wf_def)
    ultimately show ?thesis by (simp add: dvd_add_right_iff)
  next
    case greater
    then have "10 dvd B" by (simp add: B10 s)
    moreover have "\<not> 10 dvd A" using greater a by (auto simp: A s decimal_wf_def)
    ultimately show ?thesis by (simp add: dvd_add_left_iff)
  next
    case equal
    then have "\<bar>A\<bar> \<le> 2 ^ 127" "\<bar>B\<bar> \<le> 2 ^ 127" using ma B by (simp_all add: A s)
    then have "\<bar>A + B\<bar> = 2 ^ 128" using big by (simp add: u128_max_def)
    moreover have "10 dvd A + B \<longleftrightarrow> 10 dvd \<bar>A + B\<bar>" by simp
    ultimately show ?thesis by simp
  qed
  moreover have "A + B \<noteq> 0" using big by auto
  ultimately show "reduced (A + B) s" by (auto simp: reduced_def)
qed

lemma checked_sum_ratio:
  assumes a: "decimal_wf a" and b: "decimal_wf b"
  defines "s \<equiv> max (scale a) (scale b)"
  shows "checked_sum a b sub = Ok d \<longleftrightarrow>
    represents d (ratio (mantissa a * 10 ^ (s - scale a)
      + (if sub then - mantissa b else mantissa b) * 10 ^ (s - scale b)) s)"
proof -
  define mb where "mb = (if sub then - mantissa b else mantissa b)"
  define A where "A = mantissa a * 10 ^ (s - scale a)"
  define B where "B = mb * 10 ^ (s - scale b)"
  let ?L = "unsigned_abs (mantissa a) * 10 ^ (s - scale a)"
  let ?R = "unsigned_abs (mantissa b) * 10 ^ (s - scale b)"
  let ?ln = "is_negative a" and ?rn = "is_negative b \<noteq> sub"
  have le: "s \<le> MAX_SCALE" using a b by (auto simp: s_def decimal_wf_def)
  have L: "int ?L = \<bar>A\<bar>" and R: "int ?R = \<bar>B\<bar>" by (auto simp: A_def B_def mb_def abs_mult)
  have sL: "signed ?ln ?L = A" by (auto simp: is_negative_def A_def unsigned_abs_def)
  have sR: "signed ?rn ?R = B" by (auto simp: is_negative_def B_def mb_def unsigned_abs_def)
  have ma: "\<bar>mantissa a\<bar> \<le> 2 ^ 127" "\<bar>mb\<bar> \<le> 2 ^ 127"
    using a b in_i128_abs by (auto simp: decimal_wf_def mb_def)
  have d10: "10 dvd mb \<longleftrightarrow> 10 dvd mantissa b" by (simp add: mb_def)
  have u: "checked_scale_up_magnitude (unsigned_abs (mantissa a)) (s - scale a)
      = (if ?L \<le> u128_max then Ok ?L else Err ArithmeticOverflow)"
    "checked_scale_up_magnitude (unsigned_abs (mantissa b)) (s - scale b)
      = (if ?R \<le> u128_max then Ok ?R else Err ArithmeticOverflow)"
    using le by (simp_all add: scale_up_magnitude_eq)
  have goal: "checked_sum a b sub = Ok d \<longleftrightarrow> represents d (ratio (A + B) s)"
  proof (cases "?L \<le> u128_max")
    case False
    then have big: "\<bar>A\<bar> > int u128_max" using L by linarith
    then have "s \<noteq> scale a" using ma by (auto simp: A_def u128_max_def)
    then have lt: "scale a < scale b" "s = scale b" by (auto simp: s_def)
    then have "10 dvd A" "\<not> 10 dvd B" "\<bar>B\<bar> \<le> 2 ^ 127"
      using b ma(2) d10 by (auto simp: A_def B_def decimal_wf_def)
    then have "\<not> represents d (ratio (A + B) s)" using big by (intro overflow_not_represents)
    moreover have "checked_sum a b sub \<noteq> Ok d"
      using False u by (simp add: checked_sum_def Let_def flip: s_def)
    ultimately show ?thesis by blast
  next
    case Lok: True
    show ?thesis
    proof (cases "?R \<le> u128_max")
      case False
      then have big: "\<bar>B\<bar> > int u128_max" using R by linarith
      then have "s \<noteq> scale b" using ma by (auto simp: B_def u128_max_def)
      then have lt: "scale b < scale a" "s = scale a" by (auto simp: s_def)
      then have "10 dvd B" "\<not> 10 dvd A" "\<bar>A\<bar> \<le> 2 ^ 127"
        using a ma(1) by (auto simp: A_def B_def decimal_wf_def)
      then have "\<not> represents d (ratio (B + A) s)" using big by (intro overflow_not_represents)
      then have "\<not> represents d (ratio (A + B) s)" by (simp add: add.commute)
      moreover have "checked_sum a b sub \<noteq> Ok d"
        using False Lok u by (simp add: checked_sum_def Let_def flip: s_def)
      ultimately show ?thesis by blast
    next
      case Rok: True
      have unfolded: "checked_sum a b sub =
          and_then (signed_sum ?L ?ln ?R ?rn) (\<lambda>(n, negative).
            let (n', s') = reduce_magnitude n s
            in and_then (signed_magnitude n' negative) (\<lambda>m. decimal_new m s'))"
        using Lok Rok u by (simp add: checked_sum_def Let_def flip: s_def)
      show ?thesis
      proof (cases "signed_sum ?L ?ln ?R ?rn")
        case (Inl e)
        then have same: "?ln = ?rn" "?L + ?R > u128_max" using signed_sum_Err by blast+
        have "\<bar>A + B\<bar> = \<bar>A\<bar> + \<bar>B\<bar>"
          unfolding sL [symmetric] sR [symmetric] same(1) by (rule abs_signed_add)
        moreover have "\<bar>A\<bar> + \<bar>B\<bar> > int u128_max" using same(2) L R by linarith
        moreover have "\<bar>B\<bar> = \<bar>mantissa b * 10 ^ (s - scale b)\<bar>"
          by (simp add: B_def mb_def abs_mult)
        ultimately have "\<not> represents d (ratio (A + B) s)"
          using sum_overflow_not_represents [OF a b meta_eq_to_obj_eq [OF s_def] A_def] by blast
        then show ?thesis unfolding unfolded Inl by simp
      next
        case (Inr p)
        obtain n negative where p: "p = (n, negative)" by force
        have N: "signed negative n = A + B"
          using signed_sum_Ok [OF Inr [unfolded p]] unfolding sL sR .
        obtain n' s' where red: "reduce_magnitude n s = (n', s')" by force
        note rs = reduce_magnitude_spec [OF red]
        have rd: "reduced (signed negative n') s'"
          using rs by (auto simp: reduced_def int_dvd_int_iff [of 10, simplified] split: if_splits)
        have "ratio (signed negative n') s' = ratio (signed negative n) s"
        proof -
          have "int n * 10 ^ s' = int n' * 10 ^ s"
            using rs by (simp add: mult.assoc flip: power_add)
          then show ?thesis unfolding ratio_eq_iff by auto
        qed
        then have "represents d (ratio (signed negative n') s') \<longleftrightarrow> represents d (ratio (A + B) s)"
          by (simp only: N)
        moreover have "checked_sum a b sub = and_then (signed_magnitude n' negative)
            (\<lambda>m. decimal_new m s')"
          unfolding unfolded Inr p by (simp add: red)
        moreover have "s' \<le> MAX_SCALE" using rs le by simp
        ultimately show ?thesis using signed_new_iff rd by presburger
      qed
    qed
  qed
  then show ?thesis by (simp add: A_def B_def mb_def)
qed

lemma ratio_align:
  assumes "scale a \<le> s" "scale b \<le> s"
  shows "ratio (mantissa a * 10 ^ (s - scale a) + m * 10 ^ (s - scale b)) s
         = decimal_value a + ratio m (scale b)"
proof -
  have "ratio (x * 10 ^ (s - t)) s = ratio x t" if "t \<le> s" for x t
    using that unfolding ratio_eq_iff by (simp add: mult.assoc flip: power_add)
  then show ?thesis using assms unfolding of_int_add add_divide_distrib decimal_value_def by presburger
qed

lemma checked_add_spec:
  assumes "decimal_wf a" "decimal_wf b"
  shows "decimal_checked_add a b = Ok d \<longleftrightarrow> represents d (decimal_value a + decimal_value b)"
  using checked_sum_ratio [OF assms, of False d] ratio_align [of a "max (scale a) (scale b)" b "mantissa b"]
  by (simp add: decimal_checked_add_def decimal_value_def)

lemma checked_sub_spec:
  assumes "decimal_wf a" "decimal_wf b"
  shows "decimal_checked_sub a b = Ok d \<longleftrightarrow> represents d (decimal_value a - decimal_value b)"
  using checked_sum_ratio [OF assms, of True d] ratio_align [of a "max (scale a) (scale b)" b "- mantissa b"]
  by (simp add: decimal_checked_sub_def decimal_value_def)

lemma checked_neg_spec:
  assumes "decimal_wf a"
  shows "decimal_checked_neg a = Ok d \<longleftrightarrow> represents d (- decimal_value a)"
proof -
  have rd: "reduced (- mantissa a) (scale a)" using assms by (simp add: decimal_wf_iff reduced_def)
  have le: "scale a \<le> MAX_SCALE" using assms by (simp add: decimal_wf_def)
  have "decimal_value a = ratio (mantissa a) (scale a)" by (simp add: decimal_value_def)
  then have "- decimal_value a = ratio (- mantissa a) (scale a)" by simp
  then show ?thesis
    using reduced_representable [OF rd, of d] decimal_new_reduced [OF rd le] le
    by (auto simp: decimal_checked_neg_def checked_i128_def)
qed

subsection \<open>Factors of a product\<close>

definition exact_power :: "nat \<Rightarrow> nat \<Rightarrow> nat \<Rightarrow> bool" where
  "exact_power f v k \<longleftrightarrow> f ^ k dvd v \<and> \<not> f ^ Suc k dvd v"

definition splits_products :: "nat \<Rightarrow> bool" where
  "splits_products f \<longleftrightarrow> 1 < f \<and> (\<forall>a b. f dvd a * b \<longrightarrow> f dvd a \<or> f dvd b)"

lemma splits_products_2: "splits_products 2"
  by (auto simp: splits_products_def)

lemma dvd_5_mult: "5 dvd a * b \<Longrightarrow> 5 dvd a \<or> 5 dvd b" for a b :: nat
proof -
  assume "5 dvd a * b"
  then have d: "5 dvd (a mod 5) * b" by (simp add: dvd_eq_mod_eq_0 mod_mult_left_eq)
  have "a mod 5 = 0 \<or> a mod 5 = 1 \<or> a mod 5 = 2 \<or> a mod 5 = 3 \<or> a mod 5 = 4" by presburger
  then show ?thesis
  proof (elim disjE)
    assume "a mod 5 = 0" then show ?thesis by (simp add: dvd_eq_mod_eq_0)
  next
    assume "a mod 5 = 1" then show ?thesis using d by simp
  next
    assume "a mod 5 = 2" then have "5 dvd 2 * b" using d by simp
    then show ?thesis by presburger
  next
    assume "a mod 5 = 3" then have "5 dvd 3 * b" using d by simp
    then show ?thesis by presburger
  next
    assume "a mod 5 = 4" then have "5 dvd 4 * b" using d by simp
    then show ?thesis by presburger
  qed
qed

lemma splits_products_5: "splits_products 5"
  using dvd_5_mult by (simp add: splits_products_def)

lemma coprime_5_2: "coprime (5 ^ i) (2 ^ j :: nat)"
proof -
  have "coprime 5 (2 :: nat)" by (simp add: coprime_iff_gcd_eq_1 gcd_non_0_nat)
  then show ?thesis by simp
qed

lemma exact_power_0: "\<not> f dvd v \<Longrightarrow> exact_power f v 0"
  by (simp add: exact_power_def)

lemma exact_power_Suc: "0 < f \<Longrightarrow> exact_power f v k \<Longrightarrow> exact_power f (f * v) (Suc k)"
  by (simp add: exact_power_def)

lemma exact_power_dvd: "exact_power f v k \<Longrightarrow> j \<le> k \<Longrightarrow> f ^ j dvd v"
  using le_imp_power_dvd dvd_trans unfolding exact_power_def by blast

lemma exact_power_le: "exact_power f v k \<Longrightarrow> f ^ j dvd v \<Longrightarrow> j \<le> k"
  using le_imp_power_dvd dvd_trans unfolding exact_power_def by (meson not_less_eq_eq)

lemma exact_power_mult:
  assumes "splits_products f" "exact_power f a i" "exact_power f b j"
  shows "exact_power f (a * b) (i + j)"
proof -
  obtain a' b' where ab: "a = f ^ i * a'" "b = f ^ j * b'"
    using assms(2,3) by (auto simp: exact_power_def elim!: dvdE)
  have f: "0 < f" using assms(1) by (simp add: splits_products_def)
  have "\<not> f dvd a'" "\<not> f dvd b'" using assms(2,3) f by (auto simp: ab exact_power_def mult.commute)
  then have "\<not> f dvd a' * b'" using assms(1) by (auto simp: splits_products_def)
  moreover have "a * b = f ^ (i + j) * (a' * b')" by (simp add: ab power_add mult_ac)
  ultimately show ?thesis using f by (simp add: exact_power_def mult.commute)
qed

lemma factor_count_loop_spec:
  assumes "0 < v" "1 < f"
  shows "\<exists>k. (\<forall>c. factor_count_loop v f c = Some (c + k)) \<and> exact_power f v k"
  using assms(1)
proof (induction v rule: less_induct)
  case (less v)
  show ?case
  proof (cases "f dvd v")
    case False
    then have "factor_count_loop v f c = Some (c + 0)" for c
      by (subst factor_count_loop.simps) (simp add: dvd_eq_mod_eq_0)
    with False show ?thesis using exact_power_0 by blast
  next
    case True
    then obtain w where w: "v = f * w" ..
    have "0 < w" "w < v" using less.prems assms(2) by (auto simp: w)
    then obtain k where k: "\<forall>c. factor_count_loop w f c = Some (c + k)" "exact_power f w k"
      using less.IH by blast
    have "factor_count_loop v f c = Some (c + Suc k)" for c
      using k(1) assms(2) by (subst factor_count_loop.simps) (simp add: w)
    moreover have "exact_power f v (Suc k)" using k(2) assms(2) by (simp add: w exact_power_Suc)
    ultimately show ?thesis by blast
  qed
qed

lemma total_factor_count_spec:
  assumes "splits_products f"
  shows "list_all (\<lambda>v. 0 < v) vs \<Longrightarrow>
    \<exists>k. total_factor_count vs f = Some k \<and> exact_power f (prod_list vs) k"
proof (induction vs)
  case Nil
  then show ?case using assms by (auto simp: exact_power_def splits_products_def)
next
  case (Cons v vs)
  have f: "1 < f" using assms by (simp add: splits_products_def)
  obtain k where k: "factor_count v f = Some k" "exact_power f v k"
    using factor_count_loop_spec [of v f] Cons.prems f by (auto simp: factor_count_def)
  obtain ks where ks: "total_factor_count vs f = Some ks" "exact_power f (prod_list vs) ks"
    using Cons by auto
  have "total_factor_count (v # vs) f = Some (k + ks)" using k ks by simp
  moreover have "exact_power f (prod_list (v # vs)) (k + ks)"
    using exact_power_mult [OF assms k(2) ks(2)] by simp
  ultimately show ?case by blast
qed

lemma cancel_value_spec:
  "1 < f \<Longrightarrow> cancel_value v f c = (v', c') \<Longrightarrow>
     c' \<le> c \<and> v = v' * f ^ (c - c') \<and> (c' = 0 \<or> \<not> f dvd v')"
proof (induction v f c rule: cancel_value.induct)
  case (1 v f c)
  show ?case
  proof (cases "c > 0 \<and> v mod f = 0")
    case True
    then have r: "cancel_value (v div f) f (c - 1) = (v', c')"
      using "1.prems" by (simp add: cancel_value.simps [of v f c])
    have IH: "c' \<le> c - 1" "v div f = v' * f ^ (c - 1 - c')" "c' = 0 \<or> \<not> f dvd v'"
      using "1.IH" [OF True "1.prems"(1) r] by auto
    have "v = f * (v div f)" using True by (simp add: dvd_eq_mod_eq_0 [symmetric])
    also have "\<dots> = v' * f ^ Suc (c - 1 - c')" using IH by simp
    also have "Suc (c - 1 - c') = c - c'" using IH(1) True by arith
    finally show ?thesis using IH by simp
  next
    case False
    then have "v' = v" "c' = c"
      using "1.prems" by (auto simp: cancel_value.simps [of v f c] split: if_splits)
    with False show ?thesis by auto
  qed
qed

lemma cancel_factor_spec:
  assumes "1 < f"
  shows "cancel_factor vs f c = (vs', c') \<Longrightarrow>
     c' \<le> c \<and> length vs' = length vs \<and> prod_list vs = prod_list vs' * f ^ (c - c')
     \<and> (c' = 0 \<or> list_all (\<lambda>v. \<not> f dvd v) vs')"
proof (induction vs arbitrary: c vs' c')
  case (Cons v vs)
  obtain v1 c1 where v1: "cancel_value v f c = (v1, c1)" by force
  note s1 = cancel_value_spec [OF assms v1]
  show ?case
  proof (cases "c1 = 0")
    case True
    then have "vs' = v1 # vs" "c' = 0" using Cons.prems by (auto simp: v1)
    then show ?thesis using s1 True by (simp add: mult_ac)
  next
    case False
    obtain vs2 c2 where vs2: "cancel_factor vs f c1 = (vs2, c2)" by force
    note s2 = Cons.IH [OF vs2]
    have eqs: "vs' = v1 # vs2" "c' = c2" using Cons.prems False by (auto simp: v1 vs2)
    have "f ^ (c - c1) * f ^ (c1 - c2) = f ^ (c - c2)"
      using s1 s2 by (simp flip: power_add)
    then have "prod_list (v # vs) = prod_list vs' * f ^ (c - c2)"
      using s1 s2 by (simp add: eqs mult_ac)
    then show ?thesis using s1 s2 False by (auto simp: eqs)
  qed
qed simp

lemma not_dvd_prod_list:
  "splits_products f \<Longrightarrow> list_all (\<lambda>v. \<not> f dvd v) vs \<Longrightarrow> \<not> f dvd prod_list vs"
  by (induction vs) (auto simp: splits_products_def)

text \<open>Enough factors are there, so the loop removes all of them: the \<open>debug_assert\<close> holds.\<close>

lemma cancel_factor_all:
  assumes "splits_products f" "f ^ c dvd prod_list vs"
  obtains vs' where "cancel_factor vs f c = (vs', 0)" "length vs' = length vs"
    "prod_list vs = prod_list vs' * f ^ c"
proof -
  have f: "1 < f" using assms(1) by (simp add: splits_products_def)
  obtain vs' c' where r: "cancel_factor vs f c = (vs', c')" by force
  note s = cancel_factor_spec [OF f r]
  have "c' = 0"
  proof (rule ccontr)
    assume c': "c' \<noteq> 0"
    then have nd: "\<not> f dvd prod_list vs'" using s assms(1) not_dvd_prod_list by blast
    have "f ^ c = f ^ c' * f ^ (c - c')" using s by (simp flip: power_add)
    then have "f ^ c' * f ^ (c - c') dvd prod_list vs' * f ^ (c - c')" using s assms(2) by simp
    then have "f ^ c' dvd prod_list vs'" using f by simp
    then have "f dvd prod_list vs'" using c' dvd_trans dvd_power [of c' f] by blast
    with nd show False by blast
  qed
  then show thesis using that r s by auto
qed

lemma factors_cancel:
  assumes "list_all (\<lambda>v. 0 < v) vs"
  obtains twos fives vs1 vs2 where
    "total_factor_count vs 2 = Some twos" "total_factor_count vs 5 = Some fives"
    "cancel_factor vs 2 (min (min S twos) fives) = (vs1, 0)"
    "cancel_factor vs1 5 (min (min S twos) fives) = (vs2, 0)"
    "length vs2 = length vs"
    "prod_list vs = prod_list vs2 * 10 ^ min (min S twos) fives"
    "S - min (min S twos) fives > 0 \<longrightarrow> \<not> 10 dvd prod_list vs2"
proof -
  obtain twos where twos: "total_factor_count vs 2 = Some twos" "exact_power 2 (prod_list vs) twos"
    using total_factor_count_spec [OF splits_products_2 assms] by blast
  obtain fives where fives: "total_factor_count vs 5 = Some fives" "exact_power 5 (prod_list vs) fives"
    using total_factor_count_spec [OF splits_products_5 assms] by blast
  define c where "c = min (min S twos) fives"
  have "2 ^ c dvd prod_list vs" using exact_power_dvd [OF twos(2)] by (simp add: c_def)
  then obtain vs1 where vs1: "cancel_factor vs 2 c = (vs1, 0)" "length vs1 = length vs"
    "prod_list vs = prod_list vs1 * 2 ^ c"
    using cancel_factor_all [OF splits_products_2] by blast
  have "5 ^ c dvd prod_list vs1 * 2 ^ c"
    using exact_power_dvd [OF fives(2), of c] vs1(3) by (simp add: c_def)
  then have "5 ^ c dvd prod_list vs1" by (simp add: coprime_dvd_mult_left_iff coprime_5_2)
  then obtain vs2 where vs2: "cancel_factor vs1 5 c = (vs2, 0)" "length vs2 = length vs1"
    "prod_list vs1 = prod_list vs2 * 5 ^ c"
    using cancel_factor_all [OF splits_products_5] by blast
  have ten: "(10::nat) ^ k = 2 ^ k * 5 ^ k" for k by (simp flip: power_mult_distrib)
  have p: "prod_list vs = prod_list vs2 * 10 ^ c" using vs1(3) vs2(3) by (simp add: ten mult_ac)
  have len: "length vs2 = length vs" using vs1(2) vs2(2) by simp
  have nd: "S - c > 0 \<longrightarrow> \<not> 10 dvd prod_list vs2"
  proof (intro impI notI)
    assume Sc: "S - c > 0" and "10 dvd prod_list vs2"
    from this(2) have "10 * 10 ^ c dvd prod_list vs2 * 10 ^ c" by (rule mult_dvd_mono) simp
    then have "2 ^ Suc c * 5 ^ Suc c dvd prod_list vs"
      unfolding ten [symmetric] p by simp
    then have "2 ^ Suc c dvd prod_list vs" "5 ^ Suc c dvd prod_list vs"
      by (blast intro: dvd_mult_left dvd_mult_right)+
    then have "Suc c \<le> twos" "Suc c \<le> fives"
      using exact_power_le twos(2) fives(2) by blast+
    with Sc show False by (simp add: c_def min_def split: if_splits)
  qed
  show thesis
    by (rule that [of twos fives vs1 vs2, folded c_def]) (fact twos fives vs1 vs2 p len nd)+
qed

end
