(* ===== verification/Decimal_Product.thy ===== *)
theory Decimal_Product
  imports Decimal_Arith
begin

text \<open>
  Products and exact quotients of decimals: both return, and they return a decimal exactly
  when the mathematical result has a canonical representation.
\<close>

subsection \<open>Products\<close>

lemma reduced_signed_iff: "reduced (signed negative n) s \<longleftrightarrow> reduced (int n) s"
  by (auto simp: reduced_def)

lemma reduced_int: "0 < n \<Longrightarrow> (s > 0 \<longrightarrow> \<not> 10 dvd n) \<Longrightarrow> reduced (int n) s"
  using int_dvd_int_iff [of 10 n] by (auto simp: reduced_def)

abbreviation u128_or_overflow :: "nat \<Rightarrow> (nat, DecimalError) result" where
  "u128_or_overflow n \<equiv> (if n \<le> u128_max then Ok n else Err ArithmeticOverflow)"

lemma magnitude_tail:
  assumes s: "s \<le> MAX_SCALE" and rd: "reduced (int n) s \<or> in_i128 (signed negative n)"
  shows "and_then (u128_or_overflow n) (\<lambda>magnitude.
           and_then (signed_magnitude magnitude negative) (\<lambda>m. decimal_new m s)) = Ok d
         \<longleftrightarrow> represents d (ratio (signed negative n) s)"
proof (cases "n \<le> u128_max")
  case True
  have "in_i128 (signed negative n) \<or> reduced (signed negative n) s"
    using rd reduced_signed_iff by blast
  then show ?thesis using signed_new_iff [OF s] by (simp only: True if_True and_then_simps)
next
  case False
  then have big: "\<bar>signed negative n\<bar> > 2 ^ 127" by (simp add: u128_max_def)
  then have "reduced (signed negative n) s" using rd not_in_i128 reduced_signed_iff by blast
  then show ?thesis using False not_represents_large [OF _ big] by simp
qed

lemma product_tail:
  assumes "0 < n" "s > 0 \<longrightarrow> \<not> 10 dvd n"
  shows "(if s > MAX_SCALE then Err ScaleTooLarge
          else and_then (u128_or_overflow n) (\<lambda>magnitude.
               and_then (signed_magnitude magnitude negative) (\<lambda>m. decimal_new m s))) = Ok d
         \<longleftrightarrow> represents d (ratio (signed negative n) s)"
proof -
  have rd: "reduced (int n) s" using assms by (rule reduced_int)
  then have "reduced (signed negative n) s" unfolding reduced_signed_iff .
  then show ?thesis
    using magnitude_tail [of s n negative d] rd not_represents_scale by (cases "s > MAX_SCALE") simp_all
qed

lemma ratio_cancel:
  assumes "c \<le> S"
  shows "ratio (signed negative (n * 10 ^ c)) S = ratio (signed negative n) (S - c)"
proof -
  have "10 ^ c * 10 ^ (S - c) = (10 ^ S :: int)" using assms by (simp flip: power_add)
  then show ?thesis unfolding ratio_eq_iff by (simp add: mult.assoc)
qed

lemma signed_mult: "signed p m * signed q n = signed (p \<noteq> q) (m * n)"
  by simp

lemma ratio_mult: "ratio x s * ratio y t = ratio (x * y) (s + t)"
  by (simp add: power_add)

lemma decimal_value_signed:
  "decimal_value a = ratio (signed (is_negative a) (unsigned_abs (mantissa a))) (scale a)"
  unfolding is_negative_def signed_abs by (rule decimal_value_def)

lemma value_mult:
  "decimal_value a * decimal_value b =
     ratio (signed (is_negative a \<noteq> is_negative b)
             (unsigned_abs (mantissa a) * unsigned_abs (mantissa b))) (scale a + scale b)"
  unfolding decimal_value_signed ratio_mult signed_mult ..

lemma decimal_value_0: "is_zero a \<Longrightarrow> decimal_value a = 0"
  by (simp add: is_zero_def decimal_value_def)

lemma represents_0: "represents d 0 \<longleftrightarrow> d = \<lparr>mantissa = 0, scale = 0\<rparr>"
  using reduced_representable [of 0 0 d] by (simp add: reduced_def in_i128_def i128_min_def i128_max_def)

lemma new_zero: "decimal_new 0 0 = Ok d \<longleftrightarrow> represents d 0"
  unfolding represents_0 by (auto simp: decimal_new_0)

lemma checked_mul_spec:
  assumes "decimal_wf a" "decimal_wf b"
  shows "\<exists>r. decimal_checked_mul a b = Some r
           \<and> (\<forall>d. r = Ok d \<longleftrightarrow> represents d (decimal_value a * decimal_value b))"
proof (cases "is_zero a \<or> is_zero b")
  case True
  then have "decimal_value a * decimal_value b = 0" using decimal_value_0 by auto
  moreover have "decimal_checked_mul a b = Some (decimal_new 0 0)"
    using True unfolding decimal_checked_mul_def by (simp only: if_True)
  ultimately show ?thesis using new_zero by (simp only: option.inject) blast
next
  case False
  let ?vs = "[unsigned_abs (mantissa a), unsigned_abs (mantissa b)]"
  let ?S = "scale a + scale b" and ?neg = "is_negative a \<noteq> is_negative b"
  have pos: "list_all (\<lambda>v. 0 < v) ?vs" using False by (simp add: is_zero_def unsigned_abs_def)
  have S: "checked_add u32_max (scale a) (scale b) = Some ?S"
    using assms by (simp add: checked_add_def decimal_wf_def MAX_SCALE_def u32_max_def)
  obtain twos fives vs1 vs2 where t:
    "total_factor_count ?vs 2 = Some twos" "total_factor_count ?vs 5 = Some fives"
    "cancel_factor ?vs 2 (min (min ?S twos) fives) = (vs1, 0)"
    "cancel_factor vs1 5 (min (min ?S twos) fives) = (vs2, 0)"
    "length vs2 = length ?vs"
    "prod_list ?vs = prod_list vs2 * 10 ^ min (min ?S twos) fives"
    "?S - min (min ?S twos) fives > 0 \<longrightarrow> \<not> 10 dvd prod_list vs2"
    using factors_cancel [OF pos] .
  define c where "c = min (min ?S twos) fives"
  note cancel = t(3,4) [folded c_def]
  obtain x y where xy: "vs2 = [x, y]" using t(5) by (auto simp: length_Suc_conv)
  let ?r = "(if ?S - c > MAX_SCALE then Err ScaleTooLarge
          else and_then (if x * y \<le> u128_max then Ok (x * y) else Err ArithmeticOverflow) (\<lambda>magnitude.
               and_then (signed_magnitude magnitude ?neg) (\<lambda>m. decimal_new m (?S - c))))"
  have eq: "decimal_checked_mul a b = Some ?r"
    using False unfolding decimal_checked_mul_def
    by (simp only: S option.case Let_def t(1,2) cancel Option.bind.simps prod.case xy nth_Cons_0
        if_False simp_thms checked_mul_def c_def [symmetric] One_nat_def nth_Cons_Suc)
       (simp add: ok_or_def)
  have pos2: "x * y > 0"
  proof -
    have "prod_list ?vs > 0" using pos by simp
    then show ?thesis unfolding t(6) xy by simp
  qed
  have red: "?S - c > 0 \<longrightarrow> \<not> 10 dvd x * y" using t(7) by (simp add: xy c_def)
  have val: "decimal_value a * decimal_value b = ratio (signed ?neg (x * y)) (?S - c)"
  proof -
    have "unsigned_abs (mantissa a) * unsigned_abs (mantissa b) = x * y * 10 ^ c"
      using t(6) by (simp add: xy c_def)
    then show ?thesis unfolding value_mult using ratio_cancel [of c ?S ?neg "x * y"]
      by (simp only:) (simp add: c_def)
  qed
  show ?thesis unfolding eq val using product_tail [OF pos2 red]
    by (intro exI [of _ ?r] conjI refl allI)
qed

lemma checked_product_eq:
  "list_all (\<lambda>v. 0 < v) vs \<Longrightarrow> p \<le> u128_max \<Longrightarrow>
     checked_product p vs =
       (if p * prod_list vs \<le> u128_max then Ok (p * prod_list vs) else Err ArithmeticOverflow)"
proof (induction vs arbitrary: p)
  case (Cons v vs)
  show ?case
  proof (cases "p * v \<le> u128_max")
    case True
    have "checked_product (p * v) vs = (if p * v * prod_list vs \<le> u128_max
        then Ok (p * v * prod_list vs) else Err ArithmeticOverflow)"
      using Cons.prems True by (intro Cons.IH) simp_all
    with True show ?thesis
      by (simp only: checked_product.simps checked_mul_def if_True option.case prod_list.Cons mult.assoc
          ok_or_def and_then_simps)
  next
    case False
    have "list_all (\<lambda>v. 0 < v) vs \<Longrightarrow> prod_list vs > 0" by (induction vs) simp_all
    then have "prod_list vs > 0" using Cons.prems(1) by simp
    then have "p * v * 1 \<le> p * v * prod_list vs" by (intro mult_left_mono) auto
    then have "p * v \<le> p * prod_list (v # vs)" by (simp only: mult.assoc mult_1_right prod_list.Cons)
    then have "\<not> p * prod_list (v # vs) \<le> u128_max" using False by linarith
    then show ?thesis using False by (simp add: checked_mul_def)
  qed
qed simp

lemma value_mult3:
  "decimal_value a * decimal_value b * decimal_value c =
     ratio (signed ((is_negative a \<noteq> is_negative b) \<noteq> is_negative c)
             (unsigned_abs (mantissa a) * unsigned_abs (mantissa b) * unsigned_abs (mantissa c)))
           (scale a + scale b + scale c)"
  unfolding decimal_value_signed ratio_mult signed_mult ..

lemma checked_product3_spec:
  assumes "decimal_wf a" "decimal_wf b" "decimal_wf c"
  shows "\<exists>r. decimal_checked_product3 a b c = Some r
           \<and> (\<forall>d. r = Ok d \<longleftrightarrow> represents d (decimal_value a * decimal_value b * decimal_value c))"
proof (cases "is_zero a \<or> is_zero b \<or> is_zero c")
  case True
  then have "decimal_value a * decimal_value b * decimal_value c = 0" using decimal_value_0 by auto
  moreover have "decimal_checked_product3 a b c = Some (decimal_new 0 0)"
    using True unfolding decimal_checked_product3_def by (simp only: if_True)
  ultimately show ?thesis using new_zero by (simp only: option.inject) blast
next
  case False
  let ?vs = "[unsigned_abs (mantissa a), unsigned_abs (mantissa b), unsigned_abs (mantissa c)]"
  let ?S = "scale a + scale b + scale c"
  let ?neg = "(is_negative a \<noteq> is_negative b) \<noteq> is_negative c"
  have pos: "list_all (\<lambda>v. 0 < v) ?vs" using False by (simp add: is_zero_def unsigned_abs_def)
  have S: "Option.bind (checked_add u32_max (scale a) (scale b))
             (\<lambda>s. checked_add u32_max s (scale c)) = Some ?S"
    using assms by (simp add: checked_add_def decimal_wf_def MAX_SCALE_def u32_max_def)
  obtain twos fives vs1 vs2 where t:
    "total_factor_count ?vs 2 = Some twos" "total_factor_count ?vs 5 = Some fives"
    "cancel_factor ?vs 2 (min (min ?S twos) fives) = (vs1, 0)"
    "cancel_factor vs1 5 (min (min ?S twos) fives) = (vs2, 0)"
    "length vs2 = length ?vs"
    "prod_list ?vs = prod_list vs2 * 10 ^ min (min ?S twos) fives"
    "?S - min (min ?S twos) fives > 0 \<longrightarrow> \<not> 10 dvd prod_list vs2"
    using factors_cancel [OF pos] .
  define k where "k = min (min ?S twos) fives"
  note cancel = t(3,4) [folded k_def]
  have n: "prod_list vs2 > 0"
  proof -
    have "prod_list ?vs > 0" using pos by simp
    then show ?thesis unfolding t(6) by simp
  qed
  have "list_all (\<lambda>v. 0 < v) vs2"
    using n by (induction vs2) auto
  then have prod: "checked_product 1 vs2 =
      (if prod_list vs2 \<le> u128_max then Ok (prod_list vs2) else Err ArithmeticOverflow)"
    using checked_product_eq [of vs2 1] by (simp add: u128_max_def)
  let ?r = "(if ?S - k > MAX_SCALE then Err ScaleTooLarge
          else and_then (if prod_list vs2 \<le> u128_max then Ok (prod_list vs2)
                         else Err ArithmeticOverflow) (\<lambda>magnitude.
               and_then (signed_magnitude magnitude ?neg) (\<lambda>m. decimal_new m (?S - k))))"
  have eq: "decimal_checked_product3 a b c = Some ?r"
    using False unfolding decimal_checked_product3_def
    by (simp only: S option.case Let_def t(1,2) cancel Option.bind.simps prod.case prod
        if_False simp_thms k_def [symmetric])
  have red: "?S - k > 0 \<longrightarrow> \<not> 10 dvd prod_list vs2" using t(7) by (simp add: k_def)
  have val: "decimal_value a * decimal_value b * decimal_value c
      = ratio (signed ?neg (prod_list vs2)) (?S - k)"
  proof -
    have "unsigned_abs (mantissa a) * unsigned_abs (mantissa b) * unsigned_abs (mantissa c)
        = prod_list vs2 * 10 ^ k"
      using t(6) by (simp add: k_def mult.assoc)
    then show ?thesis unfolding value_mult3 using ratio_cancel [of k ?S ?neg "prod_list vs2"]
      by (simp only:) (simp add: k_def)
  qed
  show ?thesis unfolding eq val using product_tail [OF n red]
    by (intro exI [of _ ?r] conjI refl allI)
qed

subsection \<open>Exact quotients\<close>

lemma greatest_common_divisor_gcd: "greatest_common_divisor a b = gcd a b"
proof (induction a b rule: greatest_common_divisor.induct)
  case (1 a b)
  then show ?case
    by (cases "b = 0") (simp_all add: greatest_common_divisor.simps [of a b]
        greatest_common_divisor.simps [of a 0] gcd_red_nat [of a b])
qed

lemma remove_factor_spec:
  assumes "0 < v" "1 < f"
  shows "\<exists>w k. (\<forall>c. remove_factor v f c = Some (w, c + k)) \<and> v = w * f ^ k \<and> \<not> f dvd w"
  using assms(1)
proof (induction v rule: less_induct)
  case (less v)
  show ?case
  proof (cases "f dvd v")
    case False
    then have "remove_factor v f c = Some (v, c + 0)" for c
      by (subst remove_factor.simps) (simp add: dvd_eq_mod_eq_0)
    with False show ?thesis by (intro exI [of _ v] exI [of _ 0]) simp
  next
    case True
    then obtain u where u: "v = f * u" ..
    have "0 < u" "u < v" using less.prems assms(2) by (auto simp: u)
    then obtain w k where k: "\<forall>c. remove_factor u f c = Some (w, c + k)" "u = w * f ^ k" "\<not> f dvd w"
      using less.IH by blast
    have "remove_factor v f c = Some (w, c + Suc k)" for c
      using k(1) assms(2) by (subst remove_factor.simps) (simp add: u)
    moreover have "v = w * f ^ Suc k" by (simp add: u k(2) mult_ac)
    ultimately show ?thesis using k(3) by blast
  qed
qed

lemma multiply_power_eq:
  "0 < v \<Longrightarrow> checked_multiply_power v f k =
     (if v * f ^ k \<le> u128_max then Ok (v * f ^ k) else Err ArithmeticOverflow)"
proof -
  assume v: "0 < v"
  have "1 * f ^ k \<le> v * f ^ k" using v by (intro mult_right_mono) auto
  then have "v * f ^ k \<le> u128_max \<longrightarrow> f ^ k \<le> u128_max" by linarith
  then show ?thesis
    by (cases "f ^ k \<le> u128_max"; cases "v * f ^ k \<le> u128_max")
       (simp_all add: checked_multiply_power_def checked_pow_def checked_mul_def ok_or_def)
qed

lemma power_step:
  assumes "0 < n" "0 < f"
  shows "and_then (u128_or_overflow n) (\<lambda>x. and_then (checked_multiply_power x f k) F) =
           and_then (u128_or_overflow (n * f ^ k)) F"
proof -
  have "n * 1 \<le> n * f ^ k" using assms by (intro mult_left_mono) auto
  then have "n * f ^ k \<le> u128_max \<longrightarrow> n \<le> u128_max" by linarith
  then show ?thesis by (cases "n \<le> u128_max") (simp_all add: multiply_power_eq assms)
qed

lemma nat_abs_ratio:
  assumes "ratio m s = ratio (signed neg x) i / ratio (signed neg' y) j" "0 < y"
  shows "nat \<bar>m\<bar> * y * 10 ^ i = x * 10 ^ (j + s)"
proof -
  have "ratio (m * signed neg' y) (s + j) = ratio (signed neg x) i * ratio 1 j * 10 ^ j"
    using assms by (auto simp: power_add field_simps split: if_splits)
  also have "\<dots> = ratio (signed neg x) i" by simp
  finally have "m * signed neg' y * 10 ^ i = signed neg x * 10 ^ (s + j)" unfolding ratio_eq_iff .
  then have "\<bar>m * signed neg' y * 10 ^ i\<bar> = \<bar>signed neg x * 10 ^ (s + j)\<bar>" by simp
  then have "int (nat \<bar>m\<bar> * y * 10 ^ i) = int (x * 10 ^ (j + s))"
    by (simp add: abs_mult add.commute split: if_splits)
  then show ?thesis by (simp only: of_nat_eq_iff)
qed

lemma coprime_ten_power:
  assumes "\<not> 2 dvd (d::nat)" "\<not> 5 dvd d"
  shows "coprime d (10 ^ k)"
proof -
  have "coprime 2 d" using assms(1) by simp
  moreover have "coprime 5 d"
  proof (rule coprimeI)
    fix c assume c: "c dvd 5" "c dvd d"
    have "c \<le> 5" using c(1) by (rule dvd_imp_le) simp
    then have "c \<in> {0, 1, 2, 3, 4, 5}" by auto
    then show "is_unit c" using c assms(2) by auto
  qed
  ultimately have "coprime (2 * 5) d" by (simp only: coprime_mult_left_iff)
  then show ?thesis by (simp add: coprime_commute)
qed

lemma not_dvd_ten:
  assumes co: "coprime n (2 ^ t * 5 ^ f :: nat)" and p: "p = max t f" "0 < p"
  shows "\<not> 10 dvd n * 2 ^ (p - t) * 5 ^ (p - f)"
proof
  assume "10 dvd n * 2 ^ (p - t) * 5 ^ (p - f)"
  moreover have "2 dvd (10::nat)" "5 dvd (10::nat)" by simp_all
  ultimately have "2 dvd n * 2 ^ (p - t) * 5 ^ (p - f)" "5 dvd n * 2 ^ (p - t) * 5 ^ (p - f)"
    using dvd_trans by blast+
  moreover have "coprime 2 ((5::nat) ^ (p - f))" "coprime 5 ((2::nat) ^ (p - t))"
    using coprime_5_2 [of "p - f" 1] coprime_5_2 [of 1 "p - t"] by (simp_all add: coprime_commute)
  ultimately have "2 dvd n * 2 ^ (p - t)" "5 dvd n * 5 ^ (p - f) * 2 ^ (p - t)"
    using coprime_dvd_mult_left_iff [of 2 "5 ^ (p - f)" "n * 2 ^ (p - t)"]
    by (blast, simp only: ac_simps)
  then have d: "2 dvd n * 2 ^ (p - t)" "5 dvd n * 5 ^ (p - f)"
    using \<open>coprime 5 (2 ^ (p - t))\<close> coprime_dvd_mult_left_iff by blast+
  show False
  proof (cases "p = t")
    case True
    then have "2 dvd n" "2 dvd 2 ^ t * (5::nat) ^ f" using d p by auto
    with co show False using coprime_common_divisor_nat [of n _ 2] by simp
  next
    case False
    then have "5 dvd n" "5 dvd 2 ^ t * (5::nat) ^ f" using d p by auto
    with co have "(5::nat) = 1" using coprime_common_divisor_nat [of n "2 ^ t * 5 ^ f" 5] by blast
    then show False by simp
  qed
qed

lemma quotient_parts:
  assumes a: "mantissa a \<noteq> 0" and b: "mantissa b \<noteq> 0"
  obtains n dd t f d1 d2 where
    "unsigned_abs (mantissa a) div greatest_common_divisor (unsigned_abs (mantissa a))
       (unsigned_abs (mantissa b)) = n"
    "unsigned_abs (mantissa b) div greatest_common_divisor (unsigned_abs (mantissa a))
       (unsigned_abs (mantissa b)) = dd"
    "0 < n" "0 < dd" "coprime n dd" "n \<le> unsigned_abs (mantissa a)"
    "remove_factor dd 2 0 = Some (d1, t)" "remove_factor d1 5 0 = Some (d2, f)"
    "dd = d2 * (2 ^ t * 5 ^ f)" "\<not> 2 dvd d2" "\<not> 5 dvd d2"
    "decimal_value a / decimal_value b =
       ratio (signed (is_negative a) n) (scale a) / ratio (signed (is_negative b) dd) (scale b)"
proof -
  let ?A = "unsigned_abs (mantissa a)" and ?B = "unsigned_abs (mantissa b)"
  define g where "g = gcd ?A ?B"
  define n where "n = ?A div g"
  define dd where "dd = ?B div g"
  have g: "0 < g" using a by (simp add: g_def)
  have A: "?A = n * g" and B: "?B = dd * g" by (simp_all add: n_def dd_def g_def)
  then have pos: "0 < n" "0 < dd" using a b by (simp_all flip: unsigned_abs_0_iff)
  have co: "coprime n dd" unfolding n_def dd_def g_def using a by (intro div_gcd_coprime) simp
  have le: "n \<le> ?A" by (simp add: n_def)
  obtain d1 t where t: "\<forall>c. remove_factor dd 2 c = Some (d1, c + t)" "dd = d1 * 2 ^ t" "\<not> 2 dvd d1"
    using remove_factor_spec [OF pos(2), of 2] by auto
  then have "0 < d1" using pos(2) by simp
  then obtain d2 f where f: "\<forall>c. remove_factor d1 5 c = Some (d2, c + f)" "d1 = d2 * 5 ^ f" "\<not> 5 dvd d2"
    using remove_factor_spec [of d1 5] by auto
  have cancel: "ratio (signed p (n * g)) i / ratio (signed q (dd * g)) j =
      ratio (signed p n) i / ratio (signed q dd) j" for p q i j
    using g by (cases p; cases q) simp_all
  have val: "decimal_value a / decimal_value b =
       ratio (signed (is_negative a) n) (scale a) / ratio (signed (is_negative b) dd) (scale b)"
    unfolding decimal_value_signed A B by (rule cancel)
  have "\<not> 2 dvd d2" using t(3) by (auto simp: f(2))
  moreover have "dd = d2 * (2 ^ t * 5 ^ f)" by (simp add: t(2) f(2))
  ultimately show thesis
    using pos co le f(1,3) t(1)
    by (intro that [of n dd d1 t d2 f])
       (simp_all only: greatest_common_divisor_gcd g_def [symmetric] n_def [symmetric]
          dd_def [symmetric] add_0 val simp_thms)
qed

lemma quotient_inexact:
  assumes "coprime n dd" "0 < dd" "d2 dvd dd" "\<not> 2 dvd d2" "\<not> 5 dvd d2" "d2 \<noteq> 1"
  shows "\<not> represents d (ratio (signed p n) i / ratio (signed q dd) j)"
proof
  assume "represents d (ratio (signed p n) i / ratio (signed q dd) j)"
  then have "nat \<bar>mantissa d\<bar> * dd * 10 ^ i = n * 10 ^ (j + scale d)"
    unfolding decimal_value_def using nat_abs_ratio assms(2) by blast
  then have "dd dvd n * 10 ^ (j + scale d)" by (metis dvd_triv_left mult.assoc mult.commute)
  then have "dd dvd 10 ^ (j + scale d)"
    using assms(1) by (simp only: coprime_commute coprime_dvd_mult_right_iff)
  then have "d2 dvd 10 ^ (j + scale d)" using assms(3) dvd_trans by blast
  moreover have "coprime d2 (10 ^ (j + scale d))" using assms(4,5) by (rule coprime_ten_power)
  ultimately have "is_unit d2" by (metis coprime_common_divisor dvd_refl)
  then show False using assms(6) by simp
qed

lemma quotient_exact:
  assumes "p = max t f" "rs = int p + int i - int j"
  shows "ratio (signed x n) i / ratio (signed y (2 ^ t * 5 ^ f)) j =
    (if rs < 0 then ratio (signed (x \<noteq> y) (n * 2 ^ (p - t) * 5 ^ (p - f) * 10 ^ nat (- rs))) 0
     else ratio (signed (x \<noteq> y) (n * 2 ^ (p - t) * 5 ^ (p - f))) (nat rs))"
proof -
  let ?c = "2 ^ (p - t) * 5 ^ (p - f) :: nat" and ?d = "2 ^ t * 5 ^ f :: nat"
  have "2 ^ (p - t) * 2 ^ t = (2 ^ p :: nat)" "5 ^ (p - f) * 5 ^ f = (5 ^ p :: nat)"
    using assms(1) by (simp_all flip: power_add)
  moreover have "?c * ?d = (2 ^ (p - t) * 2 ^ t) * (5 ^ (p - f) * 5 ^ f)" by (simp only: ac_simps)
  ultimately have c: "?c * ?d = 10 ^ p" by (simp only: power_mult_distrib [symmetric]) simp
  have "ratio (signed x n) i / ratio (signed y ?d) j =
      ratio (signed x n) i * of_nat ?c / (ratio (signed y ?d) j * of_nat ?c)" by simp
  also have "ratio (signed y ?d) j * of_nat ?c = ratio (signed y (?c * ?d)) j"
    by (cases y) simp_all
  also have "ratio (signed x n) i * of_nat ?c / ratio (signed y (?c * ?d)) j =
      ratio (signed (x \<noteq> y) (n * ?c)) i * 10 ^ j / 10 ^ p"
    unfolding c by (cases x; cases y) simp_all
  also have "\<dots> = (if rs < 0 then ratio (signed (x \<noteq> y) (n * ?c * 10 ^ nat (- rs))) 0
     else ratio (signed (x \<noteq> y) (n * ?c)) (nat rs))"
  proof (cases "rs < 0")
    case True
    then have "(10 ^ j :: rat) = 10 ^ nat (- rs) * 10 ^ (i + p)"
      using assms(2) by (simp flip: power_add)
    then show ?thesis using True by (simp add: power_add)
  next
    case False
    then have "(10 ^ i * 10 ^ p :: rat) = 10 ^ nat rs * 10 ^ j"
      using assms(2) by (simp flip: power_add)
    then show ?thesis using False by (simp add: divide_simps)
  qed
  finally show ?thesis by (simp only: mult.assoc)
qed

lemma div_tail:
  assumes n: "0 < n" and co: "coprime n (2 ^ t * 5 ^ f)" and le: "n \<le> 2 ^ 127"
    and p: "p = max t f" and rs: "rs = int p + int i - int j" and i: "i \<le> MAX_SCALE"
  shows "(if rs > int MAX_SCALE then Err PrecisionLoss
          else and_then (checked_multiply_power n 2 (p - t)) (\<lambda>n1.
               and_then (checked_multiply_power n1 5 (p - f)) (\<lambda>n2.
               and_then (if rs < 0
                         then and_then (checked_multiply_power n2 10 (nat (- rs))) (\<lambda>n3. Ok (n3, 0))
                         else Ok (n2, nat rs)) (\<lambda>(n, s).
               and_then (signed_magnitude n (x \<noteq> y)) (\<lambda>m. decimal_new m s))))) = Ok d
         \<longleftrightarrow> represents d (ratio (signed x n) i / ratio (signed y (2 ^ t * 5 ^ f)) j)"
  (is "(if _ then _ else ?run) = _ \<longleftrightarrow> _")
proof -
  define n' where "n' = n * 2 ^ (p - t) * 5 ^ (p - f)"
  have n': "0 < n'" using n by (simp add: n'_def)
  have start: "and_then (checked_multiply_power n 2 (p - t)) F =
      and_then (u128_or_overflow (n * 2 ^ (p - t))) F" for F :: "nat \<Rightarrow> ('b, DecimalError) result"
    by (simp only: multiply_power_eq [OF n])
  have run: "?run = and_then (u128_or_overflow n') (\<lambda>n2.
               and_then (if rs < 0
                         then and_then (checked_multiply_power n2 10 (nat (- rs))) (\<lambda>n3. Ok (n3, 0))
                         else Ok (n2, nat rs)) (\<lambda>(n, s).
               and_then (signed_magnitude n (x \<noteq> y)) (\<lambda>m. decimal_new m s)))"
    unfolding start n'_def using n by (intro power_step) simp_all
  have p0: "p = 0 \<Longrightarrow> n' = n" by (simp add: n'_def)
  have red: "0 < p \<Longrightarrow> reduced (int n') s" for s
    using not_dvd_ten [OF co p] n' by (intro reduced_int) (simp_all add: n'_def)
  consider "rs > int MAX_SCALE" | "rs < 0" | "0 \<le> rs" "rs \<le> int MAX_SCALE" by linarith
  then show ?thesis
  proof cases
    case 1
    then have "0 < p" "nat rs > MAX_SCALE" "\<not> rs < 0" using rs i by (auto simp: MAX_SCALE_def)
    then show ?thesis
      using 1 red not_represents_scale reduced_signed_iff
      unfolding quotient_exact [OF p rs] n'_def [symmetric] by (simp only: if_True if_False) blast
  next
    case 2
    then have "?run = and_then (u128_or_overflow n') (\<lambda>n2.
        and_then (checked_multiply_power n2 10 (nat (- rs))) (\<lambda>n3.
        and_then (signed_magnitude n3 (x \<noteq> y)) (\<lambda>m. decimal_new m 0)))"
      unfolding run by (simp only: if_True and_then_assoc and_then_simps prod.case)
    also have "\<dots> = and_then (u128_or_overflow (n' * 10 ^ nat (- rs))) (\<lambda>n3.
        and_then (signed_magnitude n3 (x \<noteq> y)) (\<lambda>m. decimal_new m 0))"
      using n' by (intro power_step) simp_all
    finally have "?run = and_then (u128_or_overflow (n' * 10 ^ nat (- rs))) (\<lambda>n3.
        and_then (signed_magnitude n3 (x \<noteq> y)) (\<lambda>m. decimal_new m 0))" .
    moreover have "reduced (int (n' * 10 ^ nat (- rs))) 0" using n' by (intro reduced_int) simp_all
    ultimately show ?thesis
      using 2 magnitude_tail [of 0 "n' * 10 ^ nat (- rs)" "x \<noteq> y" d]
      unfolding quotient_exact [OF p rs] n'_def [symmetric] by (simp only:) simp
  next
    case 3
    have "reduced (int n') (nat rs) \<or> in_i128 (signed (x \<noteq> y) n')"
    proof (cases "0 < p")
      case False
      have "n = 2 ^ 127 \<Longrightarrow> \<not> 10 dvd n" by simp
      moreover have "n < 2 ^ 127 \<Longrightarrow> in_i128 (signed (x \<noteq> y) n)" by (simp add: numeral_bounds)
      ultimately show ?thesis using p0 False le n reduced_int [of n "nat rs"] by fastforce
    qed (simp add: red)
    moreover have "?run = and_then (u128_or_overflow n') (\<lambda>n2.
        and_then (signed_magnitude n2 (x \<noteq> y)) (\<lambda>m. decimal_new m (nat rs)))"
      using leD [OF 3(1)] unfolding run by (simp only: if_False and_then_simps prod.case)
    ultimately show ?thesis
      using 3 magnitude_tail [of "nat rs" n' "x \<noteq> y" d]
      unfolding quotient_exact [OF p rs] n'_def [symmetric] by (simp only:) simp
  qed
qed

lemma checked_div_exact_spec:
  assumes a: "decimal_wf a" and b: "decimal_wf b" "\<not> is_zero b"
  shows "\<exists>r. decimal_checked_div_exact a b = Some r
           \<and> (\<forall>d. r = Ok d \<longleftrightarrow> represents d (decimal_value a / decimal_value b))"
proof (cases "is_zero a")
  case True
  then have "decimal_value a / decimal_value b = 0" by (simp add: decimal_value_0)
  moreover have "decimal_checked_div_exact a b = Some (decimal_new 0 0)"
    using True b(2) unfolding decimal_checked_div_exact_def by (simp only: if_True if_False)
  ultimately show ?thesis using new_zero by (simp only: option.inject) blast
next
  case False
  have nz: "mantissa a \<noteq> 0" "mantissa b \<noteq> 0" using False b(2) by (simp_all add: is_zero_def)
  obtain n dd t f d1 d2 where q:
    "unsigned_abs (mantissa a) div greatest_common_divisor (unsigned_abs (mantissa a))
       (unsigned_abs (mantissa b)) = n"
    "unsigned_abs (mantissa b) div greatest_common_divisor (unsigned_abs (mantissa a))
       (unsigned_abs (mantissa b)) = dd"
    "0 < n" "0 < dd" "coprime n dd" "n \<le> unsigned_abs (mantissa a)"
    "remove_factor dd 2 0 = Some (d1, t)" "remove_factor d1 5 0 = Some (d2, f)"
    "dd = d2 * (2 ^ t * 5 ^ f)" "\<not> 2 dvd d2" "\<not> 5 dvd d2"
    "decimal_value a / decimal_value b =
       ratio (signed (is_negative a) n) (scale a) / ratio (signed (is_negative b) dd) (scale b)"
    using quotient_parts [OF nz] .
  show ?thesis
  proof (cases "d2 = 1")
    case False
    have "decimal_checked_div_exact a b = Some (Err PrecisionLoss)"
      unfolding decimal_checked_div_exact_def
      by (simp only: \<open>\<not> is_zero a\<close> b(2) Let_def q(1,2,7,8) if_False Option.bind.simps prod.case
          False simp_thms if_True)
    moreover have "d2 dvd dd" unfolding q(9) by simp
    ultimately show ?thesis
      unfolding q(12) using quotient_inexact q(4,5,10,11) False by blast
  next
    case True
    have le: "n \<le> 2 ^ 127"
    proof -
      have "\<bar>mantissa a\<bar> \<le> 2 ^ 127" using a in_i128_abs by (simp add: decimal_wf_def)
      then have "int n \<le> 2 ^ 127" using q(6) by (simp flip: unsigned_abs_int)
      then show ?thesis by simp
    qed
    have dd: "dd = 2 ^ t * 5 ^ f" using q(9) True by simp
    then have co: "coprime n (2 ^ t * 5 ^ f)" using q(5) by simp
    have sc: "scale a \<le> MAX_SCALE" using a by (simp add: decimal_wf_def)
    let ?p = "max t f"
    let ?rs = "int ?p + int (scale a) - int (scale b)"
    let ?r = "(if ?rs > int MAX_SCALE then Err PrecisionLoss
          else and_then (checked_multiply_power n 2 (?p - t)) (\<lambda>n1.
               and_then (checked_multiply_power n1 5 (?p - f)) (\<lambda>n2.
               and_then (if ?rs < 0
                         then and_then (checked_multiply_power n2 10 (nat (- ?rs))) (\<lambda>n3. Ok (n3, 0))
                         else Ok (n2, nat ?rs)) (\<lambda>(n, s).
               and_then (signed_magnitude n (is_negative a \<noteq> is_negative b)) (\<lambda>m. decimal_new m s)))))"
    have eq: "decimal_checked_div_exact a b = Some ?r"
      unfolding decimal_checked_div_exact_def
      by (simp only: \<open>\<not> is_zero a\<close> b(2) Let_def q(1,2,7,8) if_False Option.bind.simps prod.case
          True simp_thms)
    show ?thesis
      unfolding eq q(12) dd using div_tail [OF q(3) co le refl refl sc]
      by (intro exI [of _ ?r] conjI refl allI)
  qed
qed

end
