(* ===== verification/Decimal_Correct.thy ===== *)
theory Decimal_Correct
  imports Decimal_Text Decimal_Order Decimal_Product
begin

text \<open>
  The contract of \<open>FixedDecimal\<close>: the text form, the order and the exact arithmetic of
  canonical decimals, stated over their rational values.
\<close>

lemma in_i128_pow10: "k \<le> MAX_SCALE \<Longrightarrow> in_i128 (10 ^ k)"
proof -
  assume "k \<le> MAX_SCALE"
  then have "(10::int) ^ k \<le> 10 ^ 38" by (intro pow10_bound) (simp add: MAX_SCALE_def)
  then have "(10::int) ^ k \<le> i128_max" by (simp add: i128_max_def)
  moreover have "i128_min \<le> 0" "0 \<le> (10::int) ^ k" by (simp_all add: i128_min_def)
  ultimately show ?thesis unfolding in_i128_def by linarith
qed

lemma power_of_ten_eq: "k \<le> MAX_SCALE \<Longrightarrow> checked_power_of_ten k = Ok (10 ^ k)"
  by (simp add: checked_power_of_ten_def checked_i128_def in_i128_pow10)

lemma scale_up_eq:
  "k \<le> MAX_SCALE \<Longrightarrow> checked_scale_up m k =
    (if in_i128 (m * 10 ^ k) then Ok (m * 10 ^ k) else Err ArithmeticOverflow)"
  by (simp add: checked_scale_up_def power_of_ten_eq checked_i128_def)

lemma rescale_up:
  assumes "decimal_wf d" "scale d < t" "t \<le> MAX_SCALE" "in_i128 (mantissa d * 10 ^ (t - scale d))"
  shows "decimal_new (mantissa d * 10 ^ (t - scale d)) t = Ok d"
proof -
  have "(10::int) ^ (t - scale d) * 10 ^ scale d = 10 ^ t"
    using assms(2) by (simp flip: power_add)
  then have "decimal_value d = ratio (mantissa d * 10 ^ (t - scale d)) t"
    unfolding decimal_value_def ratio_eq_iff by (simp add: mult_ac)
  then show ?thesis using assms by (simp add: decimal_new_spec)
qed

lemma rescale_down:
  assumes "decimal_wf d" "t < scale d"
  shows "trunc_mod (mantissa d) (10 ^ (scale d - t)) \<noteq> 0"
proof -
  have "(10::int) dvd 10 ^ (scale d - t)" using assms(2) by simp
  moreover have "\<not> 10 dvd mantissa d" using assms by (simp add: decimal_wf_def)
  ultimately have "\<not> 10 ^ (scale d - t) dvd mantissa d" using dvd_trans by blast
  then show ?thesis by (simp add: trunc_mod_eq_0_iff)
qed

subsection \<open>The loops that count and remove a factor\<close>

lemma factor_count_loop_zero: "factor_count_loop v f c = Some n \<Longrightarrow> v \<noteq> 0"
proof (rule factor_count_loop.raw_induct [where P = "\<lambda>v _ _ _. v \<noteq> 0"])
  fix loop and v factor count n :: nat
  assume IH: "\<And>v f c n. loop v f c = Some n \<Longrightarrow> v \<noteq> 0"
    and "(if v mod factor = 0 then loop (v div factor) factor (count + 1) else Some count) = Some n"
  then show "v \<noteq> 0" using IH [of "v div factor" factor "count + 1" n] by (cases "v = 0") auto
qed

lemma remove_factor_zero: "remove_factor v f c = Some r \<Longrightarrow> v \<noteq> 0"
proof (rule remove_factor.raw_induct [where P = "\<lambda>v _ _ _. v \<noteq> 0"])
  fix loop and v factor count :: nat and r
  assume IH: "\<And>v f c r. loop v f c = Some r \<Longrightarrow> v \<noteq> 0"
    and "(if v mod factor = 0 then loop (v div factor) factor (count + 1) else Some (v, count)) = Some r"
  then show "v \<noteq> 0" using IH [of "v div factor" factor "count + 1" r] by (cases "v = 0") auto
qed

lemma factor_loops_agree:
  assumes "v \<noteq> 0" "1 < f"
  shows "\<exists>w k. factor_count v f = Some k \<and> remove_factor v f c = Some (w, c + k) \<and> v = w * f ^ k \<and> \<not> f dvd w"
proof -
  have pos: "0 < v" using assms(1) by simp
  obtain w k where w: "\<forall>c. remove_factor v f c = Some (w, c + k)" "v = w * f ^ k" "\<not> f dvd w"
    using remove_factor_spec [OF pos assms(2)] by blast
  obtain j where j: "factor_count v f = Some j" "exact_power f v j"
    using factor_count_loop_spec [OF pos assms(2)] by (auto simp: factor_count_def)
  have "exact_power f v k" using w(2,3) assms(2) by (simp add: exact_power_def)
  moreover have "i \<le> m" if "f ^ i dvd v" "\<not> f ^ Suc m dvd v" for i m
    using that power_le_dvd not_less_eq_eq by blast
  ultimately have "j = k" using j(2) unfolding exact_power_def by (meson order_antisym)
  then show ?thesis using w j by blast
qed

lemma remove_factor_returns:
  assumes "v \<noteq> 0" "1 < f"
  shows "\<exists>w k. remove_factor v f c = Some (w, k) \<and> w \<noteq> 0"
proof -
  obtain w k where "remove_factor v f c = Some (w, c + k)" "\<not> f dvd w" using factor_loops_agree [OF assms] by blast
  then show ?thesis by (metis dvd_0_right)
qed

lemma total_factor_count_returns: "1 < f \<Longrightarrow> 0 \<notin> set vs \<Longrightarrow> \<exists>k. total_factor_count vs f = Some k"
proof (induction vs)
  case (Cons v vs)
  then obtain k where "factor_count v f = Some k" using factor_loops_agree [of v f 0] by auto
  then show ?case using Cons by auto
qed simp

lemma div_exact_returns: "decimal_checked_div_exact a b \<noteq> None"
proof (cases "is_zero a \<or> is_zero b")
  case False
  let ?a = "unsigned_abs (mantissa a)" and ?b = "unsigned_abs (mantissa b)"
  have pos: "0 < ?b" using False by (simp add: is_zero_def unsigned_abs_def)
  then have "?b div greatest_common_divisor ?a ?b \<noteq> 0"
    by (simp add: greatest_common_divisor_gcd dvd_div_eq_0_iff unsigned_abs_def)
  then obtain d t where d: "remove_factor (?b div greatest_common_divisor ?a ?b) 2 0 = Some (d, t)" "d \<noteq> 0"
    using remove_factor_returns [of "?b div greatest_common_divisor ?a ?b" 2 0] by auto
  then obtain e r where "remove_factor d 5 0 = Some (e, r)" using remove_factor_returns [of d 5 0] by auto
  then show ?thesis using False d(1) by (simp add: decimal_checked_div_exact_def Let_def)
qed (auto simp: decimal_checked_div_exact_def)

lemma unsigned_abs_0: "unsigned_abs (mantissa d) = 0 \<longleftrightarrow> is_zero d"
  by (simp add: is_zero_def unsigned_abs_def)

lemma mul_returns: "decimal_checked_mul a b \<noteq> None"
proof (cases "is_zero a \<or> is_zero b")
  case False
  let ?factors = "[unsigned_abs (mantissa a), unsigned_abs (mantissa b)]"
  have "0 \<notin> set ?factors" using False unsigned_abs_0 by (metis empty_set insert_iff list.simps(15) emptyE)
  then obtain k l where "total_factor_count ?factors 2 = Some k" "total_factor_count ?factors 5 = Some l"
    using total_factor_count_returns [of 2 ?factors] total_factor_count_returns [of 5 ?factors] by auto
  then show ?thesis using False
    by (simp add: decimal_checked_mul_def Let_def del: total_factor_count.simps split: option.split prod.split)
qed (auto simp: decimal_checked_mul_def)

lemma product3_returns: "decimal_checked_product3 a b c \<noteq> None"
proof (cases "is_zero a \<or> is_zero b \<or> is_zero c")
  case False
  let ?factors = "[unsigned_abs (mantissa a), unsigned_abs (mantissa b), unsigned_abs (mantissa c)]"
  have "0 \<notin> set ?factors" using False unsigned_abs_0 by (metis empty_set insert_iff list.simps(15) emptyE)
  then obtain k l where "total_factor_count ?factors 2 = Some k" "total_factor_count ?factors 5 = Some l"
    using total_factor_count_returns [of 2 ?factors] total_factor_count_returns [of 5 ?factors] by auto
  then show ?thesis using False
    by (simp add: decimal_checked_product3_def Let_def del: total_factor_count.simps split: option.split prod.split)
qed (auto simp: decimal_checked_product3_def)

subsection \<open>Properties\<close>

text \<open>
  C26. The loops that divide by a factor while it divides (\<open>factor_count\<close>, \<open>remove_factor\<close>) return exactly
  on the values other than zero, and then count the same multiplicity and leave the value without the
  factor; on zero they would run forever. Every product and every exact division returns, for all
  mantissas and scales, because each operation rules zero out before it enters a loop.
\<close>

theorem factor_loops_terminate:
  assumes "1 < f"
  shows "(factor_count v f \<noteq> None \<longleftrightarrow> v \<noteq> 0) \<and> (remove_factor v f c \<noteq> None \<longleftrightarrow> v \<noteq> 0)
    \<and> (\<forall>w k. remove_factor v f c = Some (w, c + k) \<longrightarrow> factor_count v f = Some k \<and> v = w * f ^ k \<and> \<not> f dvd w)
    \<and> decimal_checked_mul a b \<noteq> None \<and> decimal_checked_product3 a b d \<noteq> None
    \<and> decimal_checked_div_exact a b \<noteq> None"
proof -
  have "factor_count v f \<noteq> None \<longleftrightarrow> v \<noteq> 0"
    using factor_loops_agree [OF _ assms, of v c] factor_count_loop_zero by (auto simp: factor_count_def)
  moreover have "remove_factor v f c \<noteq> None \<longleftrightarrow> v \<noteq> 0"
    using factor_loops_agree [OF _ assms, of v c] remove_factor_zero by auto
  moreover have "factor_count v f = Some k \<and> v = w * f ^ k \<and> \<not> f dvd w" if out: "remove_factor v f c = Some (w, c + k)" for w k
    using factor_loops_agree [OF remove_factor_zero [OF out] assms, of c] out by auto
  ultimately show ?thesis using mul_returns product3_returns div_exact_returns by blast
qed

theorem factor_loops_terminate_witness: "factor_count 40 2 = Some 3 \<and> remove_factor 40 2 1 = Some (5, 4)"
proof -
  have "remove_factor 40 2 1 = Some (5, 1 + 3)" by (simp add: remove_factor.simps)
  then show ?thesis using factor_loops_terminate [of 2 40 1] by simp
qed

text \<open>
  C27. The canonical text form is a bijection: \<open>parse_canonical\<close> accepts a string exactly when
  it is what \<open>Display\<close> prints for some canonical decimal, and returns that decimal.
\<close>

theorem decimal_text_bijection:
  "decimal_parse_canonical s = Ok d \<longleftrightarrow> decimal_wf d \<and> decimal_to_string d = s"
  using parse_canonical_sound parse_canonical_complete by blast

text \<open>
  C29. The comparison of canonical decimals, which never scales beyond 128 bits, is the order of
  their rational values, and two canonical decimals compare equal only when they are the same
  mantissa and scale, so the derived \<open>Eq\<close> agrees with \<open>Ord\<close>.
\<close>

theorem decimal_order_exact:
  assumes "decimal_wf a" "decimal_wf b"
  shows "decimal_cmp a b = cmp_of (decimal_value a) (decimal_value b)
         \<and> (decimal_cmp a b = Equal \<longleftrightarrow> a = b)"
  using decimal_cmp_value price.cmp_Equal_iff [OF assms] by simp

theorem decimal_order_exact_witness:
  "decimal_cmp \<lparr>mantissa = -15, scale = 1\<rparr> \<lparr>mantissa = -149, scale = 2\<rparr> = Less"
  using decimal_order_exact [of "\<lparr>mantissa = -15, scale = 1\<rparr>" "\<lparr>mantissa = -149, scale = 2\<rparr>"]
  by (simp add: decimal_wf_def numeral_bounds MAX_SCALE_def decimal_value_def cmp_of_def)

text \<open>
  C30. Addition and subtraction are exact and as total as the representation allows: they
  return a decimal exactly when the mathematical sum or difference has a canonical
  representation, and then return that representation.
\<close>

theorem decimal_sum_exact:
  assumes "decimal_wf a" "decimal_wf b"
  shows "(decimal_checked_add a b = Ok d \<longleftrightarrow>
            decimal_wf d \<and> decimal_value d = decimal_value a + decimal_value b)
         \<and> (decimal_checked_sub a b = Ok e \<longleftrightarrow>
            decimal_wf e \<and> decimal_value e = decimal_value a - decimal_value b)"
  using checked_add_spec [OF assms] checked_sub_spec [OF assms] by blast

theorem decimal_sum_exact_witness:
  "decimal_checked_add \<lparr>mantissa = 5, scale = 1\<rparr> \<lparr>mantissa = 15, scale = 1\<rparr> =
     Ok \<lparr>mantissa = 2, scale = 0\<rparr>"
  using decimal_sum_exact [of "\<lparr>mantissa = 5, scale = 1\<rparr>" "\<lparr>mantissa = 15, scale = 1\<rparr>"
      "\<lparr>mantissa = 2, scale = 0\<rparr>" "\<lparr>mantissa = -1, scale = 0\<rparr>"]
  by (simp add: decimal_wf_def numeral_bounds MAX_SCALE_def decimal_value_def)

text \<open>
  C31. Two- and three-factor products return on every input (their loops end), and return a
  decimal exactly when the mathematical product has a canonical representation, although the
  intermediate product may not fit 128 bits before the tens are cancelled.
\<close>

theorem decimal_product_exact:
  assumes "decimal_wf a" "decimal_wf b" "decimal_wf c"
  shows "\<exists>r r3. decimal_checked_mul a b = Some r \<and> decimal_checked_product3 a b c = Some r3
    \<and> (\<forall>d. r = Ok d \<longleftrightarrow> decimal_wf d \<and> decimal_value d = decimal_value a * decimal_value b)
    \<and> (\<forall>d. r3 = Ok d \<longleftrightarrow>
          decimal_wf d \<and> decimal_value d = decimal_value a * decimal_value b * decimal_value c)"
  using checked_mul_spec [OF assms(1,2)] checked_product3_spec [OF assms] by blast

theorem decimal_product_exact_witness:
  "decimal_checked_mul \<lparr>mantissa = 25, scale = 1\<rparr> \<lparr>mantissa = 4, scale = 0\<rparr> =
     Some (Ok \<lparr>mantissa = 10, scale = 0\<rparr>)"
proof -
  let ?a = "\<lparr>mantissa = 25, scale = 1\<rparr>" and ?b = "\<lparr>mantissa = 4, scale = 0\<rparr>"
  have wf: "decimal_wf ?a" "decimal_wf ?b"
    by (simp_all add: decimal_wf_def numeral_bounds MAX_SCALE_def)
  obtain r where "decimal_checked_mul ?a ?b = Some r"
    "\<forall>d. r = Ok d \<longleftrightarrow> decimal_wf d \<and> decimal_value d = decimal_value ?a * decimal_value ?b"
    using decimal_product_exact [OF wf wf(1)] by blast
  then show ?thesis
    by (simp add: decimal_wf_def numeral_bounds MAX_SCALE_def decimal_value_def)
qed

text \<open>
  C28. Exact division returns on every input, rejects a zero divisor, and otherwise returns a
  decimal exactly when the rational quotient is a canonical decimal: it never rounds, and it
  never refuses a quotient that has a representation.
\<close>

theorem decimal_quotient_exact:
  assumes "decimal_wf a" "decimal_wf b"
  shows "\<exists>r. decimal_checked_div_exact a b = Some r
    \<and> (if is_zero b then r = Err DivisionByZero
       else \<forall>d. r = Ok d \<longleftrightarrow> decimal_wf d \<and> decimal_value d = decimal_value a / decimal_value b)"
proof (cases "is_zero b")
  case True
  then show ?thesis by (simp add: decimal_checked_div_exact_def)
next
  case False
  then show ?thesis using checked_div_exact_spec [OF assms False] by (simp only: if_False)
qed

theorem decimal_quotient_exact_witness:
  "decimal_checked_div_exact \<lparr>mantissa = 1, scale = 0\<rparr> \<lparr>mantissa = 8, scale = 0\<rparr> =
     Some (Ok \<lparr>mantissa = 125, scale = 3\<rparr>)"
proof -
  let ?a = "\<lparr>mantissa = 1, scale = 0\<rparr>" and ?b = "\<lparr>mantissa = 8, scale = 0\<rparr>"
  have wf: "decimal_wf ?a" "decimal_wf ?b"
    by (simp_all add: decimal_wf_def numeral_bounds MAX_SCALE_def)
  have "\<not> is_zero ?b" by (simp add: is_zero_def)
  then obtain r where "decimal_checked_div_exact ?a ?b = Some r"
    "\<forall>d. r = Ok d \<longleftrightarrow> decimal_wf d \<and> decimal_value d = decimal_value ?a / decimal_value ?b"
    using decimal_quotient_exact [OF wf] by (simp only: if_False) blast
  then show ?thesis
    by (simp add: decimal_wf_def numeral_bounds MAX_SCALE_def decimal_value_def)
qed

text \<open>
  On a canonical decimal \<open>rescale_exact\<close> is a precision check: it returns the decimal itself
  when the target has at least its places and the scaled mantissa fits 128 bits, and each
  failure has its own error, in particular a lower target is always a loss of precision.
\<close>

theorem decimal_rescale_outcome:
  assumes "decimal_wf d"
  shows "decimal_rescale_exact d t =
    (if t > MAX_SCALE then Err ScaleTooLarge
     else if t < scale d then Err PrecisionLoss
     else if in_i128 (mantissa d * 10 ^ (t - scale d)) then Ok d
     else Err ArithmeticOverflow)"
proof -
  consider "t > MAX_SCALE" | "t \<le> MAX_SCALE" "t < scale d" | "t \<le> MAX_SCALE" "t = scale d"
    | "t \<le> MAX_SCALE" "scale d < t" by linarith
  then show ?thesis
  proof cases
    case 2
    moreover have "scale d \<le> MAX_SCALE" using assms by (simp add: decimal_wf_def)
    ultimately show ?thesis
      using rescale_down [OF assms] by (simp add: decimal_rescale_exact_def cmp_of_def power_of_ten_eq)
  next
    case 3
    then show ?thesis using assms
      by (simp add: decimal_rescale_exact_def cmp_of_def decimal_wf_def)
  next
    case 4
    then show ?thesis using rescale_up [OF assms 4(2,1)]
      by (simp add: decimal_rescale_exact_def cmp_of_def scale_up_eq)
  qed (simp add: decimal_rescale_exact_def)
qed

theorem decimal_rescale_outcome_witness:
  "decimal_rescale_exact \<lparr>mantissa = 15, scale = 1\<rparr> 3 = Ok \<lparr>mantissa = 15, scale = 1\<rparr>
   \<and> decimal_rescale_exact \<lparr>mantissa = 15, scale = 1\<rparr> 0 = Err PrecisionLoss"
  using decimal_rescale_outcome [of "\<lparr>mantissa = 15, scale = 1\<rparr>" 3]
    decimal_rescale_outcome [of "\<lparr>mantissa = 15, scale = 1\<rparr>" 0]
  by (simp add: decimal_wf_def numeral_bounds MAX_SCALE_def)

end
