(* ===== verification/Domain.thy ===== *)
theory Domain
  imports Decimal_Product
begin

text \<open>
  The crate \<open>domain\<close>: canonical identities of venues, assets, sources and instruments, and the
  validated definition of an instrument. A text is the list of its bytes. A wrapper struct of
  one field is its field. \<open>InstrumentDefinition\<close> has the fields of \<open>InstrumentDefinitionInput\<close>;
  the type is the same and \<open>definition_new\<close> is the only way the source builds one.
\<close>

subsection \<open>Errors and identity texts\<close>

datatype DomainError =
    InvalidIdentity string
  | GenerationZero
  | InvalidInstrument string
  | InvalidLifecycle string
  | Decimal DecimalError

type_synonym UnixNanos = int
type_synonym VenueId = string

definition MAX_VENUE_LENGTH :: nat where "MAX_VENUE_LENGTH = 64"
definition MAX_CHAIN_LENGTH :: nat where "MAX_CHAIN_LENGTH = 64"
definition MAX_CONTRACT_LENGTH :: nat where "MAX_CONTRACT_LENGTH = 160"
definition MAX_ASSET_SYMBOL_LENGTH :: nat where "MAX_ASSET_SYMBOL_LENGTH = 32"
definition MAX_SYMBOL_LENGTH :: nat where "MAX_SYMBOL_LENGTH = 96"
definition MAX_SOURCE_LENGTH :: nat where "MAX_SOURCE_LENGTH = 96"

definition ensure_generation :: "nat \<Rightarrow> (unit, DomainError) result" where
  "ensure_generation generation = (if generation = 0 then Err GenerationZero else Ok ())"

definition is_ascii :: "char \<Rightarrow> bool" where
  "is_ascii c \<longleftrightarrow> of_char c < (128 :: nat)"

definition is_ascii_lowercase :: "char \<Rightarrow> bool" where
  "is_ascii_lowercase c \<longleftrightarrow> 97 \<le> (of_char c :: nat) \<and> (of_char c :: nat) \<le> 122"

definition is_ascii_uppercase :: "char \<Rightarrow> bool" where
  "is_ascii_uppercase c \<longleftrightarrow> 65 \<le> (of_char c :: nat) \<and> (of_char c :: nat) \<le> 90"

definition is_ascii_alphanumeric :: "char \<Rightarrow> bool" where
  "is_ascii_alphanumeric c \<longleftrightarrow> is_ascii_digit c \<or> is_ascii_lowercase c \<or> is_ascii_uppercase c"

definition to_ascii_lowercase :: "char \<Rightarrow> char" where
  "to_ascii_lowercase c = (if is_ascii_uppercase c then char_of (of_char c + 32 :: nat) else c)"

definition to_ascii_uppercase :: "char \<Rightarrow> char" where
  "to_ascii_uppercase c = (if is_ascii_lowercase c then char_of (of_char c - 32 :: nat) else c)"

definition component_char :: "char \<Rightarrow> bool" where
  "component_char c \<longleftrightarrow> is_ascii_alphanumeric c \<or> c \<in> {CHR ''-'', CHR ''_'', CHR ''.'', CHR '':''}"

definition validate_component :: "string \<Rightarrow> string \<Rightarrow> nat \<Rightarrow> (string, DomainError) result" where
  "validate_component v field maximum_length =
     (if v = [] \<or> length v > maximum_length \<or> \<not> list_all is_ascii v \<or> \<not> list_all component_char v
      then Err (InvalidIdentity field) else Ok v)"

definition normalize ::
  "string \<Rightarrow> string \<Rightarrow> nat \<Rightarrow> (char \<Rightarrow> char) \<Rightarrow> (string, DomainError) result" where
  "normalize v field maximum_length letter_case =
     and_then (validate_component v field maximum_length) (\<lambda>s. Ok (map letter_case s))"

definition normalize_lower :: "string \<Rightarrow> string \<Rightarrow> nat \<Rightarrow> (string, DomainError) result" where
  "normalize_lower v field maximum_length = normalize v field maximum_length to_ascii_lowercase"

definition normalize_upper :: "string \<Rightarrow> string \<Rightarrow> nat \<Rightarrow> (string, DomainError) result" where
  "normalize_upper v field maximum_length = normalize v field maximum_length to_ascii_uppercase"

definition venue_new :: "string \<Rightarrow> (VenueId, DomainError) result" where
  "venue_new v = normalize_lower v ''venue'' MAX_VENUE_LENGTH"

subsection \<open>Assets and sources\<close>

datatype AssetNamespace = Native | Evm | Solana | Fiat | Synthetic

record AssetId =
  aid_namespace :: AssetNamespace
  aid_chain_id :: string
  aid_contract_or_mint :: string
  aid_canonical_symbol :: string
  aid_generation :: nat

definition asset_shape_error :: "AssetNamespace \<Rightarrow> string \<Rightarrow> string \<Rightarrow> string option" where
  "asset_shape_error namespace chain_id contract_or_mint =
     (case namespace of
        Native \<Rightarrow> if chain_id = [] \<or> contract_or_mint \<noteq> []
                  then Some ''native asset chain/contract'' else None
      | Fiat \<Rightarrow> if chain_id \<noteq> [] \<or> contract_or_mint \<noteq> []
                then Some ''off-chain asset chain/contract'' else None
      | Synthetic \<Rightarrow> if chain_id \<noteq> [] \<or> contract_or_mint \<noteq> []
                then Some ''off-chain asset chain/contract'' else None
      | _ \<Rightarrow> if chain_id = [] \<or> contract_or_mint = []
                then Some ''token asset chain/contract'' else None)"

definition asset_new ::
  "AssetNamespace \<Rightarrow> string \<Rightarrow> string \<Rightarrow> string \<Rightarrow> nat \<Rightarrow> (AssetId, DomainError) result" where
  "asset_new namespace chain_id contract_or_mint canonical_symbol generation =
     and_then (ensure_generation generation) (\<lambda>_.
       case asset_shape_error namespace chain_id contract_or_mint of
         Some field \<Rightarrow> Err (InvalidIdentity field)
       | None \<Rightarrow>
           and_then (if chain_id = [] then Ok []
                     else validate_component chain_id ''chain id'' MAX_CHAIN_LENGTH) (\<lambda>chain.
           and_then (case namespace of
                       Evm \<Rightarrow> normalize_lower contract_or_mint ''contract'' MAX_CONTRACT_LENGTH
                     | Solana \<Rightarrow> validate_component contract_or_mint ''mint'' MAX_CONTRACT_LENGTH
                     | _ \<Rightarrow> Ok []) (\<lambda>contract.
           and_then (normalize_upper canonical_symbol ''canonical symbol'' MAX_ASSET_SYMBOL_LENGTH)
             (\<lambda>symbol.
             Ok \<lparr>aid_namespace = namespace, aid_chain_id = chain, aid_contract_or_mint = contract,
                 aid_canonical_symbol = symbol, aid_generation = generation\<rparr>))))"

datatype SourceKind = Exchange | Chain | Macro | News | Derived | System

record SourceId =
  sid_kind :: SourceKind
  sid_name :: string
  sid_generation :: nat

definition source_new :: "SourceKind \<Rightarrow> string \<Rightarrow> nat \<Rightarrow> (SourceId, DomainError) result" where
  "source_new kind name generation =
     and_then (ensure_generation generation) (\<lambda>_.
     and_then (normalize_lower name ''source'' MAX_SOURCE_LENGTH) (\<lambda>n.
       Ok \<lparr>sid_kind = kind, sid_name = n, sid_generation = generation\<rparr>))"

subsection \<open>Instrument identities\<close>

datatype ProductType = Spot | Perpetual | Future | Option

definition product_as_str :: "ProductType \<Rightarrow> string" where
  "product_as_str p =
     (case p of Spot \<Rightarrow> ''spot'' | Perpetual \<Rightarrow> ''perpetual'' | Future \<Rightarrow> ''future''
      | Option \<Rightarrow> ''option'')"

record InstrumentId =
  iid_venue :: VenueId
  iid_venue_symbol :: string
  iid_product_type :: ProductType
  iid_generation :: nat

definition instrument_new_for_product ::
  "VenueId \<Rightarrow> string \<Rightarrow> ProductType \<Rightarrow> nat \<Rightarrow> (InstrumentId, DomainError) result" where
  "instrument_new_for_product venue venue_symbol product_type generation =
     and_then (ensure_generation generation) (\<lambda>_.
     and_then (normalize_upper venue_symbol ''venue symbol'' MAX_SYMBOL_LENGTH) (\<lambda>symbol.
       Ok \<lparr>iid_venue = venue, iid_venue_symbol = symbol, iid_product_type = product_type,
           iid_generation = generation\<rparr>))"

definition instrument_new :: "VenueId \<Rightarrow> string \<Rightarrow> nat \<Rightarrow> (InstrumentId, DomainError) result" where
  "instrument_new venue venue_symbol generation =
     instrument_new_for_product venue venue_symbol Spot generation"

definition instrument_to_string :: "InstrumentId \<Rightarrow> string" where
  "instrument_to_string i =
     (if iid_product_type i = Spot
      then iid_venue i @ '':'' @ iid_venue_symbol i @ '':'' @ to_digits (iid_generation i)
      else iid_venue i @ '':'' @ product_as_str (iid_product_type i) @ '':'' @ iid_venue_symbol i
             @ '':'' @ to_digits (iid_generation i))"

text \<open>The field list serde writes for an identity, and the struct it reads back.\<close>

record InstrumentIdWire =
  wire_venue :: string
  wire_venue_symbol :: string
  wire_product_type :: "ProductType option"
  wire_generation :: nat

definition instrument_serialize :: "InstrumentId \<Rightarrow> InstrumentIdWire" where
  "instrument_serialize i =
     \<lparr>wire_venue = iid_venue i, wire_venue_symbol = iid_venue_symbol i,
      wire_product_type = (if iid_product_type i \<noteq> Spot then Some (iid_product_type i) else None),
      wire_generation = iid_generation i\<rparr>"

definition instrument_deserialize_as ::
  "ProductType \<Rightarrow> InstrumentIdWire \<Rightarrow> (InstrumentId, DomainError) result" where
  "instrument_deserialize_as default_product w =
     and_then (venue_new (wire_venue w)) (\<lambda>venue.
       instrument_new_for_product venue (wire_venue_symbol w)
         (case wire_product_type w of None \<Rightarrow> default_product | Some p \<Rightarrow> p) (wire_generation w))"

definition instrument_deserialize :: "InstrumentIdWire \<Rightarrow> (InstrumentId, DomainError) result" where
  "instrument_deserialize w = instrument_deserialize_as Spot w"

subsection \<open>Instrument definitions\<close>

datatype ContractKind = ContractNone | Linear | Inverse
datatype ContractValueUnit = Base | Quote
datatype OptionSide = Call | Put

record InstrumentDefinitionInput =
  def_id :: InstrumentId
  def_product_type :: ProductType
  def_base_asset :: AssetId
  def_quote_asset :: AssetId
  def_settlement_asset :: AssetId
  def_contract_multiplier :: FixedDecimal
  def_contract_value_unit :: ContractValueUnit
  def_contract_kind :: ContractKind
  def_expiry_time :: "UnixNanos option"
  def_strike :: "Price option"
  def_option_side :: "OptionSide option"
  def_price_tick :: Price
  def_quantity_step :: Quantity
  def_listing_time :: UnixNanos
  def_delisting_time :: "UnixNanos option"

type_synonym InstrumentDefinition = InstrumentDefinitionInput

definition contract_metadata_error :: "InstrumentDefinitionInput \<Rightarrow> string option" where
  "contract_metadata_error input =
     (case def_contract_kind input of
        ContractNone \<Rightarrow>
          if def_product_type input \<noteq> Spot \<or> def_contract_value_unit input \<noteq> Base
             \<or> def_settlement_asset input \<noteq> def_quote_asset input
          then Some ''spot contract metadata'' else None
      | Linear \<Rightarrow>
          if def_product_type input = Spot \<or> def_contract_value_unit input \<noteq> Base
             \<or> def_settlement_asset input \<noteq> def_quote_asset input
          then Some ''linear contract metadata'' else None
      | Inverse \<Rightarrow>
          if def_product_type input = Spot \<or> def_contract_value_unit input \<noteq> Quote
             \<or> def_settlement_asset input \<noteq> def_base_asset input
          then Some ''inverse contract metadata'' else None)"

definition product_metadata_error :: "InstrumentDefinitionInput \<Rightarrow> string option" where
  "product_metadata_error input =
     (let has_expiry = def_expiry_time input \<noteq> None;
          has_strike = def_strike input \<noteq> None;
          has_option_side = def_option_side input \<noteq> None
      in case def_product_type input of
           Future \<Rightarrow> if \<not> has_expiry \<or> has_strike \<or> has_option_side
                     then Some ''future metadata'' else None
         | Option \<Rightarrow> if \<not> has_expiry \<or> \<not> has_strike \<or> \<not> has_option_side
                     then Some ''option metadata'' else None
         | _ \<Rightarrow> if has_expiry \<or> has_strike \<or> has_option_side
                then Some ''non-expiring product metadata'' else None)"

definition lifecycle_error :: "InstrumentDefinitionInput \<Rightarrow> string option" where
  "lifecycle_error input =
     (if (case def_delisting_time input of None \<Rightarrow> False
          | Some delisting \<Rightarrow> delisting \<le> def_listing_time input)
      then Some ''listing and delisting time''
      else case def_expiry_time input of
          None \<Rightarrow> None
        | Some expiry \<Rightarrow>
            if expiry \<le> def_listing_time input
               \<or> (case def_delisting_time input of None \<Rightarrow> False | Some delisting \<Rightarrow> expiry > delisting)
            then Some ''listing, expiry, and delisting time'' else None)"

definition validate_instrument :: "InstrumentDefinitionInput \<Rightarrow> (unit, DomainError) result" where
  "validate_instrument input =
     (if iid_product_type (def_id input) \<noteq> def_product_type input
      then Err (InvalidInstrument ''instrument identity product type'')
      else if def_base_asset input = def_quote_asset input
      then Err (InvalidInstrument ''base and quote assets'')
      else if \<not> is_positive (def_contract_multiplier input)
      then Err (InvalidInstrument ''contract multiplier'')
      else if \<not> is_positive (def_quantity_step input)
      then Err (InvalidInstrument ''quantity step'')
      else case contract_metadata_error input of
        Some field \<Rightarrow> Err (InvalidInstrument field)
      | None \<Rightarrow> (case product_metadata_error input of
          Some field \<Rightarrow> Err (InvalidInstrument field)
        | None \<Rightarrow> (case lifecycle_error input of
            Some field \<Rightarrow> Err (InvalidLifecycle field)
          | None \<Rightarrow> Ok ())))"

definition definition_new ::
  "InstrumentDefinitionInput \<Rightarrow> (InstrumentDefinition, DomainError) result" where
  "definition_new input = and_then (validate_instrument input) (\<lambda>_. Ok input)"

definition quote_notional ::
  "InstrumentDefinition \<Rightarrow> Price \<Rightarrow> Quantity \<Rightarrow> (FixedDecimal, DomainError) result option" where
  "quote_notional d price quantity =
     map_option (\<lambda>r. and_then (map_err r Decimal) (\<lambda>v. map_err (notional_new v) Decimal))
       (case def_contract_kind d of
          Inverse \<Rightarrow> decimal_checked_mul quantity (def_contract_multiplier d)
        | _ \<Rightarrow> decimal_checked_product3 price quantity (def_contract_multiplier d))"

subsection \<open>Identity texts are canonical\<close>

lemma of_char_lower [simp]:
  "(of_char (to_ascii_lowercase c) :: nat) = (if is_ascii_uppercase c then of_char c + 32 else of_char c)"
  by (simp add: to_ascii_lowercase_def is_ascii_uppercase_def)

lemma of_char_upper [simp]:
  "(of_char (to_ascii_uppercase c) :: nat) = (if is_ascii_lowercase c then of_char c - 32 else of_char c)"
  by (auto simp: to_ascii_uppercase_def is_ascii_lowercase_def)

lemma lower_idem: "to_ascii_lowercase (to_ascii_lowercase c) = to_ascii_lowercase c"
  unfolding to_ascii_lowercase_def [of "to_ascii_lowercase c"]
  by (auto simp: is_ascii_uppercase_def)

lemma upper_idem: "to_ascii_uppercase (to_ascii_uppercase c) = to_ascii_uppercase c"
  unfolding to_ascii_uppercase_def [of "to_ascii_uppercase c"]
  by (auto simp: is_ascii_lowercase_def)

lemma component_char_lower: "component_char c \<Longrightarrow> component_char (to_ascii_lowercase c)"
  by (cases "is_ascii_uppercase c")
     (auto simp: component_char_def is_ascii_alphanumeric_def is_ascii_lowercase_def
        is_ascii_uppercase_def to_ascii_lowercase_def)

lemma component_char_upper: "component_char c \<Longrightarrow> component_char (to_ascii_uppercase c)"
  by (cases "is_ascii_lowercase c")
     (auto simp: component_char_def is_ascii_alphanumeric_def is_ascii_lowercase_def
        is_ascii_uppercase_def to_ascii_uppercase_def)

lemma component_char_ascii: "component_char c \<Longrightarrow> is_ascii c"
  by (auto simp: component_char_def is_ascii_alphanumeric_def is_ascii_lowercase_def
        is_ascii_uppercase_def is_ascii_digit_def is_ascii_def)

lemma validate_component_Ok_iff:
  "validate_component v f m = Ok w \<longleftrightarrow> w = v \<and> v \<noteq> [] \<and> length v \<le> m \<and> list_all component_char v"
  using component_char_ascii by (auto simp: validate_component_def list_all_iff)

lemma normalize_Ok_iff:
  "normalize v f m g = Ok w \<longleftrightarrow> v \<noteq> [] \<and> length v \<le> m \<and> list_all component_char v \<and> w = map g v"
  by (auto simp: normalize_def result_simps validate_component_Ok_iff)

lemma normalize_lower_idem: "normalize_lower v f m = Ok w \<Longrightarrow> normalize_lower w f m = Ok w"
  by (auto simp: normalize_lower_def normalize_Ok_iff list_all_iff component_char_lower lower_idem)

lemma normalize_upper_idem: "normalize_upper v f m = Ok w \<Longrightarrow> normalize_upper w f m = Ok w"
  by (auto simp: normalize_upper_def normalize_Ok_iff list_all_iff component_char_upper upper_idem)

lemma instrument_new_Ok:
  "instrument_new_for_product venue s p g = Ok i \<Longrightarrow>
     iid_venue i = venue \<and> iid_product_type i = p \<and> iid_generation i = g \<and> g > 0
     \<and> normalize_upper s ''venue symbol'' MAX_SYMBOL_LENGTH = Ok (iid_venue_symbol i)"
  by (auto simp: instrument_new_for_product_def result_simps ensure_generation_def split: if_splits)

subsection \<open>Quote notional\<close>

lemma nonneg_mantissa: "0 \<le> decimal_value d \<longleftrightarrow> \<not> is_negative d"
proof -
  have "\<not> (10::rat) ^ scale d \<le> 0" by (simp add: not_le)
  then show ?thesis by (simp add: decimal_value_def is_negative_def zero_le_divide_iff not_less)
qed

lemma positive_not_negative: "is_positive d \<Longrightarrow> \<not> is_negative d"
  by (simp add: is_positive_def is_negative_def)

lemma notional_Ok_iff:
  assumes "0 \<le> x" and r: "\<forall>d. r = Ok d \<longleftrightarrow> represents d x"
  shows "and_then (map_err r Decimal) (\<lambda>v. map_err (notional_new v) Decimal) = Ok d \<longleftrightarrow> represents d x"
proof (cases r)
  case (Inr v)
  then have "represents v x" using r by blast
  then have "\<not> is_negative v" using assms(1) nonneg_mantissa by blast
  then have "and_then (map_err r Decimal) (\<lambda>v. map_err (notional_new v) Decimal) = Ok v"
    using Inr by (simp add: notional_new_def decimal_wrapper_new_def)
  moreover have "r = Ok d \<longleftrightarrow> v = d" using Inr by auto
  ultimately show ?thesis using r by auto
next
  case (Inl e)
  then show ?thesis using r by simp
qed

subsection \<open>Properties\<close>

text \<open>
  C32. An instrument identity survives its wire form: what serde writes for an identity the
  constructor accepted reads back as the same identity, although the product field is left out
  for spot, because venue and symbol are already in the case the reader normalises to.
\<close>

theorem instrument_wire_roundtrip:
  assumes "venue_new v = Ok venue" "instrument_new_for_product venue s p g = Ok i"
  shows "instrument_deserialize (instrument_serialize i) = Ok i"
proof -
  note i = instrument_new_Ok [OF assms(2)]
  have "venue_new venue = Ok venue" using assms(1) unfolding venue_new_def by (rule normalize_lower_idem)
  moreover have "normalize_upper (iid_venue_symbol i) ''venue symbol'' MAX_SYMBOL_LENGTH
      = Ok (iid_venue_symbol i)" using i normalize_upper_idem by blast
  ultimately show ?thesis using i
    by (cases i; cases p) (simp_all add: instrument_deserialize_def instrument_deserialize_as_def
        instrument_serialize_def instrument_new_for_product_def ensure_generation_def)
qed

theorem instrument_wire_roundtrip_witness:
  "instrument_deserialize (instrument_serialize
     \<lparr>iid_venue = ''binance'', iid_venue_symbol = ''BTC-USDT'', iid_product_type = Perpetual,
      iid_generation = 2\<rparr>) =
   Ok \<lparr>iid_venue = ''binance'', iid_venue_symbol = ''BTC-USDT'', iid_product_type = Perpetual,
      iid_generation = 2\<rparr>"
proof -
  have "venue_new ''Binance'' = Ok ''binance''" by code_simp
  moreover have "instrument_new_for_product ''binance'' ''btc-usdt'' Perpetual 2 =
    Ok \<lparr>iid_venue = ''binance'', iid_venue_symbol = ''BTC-USDT'', iid_product_type = Perpetual,
      iid_generation = 2\<rparr>" by code_simp
  ultimately show ?thesis by (rule instrument_wire_roundtrip)
qed

text \<open>
  The quote notional of a validated instrument is exact: the computation returns, and it
  yields a notional exactly when the product of quantity and multiplier (and price, unless the
  contract is inverse) has a canonical representation, which is then the notional.
\<close>

theorem quote_notional_exact:
  assumes "definition_new input = Ok d" "decimal_wf (def_contract_multiplier d)"
    and "decimal_wf price" "is_positive price" "decimal_wf quantity" "\<not> is_negative quantity"
  shows "\<exists>r. quote_notional d price quantity = Some r
    \<and> (\<forall>n. r = Ok n \<longleftrightarrow> decimal_wf n \<and> decimal_value n =
         (if def_contract_kind d = Inverse
          then decimal_value quantity * decimal_value (def_contract_multiplier d)
          else decimal_value price * decimal_value quantity * decimal_value (def_contract_multiplier d)))"
proof -
  let ?m = "def_contract_multiplier d"
  have "is_positive ?m"
    using assms(1) by (auto simp: definition_new_def validate_instrument_def result_simps split: if_splits)
  then have nonneg: "0 \<le> decimal_value ?m" "0 \<le> decimal_value price" "0 \<le> decimal_value quantity"
    using assms(4,6) positive_not_negative by (simp_all only: nonneg_mantissa) blast+
  show ?thesis
  proof (cases "def_contract_kind d = Inverse")
    case True
    obtain r where r: "decimal_checked_mul quantity ?m = Some r"
      "\<forall>n. r = Ok n \<longleftrightarrow> represents n (decimal_value quantity * decimal_value ?m)"
      using checked_mul_spec [OF assms(5,2)] by blast
    have "0 \<le> decimal_value quantity * decimal_value ?m" using nonneg by simp
    from notional_Ok_iff [OF this r(2)] show ?thesis
      using True r(1) by (simp add: quote_notional_def)
  next
    case False
    obtain r where r: "decimal_checked_product3 price quantity ?m = Some r"
      "\<forall>n. r = Ok n \<longleftrightarrow> represents n (decimal_value price * decimal_value quantity * decimal_value ?m)"
      using checked_product3_spec [OF assms(3,5,2)] by blast
    have "0 \<le> decimal_value price * decimal_value quantity * decimal_value ?m" using nonneg by simp
    from notional_Ok_iff [OF this r(2)] show ?thesis
      using False r(1) by (cases "def_contract_kind d") (simp_all add: quote_notional_def)
  qed
qed

theorem quote_notional_exact_witness:
  fixes btc usd :: AssetId and perp :: InstrumentId
  defines "btc \<equiv> \<lparr>aid_namespace = Native, aid_chain_id = ''bitcoin'', aid_contract_or_mint = [],
      aid_canonical_symbol = ''BTC'', aid_generation = 1\<rparr>"
    and "usd \<equiv> \<lparr>aid_namespace = Fiat, aid_chain_id = [], aid_contract_or_mint = [],
      aid_canonical_symbol = ''USD'', aid_generation = 1\<rparr>"
    and "perp \<equiv> \<lparr>iid_venue = ''kraken'', iid_venue_symbol = ''BTC-USD'',
      iid_product_type = Perpetual, iid_generation = 1\<rparr>"
  shows "quote_notional
    \<lparr>def_id = perp, def_product_type = Perpetual, def_base_asset = btc, def_quote_asset = usd,
     def_settlement_asset = usd, def_contract_multiplier = \<lparr>mantissa = 1, scale = 2\<rparr>,
     def_contract_value_unit = Base, def_contract_kind = Linear, def_expiry_time = None,
     def_strike = None, def_option_side = None, def_price_tick = \<lparr>mantissa = 5, scale = 1\<rparr>,
     def_quantity_step = \<lparr>mantissa = 1, scale = 0\<rparr>, def_listing_time = 0,
     def_delisting_time = None\<rparr> \<lparr>mantissa = 605, scale = 1\<rparr> \<lparr>mantissa = 4, scale = 0\<rparr>
    = Some (Ok \<lparr>mantissa = 242, scale = 2\<rparr>)"
    (is "quote_notional ?d ?p ?q = _")
proof -
  have "definition_new ?d = Ok ?d"
    by (simp add: definition_new_def validate_instrument_def contract_metadata_error_def
        product_metadata_error_def lifecycle_error_def is_positive_def btc_def usd_def perp_def)
  moreover have "decimal_wf (def_contract_multiplier ?d)" "decimal_wf ?p" "decimal_wf ?q"
    by (simp_all add: decimal_wf_def numeral_bounds MAX_SCALE_def)
  moreover have "is_positive ?p" "\<not> is_negative ?q"
    by (simp_all add: is_positive_def is_negative_def)
  ultimately obtain r where "quote_notional ?d ?p ?q = Some r"
    "\<forall>n. r = Ok n \<longleftrightarrow> decimal_wf n \<and> decimal_value n =
       decimal_value ?p * decimal_value ?q * decimal_value (def_contract_multiplier ?d)"
    using quote_notional_exact [of ?d ?d ?p ?q] by auto
  then show ?thesis by (simp add: decimal_wf_def numeral_bounds MAX_SCALE_def decimal_value_def)
qed

end
