(* ===== verification/Book_State.thy ===== *)
theory Book_State
  imports Domain "HOL-Library.Multiset"
begin

text \<open>
  \<open>orderbook/src/state.rs\<close>: the configuration and session of one instrument shard, its states and
  outcomes, and the quality evidence (hourly counters, latency window, score). A ring buffer
  (\<open>VecDeque\<close>) is the list of its elements from front to back; the counts (\<open>u64\<close>) saturate as in
  the source, times are natural numbers of nanoseconds. \<open>BookError\<close> of \<open>lib.rs\<close> is here because
  every module of the crate returns it.
\<close>

subsection \<open>States, policies and errors\<close>

datatype BookState =
  Disconnected | Buffering | AwaitingSnapshot | Replaying | Synchronized | Untrusted

datatype ApplyResult =
  Applied | Duplicate | GapDetected | ChecksumMismatch | SnapshotRequired

datatype BookClassification = Normal | Locked | Crossed | OneSided

datatype SequencePolicy = ExactNext | RangeContainsNext | PreviousFinal

datatype SnapshotStrategy = ExternalBuffered | StreamSnapshot

datatype ChecksumPolicy = Disabled | Required

datatype ChecksumStatus = NotSupported | Pending | Valid | Mismatch

datatype BookError =
    InvalidConfig
  | Untrusted
  | InvalidEpoch
  | StaleInstrumentGeneration
  | WrongInstrument
  | InvalidSequence
  | SequenceOverflow
  | BufferCapacity
  | Capacity
  | MisalignedLevel
  | AmbiguousDelta
  | InvalidBook
  | ChecksumRequired
  | InvalidChecksumInput
  | InvalidEvent
  | ChecksumSourceUnavailable
  | MonotonicTimeRegression
  | L3Disabled
  | L3SnapshotRequired
  | InvalidL3Order
  | AmbiguousL3Order
  | UnknownL3Order
  | SequenceGap
  | ChecksumMismatch
  | SnapshotRequired
  | InvalidTransition

subsection \<open>Sessions and configuration\<close>

record BookSession =
  connection_epoch :: nat
  subscription_epoch :: nat
  instrument_generation :: nat

definition session_is_valid :: "BookSession \<Rightarrow> bool" where
  "session_is_valid s \<longleftrightarrow>
     connection_epoch s \<noteq> 0 \<and> subscription_epoch s \<noteq> 0 \<and> instrument_generation s \<noteq> 0"

definition is_strictly_after :: "BookSession \<Rightarrow> BookSession \<Rightarrow> bool" where
  "is_strictly_after s previous \<longleftrightarrow>
     connection_epoch s > connection_epoch previous
     \<or> connection_epoch s = connection_epoch previous
       \<and> subscription_epoch s > subscription_epoch previous"

definition MAX_BOOK_LEVELS_PER_SIDE :: nat where "MAX_BOOK_LEVELS_PER_SIDE = 100000"
definition MAX_BUFFERED_DELTAS :: nat where "MAX_BUFFERED_DELTAS = 100000"
definition MAX_BUFFERED_LEVEL_UPDATES :: nat where "MAX_BUFFERED_LEVEL_UPDATES = 1000000"
definition MAX_L3_ORDERS :: nat where "MAX_L3_ORDERS = 1000000"

record BookConfig =
  instrument :: InstrumentId
  price_tick :: Price
  quantity_step :: Quantity
  max_levels_per_side :: nat
  max_buffered_deltas :: nat
  max_buffered_level_updates :: nat
  sequence_policy :: SequencePolicy
  checksum_policy :: ChecksumPolicy
  max_l3_orders :: "nat option"
  max_l3_levels_per_side :: "nat option"

definition in_range :: "nat \<Rightarrow> nat \<Rightarrow> nat \<Rightarrow> bool" where
  "in_range lo hi n \<longleftrightarrow> lo \<le> n \<and> n \<le> hi"

definition config_validate :: "BookConfig \<Rightarrow> bool" where
  "config_validate c \<longleftrightarrow>
     is_positive (price_tick c) \<and> is_positive (quantity_step c)
     \<and> in_range 1 MAX_BOOK_LEVELS_PER_SIDE (max_levels_per_side c)
     \<and> in_range 1 MAX_BUFFERED_DELTAS (max_buffered_deltas c)
     \<and> in_range 1 MAX_BUFFERED_LEVEL_UPDATES (max_buffered_level_updates c)
     \<and> (case max_l3_orders c of None \<Rightarrow> True | Some maximum \<Rightarrow> in_range 1 MAX_L3_ORDERS maximum)
     \<and> (max_l3_orders c \<noteq> None) = (max_l3_levels_per_side c \<noteq> None)
     \<and> (case max_l3_levels_per_side c of None \<Rightarrow> True
        | Some depth \<Rightarrow> in_range 1 MAX_BOOK_LEVELS_PER_SIDE depth)"

subsection \<open>Quality evidence\<close>

definition QUALITY_WINDOW_NS :: nat where "QUALITY_WINDOW_NS = 3600000000000"
definition QUALITY_BUCKETS :: nat where "QUALITY_BUCKETS = 3601"
definition MAX_LATENCY_SAMPLES :: nat where "MAX_LATENCY_SAMPLES = 4096"

record CountBucket =
  epoch_second :: nat
  bucket_count :: nat

type_synonym HourlyCounter = "CountBucket list"

definition counter_prune :: "nat \<Rightarrow> HourlyCounter \<Rightarrow> HourlyCounter" where
  "counter_prune current_second buckets =
     dropWhile (\<lambda>b. current_second \<ge> epoch_second b
       \<and> saturating_sub current_second (epoch_second b) \<ge> 3600) buckets"

definition counter_record :: "HourlyCounter \<Rightarrow> nat \<Rightarrow> HourlyCounter" where
  "counter_record buckets now_monotonic_ns =
     (let second = now_monotonic_ns div 1000000000;
          pruned = counter_prune second buckets
      in if pruned \<noteq> [] \<and> epoch_second (last pruned) = second
         then butlast pruned @ [(last pruned)\<lparr>bucket_count :=
                saturating_add u64_max (bucket_count (last pruned)) 1\<rparr>]
         else (if length pruned = QUALITY_BUCKETS then tl pruned else pruned)
                @ [\<lparr>epoch_second = second, bucket_count = 1\<rparr>])"

definition counter_count :: "HourlyCounter \<Rightarrow> nat \<Rightarrow> nat" where
  "counter_count buckets now_monotonic_ns =
     (let current_second = now_monotonic_ns div 1000000000
      in foldl (\<lambda>total b. saturating_add u64_max total (bucket_count b)) 0
           (filter (\<lambda>b. current_second \<ge> epoch_second b
              \<and> saturating_sub current_second (epoch_second b) < 3600) buckets))"

record SourceLatencyPercentiles =
  p50_ms :: "nat option"
  p95_ms :: "nat option"
  p99_ms :: "nat option"
  sample_count :: nat

type_synonym LatencyWindow = "(nat \<times> nat) list"

definition latency_prune :: "nat \<Rightarrow> LatencyWindow \<Rightarrow> LatencyWindow" where
  "latency_prune now_monotonic_ns samples =
     (let cutoff = saturating_sub now_monotonic_ns QUALITY_WINDOW_NS
      in dropWhile (\<lambda>(observed_at, _). observed_at < cutoff) samples)"

definition latency_record :: "LatencyWindow \<Rightarrow> nat \<Rightarrow> nat \<Rightarrow> LatencyWindow" where
  "latency_record samples now_monotonic_ns latency_ms =
     (let pruned = latency_prune now_monotonic_ns samples
      in (if length pruned = MAX_LATENCY_SAMPLES then tl pruned else pruned)
           @ [(now_monotonic_ns, latency_ms)])"

definition percentile :: "nat list \<Rightarrow> nat \<Rightarrow> nat option" where
  "percentile values p =
     (if values = [] then None
      else let rank = saturating_add u64_max (saturating_mul u64_max (length values) p) 99 div 100;
               i = saturating_sub rank 1
           in if i < length values then Some (values ! i) else None)"

definition latency_percentiles :: "LatencyWindow \<Rightarrow> nat \<Rightarrow> SourceLatencyPercentiles" where
  "latency_percentiles samples now_monotonic_ns =
     (let cutoff = saturating_sub now_monotonic_ns QUALITY_WINDOW_NS;
          values = sort (map snd (filter (\<lambda>(observed_at, _). observed_at \<ge> cutoff) samples))
      in \<lparr>p50_ms = percentile values 50, p95_ms = percentile values 95,
          p99_ms = percentile values 99, sample_count = length values\<rparr>)"

record BookQuality =
  health_state :: BookState
  quality_last_source_sequence :: nat
  last_update_age_ms :: nat
  quality_checksum_status :: ChecksumStatus
  resync_count_1h :: nat
  missing_sequence_count_1h :: nat
  checksum_failure_count_1h :: nat
  crossed_state_count_1h :: nat
  source_latency_percentiles :: SourceLatencyPercentiles
  trusted_depth_levels :: nat
  quality_score_ppm :: nat

text \<open>
  The penalty of a score. The source subtracts it from one million in \<open>u64\<close>, which panics below zero
  (the release profile keeps overflow checks), so that it must not exceed one million.
\<close>

definition quality_penalty :: "nat \<Rightarrow> nat \<Rightarrow> nat \<Rightarrow> nat" where
  "quality_penalty missing failures crossed =
     min (saturating_add u64_max (saturating_add u64_max
            (saturating_mul u64_max missing 250000)
            (saturating_mul u64_max failures 300000))
            (saturating_mul u64_max crossed 50000)) 1000000"

definition quality_score ::
  "BookState \<Rightarrow> nat \<Rightarrow> nat \<Rightarrow> ChecksumStatus \<Rightarrow> nat \<Rightarrow> nat \<Rightarrow> nat \<Rightarrow> nat \<Rightarrow> SourceLatencyPercentiles \<Rightarrow> nat \<Rightarrow>
     BookQuality" where
  "quality_score health last_sequence age_ms checksum resyncs missing failures crossed latency depth =
     (let penalty = quality_penalty missing failures crossed;
          remaining = 1000000 - penalty
      in \<lparr>health_state = health, quality_last_source_sequence = last_sequence,
          last_update_age_ms = age_ms, quality_checksum_status = checksum,
          resync_count_1h = resyncs, missing_sequence_count_1h = missing,
          checksum_failure_count_1h = failures, crossed_state_count_1h = crossed,
          source_latency_percentiles = latency, trusted_depth_levels = depth,
          quality_score_ppm = if remaining \<le> u32_max then remaining else 0\<rparr>)"

subsection \<open>The hourly counter counts the last hour\<close>

text \<open>The state a counter is in after events in the given (non-decreasing) seconds.\<close>

definition counter_inv :: "nat list \<Rightarrow> HourlyCounter \<Rightarrow> bool" where
  "counter_inv secs bs \<longleftrightarrow>
     sorted_wrt (<) (map epoch_second bs)
     \<and> (\<forall>b \<in> set bs. epoch_second b \<in> set secs
          \<and> bucket_count b = min u64_max (count_list secs (epoch_second b)))
     \<and> (\<forall>e \<in> set secs. last secs - e < 3600 \<longrightarrow> e \<in> epoch_second ` set bs)"

lemma dropWhile_eq_filter:
  assumes "sorted_wrt R xs" "\<And>a b. R a b \<Longrightarrow> P b \<Longrightarrow> P a"
  shows "dropWhile P xs = filter (\<lambda>x. \<not> P x) xs"
  using assms(1)
proof (induction xs)
  case (Cons x xs)
  show ?case
  proof (cases "P x")
    case False
    then have "filter (\<lambda>x. \<not> P x) xs = xs" using Cons.prems assms(2) by (auto simp: filter_id_conv)
    with False show ?thesis by simp
  qed (use Cons in simp)
qed simp

lemma strict_sorted_window_length:
  assumes "sorted_wrt (<) xs" "\<forall>x \<in> set xs. x \<le> s \<and> s - x < (n::nat)"
  shows "length xs \<le> n"
proof -
  have "distinct xs" using assms(1) strict_sorted_iff by blast
  then have "length xs = card (set xs)" by (simp add: distinct_card)
  also have "\<dots> \<le> card {Suc s - n..s}" using assms(2) by (intro card_mono) auto
  also have "\<dots> \<le> n" by simp
  finally show ?thesis .
qed

lemma counter_prune_filter:
  assumes "sorted_wrt (<) (map epoch_second bs)" "\<forall>b \<in> set bs. epoch_second b \<le> s"
  shows "counter_prune s bs = filter (\<lambda>b. s - epoch_second b < 3600) bs"
proof -
  have "counter_prune s bs = filter (\<lambda>b. \<not> (s \<ge> epoch_second b \<and> s - epoch_second b \<ge> 3600)) bs"
    unfolding counter_prune_def saturating_sub_def
    by (rule dropWhile_eq_filter [where R = "\<lambda>a b. epoch_second a < epoch_second b"])
       (use assms(1) in \<open>auto simp: sorted_wrt_map\<close>)
  also have "\<dots> = filter (\<lambda>b. s - epoch_second b < 3600) bs"
    using assms(2) by (auto intro: filter_cong)
  finally show ?thesis .
qed

lemma counter_record_cases:
  assumes inv: "counter_inv secs bs" and le: "\<forall>e \<in> set secs. e \<le> now div 1000000000"
  defines "s \<equiv> now div 1000000000"
  defines "pruned \<equiv> filter (\<lambda>b. s - epoch_second b < 3600) bs"
  shows "counter_record bs now =
    (if pruned \<noteq> [] \<and> epoch_second (last pruned) = s
     then butlast pruned @ [(last pruned)\<lparr>bucket_count := saturating_add u64_max (bucket_count (last pruned)) 1\<rparr>]
     else pruned @ [\<lparr>epoch_second = s, bucket_count = 1\<rparr>])"
proof -
  have srt: "sorted_wrt (<) (map epoch_second bs)" and le': "\<forall>b \<in> set bs. epoch_second b \<le> s"
    using inv le by (auto simp: counter_inv_def s_def)
  have "sorted_wrt (<) (map epoch_second pruned)"
    using srt by (simp add: pruned_def sorted_wrt_map sorted_wrt_filter)
  then have "length (map epoch_second pruned) \<le> 3600"
    by (rule strict_sorted_window_length [of _ s]) (use le' in \<open>auto simp: pruned_def\<close>)
  then have "length pruned \<noteq> QUALITY_BUCKETS" by (simp add: QUALITY_BUCKETS_def)
  moreover have "counter_prune s bs = pruned"
    unfolding pruned_def using srt le' by (rule counter_prune_filter)
  ultimately show ?thesis by (simp add: counter_record_def Let_def s_def [symmetric])
qed

lemma counter_inv_window:
  assumes inv: "counter_inv secs bs" and le: "\<forall>e \<in> set secs. e \<le> s"
  defines "pruned \<equiv> filter (\<lambda>b. s - epoch_second b < 3600) bs"
  shows "sorted_wrt (<) (map epoch_second pruned)"
    and "\<forall>b \<in> set pruned. epoch_second b \<in> set secs
          \<and> bucket_count b = min u64_max (count_list secs (epoch_second b))"
    and "\<forall>e \<in> set secs. s - e < 3600 \<longrightarrow> e \<in> epoch_second ` set pruned"
proof -
  show "sorted_wrt (<) (map epoch_second pruned)"
    using inv by (simp add: counter_inv_def pruned_def sorted_wrt_map sorted_wrt_filter)
  show "\<forall>b \<in> set pruned. epoch_second b \<in> set secs
          \<and> bucket_count b = min u64_max (count_list secs (epoch_second b))"
    using inv by (simp add: counter_inv_def pruned_def)
  show "\<forall>e \<in> set secs. s - e < 3600 \<longrightarrow> e \<in> epoch_second ` set pruned"
  proof (intro ballI impI)
    fix e assume e: "e \<in> set secs" "s - e < 3600"
    then have "last secs \<le> s" using le by (cases secs) auto
    then have "last secs - e < 3600" using e(2) by linarith
    then obtain b where "b \<in> set bs" "e = epoch_second b" using inv e(1) by (auto simp: counter_inv_def)
    then show "e \<in> epoch_second ` set pruned" using e(2) by (auto simp: pruned_def)
  qed
qed

lemma counter_inv_record:
  assumes inv: "counter_inv secs bs" and le: "\<forall>e \<in> set secs. e \<le> now div 1000000000"
  shows "counter_inv (secs @ [now div 1000000000]) (counter_record bs now)"
proof -
  define s where "s = now div 1000000000"
  define pruned where "pruned = filter (\<lambda>b. s - epoch_second b < 3600) bs"
  note rec = counter_record_cases [OF inv le, folded s_def, folded pruned_def]
  note w = counter_inv_window [OF inv, of s, folded pruned_def]
  have les: "\<forall>e \<in> set secs. e \<le> s" using le by (simp add: s_def)
  show ?thesis
  proof (cases "pruned \<noteq> [] \<and> epoch_second (last pruned) = s")
    case True
    then obtain ps b where ps: "pruned = ps @ [b]" "epoch_second b = s" by (cases pruned rule: rev_cases) auto
    have lt: "\<forall>c \<in> set ps. epoch_second c < s" using w(1) [OF les] ps by (auto simp: sorted_wrt_append)
    have "counter_record bs now = ps @ [b\<lparr>bucket_count := saturating_add u64_max (bucket_count b) 1\<rparr>]"
      unfolding rec using True ps by simp
    then show ?thesis
      using w(1,3) [OF les] w(2) [OF les] lt ps unfolding counter_inv_def s_def [symmetric]
      by (auto simp: sorted_wrt_append saturating_add_def u64_max_def)
  next
    case False
    have new: "s \<notin> epoch_second ` set pruned"
    proof
      assume "s \<in> epoch_second ` set pruned"
      then obtain xs b ys where split: "pruned = xs @ b # ys" "epoch_second b = s"
        by (auto simp: in_set_conv_decomp)
      have "ys = []"
      proof (rule ccontr)
        assume "ys \<noteq> []"
        then obtain c where "c \<in> set ys" by (cases ys) auto
        then have "s < epoch_second c" "epoch_second c \<le> s"
          using w(1) [OF les] w(2) [OF les] split les by (auto simp: sorted_wrt_append)
        then show False by simp
      qed
      then show False using False split by simp
    qed
    then have "s \<notin> set secs" using w(3) [OF les] by (metis diff_self_eq_0 zero_less_numeral)
    then have c0: "count_list secs s = 0" by (simp add: count_list_0_iff)
    have lt: "\<forall>c \<in> set pruned. epoch_second c < s"
      using w(2) [OF les] les new by (metis image_eqI le_neq_implies_less)
    have "counter_record bs now = pruned @ [\<lparr>epoch_second = s, bucket_count = 1\<rparr>]"
      unfolding rec using False by (simp only: if_False)
    then show ?thesis
      using w(1,3) [OF les] w(2) [OF les] lt c0 unfolding counter_inv_def s_def [symmetric]
      by (auto simp: sorted_wrt_append u64_max_def)
  qed
qed

lemma saturating_sum:
  "foldl (\<lambda>total b. saturating_add m total (f b)) a bs = (if bs = [] then a else min m (a + sum_list (map f bs)))"
proof (induction bs arbitrary: a)
  case (Cons b bs)
  then show ?case by (cases bs) (auto simp: saturating_add_def)
qed simp

lemma min_sum_list: "min m (sum_list (map (\<lambda>x. min m (f x)) xs)) = min m (sum_list (map f xs) :: nat)"
  by (induction xs) auto

lemma sum_count_list: "finite E \<Longrightarrow> (\<Sum>e \<in> E. count_list xs e) = length (filter (\<lambda>x. x \<in> E) xs)"
proof (induction xs)
  case (Cons x xs)
  have "(\<Sum>e \<in> E. count_list (x # xs) e) = (\<Sum>e \<in> E. count_list xs e + (if e = x then 1 else 0))"
    by (intro sum.cong) auto
  then show ?case using Cons by (auto simp: sum.distrib)
qed simp

lemma counter_count_spec:
  assumes inv: "counter_inv secs bs" and le: "\<forall>e \<in> set secs. e \<le> now div 1000000000"
  shows "counter_count bs now =
    min u64_max (length (filter (\<lambda>e. now div 1000000000 - e < 3600) secs))"
proof -
  define s where "s = now div 1000000000"
  have les: "\<forall>e \<in> set secs. e \<le> s" using le by (simp add: s_def)
  define pruned where "pruned = filter (\<lambda>b. s - epoch_second b < 3600) bs"
  note w = counter_inv_window [OF inv les, folded pruned_def]
  have "filter (\<lambda>b. s \<ge> epoch_second b \<and> s - epoch_second b < 3600) bs = pruned"
    unfolding pruned_def using inv les by (intro filter_cong) (auto simp: counter_inv_def)
  then have "counter_count bs now = min u64_max (sum_list (map bucket_count pruned))"
    by (simp add: counter_count_def Let_def saturating_sub_def s_def [symmetric] saturating_sum)
  also have "map bucket_count pruned = map (\<lambda>e. min u64_max (count_list secs e)) (map epoch_second pruned)"
    using w(2) by simp
  also have "min u64_max (sum_list \<dots>) = min u64_max (sum_list (map (count_list secs) (map epoch_second pruned)))"
    by (rule min_sum_list)
  also have "sum_list (map (count_list secs) (map epoch_second pruned)) =
      (\<Sum>e \<in> set (map epoch_second pruned). count_list secs e)"
    using w(1) strict_sorted_iff by (intro sum_list_distinct_conv_sum_set) blast
  also have "\<dots> = length (filter (\<lambda>x. x \<in> set (map epoch_second pruned)) secs)"
    by (rule sum_count_list) simp
  also have "filter (\<lambda>x. x \<in> set (map epoch_second pruned)) secs = filter (\<lambda>e. s - e < 3600) secs"
    using w(3) by (intro filter_cong) (auto simp: pruned_def)
  finally show ?thesis by (simp add: s_def)
qed

lemma counter_inv_records:
  "sorted ts \<Longrightarrow> counter_inv (map (\<lambda>t. t div 1000000000) ts) (foldl counter_record [] ts)"
proof (induction ts rule: rev_induct)
  case Nil
  then show ?case by (simp add: counter_inv_def)
next
  case (snoc t ts)
  then have "counter_inv (map (\<lambda>t. t div 1000000000) ts) (foldl counter_record [] ts)"
    "\<forall>u \<in> set ts. u \<le> t" by (auto simp: sorted_append)
  then show ?case using counter_inv_record [of _ _ t] by (simp add: div_le_mono)
qed

subsection \<open>Percentiles are nearest ranks\<close>

definition nearest_rank :: "nat \<Rightarrow> nat list \<Rightarrow> nat \<Rightarrow> bool" where
  "nearest_rank p xs v \<longleftrightarrow>
     v \<in> set xs \<and> p * length xs \<le> 100 * length (filter (\<lambda>x. x \<le> v) xs)
     \<and> 100 * length (filter (\<lambda>x. x < v) xs) < p * length xs"

lemma length_filter_sorted:
  assumes "sorted xs" "i < length xs"
  shows "Suc i \<le> length (filter (\<lambda>x. x \<le> xs ! i) xs)"
    and "length (filter (\<lambda>x. x < xs ! i) xs) \<le> i"
proof -
  have split: "xs = take (Suc i) xs @ drop (Suc i) xs" by simp
  have "\<forall>x \<in> set (take (Suc i) xs). x \<le> xs ! i"
    using assms by (auto simp: in_set_conv_nth sorted_iff_nth_mono)
  then have "filter (\<lambda>x. x \<le> xs ! i) (take (Suc i) xs) = take (Suc i) xs" by (simp add: filter_id_conv)
  then have "length (filter (\<lambda>x. x \<le> xs ! i) xs) \<ge> length (take (Suc i) xs)"
    by (metis filter_append le_add1 length_append split)
  then show "Suc i \<le> length (filter (\<lambda>x. x \<le> xs ! i) xs)" using assms(2) by simp
  have "\<forall>x \<in> set (drop i xs). \<not> x < xs ! i"
    using assms by (auto simp: in_set_conv_nth sorted_iff_nth_mono not_less)
  then have "filter (\<lambda>x. x < xs ! i) (drop i xs) = []" by (simp add: filter_empty_conv)
  then have "filter (\<lambda>x. x < xs ! i) xs = filter (\<lambda>x. x < xs ! i) (take i xs)"
    by (metis append_take_drop_id filter_append append_Nil2)
  then have "length (filter (\<lambda>x. x < xs ! i) xs) \<le> length (take i xs)" by (metis length_filter_le)
  then show "length (filter (\<lambda>x. x < xs ! i) xs) \<le> i" by simp
qed

lemma percentile_nearest_rank:
  assumes xs: "xs \<noteq> []" "length xs \<le> MAX_LATENCY_SAMPLES" and p: "0 < p" "p \<le> 100"
  shows "\<exists>v. percentile (sort xs) p = Some v \<and> nearest_rank p xs v"
proof -
  let ?n = "length xs" and ?ys = "sort xs"
  define rank where "rank = (?n * p + 99) div 100"
  have n: "0 < ?n" "?n \<le> 4096" using xs by (simp_all add: MAX_LATENCY_SAMPLES_def)
  have np: "?n * p \<le> ?n * 100" "1 \<le> ?n * p" using p n(1) by (simp_all add: Suc_leI)
  then have rank: "1 \<le> rank" "rank \<le> ?n" "?n * p \<le> 100 * rank" "100 * (rank - 1) < ?n * p"
    unfolding rank_def by linarith+
  have "saturating_add u64_max (saturating_mul u64_max ?n p) 99 = ?n * p + 99"
  proof -
    have "?n * p \<le> 409600" using np(1) n(2) by linarith
    then show ?thesis by (simp add: saturating_add_def saturating_mul_def u64_max_def min_def)
  qed
  moreover have i: "rank - 1 < length ?ys" using rank(1,2) n(1) by simp
  moreover have "?ys \<noteq> []" using xs(1) by (metis length_0_conv length_sort)
  ultimately have eq: "percentile ?ys p = Some (?ys ! (rank - 1))"
    unfolding percentile_def by (simp add: Let_def rank_def [symmetric] saturating_sub_def)
  let ?v = "?ys ! (rank - 1)"
  have len: "length (filter P ?ys) = length (filter P xs)" for P
    by (metis mset_filter mset_sort size_mset)
  have "?v \<in> set xs" using nth_mem [OF i] by simp
  moreover have "rank \<le> length (filter (\<lambda>x. x \<le> ?v) xs)"
    using length_filter_sorted(1) [OF sorted_sort i] rank(1) len by simp
  moreover have "length (filter (\<lambda>x. x < ?v) xs) \<le> rank - 1"
    using length_filter_sorted(2) [OF sorted_sort i] len by simp
  ultimately have "nearest_rank p xs ?v"
    unfolding nearest_rank_def using rank(3,4) by (simp add: mult.commute)
  then show ?thesis using eq by blast
qed

text \<open>The window holds what was recorded last, up to its capacity, without what is older than an hour.\<close>

definition latency_suffix :: "(nat \<times> nat) list \<Rightarrow> (nat \<times> nat) list" where
  "latency_suffix observations = drop (length observations - MAX_LATENCY_SAMPLES) observations"

lemma latency_prune_filter:
  assumes "sorted (map fst samples)"
  shows "latency_prune now samples = filter (\<lambda>s. now - QUALITY_WINDOW_NS \<le> fst s) samples"
proof -
  have "latency_prune now samples = dropWhile (\<lambda>s. fst s < now - QUALITY_WINDOW_NS) samples"
    by (simp add: latency_prune_def saturating_sub_def case_prod_unfold Let_def)
  also have "\<dots> = filter (\<lambda>s. \<not> fst s < now - QUALITY_WINDOW_NS) samples"
    by (rule dropWhile_eq_filter [where R = "\<lambda>a b. fst a \<le> fst b"]) (use assms in \<open>auto simp: sorted_map\<close>)
  finally show ?thesis by (simp add: not_less)
qed

lemma filter_drop_first:
  assumes "sorted (map fst xs)" "length (filter (\<lambda>s. c \<le> fst s) xs) \<noteq> length xs"
  shows "filter (\<lambda>s. c \<le> fst s) (tl xs) = filter (\<lambda>s. c \<le> fst s) xs"
proof (cases xs)
  case (Cons x ys)
  have "\<not> c \<le> fst x"
  proof
    assume "c \<le> fst x"
    then have "\<forall>s \<in> set xs. c \<le> fst s" using assms(1) Cons by auto
    then show False using assms(2) by simp
  qed
  then show ?thesis using Cons by simp
qed simp

lemma latency_records_suffix:
  assumes "sorted (map fst observations)"
  shows "foldl (\<lambda>w (now, ms). latency_record w now ms) [] observations =
    filter (\<lambda>s. fst (last observations) - QUALITY_WINDOW_NS \<le> fst s) (latency_suffix observations)"
  using assms
proof (induction observations rule: rev_induct)
  case (snoc obs observations)
  obtain now ms where obs: "obs = (now, ms)" by (cases obs)
  let ?last = "fst (last observations)" and ?keep = "filter (\<lambda>s. now - QUALITY_WINDOW_NS \<le> fst s)"
  let ?w = "foldl (\<lambda>w (now, ms). latency_record w now ms) [] observations"
  have sorted: "sorted (map fst observations)" "\<forall>s \<in> set observations. fst s \<le> now"
    using snoc.prems by (auto simp: sorted_append obs)
  let ?xs = "latency_suffix observations"
  have xs: "sorted (map fst ?xs)" using sorted(1) by (simp add: latency_suffix_def sorted_wrt_drop drop_map flip: drop_map)
  have w: "?w = filter (\<lambda>s. ?last - QUALITY_WINDOW_NS \<le> fst s) ?xs" using snoc.IH sorted(1) by simp
  have "?last \<le> now" if "observations \<noteq> []" using sorted(2) that by simp
  then have "?keep ?w = ?keep ?xs"
    unfolding w by (cases "observations = []") (auto simp: latency_suffix_def intro!: filter_cong)
  moreover have "sorted (map fst ?w)" unfolding w using xs by (rule sorted_filter)
  ultimately have pruned: "latency_prune now ?w = ?keep ?xs" by (simp add: latency_prune_filter)
  have "(if length (?keep ?xs) = MAX_LATENCY_SAMPLES then tl (?keep ?xs) else ?keep ?xs) =
      ?keep (drop (Suc (length observations) - MAX_LATENCY_SAMPLES) observations)"
  proof (cases "MAX_LATENCY_SAMPLES \<le> length observations")
    case True
    then have next_xs: "drop (Suc (length observations) - MAX_LATENCY_SAMPLES) observations = tl ?xs"
      by (simp add: latency_suffix_def Suc_diff_le drop_Suc tl_drop)
    have len: "length ?xs = MAX_LATENCY_SAMPLES" using True by (simp add: latency_suffix_def)
    show ?thesis
    proof (cases "length (?keep ?xs) = length ?xs")
      case True
      then have "?keep ?xs = ?xs" by (metis filter_id_conv length_filter_less less_irrefl)
      moreover have "?keep (tl ?xs) = tl ?xs"
        using \<open>?keep ?xs = ?xs\<close> by (metis filter_id_conv list.set_sel(2) tl_Nil)
      ultimately show ?thesis using len by (simp add: next_xs)
    next
      case False
      then show ?thesis using len filter_drop_first [OF xs False] by (simp add: next_xs)
    qed
  next
    case False
    then have "length (?keep ?xs) < MAX_LATENCY_SAMPLES"
      using le_less_trans [OF length_filter_le, of observations] by (simp add: latency_suffix_def)
    then show ?thesis using False by (simp add: latency_suffix_def)
  qed
  then have "latency_record ?w now ms = ?keep (drop (Suc (length observations) - MAX_LATENCY_SAMPLES) observations) @ [obs]"
    by (simp add: latency_record_def [of ?w] Let_def pruned obs)
  moreover have "latency_suffix (observations @ [obs]) =
      drop (Suc (length observations) - MAX_LATENCY_SAMPLES) observations @ [obs]"
    by (simp add: latency_suffix_def MAX_LATENCY_SAMPLES_def)
  ultimately show ?case by (simp add: obs)
qed (simp add: latency_suffix_def)

lemma latency_suffix_recent:
  assumes "sorted (map fst observations)" "\<forall>s \<in> set observations. fst s \<le> now"
  shows "filter (\<lambda>s. now - QUALITY_WINDOW_NS \<le> fst s) (foldl (\<lambda>w (now, ms). latency_record w now ms) [] observations) =
    filter (\<lambda>s. now - QUALITY_WINDOW_NS \<le> fst s) (latency_suffix observations)"
proof (cases "observations = []")
  case False
  then have "fst (last observations) \<le> now" using assms(2) by simp
  then show ?thesis unfolding latency_records_suffix [OF assms(1)] by (auto intro!: filter_cong)
qed (simp add: latency_suffix_def)

lemma quality_penalty_exact: "quality_penalty missing failures crossed =
    min 1000000 (250000 * missing + 300000 * failures + 50000 * crossed)"
  by (auto simp: quality_penalty_def saturating_add_def saturating_mul_def u64_max_def min_def)

subsection \<open>Properties\<close>

text \<open>
  The hourly counter is exact: after recording events at non-decreasing times, its count at
  a later time is the number of events of the last 3600 seconds, capped at the largest \<open>u64\<close>; the
  bucket limit never discards an event that still counts.
\<close>

theorem hourly_counter_exact:
  assumes "sorted ts" "\<forall>t \<in> set ts. t \<le> now"
  shows "counter_count (foldl counter_record [] ts) now =
    min u64_max (length (filter (\<lambda>t. now div 1000000000 - t div 1000000000 < 3600) ts))"
proof -
  have "\<forall>e \<in> set (map (\<lambda>t. t div 1000000000) ts). e \<le> now div 1000000000"
    using assms(2) by (auto intro: div_le_mono)
  from counter_count_spec [OF counter_inv_records [OF assms(1)] this]
  show ?thesis by (simp add: filter_map comp_def)
qed

theorem hourly_counter_exact_witness:
  "counter_count (foldl counter_record [] [0, 500000000, 7000000000, 3600000000000]) 3600000000000 = 2"
  using hourly_counter_exact [of "[0, 500000000, 7000000000, 3600000000000]" 3600000000000]
  by (simp add: u64_max_def)

text \<open>
  C33. The latency percentiles are nearest-rank percentiles of the recorded latencies. After
  recording observations at non-decreasing times, the samples at a later time are those of the last
  4096 observations that are at most an hour old; the count is their number, and each of p50, p95 and
  p99 is absent only when there is none, and otherwise is one of them with at least that share of
  them at or below it and less than that share below it.
\<close>

theorem latency_percentiles_nearest_rank:
  fixes observations :: "(nat \<times> nat) list" and now :: nat
  assumes sorted: "sorted (map fst observations)" and past: "\<forall>s \<in> set observations. fst s \<le> now"
  defines "w \<equiv> foldl (\<lambda>w (now, ms). latency_record w now ms) [] observations"
  defines "xs \<equiv> map snd (filter (\<lambda>s. now \<le> fst s + QUALITY_WINDOW_NS)
    (drop (length observations - MAX_LATENCY_SAMPLES) observations))"
  shows "sample_count (latency_percentiles w now) = length xs
    \<and> (if xs = [] then p50_ms (latency_percentiles w now) = None
         \<and> p95_ms (latency_percentiles w now) = None \<and> p99_ms (latency_percentiles w now) = None
       else (\<exists>a b c. p50_ms (latency_percentiles w now) = Some a \<and> nearest_rank 50 xs a
         \<and> p95_ms (latency_percentiles w now) = Some b \<and> nearest_rank 95 xs b
         \<and> p99_ms (latency_percentiles w now) = Some c \<and> nearest_rank 99 xs c))"
proof -
  have "xs = map snd (filter (\<lambda>s. now - QUALITY_WINDOW_NS \<le> fst s) w)"
    unfolding xs_def w_def latency_suffix_recent [OF sorted past] latency_suffix_def
    by (intro arg_cong [where f = "map snd"] filter_cong) auto
  then have eq: "latency_percentiles w now = \<lparr>p50_ms = percentile (sort xs) 50,
      p95_ms = percentile (sort xs) 95, p99_ms = percentile (sort xs) 99, sample_count = length xs\<rparr>"
    by (simp add: latency_percentiles_def Let_def saturating_sub_def case_prod_unfold)
  show ?thesis
  proof (cases "xs = []")
    case True
    then show ?thesis by (simp add: eq percentile_def)
  next
    case False
    have len: "length xs \<le> MAX_LATENCY_SAMPLES"
      unfolding xs_def length_map by (rule order.trans [OF length_filter_le]) simp
    show ?thesis
      using False percentile_nearest_rank [OF False len, of 50]
        percentile_nearest_rank [OF False len, of 95] percentile_nearest_rank [OF False len, of 99]
      by (simp add: eq)
  qed
qed

text \<open>Four observations, of which the first is older than an hour.\<close>

theorem latency_percentiles_nearest_rank_witness:
  "let w = foldl (\<lambda>w (now, ms). latency_record w now ms) [] [(5, 900), (3600000000000, 30), (3600000000001, 10), (3600000000002, 20)]
   in sample_count (latency_percentiles w 3600000000009) = 3 \<and> p50_ms (latency_percentiles w 3600000000009) = Some 20"
  using latency_percentiles_nearest_rank [of "[(5, 900), (3600000000000, 30), (3600000000001, 10), (3600000000002, 20)]" 3600000000009]
  by (auto simp: Let_def QUALITY_WINDOW_NS_def MAX_LATENCY_SAMPLES_def nearest_rank_def)

text \<open>
  C34. The quality score measures the trouble of the last hour. From the times at which a missing
  sequence, a checksum failure and a crossed book were recorded, each in order and none in the
  future, the score is one million minus 250000, 300000 and 50000 for each of those recorded within
  the last 3600 seconds, and zero when that would be negative; so it is full exactly when nothing was
  recorded in that time. The penalty never exceeds one million, so the subtraction of the source
  never underflows.
\<close>

theorem quality_score_of_events:
  fixes now n age resyncs depth :: nat and h :: BookState and status :: ChecksumStatus and latency :: SourceLatencyPercentiles
  assumes "sorted missing" "sorted failures" "sorted crossed" and past: "\<forall>t \<in> set (missing @ failures @ crossed). t \<le> now"
  defines "recent \<equiv> \<lambda>ts. length (filter (\<lambda>t. now div 1000000000 - t div 1000000000 < 3600) ts)"
    and "counted \<equiv> \<lambda>ts. counter_count (foldl counter_record [] ts) now"
  defines "score \<equiv> quality_score_ppm (quality_score h n age status resyncs (counted missing) (counted failures) (counted crossed)
    latency depth)"
  shows "quality_penalty (counted missing) (counted failures) (counted crossed) \<le> 1000000
    \<and> int score = max 0 (1000000 - int (250000 * recent missing + 300000 * recent failures + 50000 * recent crossed))
    \<and> (score = 1000000 \<longleftrightarrow> recent missing = 0 \<and> recent failures = 0 \<and> recent crossed = 0)"
proof -
  have counts: "counted missing = min u64_max (recent missing)" "counted failures = min u64_max (recent failures)"
    "counted crossed = min u64_max (recent crossed)"
    unfolding counted_def recent_def using assms(1-4) by (simp_all add: hourly_counter_exact)
  define total where "total = 250000 * recent missing + 300000 * recent failures + 50000 * recent crossed"
  have penalty: "quality_penalty (counted missing) (counted failures) (counted crossed) = min 1000000 total"
    unfolding quality_penalty_exact counts total_def by (auto simp: min_def u64_max_def)
  then have "score = 1000000 - min 1000000 total"
    by (simp add: score_def quality_score_def Let_def u32_max_def)
  then show ?thesis unfolding penalty by (auto simp: total_def min_def max_def of_nat_diff)
qed

theorem quality_score_of_events_witness:
  "quality_score_ppm (quality_score Synchronized 1 0 Valid 0
     (counter_count (foldl counter_record [] [0, 3600000000000]) 3600000000000)
     (counter_count (foldl counter_record [] []) 3600000000000)
     (counter_count (foldl counter_record [] [7000000000, 7000000001]) 3600000000000)
     \<lparr>p50_ms = None, p95_ms = None, p99_ms = None, sample_count = 0\<rparr> 2) = 650000"
  using quality_score_of_events [of "[0, 3600000000000]" "[]" "[7000000000, 7000000001]" 3600000000000
      Synchronized 1 0 Valid 0 "\<lparr>p50_ms = None, p95_ms = None, p99_ms = None, sample_count = 0\<rparr>" 2]
  by simp

end
