(* ===== verification/L2_Book.thy ===== *)
theory L2_Book
  imports Book_State Decimal_Correct
begin

text \<open>
  The level-two part of \<open>orderbook/src/book.rs\<close>: the price-level book of one instrument, built
  from a validated snapshot and advanced by validated deltas. A side is a \<open>BTreeMap\<close> from price
  to level, modelled by the sorted entry list of the theory on \<open>BTreeMap\<close> with the order of
  decimals. The two truncation loops remove one level per round; the model gives them as many
  rounds as the side has levels, and the lemmas show that this is enough. \<open>usize\<close> has 64 bits.
\<close>

subsection \<open>Levels\<close>

record BookLevel =
  lvl_price :: Price
  lvl_quantity :: Quantity
  lvl_order_count :: "nat option"

record BookSnapshot =
  snap_bids :: "BookLevel list"
  snap_asks :: "BookLevel list"
  snap_last_sequence :: nat

record BookDelta =
  delta_bids :: "BookLevel list"
  delta_asks :: "BookLevel list"
  delta_first_sequence :: nat
  delta_last_sequence :: nat

record LevelValue =
  lv_quantity :: Quantity
  lv_order_count :: "nat option"

type_synonym book_side = "(Price, LevelValue) btree"

record L2Book =
  l2_bids :: book_side
  l2_asks :: book_side
  l2_sequence :: nat

definition level_value :: "BookLevel \<Rightarrow> LevelValue" where
  "level_value level = \<lparr>lv_quantity = lvl_quantity level, lv_order_count = lvl_order_count level\<rparr>"

definition decimal_is_multiple :: "FixedDecimal \<Rightarrow> FixedDecimal \<Rightarrow> bool" where
  "decimal_is_multiple v u =
     (if is_zero u then False
      else let s = max (scale v) (scale u)
           in case checked_i128 (10 ^ (s - scale v)) of None \<Rightarrow> False
              | Some value_scale \<Rightarrow> (case checked_i128 (10 ^ (s - scale u)) of None \<Rightarrow> False
              | Some unit_scale \<Rightarrow> (case checked_i128 (mantissa v * value_scale) of None \<Rightarrow> False
              | Some value_mantissa \<Rightarrow> (case checked_i128 (mantissa u * unit_scale) of None \<Rightarrow> False
              | Some unit_mantissa \<Rightarrow>
                  unit_mantissa \<noteq> 0 \<and> trunc_mod value_mantissa unit_mantissa = 0))))"

definition validate_level :: "bool \<Rightarrow> BookConfig \<Rightarrow> BookLevel \<Rightarrow> (unit, BookError) result" where
  "validate_level allow_zero_quantity config level =
     (if \<not> allow_zero_quantity \<and> is_zero (lvl_quantity level) then Err InvalidBook
      else if \<not> is_zero (lvl_quantity level) \<and> lvl_order_count level = Some 0 then Err InvalidBook
      else if \<not> decimal_is_multiple (lvl_price level) (price_tick config)
              \<or> \<not> decimal_is_multiple (lvl_quantity level) (quantity_step config)
      then Err MisalignedLevel
      else Ok ())"

fun validate_each :: "bool \<Rightarrow> BookConfig \<Rightarrow> BookLevel list \<Rightarrow> (unit, BookError) result" where
  "validate_each allow_zero config [] = Ok ()"
| "validate_each allow_zero config (level # levels) =
     and_then (validate_level allow_zero config level) (\<lambda>_. validate_each allow_zero config levels)"

definition validate_levels ::
  "BookLevel list \<Rightarrow> bool \<Rightarrow> BookConfig \<Rightarrow> (unit, BookError) result" where
  "validate_levels levels allow_zero config =
     (if length levels > max_levels_per_side config then Err Capacity
      else validate_each allow_zero config levels)"

fun strictly_descending :: "BookLevel list \<Rightarrow> bool" where
  "strictly_descending (a # b # levels) \<longleftrightarrow>
     decimal_cmp (lvl_price a) (lvl_price b) = Greater \<and> strictly_descending (b # levels)"
| "strictly_descending _ \<longleftrightarrow> True"

fun strictly_ascending :: "BookLevel list \<Rightarrow> bool" where
  "strictly_ascending (a # b # levels) \<longleftrightarrow>
     decimal_cmp (lvl_price a) (lvl_price b) = Less \<and> strictly_ascending (b # levels)"
| "strictly_ascending _ \<longleftrightarrow> True"

fun unique_prices :: "(Price, unit) btree \<Rightarrow> BookLevel list \<Rightarrow> bool" where
  "unique_prices seen [] \<longleftrightarrow> True"
| "unique_prices seen (level # levels) \<longleftrightarrow>
     \<not> bt_contains decimal_cmp (lvl_price level) seen
     \<and> unique_prices (bt_insert decimal_cmp (lvl_price level) () seen) levels"

definition ensure_unique_prices :: "BookLevel list \<Rightarrow> (unit, BookError) result" where
  "ensure_unique_prices levels = (if unique_prices [] levels then Ok () else Err AmbiguousDelta)"

fun apply_side :: "book_side \<Rightarrow> BookLevel list \<Rightarrow> book_side" where
  "apply_side side [] = side"
| "apply_side side (level # levels) =
     apply_side (if is_zero (lvl_quantity level) then bt_remove decimal_cmp (lvl_price level) side
                 else bt_insert decimal_cmp (lvl_price level) (level_value level) side) levels"

fun truncate_bids_loop :: "nat \<Rightarrow> ('k \<Rightarrow> 'k \<Rightarrow> Ordering) \<Rightarrow> ('k, 'v) btree \<Rightarrow> nat \<Rightarrow> ('k, 'v) btree" where
  "truncate_bids_loop 0 cmp bids depth = bids"
| "truncate_bids_loop (Suc rounds) cmp bids depth =
     (if length bids > depth
      then case bt_first bids of None \<Rightarrow> bids
           | Some (worst, _) \<Rightarrow> truncate_bids_loop rounds cmp (bt_remove cmp worst bids) depth
      else bids)"

definition truncate_bids :: "book_side \<Rightarrow> nat \<Rightarrow> book_side" where
  "truncate_bids bids depth = truncate_bids_loop (length bids) decimal_cmp bids depth"

fun truncate_asks_loop :: "nat \<Rightarrow> ('k \<Rightarrow> 'k \<Rightarrow> Ordering) \<Rightarrow> ('k, 'v) btree \<Rightarrow> nat \<Rightarrow> ('k, 'v) btree" where
  "truncate_asks_loop 0 cmp asks depth = asks"
| "truncate_asks_loop (Suc rounds) cmp asks depth =
     (if length asks > depth
      then case bt_last asks of None \<Rightarrow> asks
           | Some (worst, _) \<Rightarrow> truncate_asks_loop rounds cmp (bt_remove cmp worst asks) depth
      else asks)"

definition truncate_asks :: "book_side \<Rightarrow> nat \<Rightarrow> book_side" where
  "truncate_asks asks depth = truncate_asks_loop (length asks) decimal_cmp asks depth"

subsection \<open>The book\<close>

definition level_entry :: "BookLevel \<Rightarrow> Price \<times> LevelValue" where
  "level_entry level = (lvl_price level, level_value level)"

definition l2_from_snapshot :: "BookSnapshot \<Rightarrow> BookConfig \<Rightarrow> (L2Book, BookError) result" where
  "l2_from_snapshot snapshot config =
     (if snap_last_sequence snapshot = 0 then Err InvalidSequence
      else if snap_bids snapshot = [] \<and> snap_asks snapshot = [] then Err InvalidBook
      else and_then (validate_levels (snap_bids snapshot) False config) (\<lambda>_.
           and_then (validate_levels (snap_asks snapshot) False config) (\<lambda>_.
           if length (snap_bids snapshot) > max_levels_per_side config
              \<or> length (snap_asks snapshot) > max_levels_per_side config
              \<or> \<not> strictly_descending (snap_bids snapshot)
              \<or> \<not> strictly_ascending (snap_asks snapshot)
           then Err InvalidBook
           else Ok \<lparr>l2_bids = bt_collect decimal_cmp [] (map level_entry (snap_bids snapshot)),
                    l2_asks = bt_collect decimal_cmp [] (map level_entry (snap_asks snapshot)),
                    l2_sequence = snap_last_sequence snapshot\<rparr>)))"

text \<open>An \<open>Err\<close> of \<open>apply_delta\<close> leaves the book as it was: every check precedes the first write.\<close>

definition l2_apply_delta :: "L2Book \<Rightarrow> BookDelta \<Rightarrow> BookConfig \<Rightarrow> (L2Book, BookError) result" where
  "l2_apply_delta book delta config =
     and_then (validate_levels (delta_bids delta) True config) (\<lambda>_.
     and_then (validate_levels (delta_asks delta) True config) (\<lambda>_.
     and_then (ensure_unique_prices (delta_bids delta)) (\<lambda>_.
     and_then (ensure_unique_prices (delta_asks delta)) (\<lambda>_.
       Ok \<lparr>l2_bids = truncate_bids (apply_side (l2_bids book) (delta_bids delta))
                      (max_levels_per_side config),
           l2_asks = truncate_asks (apply_side (l2_asks book) (delta_asks delta))
                      (max_levels_per_side config),
           l2_sequence = delta_last_sequence delta\<rparr>))))"

definition l2_validate_delta :: "BookDelta \<Rightarrow> BookConfig \<Rightarrow> (unit, BookError) result" where
  "l2_validate_delta delta config =
     (if delta_bids delta = [] \<and> delta_asks delta = [] then Err InvalidBook
      else and_then (validate_levels (delta_bids delta) True config) (\<lambda>_.
           and_then (validate_levels (delta_asks delta) True config) (\<lambda>_.
           and_then (ensure_unique_prices (delta_bids delta)) (\<lambda>_.
             ensure_unique_prices (delta_asks delta)))))"

definition l2_classification :: "L2Book \<Rightarrow> BookClassification" where
  "l2_classification book =
     (case (bt_last (l2_bids book), bt_first (l2_asks book)) of
        (Some (bid, _), Some (ask, _)) \<Rightarrow>
          if decimal_cmp bid ask = Less then Normal
          else if bid = ask then Locked else Crossed
      | _ \<Rightarrow> OneSided)"

definition l2_levels :: "L2Book \<Rightarrow> nat" where
  "l2_levels book = saturating_add u64_max (length (l2_bids book)) (length (l2_asks book))"

definition entry_level :: "Price \<times> LevelValue \<Rightarrow> BookLevel" where
  "entry_level e = \<lparr>lvl_price = fst e, lvl_quantity = lv_quantity (snd e),
     lvl_order_count = lv_order_count (snd e)\<rparr>"

definition top_bids :: "L2Book \<Rightarrow> nat \<Rightarrow> (Price \<times> Quantity) list" where
  "top_bids book depth = map (\<lambda>(p, v). (p, lv_quantity v)) (take depth (rev (l2_bids book)))"

definition top_asks :: "L2Book \<Rightarrow> nat \<Rightarrow> (Price \<times> Quantity) list" where
  "top_asks book depth = map (\<lambda>(p, v). (p, lv_quantity v)) (take depth (l2_asks book))"

definition bids_descending :: "L2Book \<Rightarrow> BookLevel list" where
  "bids_descending book = map entry_level (rev (l2_bids book))"

definition asks_ascending :: "L2Book \<Rightarrow> BookLevel list" where
  "asks_ascending book = map entry_level (l2_asks book)"

subsection \<open>Specification\<close>

text \<open>What the types \<open>Price\<close> and \<open>Quantity\<close> guarantee of a level.\<close>

definition level_typed :: "BookLevel \<Rightarrow> bool" where
  "level_typed level \<longleftrightarrow>
     decimal_wf (lvl_price level) \<and> is_positive (lvl_price level)
     \<and> decimal_wf (lvl_quantity level) \<and> \<not> is_negative (lvl_quantity level)"

definition entry_ok :: "BookConfig \<Rightarrow> Price \<times> LevelValue \<Rightarrow> bool" where
  "entry_ok config e \<longleftrightarrow>
     level_typed (entry_level e) \<and> is_positive (lv_quantity (snd e))
     \<and> lv_order_count (snd e) \<noteq> Some 0
     \<and> decimal_is_multiple (fst e) (price_tick config)
     \<and> decimal_is_multiple (lv_quantity (snd e)) (quantity_step config)"

definition side_wf :: "BookConfig \<Rightarrow> book_side \<Rightarrow> bool" where
  "side_wf config side \<longleftrightarrow>
     bt_wf decimal_cmp decimal_wf side \<and> list_all (entry_ok config) side
     \<and> length side \<le> max_levels_per_side config"

definition l2_wf :: "BookConfig \<Rightarrow> L2Book \<Rightarrow> bool" where
  "l2_wf config book \<longleftrightarrow> side_wf config (l2_bids book) \<and> side_wf config (l2_asks book)"

text \<open>The quantity a delta leaves at a price, before the side is cut to its depth.\<close>

fun overlay :: "(Price \<Rightarrow> LevelValue option) \<Rightarrow> BookLevel list \<Rightarrow> Price \<Rightarrow> LevelValue option" where
  "overlay old [] p = old p"
| "overlay old (level # levels) p =
     (if lvl_price level = p
      then if is_zero (lvl_quantity level) then None else Some (level_value level)
      else overlay old levels p)"

subsection \<open>Truncation keeps the best levels\<close>

context rust_ord
begin

lemma bids_loop_drop:
  "bt_wf cmp valid m \<Longrightarrow> length m - depth \<le> rounds \<Longrightarrow>
     truncate_bids_loop rounds cmp m depth = drop (length m - depth) m"
proof (induction rounds arbitrary: m)
  case (Suc rounds)
  show ?case
  proof (cases m)
    case (Cons e rest)
    obtain k v where e: "e = (k, v)" by force
    have "bt_remove cmp k m = rest" using Suc.prems(1) unfolding Cons e by (rule remove_first)
    moreover have "bt_wf cmp valid rest" using Suc.prems(1) bt_wf_tl unfolding Cons by fastforce
    ultimately show ?thesis using Suc.IH [of rest] Suc.prems(2)
      by (auto simp: Cons e bt_first_def Suc_diff_le)
  qed simp
qed simp

lemma asks_loop_take:
  "bt_wf cmp valid m \<Longrightarrow> length m - depth \<le> rounds \<Longrightarrow>
     truncate_asks_loop rounds cmp m depth = take depth m"
proof (induction rounds arbitrary: m)
  case (Suc rounds)
  show ?case
  proof (cases m rule: rev_cases)
    case (snoc rest e)
    obtain k v where e: "e = (k, v)" by force
    have "bt_remove cmp k m = rest" using Suc.prems(1) unfolding snoc e by (rule remove_last)
    moreover have "bt_wf cmp valid rest" using Suc.prems(1) bt_wf_butlast unfolding snoc by fastforce
    ultimately show ?thesis using Suc.IH [of rest] Suc.prems(2)
      by (auto simp: snoc e bt_last_def)
  qed simp
qed simp

lemma wf_append: "bt_wf cmp valid (m @ n) \<Longrightarrow> bt_wf cmp valid m \<and> bt_wf cmp valid n"
  by (simp add: bt_wf_def sorted_wrt_append)

lemma wf_take: "bt_wf cmp valid m \<Longrightarrow> bt_wf cmp valid (take n m)"
  using wf_append [of "take n m" "drop n m"] by simp

lemma wf_drop: "bt_wf cmp valid m \<Longrightarrow> bt_wf cmp valid (drop n m)"
  using wf_append [of "take n m" "drop n m"] by simp

lemma collect_descending:
  "bt_wf cmp valid (rev kvs @ m) \<Longrightarrow> bt_collect cmp m kvs = rev kvs @ m"
proof (induction kvs arbitrary: m)
  case (Cons e kvs)
  obtain k v where e: "e = (k, v)" by force
  have wf: "bt_wf cmp valid (rev kvs @ (k, v) # m)" using Cons.prems by (simp add: e)
  then have "bt_wf cmp valid ((k, v) # m)" using wf_append by blast
  then have "bt_insert cmp k v m = (k, v) # m" by (cases m) (auto simp: bt_wf_Cons)
  then show ?case using Cons.IH [OF wf] by (simp add: e)
qed simp

lemma last_greatest:
  assumes "bt_wf cmp valid m" "bt_last m = Some (k, v)" "j \<in> fst ` set m" "j \<noteq> k"
  shows "cmp j k = Less"
proof -
  obtain rest where m: "m = rest @ [(k, v)]"
    using assms(2) by (cases m rule: rev_cases) (auto simp: bt_last_def split: if_splits)
  then show ?thesis using assms(1,3,4) by (auto simp: bt_wf_def sorted_wrt_append)
qed

lemma first_least:
  assumes "bt_wf cmp valid m" "bt_first m = Some (k, v)" "j \<in> fst ` set m" "j \<noteq> k"
  shows "cmp k j = Less"
proof -
  obtain rest where m: "m = (k, v) # rest"
    using assms(2) by (cases m) (auto simp: bt_first_def)
  then show ?thesis using assms(1,3,4) by (auto simp: bt_wf_Cons)
qed

end

lemma truncate_bids_eq:
  "bt_wf decimal_cmp decimal_wf m \<Longrightarrow> truncate_bids m depth = drop (length m - depth) m"
  by (simp add: truncate_bids_def price.bids_loop_drop)

lemma truncate_asks_eq:
  "bt_wf decimal_cmp decimal_wf m \<Longrightarrow> truncate_asks m depth = take depth m"
  by (simp add: truncate_asks_def price.asks_loop_take)

subsection \<open>Validation\<close>

lemma validate_each_Ok_iff:
  "validate_each z c levels = Ok () \<longleftrightarrow> (\<forall>l \<in> set levels. validate_level z c l = Ok ())"
  by (induction levels) (auto simp: result_simps)

lemma validate_levels_Ok_iff:
  "validate_levels levels z c = Ok () \<longleftrightarrow>
     length levels \<le> max_levels_per_side c \<and> (\<forall>l \<in> set levels. validate_level z c l = Ok ())"
  by (auto simp: validate_levels_def validate_each_Ok_iff)

lemma validate_level_entry:
  assumes "validate_level z c l = Ok ()" "level_typed l" "\<not> is_zero (lvl_quantity l)"
  shows "entry_ok c (level_entry l)"
  using assms
  by (auto simp: validate_level_def entry_ok_def level_entry_def entry_level_def level_value_def
      level_typed_def is_positive_def is_negative_def is_zero_def split: if_splits)

lemma validate_level_nonzero: "validate_level False c l = Ok () \<Longrightarrow> \<not> is_zero (lvl_quantity l)"
  by (auto simp: validate_level_def split: if_splits)

lemma entry_level_entry [simp]: "entry_level (level_entry l) = l"
  by (simp add: entry_level_def level_entry_def level_value_def)

lemma fst_level_entry [simp]: "fst (level_entry l) = lvl_price l"
  by (simp add: level_entry_def)

lemma Ok_unit: "r = (Ok () :: (unit, 'e) result) \<longleftrightarrow> (\<exists>u. r = Ok u)"
  by simp

lemma ascending_sorted:
  assumes "strictly_ascending levels" "list_all level_typed levels"
  shows "bt_wf decimal_cmp decimal_wf (map level_entry levels)"
  using assms
proof (induction levels rule: strictly_ascending.induct)
  case (1 a b levels)
  then have wf: "bt_wf decimal_cmp decimal_wf (map level_entry (b # levels))"
    and ab: "decimal_cmp (lvl_price a) (lvl_price b) = Less" by simp_all
  have va: "decimal_wf (lvl_price a)" "decimal_wf (lvl_price b)"
    using 1(3) by (simp_all add: level_typed_def)
  have tail: "bt_wf decimal_cmp decimal_wf (map level_entry levels)"
    "\<forall>k \<in> fst ` set (map level_entry levels). decimal_cmp (lvl_price b) k = Less"
    using wf by (simp_all add: level_entry_def bt_wf_Cons)
  have "\<forall>k \<in> fst ` set (map level_entry levels). decimal_cmp (lvl_price a) k = Less"
    using price.less_all_trans [OF tail(1) va ab tail(2)] .
  then have "\<forall>k \<in> fst ` set (map level_entry (b # levels)). decimal_cmp (lvl_price a) k = Less"
    using ab by simp
  then show ?case using wf va by (simp add: bt_wf_Cons level_entry_def [of a])
qed (simp_all add: level_entry_def bt_wf_Cons level_typed_def)

lemma descending_rev: "strictly_descending levels \<longleftrightarrow> strictly_ascending (rev levels)"
  if "list_all level_typed levels"
  using that
proof (induction levels rule: strictly_descending.induct)
  case (1 a b levels)
  have snoc: "strictly_ascending (xs @ [x, y]) \<longleftrightarrow>
      strictly_ascending (xs @ [x]) \<and> decimal_cmp (lvl_price x) (lvl_price y) = Less" for xs x y
    by (induction xs rule: strictly_ascending.induct) auto
  have "decimal_wf (lvl_price a)" "decimal_wf (lvl_price b)"
    using 1(2) by (simp_all add: level_typed_def)
  then show ?case using 1 snoc [of "rev levels" b a] price.cmp_Greater_iff by auto
qed simp_all

subsection \<open>Applying a delta\<close>

lemma unique_prices_iff:
  assumes "bt_wf decimal_cmp decimal_wf seen" "list_all level_typed levels"
  shows "unique_prices seen levels \<longleftrightarrow>
    distinct (map lvl_price levels) \<and> lvl_price ` set levels \<inter> fst ` set seen = {}"
  using assms
proof (induction levels arbitrary: seen)
  case (Cons l levels)
  have v: "decimal_wf (lvl_price l)" using Cons.prems(2) by (simp add: level_typed_def)
  have "bt_contains decimal_cmp (lvl_price l) seen \<longleftrightarrow> lvl_price l \<in> fst ` set seen"
    using price.get_Some_iff [OF Cons.prems(1) v] by (force simp: bt_contains_def)
  then show ?case
    using Cons.IH [OF price.wf_insert [OF Cons.prems(1) v, of "()"]] Cons.prems(2)
      price.set_fst_insert [OF Cons.prems(1) v, of "()"] by auto
qed simp

lemma ensure_unique_Ok_iff:
  "list_all level_typed levels \<Longrightarrow>
     ensure_unique_prices levels = Ok () \<longleftrightarrow> distinct (map lvl_price levels)"
  using unique_prices_iff [of "[]"] by (simp add: ensure_unique_prices_def)

lemma apply_side_wf:
  assumes "bt_wf decimal_cmp decimal_wf side" "list_all level_typed levels"
  shows "bt_wf decimal_cmp decimal_wf (apply_side side levels)"
  using assms
  by (induction levels arbitrary: side) (auto simp: price.wf_insert price.wf_remove level_typed_def)

lemma apply_side_set:
  assumes "bt_wf decimal_cmp decimal_wf side" "list_all level_typed levels"
  shows "set (apply_side side levels) \<subseteq>
    set side \<union> level_entry ` {l \<in> set levels. \<not> is_zero (lvl_quantity l)}"
  using assms
proof (induction levels arbitrary: side)
  case (Cons l levels)
  have v: "decimal_wf (lvl_price l)" using Cons.prems(2) by (simp add: level_typed_def)
  show ?case
  proof (cases "is_zero (lvl_quantity l)")
    case True
    then show ?thesis
      using Cons.IH [OF price.wf_remove [OF Cons.prems(1)], of "lvl_price l"] Cons.prems(2)
        bt_remove_subset [of decimal_cmp "lvl_price l" side] by auto
  next
    case False
    then show ?thesis
      using Cons.IH [OF price.wf_insert [OF Cons.prems(1) v], of "level_value l"] Cons.prems(2)
        price.set_insert [OF Cons.prems(1) v, of "level_value l"]
      by (auto simp: level_entry_def)
  qed
qed simp

lemma overlay_old: "p \<notin> lvl_price ` set levels \<Longrightarrow> overlay old levels p = old p"
  by (induction levels) auto

lemma overlay_cong: "old p = old' p \<Longrightarrow> overlay old levels p = overlay old' levels p"
  by (induction levels) auto

lemma apply_side_overlay:
  assumes "bt_wf decimal_cmp decimal_wf side" "list_all level_typed levels"
    and "distinct (map lvl_price levels)" "decimal_wf p"
  shows "bt_get decimal_cmp p (apply_side side levels) =
    overlay (\<lambda>p. bt_get decimal_cmp p side) levels p"
  using assms(1-3)
proof (induction levels arbitrary: side)
  case (Cons l levels)
  have v: "decimal_wf (lvl_price l)" using Cons.prems(2) by (simp add: level_typed_def)
  define side' where "side' = (if is_zero (lvl_quantity l) then bt_remove decimal_cmp (lvl_price l) side
       else bt_insert decimal_cmp (lvl_price l) (level_value l) side)"
  have "bt_wf decimal_cmp decimal_wf side'"
    using Cons.prems(1) v by (simp add: side'_def price.wf_insert price.wf_remove)
  then have IH: "bt_get decimal_cmp p (apply_side side' levels) =
      overlay (\<lambda>p. bt_get decimal_cmp p side') levels p"
    using Cons.IH Cons.prems by simp
  have get: "bt_get decimal_cmp p side' = (if p = lvl_price l
      then if is_zero (lvl_quantity l) then None else Some (level_value l) else bt_get decimal_cmp p side)"
    using Cons.prems(1) v assms(4) by (simp add: side'_def price.get_insert price.get_remove)
  show ?case
  proof (cases "p = lvl_price l")
    case True
    then have "p \<notin> lvl_price ` set levels" using Cons.prems(3) by auto
    then show ?thesis using IH get True overlay_old by (simp add: side'_def [symmetric])
  next
    case False
    then show ?thesis
      using IH get overlay_cong [of "\<lambda>p. bt_get decimal_cmp p side'" p] by (simp add: side'_def [symmetric])
  qed
qed simp

lemma apply_side_entries:
  assumes "side_wf c side" "list_all level_typed levels"
    and "\<forall>l \<in> set levels. validate_level z c l = Ok ()"
  shows "list_all (entry_ok c) (apply_side side levels)"
proof -
  have wf: "bt_wf decimal_cmp decimal_wf side" and old: "\<forall>e \<in> set side. entry_ok c e"
    using assms(1) by (simp_all add: side_wf_def list_all_iff)
  have "entry_ok c e" if mem: "e \<in> set (apply_side side levels)" for e
  proof -
    consider "e \<in> set side" | l where "l \<in> set levels" "\<not> is_zero (lvl_quantity l)" "e = level_entry l"
      using subsetD [OF apply_side_set [OF wf assms(2)] mem] by auto
    then show ?thesis
    proof cases
      case 2
      then have "level_typed l" "validate_level z c l = Ok ()" using assms(2,3) by (auto simp: list_all_iff)
      then show ?thesis using 2 validate_level_entry by blast
    qed (use old in blast)
  qed
  then show ?thesis by (simp add: list_all_iff)
qed

lemma list_all_take: "list_all P xs \<Longrightarrow> list_all P (take n xs)"
  by (auto simp: list_all_iff dest: in_set_takeD)

lemma list_all_drop: "list_all P xs \<Longrightarrow> list_all P (drop n xs)"
  by (auto simp: list_all_iff dest: in_set_dropD)

lemma side_wf_truncate_bids:
  assumes "bt_wf decimal_cmp decimal_wf side" "list_all (entry_ok c) side"
  shows "side_wf c (truncate_bids side (max_levels_per_side c))"
  using assms by (simp add: side_wf_def truncate_bids_eq price.wf_drop list_all_drop)

lemma side_wf_truncate_asks:
  assumes "bt_wf decimal_cmp decimal_wf side" "list_all (entry_ok c) side"
  shows "side_wf c (truncate_asks side (max_levels_per_side c))"
  using assms by (simp add: side_wf_def truncate_asks_eq price.wf_take list_all_take)

lemma l2_apply_delta_Ok_iff:
  "l2_apply_delta b d c = Ok b' \<longleftrightarrow>
     validate_levels (delta_bids d) True c = Ok () \<and> validate_levels (delta_asks d) True c = Ok ()
     \<and> ensure_unique_prices (delta_bids d) = Ok () \<and> ensure_unique_prices (delta_asks d) = Ok ()
     \<and> b' = \<lparr>l2_bids = truncate_bids (apply_side (l2_bids b) (delta_bids d)) (max_levels_per_side c),
             l2_asks = truncate_asks (apply_side (l2_asks b) (delta_asks d)) (max_levels_per_side c),
             l2_sequence = delta_last_sequence d\<rparr>"
  by (auto simp: l2_apply_delta_def result_simps)

definition delta_typed :: "BookDelta \<Rightarrow> bool" where
  "delta_typed d \<longleftrightarrow> list_all level_typed (delta_bids d) \<and> list_all level_typed (delta_asks d)"

definition snapshot_typed :: "BookSnapshot \<Rightarrow> bool" where
  "snapshot_typed s \<longleftrightarrow> list_all level_typed (snap_bids s) \<and> list_all level_typed (snap_asks s)"

lemma l2_wf_apply_delta:
  assumes "l2_wf c b" "delta_typed d" "l2_apply_delta b d c = Ok b'"
  shows "l2_wf c b'"
proof -
  have wf: "side_wf c (l2_bids b)" "side_wf c (l2_asks b)" using assms(1) by (simp_all add: l2_wf_def)
  have t: "list_all level_typed (delta_bids d)" "list_all level_typed (delta_asks d)"
    using assms(2) by (simp_all add: delta_typed_def)
  have v: "\<forall>l \<in> set (delta_bids d). validate_level True c l = Ok ()"
    "\<forall>l \<in> set (delta_asks d). validate_level True c l = Ok ()"
    using assms(3) by (simp_all add: l2_apply_delta_Ok_iff validate_levels_Ok_iff)
  have bt: "bt_wf decimal_cmp decimal_wf (l2_bids b)" "bt_wf decimal_cmp decimal_wf (l2_asks b)"
    using wf by (simp_all add: side_wf_def)
  show ?thesis
    using assms(3) apply_side_wf [OF bt(1) t(1)] apply_side_wf [OF bt(2) t(2)]
      apply_side_entries [OF wf(1) t(1) v(1)] apply_side_entries [OF wf(2) t(2) v(2)]
    by (simp add: l2_wf_def l2_apply_delta_Ok_iff side_wf_truncate_bids side_wf_truncate_asks)
qed

lemma l2_validate_delta_apply:
  "l2_validate_delta d c = Ok () \<Longrightarrow> \<exists>b'. l2_apply_delta b d c = Ok b'"
  by (auto simp: l2_validate_delta_def l2_apply_delta_def result_simps split: if_splits)

subsection \<open>Building a book from a snapshot\<close>

lemma collect_ascending:
  assumes "strictly_ascending levels" "list_all level_typed levels"
  shows "bt_collect decimal_cmp [] (map level_entry levels) = map level_entry levels"
  using price.collect_sorted [of "[]"] ascending_sorted [OF assms] by simp

lemma collect_descending_levels:
  assumes "strictly_descending levels" "list_all level_typed levels"
  shows "bt_collect decimal_cmp [] (map level_entry levels) = rev (map level_entry levels)"
    and "bt_wf decimal_cmp decimal_wf (rev (map level_entry levels))"
proof -
  have "strictly_ascending (rev levels)" "list_all level_typed (rev levels)"
    using assms descending_rev by (auto simp: list_all_iff)
  then show wf: "bt_wf decimal_cmp decimal_wf (rev (map level_entry levels))"
    using ascending_sorted by (simp add: rev_map)
  then show "bt_collect decimal_cmp [] (map level_entry levels) = rev (map level_entry levels)"
    using price.collect_descending [of "map level_entry levels" "[]"] by simp
qed

lemma l2_from_snapshot_Ok:
  assumes "l2_from_snapshot s c = Ok b" "snapshot_typed s"
  shows "l2_wf c b" "l2_bids b = rev (map level_entry (snap_bids s))"
    "l2_asks b = map level_entry (snap_asks s)" "l2_sequence b = snap_last_sequence s"
    "l2_sequence b > 0"
proof -
  have t: "list_all level_typed (snap_bids s)" "list_all level_typed (snap_asks s)"
    using assms(2) by (simp_all add: snapshot_typed_def)
  have v: "validate_levels (snap_bids s) False c = Ok ()" "validate_levels (snap_asks s) False c = Ok ()"
    and o: "strictly_descending (snap_bids s)" "strictly_ascending (snap_asks s)"
    and b: "b = \<lparr>l2_bids = bt_collect decimal_cmp [] (map level_entry (snap_bids s)),
        l2_asks = bt_collect decimal_cmp [] (map level_entry (snap_asks s)),
        l2_sequence = snap_last_sequence s\<rparr>" "snap_last_sequence s > 0"
    using assms(1) by (auto simp: l2_from_snapshot_def result_simps split: if_splits)
  note d = collect_descending_levels [OF o(1) t(1)]
  show bids: "l2_bids b = rev (map level_entry (snap_bids s))" using b d by simp
  show asks: "l2_asks b = map level_entry (snap_asks s)" using b collect_ascending [OF o(2) t(2)] by simp
  show "l2_sequence b = snap_last_sequence s" "l2_sequence b > 0" using b by simp_all
  have e: "(\<forall>x \<in> set (map level_entry levels). entry_ok c x) \<and> length levels \<le> max_levels_per_side c"
    if "validate_levels levels False c = Ok ()" "list_all level_typed levels" for levels
    using that validate_level_entry validate_level_nonzero
    by (auto simp: validate_levels_Ok_iff list_all_iff)
  show "l2_wf c b"
    using e [OF v(1) t(1)] e [OF v(2) t(2)] d(2) ascending_sorted [OF o(2) t(2)]
    unfolding l2_wf_def side_wf_def bids asks by (auto simp: list_all_iff)
qed

subsection \<open>Alignment and classification\<close>

lemma multiple_ratio:
  fixes u v :: FixedDecimal
  assumes "\<not> is_zero u"
  defines "s \<equiv> max (scale v) (scale u)"
  shows "mantissa u * 10 ^ (s - scale u) dvd mantissa v * 10 ^ (s - scale v) \<longleftrightarrow>
    (\<exists>k::int. decimal_value v = of_int k * decimal_value u)"
proof -
  have eq: "decimal_value d = ratio (mantissa d * 10 ^ (s - scale d)) s" if "scale d \<le> s" for d
  proof -
    have "(10::int) ^ s = 10 ^ (s - scale d) * 10 ^ scale d" using that by (simp flip: power_add)
    then show ?thesis unfolding decimal_value_def ratio_eq_iff by simp
  qed
  have v: "decimal_value v = ratio (mantissa v * 10 ^ (s - scale v)) s"
    and u: "decimal_value u = ratio (mantissa u * 10 ^ (s - scale u)) s"
    by (rule eq; simp add: s_def)+
  have "decimal_value v = of_int k * decimal_value u \<longleftrightarrow>
      mantissa v * 10 ^ (s - scale v) = k * (mantissa u * 10 ^ (s - scale u))" for k
  proof -
    have ku: "of_int k * decimal_value u = ratio (k * (mantissa u * 10 ^ (s - scale u))) s"
      unfolding u by simp
    show ?thesis unfolding ku unfolding v ratio_eq_iff by simp
  qed
  then show ?thesis by (auto simp: dvd_def mult.commute)
qed

lemma bids_asks_order:
  assumes "l2_wf c b" "bt_last (l2_bids b) = Some (bid, bv)" "bt_first (l2_asks b) = Some (ask, av)"
    and "(p, pv) \<in> set (l2_bids b)" "(q, qv) \<in> set (l2_asks b)"
  shows "decimal_value p \<le> decimal_value bid" "decimal_value ask \<le> decimal_value q"
proof -
  have wf: "bt_wf decimal_cmp decimal_wf (l2_bids b)" "bt_wf decimal_cmp decimal_wf (l2_asks b)"
    using assms(1) by (simp_all add: l2_wf_def side_wf_def)
  have "p = bid \<or> decimal_cmp p bid = Less"
    using price.last_greatest [OF wf(1) assms(2), of p] assms(4) by force
  then show "decimal_value p \<le> decimal_value bid"
    by (auto simp: decimal_cmp_value cmp_of_def split: if_splits)
  have "q = ask \<or> decimal_cmp ask q = Less"
    using price.first_least [OF wf(2) assms(3), of q] assms(5) by force
  then show "decimal_value ask \<le> decimal_value q"
    by (auto simp: decimal_cmp_value cmp_of_def split: if_splits)
qed

lemma bt_last_mem: "bt_last m = Some e \<Longrightarrow> e \<in> set m"
  by (auto simp: bt_last_def split: if_splits)

lemma bt_first_mem: "bt_first m = Some e \<Longrightarrow> e \<in> set m"
  by (cases m) (auto simp: bt_first_def)

lemma bt_ends: "m \<noteq> [] \<Longrightarrow> \<exists>k v. bt_last m = Some (k, v)" "m \<noteq> [] \<Longrightarrow> \<exists>k v. bt_first m = Some (k, v)"
  by (auto simp: bt_last_def bt_first_def split: list.splits)

subsection \<open>Properties\<close>

text \<open>
  Alignment to a tick or step is exact: on canonical decimals the check accepts only integer
  multiples of the unit, and accepts every multiple whose common-scale mantissas fit 128 bits.
\<close>

theorem multiple_check_exact:
  assumes "decimal_wf v" "decimal_wf u" "is_positive u"
  shows "decimal_is_multiple v u \<longleftrightarrow>
    (\<exists>k::int. decimal_value v = of_int k * decimal_value u)
    \<and> in_i128 (mantissa v * 10 ^ (scale u - scale v)) \<and> in_i128 (mantissa u * 10 ^ (scale v - scale u))"
proof -
  let ?s = "max (scale v) (scale u)"
  have nz: "\<not> is_zero u" "mantissa u \<noteq> 0" using assms(3) by (simp_all add: is_positive_def is_zero_def)
  have sc: "?s - scale v = scale u - scale v" "?s - scale u = scale v - scale u" by simp_all
  have "scale u \<le> MAX_SCALE" "scale v \<le> MAX_SCALE"
    using assms(1,2) by (simp_all add: decimal_wf_def)
  then have "scale u - scale v \<le> MAX_SCALE" "scale v - scale u \<le> MAX_SCALE" by linarith+
  then have pow: "in_i128 (10 ^ (scale u - scale v))" "in_i128 (10 ^ (scale v - scale u))"
    by (simp_all add: in_i128_pow10)
  have "decimal_is_multiple v u \<longleftrightarrow> in_i128 (mantissa v * 10 ^ (scale u - scale v))
      \<and> in_i128 (mantissa u * 10 ^ (scale v - scale u))
      \<and> mantissa u * 10 ^ (scale v - scale u) dvd mantissa v * 10 ^ (scale u - scale v)"
    using nz pow by (simp add: decimal_is_multiple_def Let_def sc checked_i128_def trunc_mod_eq_0_iff)
  then show ?thesis using multiple_ratio [OF nz(1), of v] unfolding sc by blast
qed

theorem multiple_check_exact_witness:
  "decimal_is_multiple \<lparr>mantissa = 125, scale = 2\<rparr> \<lparr>mantissa = 5, scale = 2\<rparr>"
proof -
  have "decimal_value \<lparr>mantissa = 125, scale = 2\<rparr> = of_int 25 * decimal_value \<lparr>mantissa = 5, scale = 2\<rparr>"
    by (simp add: decimal_value_def)
  then show ?thesis
    using multiple_check_exact [of "\<lparr>mantissa = 125, scale = 2\<rparr>" "\<lparr>mantissa = 5, scale = 2\<rparr>"]
    by (force simp: decimal_wf_def numeral_bounds MAX_SCALE_def is_positive_def)
qed

text \<open>
  C35. A book built from an accepted snapshot is well formed and shows exactly the levels of the
  snapshot, in the snapshot's order, at its sequence number: no level is lost, merged or reordered.
\<close>

theorem snapshot_book_faithful:
  assumes "l2_from_snapshot s c = Ok b" "snapshot_typed s"
  shows "l2_wf c b \<and> bids_descending b = snap_bids s \<and> asks_ascending b = snap_asks s
    \<and> l2_sequence b = snap_last_sequence s"
  using l2_from_snapshot_Ok [OF assms]
  by (simp add: bids_descending_def asks_ascending_def comp_def)

text \<open>A small configuration, snapshot and delta, for the witnesses.\<close>

definition example_config :: BookConfig where
  "example_config =
     \<lparr>instrument = \<lparr>iid_venue = ''kraken'', iid_venue_symbol = ''BTC-USD'', iid_product_type = Spot,
        iid_generation = 1\<rparr>,
      price_tick = \<lparr>mantissa = 5, scale = 1\<rparr>, quantity_step = \<lparr>mantissa = 1, scale = 2\<rparr>,
      max_levels_per_side = 2, max_buffered_deltas = 4, max_buffered_level_updates = 8,
      sequence_policy = ExactNext, checksum_policy = Disabled,
      max_l3_orders = Some 4, max_l3_levels_per_side = Some 2\<rparr>"

definition example_level :: "int \<Rightarrow> int \<Rightarrow> BookLevel" where
  "example_level p q = \<lparr>lvl_price = \<lparr>mantissa = p, scale = 0\<rparr>,
     lvl_quantity = \<lparr>mantissa = q, scale = 0\<rparr>, lvl_order_count = None\<rparr>"

definition example_snapshot :: BookSnapshot where
  "example_snapshot = \<lparr>snap_bids = [example_level 101 2, example_level 100 1],
     snap_asks = [example_level 102 3], snap_last_sequence = 7\<rparr>"

definition example_delta :: BookDelta where
  "example_delta = \<lparr>delta_bids = [example_level 101 0], delta_asks = [example_level 103 4],
     delta_first_sequence = 8, delta_last_sequence = 8\<rparr>"

definition example_book :: L2Book where
  "example_book =
     \<lparr>l2_bids = [(\<lparr>mantissa = 100, scale = 0\<rparr>, \<lparr>lv_quantity = \<lparr>mantissa = 1, scale = 0\<rparr>, lv_order_count = None\<rparr>),
                 (\<lparr>mantissa = 101, scale = 0\<rparr>, \<lparr>lv_quantity = \<lparr>mantissa = 2, scale = 0\<rparr>, lv_order_count = None\<rparr>)],
      l2_asks = [(\<lparr>mantissa = 102, scale = 0\<rparr>, \<lparr>lv_quantity = \<lparr>mantissa = 3, scale = 0\<rparr>, lv_order_count = None\<rparr>)],
      l2_sequence = 7\<rparr>"

lemma example_from_snapshot: "l2_from_snapshot example_snapshot example_config = Ok example_book"
  by code_simp

lemma example_typed: "snapshot_typed example_snapshot" "delta_typed example_delta"
  by code_simp+

theorem snapshot_book_faithful_witness:
  "bids_descending example_book = [example_level 101 2, example_level 100 1]"
  using snapshot_book_faithful [OF example_from_snapshot example_typed(1)]
  by (simp add: example_snapshot_def)

text \<open>
  C13. An accepted delta refines the obvious update of a price-to-level map: on each side the new
  book holds the best levels, up to the configured depth, of the map in which every level of the
  delta replaces the old one at its price (a zero quantity removes it) and every other price keeps
  its level; the new book is well formed again.
\<close>

theorem delta_refines_overlay:
  assumes "l2_wf c b" "delta_typed d" "l2_apply_delta b d c = Ok b'"
  shows "l2_wf c b' \<and> l2_sequence b' = delta_last_sequence d
    \<and> (\<exists>bids asks. bt_wf decimal_cmp decimal_wf bids \<and> bt_wf decimal_cmp decimal_wf asks
         \<and> (\<forall>p. decimal_wf p \<longrightarrow>
              bt_get decimal_cmp p bids = overlay (\<lambda>p. bt_get decimal_cmp p (l2_bids b)) (delta_bids d) p
              \<and> bt_get decimal_cmp p asks = overlay (\<lambda>p. bt_get decimal_cmp p (l2_asks b)) (delta_asks d) p)
         \<and> l2_bids b' = drop (length bids - max_levels_per_side c) bids
         \<and> l2_asks b' = take (max_levels_per_side c) asks)"
proof -
  have wf: "bt_wf decimal_cmp decimal_wf (l2_bids b)" "bt_wf decimal_cmp decimal_wf (l2_asks b)"
    using assms(1) by (simp_all add: l2_wf_def side_wf_def)
  have t: "list_all level_typed (delta_bids d)" "list_all level_typed (delta_asks d)"
    using assms(2) by (simp_all add: delta_typed_def)
  have u: "distinct (map lvl_price (delta_bids d))" "distinct (map lvl_price (delta_asks d))"
    using assms(3) t ensure_unique_Ok_iff by (simp_all add: l2_apply_delta_Ok_iff)
  note full = apply_side_wf [OF wf(1) t(1)] apply_side_wf [OF wf(2) t(2)]
  have "l2_bids b' = drop (length (apply_side (l2_bids b) (delta_bids d)) - max_levels_per_side c)
        (apply_side (l2_bids b) (delta_bids d))"
    "l2_asks b' = take (max_levels_per_side c) (apply_side (l2_asks b) (delta_asks d))"
    "l2_sequence b' = delta_last_sequence d"
    using assms(3) truncate_bids_eq [OF full(1)] truncate_asks_eq [OF full(2)]
    by (simp_all add: l2_apply_delta_Ok_iff)
  then show ?thesis
    using l2_wf_apply_delta [OF assms] full apply_side_overlay [OF wf(1) t(1) u(1)]
      apply_side_overlay [OF wf(2) t(2) u(2)] by blast
qed

lemma example_wf: "l2_wf example_config example_book"
  by code_simp

theorem delta_refines_overlay_witness:
  "\<exists>b'. l2_apply_delta example_book example_delta example_config = Ok b' \<and> l2_wf example_config b'"
proof -
  have "\<exists>b'. l2_apply_delta example_book example_delta example_config = Ok b'"
    by (rule l2_validate_delta_apply) code_simp
  then show ?thesis using delta_refines_overlay [OF example_wf example_typed(2)] by blast
qed

text \<open>
  The classification reads the whole book, although it looks at two prices: a well-formed
  book is crossed exactly when some bid is above some ask, normal exactly when both sides have
  levels and every bid is below every ask, and one-sided exactly when a side is empty.
\<close>

theorem classification_of_book:
  assumes "l2_wf c b"
  shows "(l2_classification b = Crossed \<longleftrightarrow>
            (\<exists>p q. p \<in> fst ` set (l2_bids b) \<and> q \<in> fst ` set (l2_asks b) \<and> decimal_value p > decimal_value q))
    \<and> (l2_classification b = Normal \<longleftrightarrow> l2_bids b \<noteq> [] \<and> l2_asks b \<noteq> []
         \<and> (\<forall>p q. p \<in> fst ` set (l2_bids b) \<and> q \<in> fst ` set (l2_asks b) \<longrightarrow> decimal_value p < decimal_value q))
    \<and> (l2_classification b = OneSided \<longleftrightarrow> l2_bids b = [] \<or> l2_asks b = [])"
proof (cases "l2_bids b = [] \<or> l2_asks b = []")
  case True
  then show ?thesis by (auto simp: l2_classification_def bt_last_def bt_first_def split: list.splits)
next
  case False
  then obtain bid bv ask av where e: "bt_last (l2_bids b) = Some (bid, bv)"
    "bt_first (l2_asks b) = Some (ask, av)" using bt_ends by meson
  have m: "bid \<in> fst ` set (l2_bids b)" "ask \<in> fst ` set (l2_asks b)"
    using bt_last_mem [OF e(1)] bt_first_mem [OF e(2)] by force+
  have ord: "decimal_value p \<le> decimal_value bid \<and> decimal_value ask \<le> decimal_value q"
    if "p \<in> fst ` set (l2_bids b)" "q \<in> fst ` set (l2_asks b)" for p q
    using that bids_asks_order [OF assms e] by auto
  have wf: "decimal_wf bid" "decimal_wf ask"
    using assms m by (auto simp: l2_wf_def side_wf_def bt_wf_def list_all_iff)
  have "bid = ask \<longleftrightarrow> decimal_value bid = decimal_value ask" using decimal_wf_unique [OF wf] by blast
  then have cls: "l2_classification b = (if decimal_value bid < decimal_value ask then Normal
      else if decimal_value bid = decimal_value ask then Locked else Crossed)"
    using e by (simp add: l2_classification_def decimal_cmp_value cmp_of_def)
  consider "decimal_value bid < decimal_value ask" | "decimal_value bid = decimal_value ask"
    | "decimal_value bid > decimal_value ask" by linarith
  then show ?thesis
  proof cases
    case 1
    then have "decimal_value p < decimal_value q"
      if "p \<in> fst ` set (l2_bids b)" "q \<in> fst ` set (l2_asks b)" for p q
      using ord [OF that] by linarith
    then show ?thesis unfolding cls using 1 False by (auto simp: not_less_iff_gr_or_eq)
  next
    case 2
    then have "\<not> decimal_value p > decimal_value q"
      if "p \<in> fst ` set (l2_bids b)" "q \<in> fst ` set (l2_asks b)" for p q
      using ord [OF that] by linarith
    moreover have "\<not> (\<forall>p q. p \<in> fst ` set (l2_bids b) \<and> q \<in> fst ` set (l2_asks b) \<longrightarrow>
        decimal_value p < decimal_value q)" using m 2 by (metis less_irrefl)
    moreover have "l2_classification b = Locked" using cls 2 by simp
    ultimately show ?thesis using False by simp
  next
    case 3
    then show ?thesis unfolding cls using False m by (auto simp: not_less_iff_gr_or_eq)
  qed
qed

theorem classification_of_book_witness: "l2_classification example_book \<noteq> Crossed"
  using classification_of_book [OF example_wf] by (simp add: example_book_def decimal_value_def)

end
