(* ===== verification/L3_Book.thy ===== *)
theory L3_Book
  imports L2_Book
begin

text \<open>
  The level-three part of \<open>orderbook/src/book.rs\<close>: individual orders, with one queue per price and
  side ordered by priority, and the transactional application of a batch of events. Three maps
  are kept consistent: the orders by identity, and per side the queues by price. An operation
  that fails drops the book it was changing in every caller, so its model returns the new book
  only on success.
\<close>

subsection \<open>Orders\<close>

datatype L3Side = Bid | Ask

type_synonym L3OrderId = string

definition MAX_L3_ORDER_ID_BYTES :: nat where "MAX_L3_ORDER_ID_BYTES = 192"

definition is_ascii_control :: "char \<Rightarrow> bool" where
  "is_ascii_control c \<longleftrightarrow> of_char c < (32 :: nat) \<or> of_char c = (127 :: nat)"

definition l3_order_id_new :: "string \<Rightarrow> (L3OrderId, BookError) result" where
  "l3_order_id_new v =
     (if v = [] \<or> length v > MAX_L3_ORDER_ID_BYTES \<or> trim v \<noteq> v \<or> \<not> list_all is_ascii v
         \<or> list_ex is_ascii_control v
      then Err InvalidL3Order else Ok v)"

record L3Order =
  o_id :: L3OrderId
  o_side :: L3Side
  o_price :: Price
  o_quantity :: Quantity
  o_priority_ns :: nat
  o_queue_order :: nat

definition l3_order_new ::
  "L3OrderId \<Rightarrow> L3Side \<Rightarrow> Price \<Rightarrow> Quantity \<Rightarrow> nat \<Rightarrow> nat \<Rightarrow> (L3Order, BookError) result" where
  "l3_order_new oid side price quantity priority_ns queue_order =
     (if is_zero quantity then Err InvalidL3Order
      else Ok \<lparr>o_id = oid, o_side = side, o_price = price, o_quantity = quantity,
               o_priority_ns = priority_ns, o_queue_order = queue_order\<rparr>)"

definition o_priority :: "L3Order \<Rightarrow> nat \<times> nat" where
  "o_priority order = (o_priority_ns order, o_queue_order order)"

datatype L3Event = Add L3Order | Modify L3OrderId Quantity | Delete L3OrderId

definition event_order_id :: "L3Event \<Rightarrow> L3OrderId" where
  "event_order_id event = (case event of Add order \<Rightarrow> o_id order | Modify oid _ \<Rightarrow> oid | Delete oid \<Rightarrow> oid)"

definition prio_cmp :: "nat \<times> nat \<Rightarrow> nat \<times> nat \<Rightarrow> Ordering" where
  "prio_cmp = pair_cmp cmp_of cmp_of"

type_synonym l3_queue = "(nat \<times> nat, L3OrderId) btree"
type_synonym l3_side = "(Price, l3_queue) btree"

record L3Book =
  l3_orders :: "(L3OrderId, L3Order) btree"
  l3_bids :: l3_side
  l3_asks :: l3_side

definition validate_l3_order :: "L3Order \<Rightarrow> BookConfig \<Rightarrow> (unit, BookError) result" where
  "validate_l3_order order config =
     (if is_zero (o_quantity order)
         \<or> \<not> decimal_is_multiple (o_price order) (price_tick config)
         \<or> \<not> decimal_is_multiple (o_quantity order) (quantity_step config)
      then Err InvalidL3Order else Ok ())"

subsection \<open>Operations\<close>

definition side_of :: "L3Book \<Rightarrow> L3Side \<Rightarrow> l3_side" where
  "side_of book side = (case side of Bid \<Rightarrow> l3_bids book | Ask \<Rightarrow> l3_asks book)"

definition set_side :: "L3Side \<Rightarrow> l3_side \<Rightarrow> L3Book \<Rightarrow> L3Book" where
  "set_side side m book =
     (case side of Bid \<Rightarrow> book\<lparr>l3_bids := m\<rparr> | Ask \<Rightarrow> book\<lparr>l3_asks := m\<rparr>)"

text \<open>\<open>entry(price).or_default()\<close>\<close>

definition queue_of :: "l3_side \<Rightarrow> Price \<Rightarrow> l3_queue" where
  "queue_of m price = (case bt_get decimal_cmp price m of None \<Rightarrow> [] | Some queue \<Rightarrow> queue)"

definition l3_insert :: "L3Book \<Rightarrow> L3Order \<Rightarrow> (L3Book, BookError) result" where
  "l3_insert book order =
     (if bt_contains str_cmp (o_id order) (l3_orders book) then Err AmbiguousL3Order
      else let m = side_of book (o_side order);
               queue = queue_of m (o_price order);
               priority = o_priority order
           in if bt_get prio_cmp priority queue \<noteq> None then Err AmbiguousL3Order
              else Ok (set_side (o_side order)
                     (bt_insert decimal_cmp (o_price order)
                       (bt_insert prio_cmp priority (o_id order) queue) m)
                     (book\<lparr>l3_orders := bt_insert str_cmp (o_id order) order (l3_orders book)\<rparr>)))"

definition l3_remove :: "L3Book \<Rightarrow> L3OrderId \<Rightarrow> (L3Book \<times> L3Order, BookError) result" where
  "l3_remove book oid =
     and_then (ok_or (bt_get str_cmp oid (l3_orders book)) UnknownL3Order) (\<lambda>order.
       let book1 = book\<lparr>l3_orders := bt_remove str_cmp oid (l3_orders book)\<rparr>;
           priority = o_priority order;
           m = side_of book1 (o_side order)
       in and_then (ok_or (bt_get decimal_cmp (o_price order) m) InvalidL3Order) (\<lambda>queue.
            if bt_get prio_cmp priority queue \<noteq> Some oid then Err InvalidL3Order
            else let queue1 = bt_remove prio_cmp priority queue
                 in Ok (set_side (o_side order)
                          (if queue1 = [] then bt_remove decimal_cmp (o_price order) m
                           else bt_insert decimal_cmp (o_price order) queue1 m) book1, order)))"

definition l3_modify :: "L3Book \<Rightarrow> L3OrderId \<Rightarrow> Quantity \<Rightarrow> (L3Book, BookError) result" where
  "l3_modify book oid quantity =
     and_then (ok_or (bt_get str_cmp oid (l3_orders book)) UnknownL3Order) (\<lambda>order.
       Ok (book\<lparr>l3_orders := bt_insert str_cmp oid (order\<lparr>o_quantity := quantity\<rparr>) (l3_orders book)\<rparr>))"

definition remove_orders ::
  "L3OrderId list \<Rightarrow> (L3OrderId, L3Order) btree \<Rightarrow> (L3OrderId, L3Order) btree" where
  "remove_orders ids orders = foldl (\<lambda>m oid. bt_remove str_cmp oid m) orders ids"

definition remove_level :: "L3Side \<Rightarrow> Price \<Rightarrow> L3Book \<Rightarrow> L3Book" where
  "remove_level side price book =
     (let m = side_of book side;
          order_ids = map snd (queue_of m price)
      in set_side side (bt_remove decimal_cmp price m)
           (book\<lparr>l3_orders := remove_orders order_ids (l3_orders book)\<rparr>))"

fun l3_truncate_bids :: "nat \<Rightarrow> nat \<Rightarrow> L3Book \<Rightarrow> L3Book" where
  "l3_truncate_bids 0 depth book = book"
| "l3_truncate_bids (Suc rounds) depth book =
     (if length (l3_bids book) > depth
      then case bt_first (l3_bids book) of None \<Rightarrow> book
           | Some (price, _) \<Rightarrow> l3_truncate_bids rounds depth (remove_level Bid price book)
      else book)"

fun l3_truncate_asks :: "nat \<Rightarrow> nat \<Rightarrow> L3Book \<Rightarrow> L3Book" where
  "l3_truncate_asks 0 depth book = book"
| "l3_truncate_asks (Suc rounds) depth book =
     (if length (l3_asks book) > depth
      then case bt_last (l3_asks book) of None \<Rightarrow> book
           | Some (price, _) \<Rightarrow> l3_truncate_asks rounds depth (remove_level Ask price book)
      else book)"

definition l3_truncate :: "nat \<Rightarrow> L3Book \<Rightarrow> L3Book" where
  "l3_truncate depth book =
     (let book1 = l3_truncate_bids (length (l3_bids book)) depth book
      in l3_truncate_asks (length (l3_asks book1)) depth book1)"

definition l3_empty :: L3Book where
  "l3_empty = \<lparr>l3_orders = [], l3_bids = [], l3_asks = []\<rparr>"

fun l3_insert_all :: "BookConfig \<Rightarrow> L3Book \<Rightarrow> L3Order list \<Rightarrow> (L3Book, BookError) result" where
  "l3_insert_all config book [] = Ok book"
| "l3_insert_all config book (order # orders) =
     and_then (validate_l3_order order config) (\<lambda>_.
     and_then (l3_insert book order) (\<lambda>book1. l3_insert_all config book1 orders))"

definition l3_from_snapshot :: "L3Order list \<Rightarrow> BookConfig \<Rightarrow> (L3Book, BookError) result" where
  "l3_from_snapshot orders config =
     and_then (ok_or (max_l3_orders config) L3Disabled) (\<lambda>maximum.
     and_then (ok_or (max_l3_levels_per_side config) L3Disabled) (\<lambda>depth.
       if length orders > maximum then Err Capacity
       else and_then (l3_insert_all config l3_empty orders) (\<lambda>book. Ok (l3_truncate depth book))))"

fun l3_check :: "BookConfig \<Rightarrow> L3Book \<Rightarrow> (L3OrderId, unit) btree \<Rightarrow> nat \<Rightarrow> nat \<Rightarrow> L3Event list \<Rightarrow>
    (nat \<times> nat, BookError) result" where
  "l3_check config book touched additions deletions [] = Ok (additions, deletions)"
| "l3_check config book touched additions deletions (event # events) =
     (let oid = event_order_id event
      in if bt_contains str_cmp oid touched then Err AmbiguousL3Order
         else let touched1 = bt_insert str_cmp oid () touched
              in case event of
                   Add order \<Rightarrow> and_then (validate_l3_order order config) (\<lambda>_.
                     if bt_contains str_cmp (o_id order) (l3_orders book) then Err AmbiguousL3Order
                     else l3_check config book touched1 (saturating_add u64_max additions 1) deletions events)
                 | Modify oid quantity \<Rightarrow>
                     if is_zero quantity \<or> \<not> decimal_is_multiple quantity (quantity_step config)
                     then Err InvalidL3Order
                     else if \<not> bt_contains str_cmp oid (l3_orders book) then Err UnknownL3Order
                     else l3_check config book touched1 additions deletions events
                 | Delete oid \<Rightarrow>
                     if \<not> bt_contains str_cmp oid (l3_orders book) then Err UnknownL3Order
                     else l3_check config book touched1 additions (saturating_add u64_max deletions 1) events)"

fun l3_delete_pass :: "L3Book \<Rightarrow> L3Event list \<Rightarrow> (L3Book, BookError) result" where
  "l3_delete_pass book [] = Ok book"
| "l3_delete_pass book (event # events) =
     (case event of
        Delete oid \<Rightarrow> and_then (l3_remove book oid) (\<lambda>(book1, _). l3_delete_pass book1 events)
      | _ \<Rightarrow> l3_delete_pass book events)"

fun l3_modify_pass :: "L3Book \<Rightarrow> L3Event list \<Rightarrow> (L3Book, BookError) result" where
  "l3_modify_pass book [] = Ok book"
| "l3_modify_pass book (event # events) =
     (case event of
        Modify oid quantity \<Rightarrow> and_then (l3_modify book oid quantity) (\<lambda>book1. l3_modify_pass book1 events)
      | _ \<Rightarrow> l3_modify_pass book events)"

fun l3_add_pass :: "L3Book \<Rightarrow> L3Event list \<Rightarrow> (L3Book, BookError) result" where
  "l3_add_pass book [] = Ok book"
| "l3_add_pass book (event # events) =
     (case event of
        Add order \<Rightarrow> and_then (l3_insert book order) (\<lambda>book1. l3_add_pass book1 events)
      | _ \<Rightarrow> l3_add_pass book events)"

definition l3_apply :: "L3Book \<Rightarrow> L3Event list \<Rightarrow> BookConfig \<Rightarrow> (L3Book, BookError) result" where
  "l3_apply book events config =
     and_then (ok_or (max_l3_orders config) L3Disabled) (\<lambda>maximum.
     and_then (ok_or (max_l3_levels_per_side config) L3Disabled) (\<lambda>depth.
       if length events > maximum then Err Capacity
       else and_then (l3_check config book [] 0 0 events) (\<lambda>(additions, deletions).
            and_then (ok_or (Option.bind (checked_sub (length (l3_orders book)) deletions)
                              (\<lambda>count. checked_add u64_max count additions)) Capacity) (\<lambda>final_count.
            if final_count > maximum then Err Capacity
            else and_then (l3_delete_pass book events) (\<lambda>book1.
                 and_then (l3_modify_pass book1 events) (\<lambda>book2.
                 and_then (l3_add_pass book2 events) (\<lambda>book3. Ok (l3_truncate depth book3))))))))"

definition queue_orders :: "L3Book \<Rightarrow> l3_queue \<Rightarrow> L3Order list" where
  "queue_orders book queue = List.map_filter (\<lambda>oid. bt_get str_cmp oid (l3_orders book)) (map snd queue)"

definition append_side :: "L3Book \<Rightarrow> L3Order list \<Rightarrow> L3Side \<Rightarrow> nat \<Rightarrow> L3Order list" where
  "append_side book output side depth =
     (case side of
        Bid \<Rightarrow> output @ concat (map (queue_orders book) (take depth (rev (map snd (l3_bids book)))))
      | Ask \<Rightarrow> output @ concat (map (queue_orders book) (take depth (map snd (l3_asks book)))))"

definition sorted_orders :: "L3Book \<Rightarrow> L3Order list" where
  "sorted_orders book = append_side book (append_side book [] Bid u64_max) Ask u64_max"

definition checksum_orders :: "L3Book \<Rightarrow> L3Side \<Rightarrow> L3Order list" where
  "checksum_orders book side = append_side book [] side 10"

subsection \<open>The consistency of the three maps\<close>

interpretation ident: rust_ord str_cmp "\<lambda>_. True"
proof -
  have "list_all (\<lambda>_::char. True) = (\<lambda>_. True)" by (simp add: fun_eq_iff list_all_iff)
  then show "rust_ord str_cmp (\<lambda>_. True)" using str.rust_ord_axioms by simp
qed

interpretation prio: rust_ord prio_cmp "\<lambda>_. True"
  using rust_ord_pair [OF lin.rust_ord_axioms lin.rust_ord_axioms] by (simp add: prio_cmp_def)

text \<open>What the types \<open>Price\<close> and \<open>Quantity\<close> guarantee of an order.\<close>

definition order_typed :: "L3Order \<Rightarrow> bool" where
  "order_typed order \<longleftrightarrow>
     decimal_wf (o_price order) \<and> is_positive (o_price order)
     \<and> decimal_wf (o_quantity order) \<and> \<not> is_negative (o_quantity order)"

definition queues_wf :: "l3_side \<Rightarrow> bool" where
  "queues_wf m \<longleftrightarrow>
     bt_wf decimal_cmp decimal_wf m
     \<and> (\<forall>(p, q) \<in> set m. q \<noteq> [] \<and> bt_wf prio_cmp (\<lambda>_. True) q)"

abbreviation get_order :: "L3Book \<Rightarrow> L3OrderId \<Rightarrow> L3Order option" where
  "get_order book oid \<equiv> bt_get str_cmp oid (l3_orders book)"

definition l3_wf :: "L3Book \<Rightarrow> bool" where
  "l3_wf book \<longleftrightarrow>
     bt_wf str_cmp (\<lambda>_. True) (l3_orders book)
     \<and> (\<forall>oid order. get_order book oid = Some order \<longrightarrow> o_id order = oid \<and> order_typed order)
     \<and> (\<forall>side. queues_wf (side_of book side))
     \<and> (\<forall>side p pr oid. decimal_wf p \<longrightarrow>
          ((pr, oid) \<in> set (queue_of (side_of book side) p) \<longleftrightarrow>
           (\<exists>order. get_order book oid = Some order \<and> o_side order = side \<and> o_price order = p
              \<and> o_priority order = pr)))"

lemma l3_wfI:
  assumes "bt_wf str_cmp (\<lambda>_. True) (l3_orders book)"
    and "\<And>oid order. get_order book oid = Some order \<Longrightarrow> o_id order = oid \<and> order_typed order"
    and "\<And>side. queues_wf (side_of book side)"
    and "\<And>side p pr oid. decimal_wf p \<Longrightarrow>
       (pr, oid) \<in> set (queue_of (side_of book side) p) \<longleftrightarrow>
         (\<exists>order. get_order book oid = Some order \<and> o_side order = side \<and> o_price order = p
              \<and> o_priority order = pr)"
  shows "l3_wf book"
  using assms unfolding l3_wf_def by blast

lemma l3_wfD:
  assumes "l3_wf book"
  shows "bt_wf str_cmp (\<lambda>_. True) (l3_orders book)"
    and "get_order book oid = Some order \<Longrightarrow> o_id order = oid \<and> order_typed order"
    and "queues_wf (side_of book side)"
    and "decimal_wf p \<Longrightarrow> (pr, oid) \<in> set (queue_of (side_of book side) p) \<longleftrightarrow>
         (\<exists>order. get_order book oid = Some order \<and> o_side order = side \<and> o_price order = p
              \<and> o_priority order = pr)"
  using assms unfolding l3_wf_def by blast+

lemma side_simps [simp]:
  "side_of (set_side s m b) s' = (if s' = s then m else side_of b s')"
  "l3_orders (set_side s m b) = l3_orders b"
  "side_of (b\<lparr>l3_orders := x\<rparr>) s = side_of b s"
  by (cases s; cases s'; simp add: side_of_def set_side_def)
     (cases s; simp add: side_of_def set_side_def)+

lemma queue_of_insert:
  "bt_wf decimal_cmp decimal_wf m \<Longrightarrow> decimal_wf p \<Longrightarrow> decimal_wf p' \<Longrightarrow>
     queue_of (bt_insert decimal_cmp p q m) p' = (if p' = p then q else queue_of m p')"
  by (simp add: queue_of_def price.get_insert)

lemma queue_of_remove:
  "bt_wf decimal_cmp decimal_wf m \<Longrightarrow> decimal_wf p \<Longrightarrow> decimal_wf p' \<Longrightarrow>
     queue_of (bt_remove decimal_cmp p m) p' = (if p' = p then [] else queue_of m p')"
  by (simp add: queue_of_def price.get_remove)

lemma queues_wf_bt: "queues_wf m \<Longrightarrow> bt_wf decimal_cmp decimal_wf m"
  by (simp add: queues_wf_def)

lemma queues_wf_insert:
  assumes "queues_wf m" "decimal_wf p" "q \<noteq> []" "bt_wf prio_cmp (\<lambda>_. True) q"
  shows "queues_wf (bt_insert decimal_cmp p q m)"
  using assms price.wf_insert [OF queues_wf_bt] price.set_insert [OF queues_wf_bt]
  by (auto simp: queues_wf_def)

lemma queues_wf_remove: "queues_wf m \<Longrightarrow> queues_wf (bt_remove decimal_cmp p m)"
  using price.wf_remove bt_remove_subset [of decimal_cmp p m] by (auto simp: queues_wf_def)

lemma queue_of_wf:
  assumes "queues_wf m" "decimal_wf p"
  shows "bt_wf prio_cmp (\<lambda>_. True) (queue_of m p)"
  using assms price.get_Some_iff [OF queues_wf_bt [OF assms(1)] assms(2)]
  by (auto simp: queue_of_def queues_wf_def split: option.splits)

lemma queue_member_price:
  assumes "queues_wf m" "decimal_wf p"
  shows "queue_of m p \<noteq> [] \<longleftrightarrow> p \<in> fst ` set m"
proof -
  note get = price.get_Some_iff [OF queues_wf_bt [OF assms(1)] assms(2)]
  show ?thesis
  proof (cases "bt_get decimal_cmp p m")
    case None
    then have "p \<notin> fst ` set m" using get by force
    then show ?thesis using None by (simp add: queue_of_def)
  next
    case (Some q)
    then have "(p, q) \<in> set m" using get by blast
    then show ?thesis using Some assms(1) by (force simp: queue_of_def queues_wf_def)
  qed
qed

lemma l3_empty_wf: "l3_wf l3_empty"
proof (rule l3_wfI)
  have empty: "side_of l3_empty side = []" for side by (cases side) (simp_all add: side_of_def l3_empty_def)
  show "queues_wf (side_of l3_empty side)" for side unfolding empty by (simp add: queues_wf_def)
  show "(pr, oid) \<in> set (queue_of (side_of l3_empty side) p) \<longleftrightarrow>
      (\<exists>order. get_order l3_empty oid = Some order \<and> o_side order = side \<and> o_price order = p
              \<and> o_priority order = pr)" for side p pr oid
    unfolding empty by (simp add: queue_of_def l3_empty_def)
qed (simp_all add: l3_empty_def)

subsection \<open>Single orders\<close>

lemma l3_insert_Ok:
  assumes wf: "l3_wf b" and t: "order_typed order" and ins: "l3_insert b order = Ok b'"
  shows "l3_wf b'" "get_order b' oid = (if oid = o_id order then Some order else get_order b oid)"
    "get_order b (o_id order) = None"
proof -
  define m where "m = side_of b (o_side order)"
  define q where "q = queue_of m (o_price order)"
  have new: "get_order b (o_id order) = None" "bt_get prio_cmp (o_priority order) q = None"
    and b': "b' = set_side (o_side order) (bt_insert decimal_cmp (o_price order)
        (bt_insert prio_cmp (o_priority order) (o_id order) q) m)
        (b\<lparr>l3_orders := bt_insert str_cmp (o_id order) order (l3_orders b)\<rparr>)"
    using ins by (auto simp: l3_insert_def Let_def bt_contains_def m_def [symmetric] q_def [symmetric]
        split: if_splits)
  have pw: "decimal_wf (o_price order)" using t by (simp add: order_typed_def)
  have mw: "queues_wf m" unfolding m_def using wf by (rule l3_wfD)
  have qw: "bt_wf prio_cmp (\<lambda>_. True) q" unfolding q_def using mw pw by (rule queue_of_wf)
  have get: "get_order b' oid = (if oid = o_id order then Some order else get_order b oid)" for oid
    by (simp add: b' ident.get_insert l3_wfD(1) [OF wf])
  have "(o_priority order, x) \<notin> set q" for x
    using prio.get_Some_iff [OF qw TrueI, of "o_priority order" x] new(2) by simp
  then have "{e \<in> set q. fst e \<noteq> o_priority order} = set q" by auto
  then have qset: "set (bt_insert prio_cmp (o_priority order) (o_id order) q) =
      insert (o_priority order, o_id order) (set q)"
    using prio.set_insert [OF qw TrueI, of "o_priority order" "o_id order"] by simp
  have qne: "bt_insert prio_cmp (o_priority order) (o_id order) q \<noteq> []" using qset by force
  have queue: "set (queue_of (side_of b' side) p) =
      (if side = o_side order \<and> p = o_price order
       then insert (o_priority order, o_id order) (set (queue_of (side_of b side) p))
       else set (queue_of (side_of b side) p))" if "decimal_wf p" for side p
    using that pw queues_wf_bt [OF mw] qset by (auto simp: b' queue_of_insert m_def q_def)
  show "get_order b' oid = (if oid = o_id order then Some order else get_order b oid)" by (rule get)
  show "get_order b (o_id order) = None" by (rule new)
  show "l3_wf b'"
  proof (rule l3_wfI)
    show "bt_wf str_cmp (\<lambda>_. True) (l3_orders b')"
      by (simp add: b' ident.wf_insert l3_wfD(1) [OF wf])
    show "o_id order' = oid \<and> order_typed order'" if "get_order b' oid = Some order'" for oid order'
      using that t l3_wfD(2) [OF wf] by (auto simp: get split: if_splits)
    show "queues_wf (side_of b' side)" for side
      using l3_wfD(3) [OF wf] queues_wf_insert [OF mw pw qne prio.wf_insert [OF qw]] by (simp add: b')
    show "(pr, oid) \<in> set (queue_of (side_of b' side) p) \<longleftrightarrow>
        (\<exists>order. get_order b' oid = Some order \<and> o_side order = side \<and> o_price order = p
              \<and> o_priority order = pr)" if "decimal_wf p" for side p pr oid
      using l3_wfD(4) [OF wf that, of pr oid side] new(1) by (auto simp: get queue [OF that])
  qed
qed

lemma l3_remove_Ok:
  assumes wf: "l3_wf b" and o: "get_order b oid = Some order"
  obtains b' where "l3_remove b oid = Ok (b', order)" "l3_wf b'"
    "\<And>j. get_order b' j = (if j = oid then None else get_order b j)"
proof -
  define m where "m = side_of b (o_side order)"
  define q where "q = queue_of m (o_price order)"
  have t: "o_id order = oid" "decimal_wf (o_price order)"
    using l3_wfD(2) [OF wf o] by (simp_all add: order_typed_def)
  have mw: "queues_wf m" unfolding m_def using wf by (rule l3_wfD)
  have qw: "bt_wf prio_cmp (\<lambda>_. True) q" unfolding q_def using mw t(2) by (rule queue_of_wf)
  have mem: "(o_priority order, oid) \<in> set q"
    unfolding q_def m_def l3_wfD(4) [OF wf t(2)] using o by blast
  then have qm: "bt_get decimal_cmp (o_price order) m = Some q"
    by (cases "bt_get decimal_cmp (o_price order) m") (simp_all add: q_def queue_of_def)
  have qget: "bt_get prio_cmp (o_priority order) q = Some oid"
    using prio.get_Some_iff [OF qw TrueI] mem by blast
  define q1 where "q1 = bt_remove prio_cmp (o_priority order) q"
  define m1 where "m1 = (if q1 = [] then bt_remove decimal_cmp (o_price order) m
      else bt_insert decimal_cmp (o_price order) q1 m)"
  define b' where "b' = set_side (o_side order) m1
      (b\<lparr>l3_orders := bt_remove str_cmp oid (l3_orders b)\<rparr>)"
  have run: "l3_remove b oid = Ok (b', order)"
    using o qm qget by (simp add: l3_remove_def Let_def m_def [symmetric] q1_def m1_def b'_def)
  have q1w: "bt_wf prio_cmp (\<lambda>_. True) q1" unfolding q1_def using qw by (rule prio.wf_remove)
  have q1set: "set q1 = {e \<in> set q. fst e \<noteq> o_priority order}"
    unfolding q1_def using qw by (rule prio.set_remove) simp
  have m1w: "queues_wf m1"
    using queues_wf_insert [OF mw t(2) _ q1w] queues_wf_remove [OF mw] by (simp add: m1_def)
  have get: "get_order b' j = (if j = oid then None else get_order b j)" for j
    by (simp add: b'_def ident.get_remove l3_wfD(1) [OF wf])
  have queue: "set (queue_of (side_of b' side) p) =
      (if side = o_side order \<and> p = o_price order then set q1 else set (queue_of (side_of b side) p))"
    if "decimal_wf p" for side p
    using that t(2) queues_wf_bt [OF mw] by (simp add: b'_def m1_def m_def queue_of_insert queue_of_remove)
  have uniq: "oid' = oid" if "(o_priority order, oid') \<in> set q" for oid'
    using that prio.get_Some_iff [OF qw TrueI] qget by (metis option.inject)
  have wf': "l3_wf b'"
  proof (rule l3_wfI)
    show "bt_wf str_cmp (\<lambda>_. True) (l3_orders b')"
      by (simp add: b'_def ident.wf_remove l3_wfD(1) [OF wf])
    show "o_id order' = j \<and> order_typed order'" if "get_order b' j = Some order'" for j order'
      using that l3_wfD(2) [OF wf] by (simp add: get split: if_splits)
    show "queues_wf (side_of b' side)" for side
      using l3_wfD(3) [OF wf] m1w by (simp add: b'_def)
    show "(pr, j) \<in> set (queue_of (side_of b' side) p) \<longleftrightarrow>
        (\<exists>order. get_order b' j = Some order \<and> o_side order = side \<and> o_price order = p
              \<and> o_priority order = pr)" if p: "decimal_wf p" for side p pr j
    proof (cases "side = o_side order \<and> p = o_price order")
      case True
      then have old: "(pr, j) \<in> set q \<longleftrightarrow>
          (\<exists>order. get_order b j = Some order \<and> o_side order = side \<and> o_price order = p
              \<and> o_priority order = pr)" using l3_wfD(4) [OF wf p] by (simp add: q_def m_def)
      have "pr = o_priority order \<longleftrightarrow> j = oid" if e: "(pr, j) \<in> set q"
      proof
        assume "pr = o_priority order"
        then show "j = oid" using uniq e by simp
      next
        assume "j = oid"
        then show "pr = o_priority order" using old e o by simp
      qed
      then have "(pr, j) \<in> set q1 \<longleftrightarrow> (pr, j) \<in> set q \<and> j \<noteq> oid"
        unfolding q1set mem_Collect_eq fst_conv by blast
      moreover have "set (queue_of (side_of b' side) p) = set q1"
        using queue [OF p, of side] True by (simp only: simp_thms if_True)
      ultimately show ?thesis unfolding get using old by (cases "j = oid") simp_all
    next
      case False
      then show ?thesis using l3_wfD(4) [OF wf p] o by (auto simp: queue [OF p] get)
    qed
  qed
  show thesis using that run wf' get by blast
qed

lemma l3_modify_Ok:
  assumes wf: "l3_wf b" and o: "get_order b oid = Some order"
    and q: "decimal_wf quantity" "\<not> is_negative quantity"
  obtains b' where "l3_modify b oid quantity = Ok b'" "l3_wf b'"
    "\<And>j. get_order b' j = (if j = oid then Some (order\<lparr>o_quantity := quantity\<rparr>) else get_order b j)"
    "l3_bids b' = l3_bids b" "l3_asks b' = l3_asks b"
proof -
  define b' where "b' = b\<lparr>l3_orders :=
      bt_insert str_cmp oid (order\<lparr>o_quantity := quantity\<rparr>) (l3_orders b)\<rparr>"
  have run: "l3_modify b oid quantity = Ok b'" using o by (simp add: l3_modify_def b'_def)
  have get: "get_order b' j = (if j = oid then Some (order\<lparr>o_quantity := quantity\<rparr>) else get_order b j)" for j
    by (simp add: b'_def ident.get_insert l3_wfD(1) [OF wf])
  have side: "side_of b' s = side_of b s" for s by (simp add: b'_def)
  have "l3_wf b'"
  proof (rule l3_wfI)
    show "bt_wf str_cmp (\<lambda>_. True) (l3_orders b')"
      by (simp add: b'_def ident.wf_insert l3_wfD(1) [OF wf])
    show "o_id order' = j \<and> order_typed order'" if "get_order b' j = Some order'" for j order'
      using that l3_wfD(2) [OF wf] o q by (auto simp: get order_typed_def split: if_splits)
    show "queues_wf (side_of b' s)" for s unfolding side using wf by (rule l3_wfD)
    show "(pr, j) \<in> set (queue_of (side_of b' s) p) \<longleftrightarrow>
        (\<exists>order. get_order b' j = Some order \<and> o_side order = s \<and> o_price order = p
              \<and> o_priority order = pr)" if "decimal_wf p" for s p pr j
      unfolding side using l3_wfD(4) [OF wf that] o by (simp add: get o_priority_def)
  qed
  moreover have "l3_bids b' = l3_bids b" "l3_asks b' = l3_asks b" by (simp_all add: b'_def)
  ultimately show thesis using that run get by blast
qed

subsection \<open>Levels and depth\<close>

lemma remove_orders_get:
  assumes "bt_wf str_cmp (\<lambda>_. True) orders"
  shows "bt_wf str_cmp (\<lambda>_. True) (remove_orders ids orders)
    \<and> (\<forall>j. bt_get str_cmp j (remove_orders ids orders) = (if j \<in> set ids then None else bt_get str_cmp j orders))"
  using assms
proof (induction ids arbitrary: orders)
  case (Cons i ids)
  then show ?case
    using Cons.IH [OF ident.wf_remove [OF Cons.prems], of i]
    by (simp add: remove_orders_def ident.get_remove)
qed (simp add: remove_orders_def)

lemma remove_level_Ok:
  fixes side :: L3Side and price :: Price and b :: L3Book
  assumes wf: "l3_wf b" and p: "decimal_wf price"
  defines "b' \<equiv> remove_level side price b"
  shows "l3_wf b'"
    and "get_order b' j = (if \<exists>order. get_order b j = Some order \<and> o_side order = side \<and> o_price order = price
                          then None else get_order b j)"
    and "side_of b' s = (if s = side then bt_remove decimal_cmp price (side_of b side) else side_of b s)"
proof -
  let ?ids = "map snd (queue_of (side_of b side) price)"
  have mw: "queues_wf (side_of b side)" using wf by (rule l3_wfD)
  have ids: "j \<in> set ?ids \<longleftrightarrow>
      (\<exists>order. get_order b j = Some order \<and> o_side order = side \<and> o_price order = price)" for j
  proof -
    have "j \<in> set ?ids \<longleftrightarrow> (\<exists>pr. (pr, j) \<in> set (queue_of (side_of b side) price))" by force
    then show ?thesis unfolding l3_wfD(4) [OF wf p] by blast
  qed
  have get: "get_order b' j = (if \<exists>order. get_order b j = Some order \<and> o_side order = side \<and> o_price order = price
      then None else get_order b j)" for j
    using remove_orders_get [OF l3_wfD(1) [OF wf], of ?ids] ids [of j]
    by (simp add: b'_def remove_level_def Let_def)
  have sides: "side_of b' s = (if s = side then bt_remove decimal_cmp price (side_of b side) else side_of b s)" for s
    by (simp add: b'_def remove_level_def Let_def)
  show "get_order b' j = (if \<exists>order. get_order b j = Some order \<and> o_side order = side \<and> o_price order = price
      then None else get_order b j)" by (rule get)
  show "side_of b' s = (if s = side then bt_remove decimal_cmp price (side_of b side) else side_of b s)"
    by (rule sides)
  show "l3_wf b'"
  proof (rule l3_wfI)
    show "bt_wf str_cmp (\<lambda>_. True) (l3_orders b')"
      using remove_orders_get [OF l3_wfD(1) [OF wf], of ?ids] by (simp add: b'_def remove_level_def Let_def)
    show "o_id order' = i \<and> order_typed order'" if "get_order b' i = Some order'" for i order'
      using that l3_wfD(2) [OF wf] by (simp add: get split: if_splits)
    show "queues_wf (side_of b' s)" for s
      using l3_wfD(3) [OF wf] queues_wf_remove [OF mw] by (simp add: sides)
    show "(pr, i) \<in> set (queue_of (side_of b' s) p') \<longleftrightarrow>
        (\<exists>order. get_order b' i = Some order \<and> o_side order = s \<and> o_price order = p'
              \<and> o_priority order = pr)" if p': "decimal_wf p'" for s p' pr i
    proof (cases "s = side \<and> p' = price")
      case True
      then show ?thesis using p queues_wf_bt [OF mw] by (auto simp: sides get queue_of_remove)
    next
      case False
      then have "queue_of (side_of b' s) p' = queue_of (side_of b s) p'"
        using p p' queues_wf_bt [OF mw] by (auto simp: sides queue_of_remove)
      then show ?thesis using l3_wfD(4) [OF wf p', of pr i s] False by (auto simp: get)
    qed
  qed
qed

definition orders_within :: "L3Book \<Rightarrow> L3Book \<Rightarrow> bool" where
  "orders_within b' b \<longleftrightarrow>
     (\<forall>j. get_order b' j = (case get_order b j of None \<Rightarrow> None
        | Some order \<Rightarrow> if o_price order \<in> fst ` set (side_of b' (o_side order)) then Some order else None))"

lemma order_price_listed:
  assumes "l3_wf b" "get_order b j = Some order"
  shows "o_price order \<in> fst ` set (side_of b (o_side order))"
proof -
  have "decimal_wf (o_price order)" using l3_wfD(2) [OF assms] by (simp add: order_typed_def)
  moreover have "queue_of (side_of b (o_side order)) (o_price order) \<noteq> []"
    using l3_wfD(4) [OF assms(1) calculation, of "o_priority order" j "o_side order"] assms(2) by auto
  ultimately show ?thesis using queue_member_price [OF l3_wfD(3) [OF assms(1)]] by blast
qed

lemma orders_within_refl: "l3_wf b \<Longrightarrow> orders_within b b"
  using order_price_listed by (auto simp: orders_within_def split: option.splits)

lemma orders_within_trans:
  assumes "orders_within b'' b'" "orders_within b' b"
    and "\<And>s. fst ` set (side_of b'' s) \<subseteq> fst ` set (side_of b' s)"
  shows "orders_within b'' b"
  unfolding orders_within_def
proof
  fix j
  show "get_order b'' j = (case get_order b j of None \<Rightarrow> None
        | Some order \<Rightarrow> if o_price order \<in> fst ` set (side_of b'' (o_side order)) then Some order else None)"
    using assms(1,2) subsetD [OF assms(3)]
    by (cases "get_order b j") (auto simp: orders_within_def)
qed

lemma remove_level_within:
  assumes wf: "l3_wf b" and p: "decimal_wf price"
  shows "orders_within (remove_level side price b) b"
    and "fst ` set (side_of (remove_level side price b) s) \<subseteq> fst ` set (side_of b s)"
proof -
  have mw: "bt_wf decimal_cmp decimal_wf (side_of b side)" using l3_wfD(3) [OF wf] by (rule queues_wf_bt)
  have keys: "fst ` set (side_of (remove_level side price b) s) =
      (if s = side then fst ` set (side_of b side) - {price} else fst ` set (side_of b s))" for s
    using price.set_remove [OF mw p] by (auto simp: remove_level_Ok(3) [OF wf p] image_iff)
  then show "fst ` set (side_of (remove_level side price b) s) \<subseteq> fst ` set (side_of b s)" by auto
  show "orders_within (remove_level side price b) b"
    unfolding orders_within_def keys
    using order_price_listed [OF wf] by (auto simp: remove_level_Ok(2) [OF wf p] split: option.splits)
qed

lemma l3_truncate_bids_Ok:
  assumes "l3_wf b" "length (l3_bids b) - depth \<le> rounds"
  shows "l3_wf (l3_truncate_bids rounds depth b)
    \<and> l3_bids (l3_truncate_bids rounds depth b) = drop (length (l3_bids b) - depth) (l3_bids b)
    \<and> l3_asks (l3_truncate_bids rounds depth b) = l3_asks b
    \<and> orders_within (l3_truncate_bids rounds depth b) b"
  using assms
proof (induction rounds arbitrary: b)
  case 0
  then show ?case by (simp add: orders_within_refl)
next
  case (Suc rounds)
  show ?case
  proof (cases "length (l3_bids b) > depth")
    case False
    then show ?thesis using Suc.prems(1) by (simp add: orders_within_refl)
  next
    case True
    then obtain price q rest where bids: "l3_bids b = (price, q) # rest" by (cases "l3_bids b") auto
    have bw: "bt_wf decimal_cmp decimal_wf ((price, q) # rest)"
      using queues_wf_bt [OF l3_wfD(3) [OF Suc.prems(1)], of Bid] by (simp add: side_of_def bids)
    then have p: "decimal_wf price" by (simp add: bt_wf_Cons)
    define b1 where "b1 = remove_level Bid price b"
    have wf1: "l3_wf b1" unfolding b1_def using Suc.prems(1) p by (rule remove_level_Ok)
    have sides: "l3_bids b1 = rest" "l3_asks b1 = l3_asks b"
      using remove_level_Ok(3) [OF Suc.prems(1) p, of Bid Bid]
        remove_level_Ok(3) [OF Suc.prems(1) p, of Bid Ask] price.remove_first [OF bw]
      by (simp_all add: b1_def side_of_def bids)
    have run: "l3_truncate_bids (Suc rounds) depth b = l3_truncate_bids rounds depth b1"
      using True by (simp add: bids bt_first_def b1_def)
    note IH = Suc.IH [OF wf1, unfolded sides]
    have "length rest - depth \<le> rounds" using Suc.prems(2) by (simp add: bids)
    note IH = IH [OF this]
    have within: "orders_within (l3_truncate_bids rounds depth b1) b"
    proof (rule orders_within_trans)
      show "orders_within (l3_truncate_bids rounds depth b1) b1" using IH by blast
      show "orders_within b1 b" unfolding b1_def using Suc.prems(1) p by (rule remove_level_within)
      show "fst ` set (side_of (l3_truncate_bids rounds depth b1) s) \<subseteq> fst ` set (side_of b1 s)" for s
        using IH by (cases s) (auto simp: side_of_def sides dest: in_set_dropD)
    qed
    show ?thesis unfolding run using IH within True by (simp add: bids Suc_diff_le)
  qed
qed

lemma l3_truncate_asks_Ok:
  assumes "l3_wf b" "length (l3_asks b) - depth \<le> rounds"
  shows "l3_wf (l3_truncate_asks rounds depth b)
    \<and> l3_asks (l3_truncate_asks rounds depth b) = take depth (l3_asks b)
    \<and> l3_bids (l3_truncate_asks rounds depth b) = l3_bids b
    \<and> orders_within (l3_truncate_asks rounds depth b) b"
  using assms
proof (induction rounds arbitrary: b)
  case 0
  then show ?case by (simp add: orders_within_refl)
next
  case (Suc rounds)
  show ?case
  proof (cases "length (l3_asks b) > depth")
    case False
    then show ?thesis using Suc.prems(1) by (simp add: orders_within_refl)
  next
    case True
    then obtain price q rest where asks: "l3_asks b = rest @ [(price, q)]"
      by (cases "l3_asks b" rule: rev_cases) auto
    have bw: "bt_wf decimal_cmp decimal_wf (rest @ [(price, q)])"
      using queues_wf_bt [OF l3_wfD(3) [OF Suc.prems(1)], of Ask] by (simp add: side_of_def asks)
    then have p: "decimal_wf price" by (simp add: bt_wf_def)
    define b1 where "b1 = remove_level Ask price b"
    have wf1: "l3_wf b1" unfolding b1_def using Suc.prems(1) p by (rule remove_level_Ok)
    have sides: "l3_asks b1 = rest" "l3_bids b1 = l3_bids b"
      using remove_level_Ok(3) [OF Suc.prems(1) p, of Ask Ask]
        remove_level_Ok(3) [OF Suc.prems(1) p, of Ask Bid] price.remove_last [OF bw]
      by (simp_all add: b1_def side_of_def asks)
    have run: "l3_truncate_asks (Suc rounds) depth b = l3_truncate_asks rounds depth b1"
      using True by (simp add: asks bt_last_def b1_def)
    note IH = Suc.IH [OF wf1, unfolded sides]
    have "length rest - depth \<le> rounds" using Suc.prems(2) by (simp add: asks)
    note IH = IH [OF this]
    have within: "orders_within (l3_truncate_asks rounds depth b1) b"
    proof (rule orders_within_trans)
      show "orders_within (l3_truncate_asks rounds depth b1) b1" using IH by blast
      show "orders_within b1 b" unfolding b1_def using Suc.prems(1) p by (rule remove_level_within)
      show "fst ` set (side_of (l3_truncate_asks rounds depth b1) s) \<subseteq> fst ` set (side_of b1 s)" for s
        using IH by (cases s) (auto simp: side_of_def sides dest: in_set_takeD)
    qed
    show ?thesis unfolding run using IH within True by (simp add: asks)
  qed
qed

lemma l3_truncate_Ok:
  assumes "l3_wf b"
  shows "l3_wf (l3_truncate depth b)"
    and "l3_bids (l3_truncate depth b) = drop (length (l3_bids b) - depth) (l3_bids b)"
    and "l3_asks (l3_truncate depth b) = take depth (l3_asks b)"
    and "orders_within (l3_truncate depth b) b"
proof -
  define b1 where "b1 = l3_truncate_bids (length (l3_bids b)) depth b"
  have 1: "l3_wf b1" "l3_bids b1 = drop (length (l3_bids b) - depth) (l3_bids b)"
    "l3_asks b1 = l3_asks b" "orders_within b1 b"
    using l3_truncate_bids_Ok [OF assms, of depth "length (l3_bids b)"] by (simp_all add: b1_def)
  have eq: "l3_truncate depth b = l3_truncate_asks (length (l3_asks b1)) depth b1"
    by (simp add: l3_truncate_def Let_def b1_def)
  have 2: "l3_wf (l3_truncate depth b)" "l3_asks (l3_truncate depth b) = take depth (l3_asks b1)"
    "l3_bids (l3_truncate depth b) = l3_bids b1" "orders_within (l3_truncate depth b) b1"
    using l3_truncate_asks_Ok [OF 1(1), of depth "length (l3_asks b1)"] by (simp_all add: eq)
  show "l3_wf (l3_truncate depth b)" by (rule 2)
  show "l3_bids (l3_truncate depth b) = drop (length (l3_bids b) - depth) (l3_bids b)" using 1 2 by simp
  show "l3_asks (l3_truncate depth b) = take depth (l3_asks b)" using 1 2 by simp
  show "orders_within (l3_truncate depth b) b"
  proof (rule orders_within_trans [OF 2(4) 1(4)])
    show "fst ` set (side_of (l3_truncate depth b) s) \<subseteq> fst ` set (side_of b1 s)" for s
      using 1 2 by (cases s) (auto simp: side_of_def dest: in_set_takeD)
  qed
qed

subsection \<open>Batches\<close>

context rust_ord
begin

lemma wf_card: "bt_wf cmp valid m \<Longrightarrow> length m = card (fst ` set m)"
proof (induction m)
  case (Cons e m)
  obtain k v where e: "e = (k, v)" by force
  have k: "valid k" "\<forall>k' \<in> fst ` set m. cmp k k' = Less" "bt_wf cmp valid m"
    using Cons.prems by (simp_all add: e bt_wf_Cons)
  have "k \<notin> fst ` set m"
  proof
    assume "k \<in> fst ` set m"
    then show False using k(1,2) cmp_refl by fastforce
  qed
  then show ?case using Cons.IH [OF k(3)] by (simp add: e)
qed simp

lemma keys_get: "bt_wf cmp valid m \<Longrightarrow> valid k \<Longrightarrow> k \<in> fst ` set m \<longleftrightarrow> bt_get cmp k m \<noteq> None"
  using get_Some_iff by force

end

lemma l3_orders_card: "l3_wf b \<Longrightarrow> length (l3_orders b) = card {j. get_order b j \<noteq> None}"
  using ident.wf_card [OF l3_wfD(1)] ident.keys_get [OF l3_wfD(1) TrueI]
  by (metis (mono_tags, lifting) Collect_cong Collect_mem_eq)

lemma l3_orders_finite: "l3_wf b \<Longrightarrow> finite {j. get_order b j \<noteq> None}"
proof -
  assume "l3_wf b"
  then have "{j. get_order b j \<noteq> None} = fst ` set (l3_orders b)"
    using ident.keys_get [OF l3_wfD(1) TrueI] by blast
  then show ?thesis by simp
qed

definition event_typed :: "L3Event \<Rightarrow> bool" where
  "event_typed event \<longleftrightarrow>
     (case event of Add order \<Rightarrow> order_typed order
      | Modify _ quantity \<Rightarrow> decimal_wf quantity \<and> \<not> is_negative quantity
      | Delete _ \<Rightarrow> True)"

definition event_fits :: "L3Book \<Rightarrow> L3Event \<Rightarrow> bool" where
  "event_fits b event \<longleftrightarrow>
     (case event of Add order \<Rightarrow> get_order b (o_id order) = None
      | Modify oid _ \<Rightarrow> get_order b oid \<noteq> None
      | Delete oid \<Rightarrow> get_order b oid \<noteq> None)"

definition is_addition :: "L3Event \<Rightarrow> bool" where
  "is_addition event \<longleftrightarrow> (case event of Add _ \<Rightarrow> True | _ \<Rightarrow> False)"

definition is_deletion :: "L3Event \<Rightarrow> bool" where
  "is_deletion event \<longleftrightarrow> (case event of Delete _ \<Rightarrow> True | _ \<Rightarrow> False)"

lemma event_kinds [simp]:
  "is_addition (Add x)" "\<not> is_addition (Modify i q)" "\<not> is_addition (Delete i)"
  "\<not> is_deletion (Add x)" "\<not> is_deletion (Modify i q)" "is_deletion (Delete i)"
  by (simp_all add: is_addition_def is_deletion_def)

lemma l3_check_Ok:
  assumes "l3_check c b touched a d es = Ok (a', d')" "bt_wf str_cmp (\<lambda>_. True) touched"
    and "a + length es \<le> u64_max" "d + length es \<le> u64_max"
  shows "distinct (map event_order_id es) \<and> (\<forall>e \<in> set es. event_fits b e)
    \<and> event_order_id ` set es \<inter> fst ` set touched = {}
    \<and> a' = a + length (filter is_addition es) \<and> d' = d + length (filter is_deletion es)"
  using assms
proof (induction es arbitrary: touched a d)
  case (Cons e es)
  let ?t = "bt_insert str_cmp (event_order_id e) () touched"
  have new: "event_order_id e \<notin> fst ` set touched"
    using Cons.prems(1) ident.keys_get [OF Cons.prems(2) TrueI]
    by (auto simp: bt_contains_def Let_def split: if_splits)
  have wf: "bt_wf str_cmp (\<lambda>_. True) ?t" using Cons.prems(2) by (simp add: ident.wf_insert)
  have keys: "fst ` set ?t = insert (event_order_id e) (fst ` set touched)"
    using Cons.prems(2) by (simp add: ident.set_fst_insert)
  let ?a = "if is_addition e then Suc a else a" and ?d = "if is_deletion e then Suc d else d"
  have sat: "saturating_add u64_max a 1 = Suc a" "saturating_add u64_max d 1 = Suc d"
    using Cons.prems(3,4) by (simp_all add: saturating_add_def)
  have step: "l3_check c b ?t ?a ?d es = Ok (a', d') \<and> event_fits b e"
    using Cons.prems(1) sat
    by (cases e) (auto simp: bt_contains_def Let_def result_simps is_addition_def
        is_deletion_def event_fits_def event_order_id_def split: if_splits)
  have "?a + length es \<le> u64_max" "?d + length es \<le> u64_max" using Cons.prems(3,4) by simp_all
  from Cons.IH [OF conjunct1 [OF step] wf this] step new show ?case
    unfolding keys by auto
qed simp

lemma delete_pass_Ok:
  assumes "l3_wf b" "distinct (map event_order_id es)" "\<forall>e \<in> set es. event_fits b e \<or> is_addition e"
  obtains b' where "l3_delete_pass b es = Ok b'" "l3_wf b'"
    "\<And>j. get_order b' j = (if Delete j \<in> set es then None else get_order b j)"
proof -
  have "\<exists>b'. l3_delete_pass b es = Ok b' \<and> l3_wf b'
      \<and> (\<forall>j. get_order b' j = (if Delete j \<in> set es then None else get_order b j))"
    using assms
  proof (induction es arbitrary: b)
    case (Cons e es)
    show ?case
    proof (cases e)
      case (Delete oid)
      then obtain order where "get_order b oid = Some order"
        using Cons.prems(3) by (auto simp: event_fits_def is_addition_def)
      then obtain b1 where b1: "l3_remove b oid = Ok (b1, order)" "l3_wf b1"
        "\<And>j. get_order b1 j = (if j = oid then None else get_order b j)"
        using l3_remove_Ok [OF Cons.prems(1)] by blast
      have "event_fits b1 e' \<or> is_addition e'" if e': "e' \<in> set es" for e'
      proof -
        have "event_order_id e' \<noteq> oid" using Cons.prems(2) e' Delete
          by (auto simp: event_order_id_def image_iff)
        then show ?thesis using Cons.prems(3) e' b1(3)
          by (cases e') (auto simp: event_fits_def is_addition_def event_order_id_def)
      qed
      then show ?thesis using Cons.IH [OF b1(2)] Cons.prems(2) b1 Delete by auto
    next
      case (Add order)
      then show ?thesis using Cons by simp
    next
      case (Modify oid q)
      then show ?thesis using Cons by simp
    qed
  qed simp
  then show thesis using that by blast
qed

lemma modify_pass_Ok:
  assumes "l3_wf b" "distinct (map event_order_id es)" "\<forall>e \<in> set es. event_typed e"
    and "\<forall>oid q. Modify oid q \<in> set es \<longrightarrow> get_order b oid \<noteq> None"
  obtains b' where "l3_modify_pass b es = Ok b'" "l3_wf b'"
    "\<And>j q. Modify j q \<in> set es \<Longrightarrow> get_order b' j = map_option (\<lambda>x. x\<lparr>o_quantity := q\<rparr>) (get_order b j)"
    "\<And>j. \<forall>q. Modify j q \<notin> set es \<Longrightarrow> get_order b' j = get_order b j"
proof -
  have "\<exists>b'. l3_modify_pass b es = Ok b' \<and> l3_wf b'
      \<and> (\<forall>j q. Modify j q \<in> set es \<longrightarrow>
           get_order b' j = map_option (\<lambda>x. x\<lparr>o_quantity := q\<rparr>) (get_order b j))
      \<and> (\<forall>j. (\<forall>q. Modify j q \<notin> set es) \<longrightarrow> get_order b' j = get_order b j)"
    using assms
  proof (induction es arbitrary: b)
    case (Cons e es)
    show ?case
    proof (cases e)
      case (Modify oid q)
      then obtain order where o: "get_order b oid = Some order" using Cons.prems(4) by auto
      have "decimal_wf q" "\<not> is_negative q" using Cons.prems(3) Modify by (auto simp: event_typed_def)
      then obtain b1 where b1: "l3_modify b oid q = Ok b1" "l3_wf b1"
        "\<And>j. get_order b1 j = (if j = oid then Some (order\<lparr>o_quantity := q\<rparr>) else get_order b j)"
        using l3_modify_Ok [OF Cons.prems(1) o] by blast
      have oth: "Modify oid q' \<notin> set es" for q'
        using Cons.prems(2) Modify by (force simp: event_order_id_def)
      have "\<forall>oid q. Modify oid q \<in> set es \<longrightarrow> get_order b1 oid \<noteq> None"
        using Cons.prems(4) b1(3) by (metis list.set_intros(2) option.distinct(1))
      then obtain b2 where b2: "l3_modify_pass b1 es = Ok b2" "l3_wf b2"
        "\<forall>j q. Modify j q \<in> set es \<longrightarrow>
           get_order b2 j = map_option (\<lambda>x. x\<lparr>o_quantity := q\<rparr>) (get_order b1 j)"
        "\<forall>j. (\<forall>q. Modify j q \<notin> set es) \<longrightarrow> get_order b2 j = get_order b1 j"
        using Cons.IH [OF b1(2)] Cons.prems(2,3) by auto
      have "get_order b2 j = map_option (\<lambda>x. x\<lparr>o_quantity := q'\<rparr>) (get_order b j)"
        if "Modify j q' \<in> set (e # es)" for j q'
      proof (cases "j = oid")
        case True
        then have "q' = q" using that oth Modify by auto
        moreover have "get_order b2 oid = get_order b1 oid" using b2(4) oth by blast
        ultimately show ?thesis using True b1(3) o by simp
      next
        case False
        then show ?thesis using that b2(3) b1(3) Modify by auto
      qed
      moreover have "get_order b2 j = get_order b j" if "\<forall>q. Modify j q \<notin> set (e # es)" for j
      proof -
        have "j \<noteq> oid" "\<forall>q. Modify j q \<notin> set es" using that Modify by auto
        then show ?thesis using b2(4) b1(3) by simp
      qed
      ultimately show ?thesis using b1(1) b2(1,2) Modify by simp
    next
      case (Add order)
      then show ?thesis using Cons by simp
    next
      case (Delete oid)
      then show ?thesis using Cons by simp
    qed
  qed simp
  then show thesis using that by blast
qed

lemma add_pass_Ok:
  assumes "l3_wf b" "\<forall>e \<in> set es. event_typed e" "l3_add_pass b es = Ok b'"
    "distinct (map event_order_id es)"
  shows "l3_wf b' \<and> (\<forall>order. Add order \<in> set es \<longrightarrow> get_order b' (o_id order) = Some order)
    \<and> (\<forall>j. (\<forall>order. Add order \<in> set es \<longrightarrow> o_id order \<noteq> j) \<longrightarrow> get_order b' j = get_order b j)"
  using assms
proof (induction es arbitrary: b)
  case (Cons e es)
  show ?case
  proof (cases e)
    case (Add order)
    then obtain b1 where b1: "l3_insert b order = Ok b1" "l3_add_pass b1 es = Ok b'"
      using Cons.prems(3) by (auto simp: result_simps)
    have "order_typed order" using Cons.prems(2) Add by (simp add: event_typed_def)
    note ins = l3_insert_Ok [OF Cons.prems(1) this b1(1)]
    have "\<forall>order'. Add order' \<in> set es \<longrightarrow> o_id order' \<noteq> o_id order"
      using Cons.prems(4) Add by (force simp: event_order_id_def)
    then show ?thesis
      using Cons.IH [OF ins(1) _ b1(2)] Cons.prems(2,4) ins(2) Add by auto
  next
    case (Modify oid q)
    then show ?thesis using Cons by simp
  next
    case (Delete oid)
    then show ?thesis using Cons by simp
  qed
qed simp

lemma l3_insert_Err: "l3_insert b order = Err e \<Longrightarrow> e = AmbiguousL3Order"
  by (auto simp: l3_insert_def Let_def split: if_splits)

lemma and_then_Err_iff:
  "and_then r f = Inl e \<longleftrightarrow> r = Inl e \<or> (\<exists>v. r = Inr v \<and> f v = Inl e)"
  by (cases r) auto

lemma add_pass_Err: "l3_add_pass b es = Err e \<Longrightarrow> e = AmbiguousL3Order"
  using l3_insert_Err
  by (induction es arbitrary: b) (auto simp: and_then_Err_iff split: L3Event.splits)

lemma card_events:
  "distinct (map event_order_id es) \<Longrightarrow>
     finite {j. Delete j \<in> set es} \<and> card {j. Delete j \<in> set es} = length (filter is_deletion es)
     \<and> finite {j. \<exists>order. Add order \<in> set es \<and> o_id order = j}
     \<and> card {j. \<exists>order. Add order \<in> set es \<and> o_id order = j} = length (filter is_addition es)"
proof (induction es)
  case (Cons e es)
  then have IH: "finite {j. Delete j \<in> set es}" "card {j. Delete j \<in> set es} = length (filter is_deletion es)"
    "finite {j. \<exists>order. Add order \<in> set es \<and> o_id order = j}"
    "card {j. \<exists>order. Add order \<in> set es \<and> o_id order = j} = length (filter is_addition es)" by simp_all
  have new: "event_order_id e \<notin> event_order_id ` set es" using Cons.prems by simp
  show ?case
  proof (cases e)
    case (Add x)
    have "{j. Delete j \<in> set (e # es)} = {j. Delete j \<in> set es}" using Add by auto
    moreover have "{j. \<exists>order. Add order \<in> set (e # es) \<and> o_id order = j} =
        insert (o_id x) {j. \<exists>order. Add order \<in> set es \<and> o_id order = j}" using Add by auto
    moreover have "o_id x \<notin> {j. \<exists>order. Add order \<in> set es \<and> o_id order = j}"
      using new Add by (force simp: event_order_id_def)
    ultimately show ?thesis using IH Add by simp
  next
    case (Modify i q)
    then show ?thesis using IH by simp
  next
    case (Delete i)
    have "{j. Delete j \<in> set (e # es)} = insert i {j. Delete j \<in> set es}" using Delete by auto
    moreover have "i \<notin> {j. Delete j \<in> set es}" using new Delete by (force simp: event_order_id_def)
    ultimately show ?thesis using IH Delete by simp
  qed
qed simp

text \<open>The orders a batch leaves, before the sides are cut to their depth.\<close>

definition batch_outcome :: "L3Book \<Rightarrow> L3Event list \<Rightarrow> L3Book \<Rightarrow> bool" where
  "batch_outcome b es b' \<longleftrightarrow>
     (\<forall>order. Add order \<in> set es \<longrightarrow> get_order b' (o_id order) = Some order)
     \<and> (\<forall>j q. Modify j q \<in> set es \<longrightarrow>
          get_order b' j = map_option (\<lambda>x. x\<lparr>o_quantity := q\<rparr>) (get_order b j))
     \<and> (\<forall>j. Delete j \<in> set es \<longrightarrow> get_order b' j = None)
     \<and> (\<forall>j. j \<notin> event_order_id ` set es \<longrightarrow> get_order b' j = get_order b j)"

lemma passes_outcome:
  assumes wf: "l3_wf b" and d: "distinct (map event_order_id es)"
    and fits: "\<forall>e \<in> set es. event_fits b e" and typed: "\<forall>e \<in> set es. event_typed e"
    and run: "l3_delete_pass b es = Ok b1" "l3_modify_pass b1 es = Ok b2" "l3_add_pass b2 es = Ok b3"
  shows "l3_wf b3" "batch_outcome b es b3"
    "length (l3_orders b3) = length (l3_orders b) - length (filter is_deletion es) + length (filter is_addition es)"
    "length (filter is_deletion es) \<le> length (l3_orders b)"
proof -
  have del: "l3_wf b1" "\<And>j. get_order b1 j = (if Delete j \<in> set es then None else get_order b j)"
    using delete_pass_Ok [OF wf d] fits run(1) by (metis Inr_inject)+
  have same: "e = e'" if "e \<in> set es" "e' \<in> set es" "event_order_id e = event_order_id e'" for e e'
    using that d by (metis distinct_map inj_onD)
  have live: "\<forall>oid q. Modify oid q \<in> set es \<longrightarrow> get_order b1 oid \<noteq> None"
  proof (intro allI impI)
    fix oid q assume m: "Modify oid q \<in> set es"
    have "Delete oid \<notin> set es" using same [OF m, of "Delete oid"] by (auto simp: event_order_id_def)
    then show "get_order b1 oid \<noteq> None" using fits m by (auto simp: del(2) event_fits_def)
  qed
  obtain b2' where b2': "l3_modify_pass b1 es = Ok b2'" "l3_wf b2'"
    "\<And>j q. Modify j q \<in> set es \<Longrightarrow> get_order b2' j = map_option (\<lambda>x. x\<lparr>o_quantity := q\<rparr>) (get_order b1 j)"
    "\<And>j. \<forall>q. Modify j q \<notin> set es \<Longrightarrow> get_order b2' j = get_order b1 j"
    using modify_pass_Ok [OF del(1) d typed live] by blast
  then have [simp]: "b2' = b2" using run(2) by simp
  note mod = b2'(2-4) [simplified]
  have add: "l3_wf b3" "\<And>order. Add order \<in> set es \<Longrightarrow> get_order b3 (o_id order) = Some order"
    "\<And>j. \<forall>order. Add order \<in> set es \<longrightarrow> o_id order \<noteq> j \<Longrightarrow> get_order b3 j = get_order b2 j"
    using add_pass_Ok [OF mod(1) typed run(3) d] by blast+
  show "l3_wf b3" by (rule add)
  show out: "batch_outcome b es b3"
    unfolding batch_outcome_def
  proof (intro conjI allI impI)
    fix order assume "Add order \<in> set es"
    then show "get_order b3 (o_id order) = Some order" by (rule add)
  next
    fix j q assume m: "Modify j q \<in> set es"
    have "\<forall>order. Add order \<in> set es \<longrightarrow> o_id order \<noteq> j" "Delete j \<notin> set es"
      using same [OF m] by (force simp: event_order_id_def)+
    then show "get_order b3 j = map_option (\<lambda>x. x\<lparr>o_quantity := q\<rparr>) (get_order b j)"
      using add(3) mod(2) [OF m] del(2) by simp
  next
    fix j assume m: "Delete j \<in> set es"
    have "\<forall>order. Add order \<in> set es \<longrightarrow> o_id order \<noteq> j" "\<forall>q. Modify j q \<notin> set es"
      using same [OF m] by (force simp: event_order_id_def)+
    then show "get_order b3 j = None" using add(3) mod(3) del(2) m by simp
  next
    fix j assume "j \<notin> event_order_id ` set es"
    then have "\<forall>order. Add order \<in> set es \<longrightarrow> o_id order \<noteq> j" "\<forall>q. Modify j q \<notin> set es" "Delete j \<notin> set es"
      by (force simp: event_order_id_def)+
    then show "get_order b3 j = get_order b j" using add(3) mod(3) del(2) by simp
  qed
  let ?D = "{j. Delete j \<in> set es}" and ?A = "{j. \<exists>order. Add order \<in> set es \<and> o_id order = j}"
  have old: "?D \<subseteq> {j. get_order b j \<noteq> None}" "?A \<inter> {j. get_order b j \<noteq> None} = {}"
    using fits by (auto simp: event_fits_def)
  have b2dom: "get_order b2 j \<noteq> None \<longleftrightarrow> j \<in> {j. get_order b j \<noteq> None} - ?D" for j
  proof (cases "\<exists>q. Modify j q \<in> set es")
    case True
    then obtain q where "Modify j q \<in> set es" by blast
    then have "get_order b2 j = map_option (\<lambda>x. x\<lparr>o_quantity := q\<rparr>) (get_order b1 j)" by (rule mod)
    then show ?thesis using del(2) by auto
  next
    case False
    then show ?thesis using mod(3) [of j] del(2) by auto
  qed
  have dom: "{j. get_order b3 j \<noteq> None} = ({j. get_order b j \<noteq> None} - ?D) \<union> ?A"
  proof (intro set_eqI)
    fix j
    show "j \<in> {j. get_order b3 j \<noteq> None} \<longleftrightarrow> j \<in> ({j. get_order b j \<noteq> None} - ?D) \<union> ?A"
    proof (cases "j \<in> ?A")
      case True
      then show ?thesis using add(2) by auto
    next
      case False
      then have "get_order b3 j = get_order b2 j" using add(3) by blast
      then show ?thesis using False b2dom [of j] by (simp only: mem_Collect_eq Un_iff) blast
    qed
  qed
  note card = card_events [OF d]
  have fin: "finite {j. get_order b j \<noteq> None}" using wf by (rule l3_orders_finite)
  show "length (filter is_deletion es) \<le> length (l3_orders b)"
    using card_mono [OF fin old(1)] card l3_orders_card [OF wf] by simp
  have "card {j. get_order b3 j \<noteq> None} = card ({j. get_order b j \<noteq> None} - ?D) + card ?A"
    unfolding dom using fin card old(2) by (intro card_Un_disjoint) auto
  also have "card ({j. get_order b j \<noteq> None} - ?D) = card {j. get_order b j \<noteq> None} - card ?D"
    using card old(1) by (intro card_Diff_subset) auto
  finally show "length (l3_orders b3) =
      length (l3_orders b) - length (filter is_deletion es) + length (filter is_addition es)"
    using card l3_orders_card [OF wf] l3_orders_card [OF add(1)] by simp
qed

subsection \<open>The sorted view\<close>

lemma sorted_concat:
  "(\<forall>xs \<in> set xss. sorted_wrt R xs) \<Longrightarrow>
     sorted_wrt (\<lambda>xs ys. \<forall>x \<in> set xs. \<forall>y \<in> set ys. R x y) xss \<Longrightarrow> sorted_wrt R (concat xss)"
  by (induction xss) (auto simp: sorted_wrt_append)

text \<open>Price-time priority: better prices first, then earlier priorities.\<close>

definition precedes :: "L3Order \<Rightarrow> L3Order \<Rightarrow> bool" where
  "precedes a b \<longleftrightarrow>
     o_side a = Bid \<and> o_side b = Ask
     \<or> o_side a = o_side b \<and> (if o_side a = Bid then decimal_cmp (o_price b) (o_price a) = Less
                              else decimal_cmp (o_price a) (o_price b) = Less)
     \<or> o_side a = o_side b \<and> o_price a = o_price b
        \<and> (o_priority_ns a < o_priority_ns b
           \<or> o_priority_ns a = o_priority_ns b \<and> o_queue_order a < o_queue_order b)"

lemma prio_cmp_Less:
  "prio_cmp (o_priority a) (o_priority b) = Less \<longleftrightarrow>
     o_priority_ns a < o_priority_ns b
     \<or> o_priority_ns a = o_priority_ns b \<and> o_queue_order a < o_queue_order b"
  by (auto simp: prio_cmp_def pair_cmp_def cmp_of_def o_priority_def then_ordering_def)

lemma queue_orders_level:
  assumes wf: "l3_wf b" and lvl: "(p, q) \<in> set (side_of b side)"
  shows "set (queue_orders b q) = {order. get_order b (o_id order) = Some order
            \<and> o_side order = side \<and> o_price order = p}"
    and "sorted_wrt precedes (queue_orders b q)"
proof -
  have mw: "queues_wf (side_of b side)" using wf by (rule l3_wfD)
  have p: "decimal_wf p" using price.wf_key_valid [OF queues_wf_bt [OF mw] lvl] .
  have "bt_get decimal_cmp p (side_of b side) = Some q"
    using price.get_Some_iff [OF queues_wf_bt [OF mw] p] lvl by blast
  then have q: "queue_of (side_of b side) p = q" by (simp add: queue_of_def)
  note entry = l3_wfD(4) [OF wf p, of _ _ side, unfolded q]
  have live: "\<exists>order. get_order b oid = Some order \<and> o_side order = side \<and> o_price order = p
      \<and> o_priority order = pr" if "(pr, oid) \<in> set q" for pr oid using entry that by blast
  have mf: "queue_orders b q = map (\<lambda>e. the (get_order b (snd e))) q"
  proof -
    have "\<forall>oid \<in> set (map snd q). get_order b oid \<noteq> None" using live by fastforce
    then have "filter (\<lambda>oid. get_order b oid \<noteq> None) (map snd q) = map snd q" by (rule filter_True)
    then show ?thesis by (simp add: queue_orders_def map_filter_def)
  qed
  have look: "get_order b (snd e) = Some (the (get_order b (snd e)))
      \<and> o_side (the (get_order b (snd e))) = side \<and> o_price (the (get_order b (snd e))) = p
      \<and> o_priority (the (get_order b (snd e))) = fst e \<and> o_id (the (get_order b (snd e))) = snd e"
    if "e \<in> set q" for e
    using live [of "fst e" "snd e"] that l3_wfD(2) [OF wf] by fastforce
  show "set (queue_orders b q) = {order. get_order b (o_id order) = Some order
            \<and> o_side order = side \<and> o_price order = p}"
  proof (intro set_eqI iffI)
    fix order assume "order \<in> set (queue_orders b q)"
    then obtain e where "e \<in> set q" "order = the (get_order b (snd e))" by (auto simp: mf)
    then show "order \<in> {order. get_order b (o_id order) = Some order
            \<and> o_side order = side \<and> o_price order = p}" using look [of e] by simp
  next
    fix order assume o: "order \<in> {order. get_order b (o_id order) = Some order
            \<and> o_side order = side \<and> o_price order = p}"
    then have "(o_priority order, o_id order) \<in> set q" using entry by simp
    then have "the (get_order b (o_id order)) \<in> set (queue_orders b q)" unfolding mf by force
    then show "order \<in> set (queue_orders b q)" using o by simp
  qed
  have "sorted_wrt (\<lambda>x y. prio_cmp (fst x) (fst y) = Less) q"
    using queue_of_wf [OF mw p] by (simp add: q bt_wf_def sorted_wrt_map)
  then show "sorted_wrt precedes (queue_orders b q)"
    unfolding mf sorted_wrt_map
  proof (rule sorted_wrt_mono_rel [rotated])
    fix x y assume xy: "x \<in> set q" "y \<in> set q" "prio_cmp (fst x) (fst y) = Less"
    then have "prio_cmp (o_priority (the (get_order b (snd x)))) (o_priority (the (get_order b (snd y)))) = Less"
      using look by simp
    then show "precedes (the (get_order b (snd x))) (the (get_order b (snd y)))"
      using look [OF xy(1)] look [OF xy(2)] unfolding precedes_def prio_cmp_Less by simp
  qed
qed

lemma side_orders:
  assumes wf: "l3_wf b"
  defines "bids \<equiv> concat (map (queue_orders b) (rev (map snd (l3_bids b))))"
  defines "asks \<equiv> concat (map (queue_orders b) (map snd (l3_asks b)))"
  shows "set bids = {order. get_order b (o_id order) = Some order \<and> o_side order = Bid}"
    and "set asks = {order. get_order b (o_id order) = Some order \<and> o_side order = Ask}"
    and "sorted_wrt precedes bids" "sorted_wrt precedes asks"
proof -
  have listed: "\<exists>q. (o_price order, q) \<in> set (side_of b (o_side order))"
    if "get_order b (o_id order) = Some order" for order
    using order_price_listed [OF wf that] by force
  have union: "(\<Union>e \<in> set (side_of b side). set (queue_orders b (snd e))) =
      {order. get_order b (o_id order) = Some order \<and> o_side order = side}" for side
  proof (intro set_eqI iffI)
    fix order assume "order \<in> (\<Union>e \<in> set (side_of b side). set (queue_orders b (snd e)))"
    then obtain p q where "(p, q) \<in> set (side_of b side)" "order \<in> set (queue_orders b q)" by auto
    then show "order \<in> {order. get_order b (o_id order) = Some order \<and> o_side order = side}"
      using queue_orders_level(1) [OF wf] by blast
  next
    fix order assume o: "order \<in> {order. get_order b (o_id order) = Some order \<and> o_side order = side}"
    then obtain q where q: "(o_price order, q) \<in> set (side_of b side)" using listed by blast
    then have "order \<in> set (queue_orders b q)" using queue_orders_level(1) [OF wf q] o by blast
    then show "order \<in> (\<Union>e \<in> set (side_of b side). set (queue_orders b (snd e)))" using q by force
  qed
  show "set bids = {order. get_order b (o_id order) = Some order \<and> o_side order = Bid}"
    unfolding union [symmetric] by (auto simp: bids_def side_of_def)
  show "set asks = {order. get_order b (o_id order) = Some order \<and> o_side order = Ask}"
    unfolding union [symmetric] by (auto simp: asks_def side_of_def)
  have ws: "bt_wf decimal_cmp decimal_wf (l3_bids b)" "bt_wf decimal_cmp decimal_wf (l3_asks b)"
    using queues_wf_bt [OF l3_wfD(3) [OF wf], of Bid] queues_wf_bt [OF l3_wfD(3) [OF wf], of Ask]
    by (simp_all add: side_of_def)
  have asc: "sorted_wrt (\<lambda>x y. decimal_cmp (fst x) (fst y) = Less) (l3_asks b)"
    "sorted_wrt (\<lambda>y x. decimal_cmp (fst x) (fst y) = Less) (rev (l3_bids b))"
    using ws by (simp_all add: bt_wf_def sorted_wrt_map sorted_wrt_rev)
  have "sorted_wrt (\<lambda>x y. \<forall>a \<in> set (queue_orders b (snd x)). \<forall>c \<in> set (queue_orders b (snd y)). precedes a c)
      (l3_asks b)"
  proof (rule sorted_wrt_mono_rel [OF _ asc(1)])
    fix x y assume "x \<in> set (l3_asks b)" "y \<in> set (l3_asks b)" "decimal_cmp (fst x) (fst y) = Less"
    then show "\<forall>a \<in> set (queue_orders b (snd x)). \<forall>c \<in> set (queue_orders b (snd y)). precedes a c"
      using queue_orders_level(1) [OF wf, of "fst x" "snd x" Ask] queue_orders_level(1) [OF wf, of "fst y" "snd y" Ask]
      by (simp add: side_of_def precedes_def)
  qed
  then show "sorted_wrt precedes asks"
    unfolding asks_def using queue_orders_level(2) [OF wf, of _ _ Ask]
    by (intro sorted_concat) (auto simp: sorted_wrt_map side_of_def)
  have "sorted_wrt (\<lambda>x y. \<forall>a \<in> set (queue_orders b (snd x)). \<forall>c \<in> set (queue_orders b (snd y)). precedes a c)
      (rev (l3_bids b))"
  proof (rule sorted_wrt_mono_rel [OF _ asc(2)])
    fix x y assume "x \<in> set (rev (l3_bids b))" "y \<in> set (rev (l3_bids b))" "decimal_cmp (fst y) (fst x) = Less"
    then show "\<forall>a \<in> set (queue_orders b (snd x)). \<forall>c \<in> set (queue_orders b (snd y)). precedes a c"
      using queue_orders_level(1) [OF wf, of "fst x" "snd x" Bid] queue_orders_level(1) [OF wf, of "fst y" "snd y" Bid]
      by (simp add: side_of_def precedes_def)
  qed
  then show "sorted_wrt precedes bids"
    unfolding bids_def using queue_orders_level(2) [OF wf, of _ _ Bid]
    by (intro sorted_concat) (auto simp: sorted_wrt_map side_of_def rev_map)
qed

lemma precedes_irrefl: "\<not> precedes x x"
  by (auto simp: precedes_def decimal_cmp_value cmp_of_def)

lemma sorted_irrefl_distinct: "sorted_wrt R xs \<Longrightarrow> (\<And>x. \<not> R x x) \<Longrightarrow> distinct xs"
  by (induction xs) auto

lemma l3_insert_all_Ok:
  assumes "l3_wf b" "list_all order_typed orders" "l3_insert_all c b orders = Ok b'"
  shows "l3_wf b'"
  using assms
proof (induction orders arbitrary: b)
  case (Cons x orders)
  then obtain b1 where "l3_insert b x = Ok b1" "l3_insert_all c b1 orders = Ok b'"
    by (auto simp: result_simps)
  then show ?case using Cons l3_insert_Ok(1) [of b x b1] by simp
qed simp

lemma l3_from_snapshot_wf:
  assumes "l3_from_snapshot orders c = Ok b" "list_all order_typed orders"
  shows "l3_wf b"
proof -
  obtain depth b0 where "l3_insert_all c l3_empty orders = Ok b0" "b = l3_truncate depth b0"
    using assms(1) by (auto simp: l3_from_snapshot_def result_simps split: if_splits)
  then show ?thesis using l3_insert_all_Ok [OF l3_empty_wf assms(2)] l3_truncate_Ok(1) by blast
qed

lemma config_l3_bound: "config_validate c \<Longrightarrow> max_l3_orders c = Some m \<Longrightarrow> m \<le> u64_max"
  by (simp add: config_validate_def in_range_def MAX_L3_ORDERS_def u64_max_def)

lemma l3_apply_Ok:
  assumes wf: "l3_wf b" and c: "config_validate c" and typed: "\<forall>e \<in> set es. event_typed e"
    and run: "l3_apply b es c = Ok b'"
  obtains m d mid where "max_l3_orders c = Some m" "max_l3_levels_per_side c = Some d"
    "length (l3_orders mid) \<le> m" "l3_wf mid" "batch_outcome b es mid" "b' = l3_truncate d mid"
proof -
  obtain m d a del b1 b2 b3 where r: "max_l3_orders c = Some m" "max_l3_levels_per_side c = Some d"
    "length es \<le> m" "l3_check c b [] 0 0 es = Ok (a, del)" "length (l3_orders b) - del + a \<le> m"
    "l3_delete_pass b es = Ok b1" "l3_modify_pass b1 es = Ok b2" "l3_add_pass b2 es = Ok b3"
    "b' = l3_truncate d b3"
    using run by (auto simp: l3_apply_def result_simps checked_sub_def checked_add_def
        bind_eq_Some_conv split: if_splits)
  have "length es \<le> u64_max" using config_l3_bound [OF c r(1)] r(3) by simp
  then have chk: "distinct (map event_order_id es)" "\<forall>e \<in> set es. event_fits b e"
    "a = length (filter is_addition es)" "del = length (filter is_deletion es)"
    using l3_check_Ok [OF r(4)] by simp_all
  note out = passes_outcome [OF wf chk(1,2) typed r(6-8)]
  have "length (l3_orders b3) \<le> m" using out(3) r(5) chk(3,4) by simp
  then show thesis using that r(1,2,9) out(1,2) by blast
qed

lemma l3_apply_wf:
  "l3_wf b \<Longrightarrow> config_validate c \<Longrightarrow> \<forall>e \<in> set es. event_typed e \<Longrightarrow> l3_apply b es c = Ok b' \<Longrightarrow> l3_wf b'"
  using l3_apply_Ok l3_truncate_Ok(1) by metis

subsection \<open>Properties\<close>

text \<open>
  C36. A batch of order events is exact: when it is applied, each added order is in the book, each
  modified order has the new quantity and keeps its place, each deleted order is gone, every other
  order is as before, the number of orders is within the limit, and then only whole price levels
  beyond the depth are cut, with all their orders. The three maps of the book stay consistent.
\<close>

theorem l3_batch_exact:
  assumes "l3_wf b" "config_validate c" "\<forall>e \<in> set es. event_typed e" "l3_apply b es c = Ok b'"
  shows "l3_wf b' \<and> (\<exists>m d mid. max_l3_orders c = Some m \<and> max_l3_levels_per_side c = Some d
    \<and> l3_wf mid \<and> batch_outcome b es mid \<and> length (l3_orders mid) \<le> m
    \<and> l3_bids b' = drop (length (l3_bids mid) - d) (l3_bids mid) \<and> l3_asks b' = take d (l3_asks mid)
    \<and> orders_within b' mid)"
proof -
  obtain m d mid where r: "max_l3_orders c = Some m" "max_l3_levels_per_side c = Some d"
    "length (l3_orders mid) \<le> m" "l3_wf mid" "batch_outcome b es mid" "b' = l3_truncate d mid"
    using l3_apply_Ok [OF assms] .
  show ?thesis using r l3_truncate_Ok [OF r(4), of d] by blast
qed

definition example_order :: "string \<Rightarrow> L3Side \<Rightarrow> int \<Rightarrow> nat \<Rightarrow> L3Order" where
  "example_order oid side p n =
     \<lparr>o_id = oid, o_side = side, o_price = \<lparr>mantissa = p, scale = 0\<rparr>,
      o_quantity = \<lparr>mantissa = 1, scale = 0\<rparr>, o_priority_ns = n, o_queue_order = 0\<rparr>"

definition example_l3 :: L3Book where
  "example_l3 =
     \<lparr>l3_orders = [(''a'', example_order ''a'' Bid 100 1)],
      l3_bids = [(\<lparr>mantissa = 100, scale = 0\<rparr>, [((1, 0), ''a'')])], l3_asks = []\<rparr>"

lemma example_l3_run: "l3_apply l3_empty [Add (example_order ''a'' Bid 100 1)] example_config = Ok example_l3"
  by (simp add: l3_apply_def l3_empty_def example_config_def example_order_def example_l3_def
      event_order_id_def validate_l3_order_def decimal_is_multiple_def is_zero_def checked_i128_def
      numeral_bounds trunc_mod_def bt_contains_def checked_sub_def checked_add_def saturating_add_def
      u64_max_def l3_insert_def side_of_def set_side_def queue_of_def o_priority_def l3_truncate_def)

lemma example_l3_inputs:
  "config_validate example_config" "\<forall>e \<in> set [Add (example_order ''a'' Bid 100 1)]. event_typed e"
  by (simp_all add: config_validate_def example_config_def is_positive_def in_range_def
      MAX_BOOK_LEVELS_PER_SIDE_def MAX_BUFFERED_DELTAS_def MAX_BUFFERED_LEVEL_UPDATES_def
      MAX_L3_ORDERS_def event_typed_def order_typed_def example_order_def decimal_wf_def
      numeral_bounds MAX_SCALE_def is_negative_def)

theorem l3_batch_exact_witness: "l3_wf example_l3"
  using l3_batch_exact [OF l3_empty_wf example_l3_inputs example_l3_run] by blast

text \<open>
  A batch that passes the validation loop and the capacity check cannot fail half way for an
  unknown or inconsistent order: the only failure left is an added order whose queue position is
  already taken, reported as ambiguous.
\<close>

theorem l3_batch_error:
  assumes wf: "l3_wf b" and c: "config_validate c" "max_l3_orders c = Some m" "max_l3_levels_per_side c = Some d"
    and typed: "\<forall>e \<in> set es. event_typed e"
    and chk: "length es \<le> m" "l3_check c b [] 0 0 es = Ok (additions, deletions)"
      "length (l3_orders b) - deletions + additions \<le> m"
  shows "(\<exists>b'. l3_apply b es c = Ok b') \<or> l3_apply b es c = Err AmbiguousL3Order"
proof -
  have len: "length es \<le> u64_max" using config_l3_bound [OF c(1,2)] chk(1) by simp
  then have k: "distinct (map event_order_id es)" "\<forall>e \<in> set es. event_fits b e"
    "deletions = length (filter is_deletion es)"
    using l3_check_Ok [OF chk(2)] by simp_all
  obtain b1 where b1: "l3_delete_pass b es = Ok b1" "l3_wf b1"
    "\<And>j. get_order b1 j = (if Delete j \<in> set es then None else get_order b j)"
    using delete_pass_Ok [OF wf k(1)] k(2) by blast
  have live: "\<forall>oid q. Modify oid q \<in> set es \<longrightarrow> get_order b1 oid \<noteq> None"
  proof (intro allI impI)
    fix oid q assume m: "Modify oid q \<in> set es"
    have "Delete oid \<notin> set es"
      using k(1) m distinct_map inj_onD [of event_order_id "set es" "Modify oid q" "Delete oid"]
      by (auto simp: event_order_id_def distinct_map)
    then show "get_order b1 oid \<noteq> None" using k(2) m by (auto simp: b1(3) event_fits_def)
  qed
  obtain b2 where b2: "l3_modify_pass b1 es = Ok b2"
    by (rule modify_pass_Ok [OF b1(2) k(1) typed live])
  have "deletions \<le> length (l3_orders b)"
  proof -
    have "{j. Delete j \<in> set es} \<subseteq> {j. get_order b j \<noteq> None}" using k(2) by (auto simp: event_fits_def)
    from card_mono [OF l3_orders_finite [OF wf] this] show ?thesis
      using card_events [OF k(1)] k(3) l3_orders_card [OF wf] by simp
  qed
  then have "l3_apply b es c = and_then (l3_add_pass b2 es) (\<lambda>b3. Ok (l3_truncate d b3))"
    using c(2,3) chk config_l3_bound [OF c(1,2)] b1(1) b2
    by (simp add: l3_apply_def checked_sub_def checked_add_def)
  then show ?thesis using add_pass_Err by (cases "l3_add_pass b2 es") auto
qed

theorem l3_batch_error_witness:
  "(\<exists>b'. l3_apply l3_empty [Add (example_order ''a'' Bid 100 1)] example_config = Ok b')
   \<or> l3_apply l3_empty [Add (example_order ''a'' Bid 100 1)] example_config = Err AmbiguousL3Order"
proof (rule l3_batch_error [OF l3_empty_wf example_l3_inputs(1) _ _ example_l3_inputs(2)])
  show "max_l3_orders example_config = Some 4" "max_l3_levels_per_side example_config = Some 2"
    by (simp_all add: example_config_def)
  show "l3_check example_config l3_empty [] 0 0 [Add (example_order ''a'' Bid 100 1)] = Ok (1, 0)"
    by (simp add: l3_empty_def example_config_def example_order_def
        event_order_id_def validate_l3_order_def decimal_is_multiple_def is_zero_def checked_i128_def
        numeral_bounds trunc_mod_def bt_contains_def saturating_add_def u64_max_def)
qed (simp_all add: l3_empty_def)

text \<open>
  C37. The sorted view of a consistent level-three book lists every live order exactly once, bids
  before asks, in price-time priority.
\<close>

theorem l3_view_complete:
  assumes "l3_wf b" "length (l3_bids b) \<le> u64_max" "length (l3_asks b) \<le> u64_max"
  shows "set (sorted_orders b) = {order. get_order b (o_id order) = Some order}
    \<and> distinct (sorted_orders b) \<and> sorted_wrt precedes (sorted_orders b)"
proof -
  let ?bids = "concat (map (queue_orders b) (rev (map snd (l3_bids b))))"
  let ?asks = "concat (map (queue_orders b) (map snd (l3_asks b)))"
  have eq: "sorted_orders b = ?bids @ ?asks"
    using assms(2,3) by (simp add: sorted_orders_def append_side_def)
  note so = side_orders [OF assms(1)]
  have "sorted_wrt precedes (?bids @ ?asks)"
    using so unfolding sorted_wrt_append so(1,2) by (auto simp: precedes_def)
  moreover have "set (?bids @ ?asks) = {order. get_order b (o_id order) = Some order}"
    unfolding set_append so(1,2) using L3Side.exhaust by auto
  ultimately show ?thesis
    unfolding eq using sorted_irrefl_distinct [of precedes] precedes_irrefl by blast
qed

text \<open>An example with two orders in one queue, a better bid that came later and an ask.\<close>

definition example_orders :: "L3Order list" where
  "example_orders = [example_order ''a'' Bid 100 2, example_order ''b'' Bid 100 1, example_order ''c'' Bid 101 3,
     example_order ''d'' Ask 103 4]"

definition example_l3_deep :: L3Book where
  "example_l3_deep =
     \<lparr>l3_orders = map (\<lambda>order. (o_id order, order)) example_orders,
      l3_bids = [(\<lparr>mantissa = 100, scale = 0\<rparr>, [((1, 0), ''b''), ((2, 0), ''a'')]),
                 (\<lparr>mantissa = 101, scale = 0\<rparr>, [((3, 0), ''c'')])],
      l3_asks = [(\<lparr>mantissa = 103, scale = 0\<rparr>, [((4, 0), ''d'')])]\<rparr>"

lemma example_ids:
  "str_cmp ''a'' ''a'' = Equal" "str_cmp ''b'' ''b'' = Equal" "str_cmp ''c'' ''c'' = Equal" "str_cmp ''d'' ''d'' = Equal"
  "str_cmp ''a'' ''b'' = Less" "str_cmp ''b'' ''a'' = Greater" "str_cmp ''c'' ''a'' = Greater" "str_cmp ''c'' ''b'' = Greater"
  "str_cmp ''d'' ''a'' = Greater" "str_cmp ''d'' ''b'' = Greater" "str_cmp ''d'' ''c'' = Greater"
  by code_simp+

lemma example_prices:
  "decimal_cmp \<lparr>mantissa = 101, scale = 0\<rparr> \<lparr>mantissa = 100, scale = 0\<rparr> = Greater"
  "decimal_cmp \<lparr>mantissa = 100, scale = 0\<rparr> \<lparr>mantissa = 100, scale = 0\<rparr> = Equal"
  by code_simp+

lemma example_l3_deep_run: "l3_apply l3_empty (map Add example_orders) example_config = Ok example_l3_deep"
  by (simp add: l3_apply_def l3_empty_def example_config_def example_orders_def example_order_def example_l3_deep_def
      event_order_id_def validate_l3_order_def decimal_is_multiple_def is_zero_def checked_i128_def
      numeral_bounds trunc_mod_def bt_contains_def checked_sub_def checked_add_def saturating_add_def
      u64_max_def l3_insert_def side_of_def set_side_def queue_of_def o_priority_def l3_truncate_def
      example_ids example_prices prio_cmp_def pair_cmp_def cmp_of_def Let_def)

lemma example_l3_deep_wf: "l3_wf example_l3_deep"
proof (rule l3_apply_wf [OF l3_empty_wf example_l3_inputs(1) _ example_l3_deep_run])
  show "\<forall>e \<in> set (map Add example_orders). event_typed e"
    by (simp add: example_orders_def event_typed_def order_typed_def example_order_def decimal_wf_def
        numeral_bounds MAX_SCALE_def is_negative_def is_positive_def)
qed

theorem l3_view_complete_witness:
  "map o_id (sorted_orders example_l3_deep) = [''c'', ''b'', ''a'', ''d'']
   \<and> set (sorted_orders example_l3_deep) = {order. get_order example_l3_deep (o_id order) = Some order}
   \<and> distinct (sorted_orders example_l3_deep) \<and> sorted_wrt precedes (sorted_orders example_l3_deep)"
proof -
  have view: "map o_id (sorted_orders example_l3_deep) = [''c'', ''b'', ''a'', ''d'']"
    by (simp add: sorted_orders_def append_side_def queue_orders_def example_l3_deep_def example_orders_def example_order_def
        u64_max_def example_ids List.map_filter_def)
  have "length (l3_bids example_l3_deep) \<le> u64_max" "length (l3_asks example_l3_deep) \<le> u64_max"
    by (simp_all add: example_l3_deep_def u64_max_def)
  then show ?thesis using l3_view_complete [OF example_l3_deep_wf] view by blast
qed

end
