(* ===== verification/Checksum.thy ===== *)
theory Checksum
  imports L3_Book "HOL-Library.Word"
begin

text \<open>
  \<open>orderbook/src/checksum.rs\<close>: the source-exact observations a venue's CRC-32 is computed from, the
  checksum itself on 32-bit words, and the comparison of an observation with a book. Texts are
  byte lists; \<open>BTreeSet\<close> is the map to the unit type.
\<close>

unbundle bit_operations_syntax

subsection \<open>The checksum of bytes\<close>

definition crc_step :: "32 word \<Rightarrow> 32 word" where
  "crc_step crc = (let mask = 0 - (crc AND 1) in drop_bit 1 crc XOR (0xedb88320 AND mask))"

definition crc_byte :: "32 word \<Rightarrow> char \<Rightarrow> 32 word" where
  "crc_byte crc byte = (crc_step ^^ 8) (crc XOR of_nat (of_char byte))"

definition ieee_crc32 :: "string \<Rightarrow> 32 word" where
  "ieee_crc32 bytes = NOT (foldl crc_byte (-1) bytes)"

fun append_nonzero :: "string \<Rightarrow> bool \<Rightarrow> string \<Rightarrow> string \<times> bool" where
  "append_nonzero out wrote_nonzero [] = (out, wrote_nonzero)"
| "append_nonzero out wrote_nonzero (byte # bytes) =
     (if wrote_nonzero \<or> byte \<noteq> CHR ''0'' then append_nonzero (out @ [byte]) True bytes
      else append_nonzero out wrote_nonzero bytes)"

definition append_checksum_decimal :: "string \<Rightarrow> string \<Rightarrow> string" where
  "append_checksum_decimal out v =
     (let (out1, wrote_nonzero) = append_nonzero out False (filter (\<lambda>byte. byte \<noteq> CHR ''.'') v)
      in if \<not> wrote_nonzero then out1 @ ''0'' else out1)"

definition KRAKEN_CHECKSUM_DEPTH :: nat where "KRAKEN_CHECKSUM_DEPTH = 10"
definition MAX_DECIMAL_TEXT_BYTES :: nat where "MAX_DECIMAL_TEXT_BYTES = 128"

definition valid_decimal_text :: "string \<Rightarrow> bool" where
  "valid_decimal_text v \<longleftrightarrow>
     v \<noteq> [] \<and> length v \<le> MAX_DECIMAL_TEXT_BYTES \<and> trim v = v \<and> list_all is_ascii v
     \<and> \<not> starts_with v (CHR ''-'') \<and> \<not> starts_with v (CHR ''+'')
     \<and> CHR ''e'' \<notin> set v \<and> CHR ''E'' \<notin> set v"

definition parse_price_text :: "string \<Rightarrow> (Price, BookError) result" where
  "parse_price_text text =
     and_then (map_err (decimal_parse text) (\<lambda>_. InvalidChecksumInput)) (\<lambda>d.
       map_err (price_new d) (\<lambda>_. InvalidChecksumInput))"

definition parse_quantity_text :: "string \<Rightarrow> (Quantity, BookError) result" where
  "parse_quantity_text text =
     and_then (map_err (decimal_parse text) (\<lambda>_. InvalidChecksumInput)) (\<lambda>d.
       map_err (quantity_new d) (\<lambda>_. InvalidChecksumInput))"

text \<open>\<open>slice.windows(2).all\<close>\<close>

fun windows_all :: "('a \<Rightarrow> 'a \<Rightarrow> bool) \<Rightarrow> 'a list \<Rightarrow> bool" where
  "windows_all R (a # b # xs) \<longleftrightarrow> R a b \<and> windows_all R (b # xs)"
| "windows_all R _ \<longleftrightarrow> True"

subsection \<open>Level-two observations\<close>

record ExactChecksumLevel =
  xl_price_text :: string
  xl_quantity_text :: string
  xl_price :: Price
  xl_quantity :: Quantity

definition exact_level_new :: "string \<Rightarrow> string \<Rightarrow> (ExactChecksumLevel, BookError) result" where
  "exact_level_new price_text quantity_text =
     (if \<not> valid_decimal_text price_text \<or> \<not> valid_decimal_text quantity_text
      then Err InvalidChecksumInput
      else and_then (parse_price_text price_text) (\<lambda>price.
           and_then (parse_quantity_text quantity_text) (\<lambda>quantity.
           if is_zero quantity then Err InvalidChecksumInput
           else Ok \<lparr>xl_price_text = price_text, xl_quantity_text = quantity_text,
                    xl_price = price, xl_quantity = quantity\<rparr>)))"

record KrakenV2Checksum =
  k2_expected :: "32 word"
  k2_asks :: "ExactChecksumLevel list"
  k2_bids :: "ExactChecksumLevel list"

definition k2_new :: "32 word \<Rightarrow> ExactChecksumLevel list \<Rightarrow> ExactChecksumLevel list \<Rightarrow>
    (KrakenV2Checksum, BookError) result" where
  "k2_new expected asks bids =
     (if length asks > KRAKEN_CHECKSUM_DEPTH \<or> length bids > KRAKEN_CHECKSUM_DEPTH
         \<or> asks = [] \<and> bids = []
         \<or> \<not> windows_all (\<lambda>a b. decimal_cmp (xl_price a) (xl_price b) = Less) asks
         \<or> \<not> windows_all (\<lambda>a b. decimal_cmp (xl_price a) (xl_price b) = Greater) bids
      then Err InvalidChecksumInput
      else Ok \<lparr>k2_expected = expected, k2_asks = asks, k2_bids = bids\<rparr>)"

definition append_level :: "string \<Rightarrow> ExactChecksumLevel \<Rightarrow> string" where
  "append_level bytes level =
     append_checksum_decimal (append_checksum_decimal bytes (xl_price_text level)) (xl_quantity_text level)"

definition k2_computed :: "KrakenV2Checksum \<Rightarrow> 32 word" where
  "k2_computed c = ieee_crc32 (foldl append_level [] (k2_asks c @ k2_bids c))"

definition k2_matches_expected :: "KrakenV2Checksum \<Rightarrow> bool" where
  "k2_matches_expected c \<longleftrightarrow> k2_computed c = k2_expected c"

definition levels_match :: "ExactChecksumLevel list \<Rightarrow> (Price \<times> Quantity) list \<Rightarrow> bool" where
  "levels_match source levels \<longleftrightarrow>
     list_all (\<lambda>(s, (price, quantity)). xl_price s = price \<and> xl_quantity s = quantity) (zip source levels)"

definition k2_verify_book :: "KrakenV2Checksum \<Rightarrow> L2Book \<Rightarrow> (bool, BookError) result" where
  "k2_verify_book c book =
     (if length (k2_asks c) \<noteq> min (length (l2_asks book)) KRAKEN_CHECKSUM_DEPTH
         \<or> length (k2_bids c) \<noteq> min (length (l2_bids book)) KRAKEN_CHECKSUM_DEPTH
      then Err InvalidChecksumInput
      else if levels_match (k2_asks c) (top_asks book KRAKEN_CHECKSUM_DEPTH)
              \<and> levels_match (k2_bids c) (top_bids book KRAKEN_CHECKSUM_DEPTH)
      then Ok (k2_matches_expected c)
      else Err InvalidChecksumInput)"

subsection \<open>Level-three observations\<close>

record ExactL3ChecksumOrder =
  xo_order :: L3Order
  xo_price_text :: string
  xo_quantity_text :: string

definition exact_l3_new :: "L3Order \<Rightarrow> string \<Rightarrow> string \<Rightarrow> (ExactL3ChecksumOrder, BookError) result" where
  "exact_l3_new order price_text quantity_text =
     (if \<not> valid_decimal_text price_text \<or> \<not> valid_decimal_text quantity_text
      then Err InvalidChecksumInput
      else and_then (parse_price_text price_text) (\<lambda>price.
           and_then (parse_quantity_text quantity_text) (\<lambda>quantity.
           if price \<noteq> o_price order \<or> quantity \<noteq> o_quantity order \<or> is_zero quantity
           then Err InvalidChecksumInput
           else Ok \<lparr>xo_order = order, xo_price_text = price_text, xo_quantity_text = quantity_text\<rparr>)))"

record KrakenV2L3Checksum =
  k3_expected :: "32 word"
  k3_asks :: "ExactL3ChecksumOrder list"
  k3_bids :: "ExactL3ChecksumOrder list"

definition bt_set :: "('k \<Rightarrow> 'k \<Rightarrow> Ordering) \<Rightarrow> 'k list \<Rightarrow> ('k, unit) btree" where
  "bt_set cmp ks = bt_collect cmp [] (map (\<lambda>k. (k, ())) ks)"

definition valid_l3_checksum_side :: "ExactL3ChecksumOrder list \<Rightarrow> L3Side \<Rightarrow> bool" where
  "valid_l3_checksum_side orders side =
     (if list_ex (\<lambda>x. o_side (xo_order x) \<noteq> side) orders then False
      else if length (bt_set decimal_cmp (map (\<lambda>x. o_price (xo_order x)) orders)) > KRAKEN_CHECKSUM_DEPTH
      then False
      else windows_all (\<lambda>x y.
             let left = xo_order x; right = xo_order y;
                 prices_ordered = (case side of
                     Ask \<Rightarrow> decimal_cmp (o_price left) (o_price right) \<noteq> Greater
                   | Bid \<Rightarrow> decimal_cmp (o_price left) (o_price right) \<noteq> Less)
             in prices_ordered
                \<and> (o_price left \<noteq> o_price right \<or> prio_cmp (o_priority left) (o_priority right) = Less)) orders)"

definition k3_new :: "32 word \<Rightarrow> ExactL3ChecksumOrder list \<Rightarrow> ExactL3ChecksumOrder list \<Rightarrow>
    (KrakenV2L3Checksum, BookError) result" where
  "k3_new expected asks bids =
     (if asks = [] \<and> bids = [] \<or> \<not> valid_l3_checksum_side asks Ask \<or> \<not> valid_l3_checksum_side bids Bid
      then Err InvalidChecksumInput
      else if length (bt_set str_cmp (map (\<lambda>x. o_id (xo_order x)) (asks @ bids)))
              \<noteq> saturating_add u64_max (length asks) (length bids)
      then Err InvalidChecksumInput
      else Ok \<lparr>k3_expected = expected, k3_asks = asks, k3_bids = bids\<rparr>)"

definition append_order :: "string \<Rightarrow> ExactL3ChecksumOrder \<Rightarrow> string" where
  "append_order bytes x =
     append_checksum_decimal (append_checksum_decimal bytes (xo_price_text x)) (xo_quantity_text x)"

definition k3_computed :: "KrakenV2L3Checksum \<Rightarrow> 32 word" where
  "k3_computed c = ieee_crc32 (foldl append_order [] (k3_asks c @ k3_bids c))"

definition k3_matches_expected :: "KrakenV2L3Checksum \<Rightarrow> bool" where
  "k3_matches_expected c \<longleftrightarrow> k3_computed c = k3_expected c"

definition l3_orders_match :: "ExactL3ChecksumOrder list \<Rightarrow> L3Order list \<Rightarrow> bool" where
  "l3_orders_match exact actual \<longleftrightarrow>
     length exact = length actual \<and> list_all (\<lambda>(source, normalized). xo_order source = normalized) (zip exact actual)"

definition k3_verify_book :: "KrakenV2L3Checksum \<Rightarrow> L3Book \<Rightarrow> (bool, BookError) result" where
  "k3_verify_book c book =
     (if \<not> l3_orders_match (k3_asks c) (checksum_orders book Ask)
         \<or> \<not> l3_orders_match (k3_bids c) (checksum_orders book Bid)
      then Err InvalidChecksumInput
      else Ok (k3_matches_expected c))"

subsection \<open>One changed byte changes the checksum\<close>

lemma mask_bit: "(0::32 word) - (w AND 1) = (if bit w 0 then -1 else 0)"
  by (simp add: and_one_eq odd_iff_mod_2_eq_one bit_0)

lemma crc_step_eq: "crc_step w = drop_bit 1 w XOR (if bit w 0 then 0xedb88320 else 0)"
  unfolding crc_step_def Let_def mask_bit by simp

lemma crc_step_bit_31: "bit (crc_step w) 31 = bit w 0"
  unfolding crc_step_eq using bit_imp_le_length [of w 32] by (auto simp: bit_xor_iff bit_drop_bit_eq)

lemma xor_cancel: "(a :: 32 word) XOR p = b XOR p \<Longrightarrow> a = b"
proof -
  assume "a XOR p = b XOR p"
  then have "(a XOR p) XOR p = (b XOR p) XOR p" by (rule arg_cong)
  then show ?thesis by (simp only: xor.assoc xor_self_eq xor.right_neutral)
qed

lemma crc_step_inj: "crc_step v = crc_step w \<Longrightarrow> v = w"
proof -
  assume eq: "crc_step v = crc_step w"
  have low: "bit v 0 = bit w 0" using crc_step_bit_31 [of v] crc_step_bit_31 [of w] eq by simp
  let ?p = "if bit w 0 then 0xedb88320 else 0 :: 32 word"
  have "drop_bit 1 v XOR ?p = drop_bit 1 w XOR ?p" using eq low by (simp only: crc_step_eq)
  then have "drop_bit 1 v = drop_bit 1 w" by (rule xor_cancel)
  then have "bit (drop_bit 1 v) n = bit (drop_bit 1 w) n" for n by simp
  then have "bit v (Suc n) = bit w (Suc n)" for n by (simp add: bit_drop_bit_eq)
  then show ?thesis using low by (intro bit_eqI) (metis not0_implies_Suc)
qed

lemma crc_steps_inj: "(crc_step ^^ n) v = (crc_step ^^ n) w \<Longrightarrow> v = w"
  by (induction n) (auto dest: crc_step_inj)

lemma crc_byte_inj: "crc_byte v c = crc_byte w c \<Longrightarrow> v = w"
  unfolding crc_byte_def by (drule crc_steps_inj) (rule xor_cancel)

lemma crc_bytes_inj: "foldl crc_byte v bs = foldl crc_byte w bs \<Longrightarrow> v = w"
  by (induction bs arbitrary: v w) (auto dest: crc_byte_inj)

lemma of_char_word_inj: "(of_nat (of_char c) :: 32 word) = of_nat (of_char d) \<Longrightarrow> c = d"
proof -
  assume "(of_nat (of_char c) :: 32 word) = of_nat (of_char d)"
  then have "unat (of_nat (of_char c) :: 32 word) = unat (of_nat (of_char d) :: 32 word)" by simp
  moreover have "unat (of_nat (of_char x) :: 32 word) = of_char x" for x :: char
  proof -
    have "(of_char x :: nat) mod 256 < 256" by (intro mod_less_divisor) simp
    then have "(of_char x :: nat) < 256" by simp
    then have "(of_char x :: nat) < 4294967296" by linarith
    then show ?thesis by (simp add: unat_of_nat take_bit_eq_mod mod_less)
  qed
  ultimately have "(of_char c :: nat) = of_char d" by simp
  then show ?thesis by (simp add: of_char_eq_iff)
qed

lemma crc_byte_neq: "c \<noteq> d \<Longrightarrow> crc_byte v c \<noteq> crc_byte v d"
proof
  assume "c \<noteq> d" "crc_byte v c = crc_byte v d"
  then have "v XOR of_nat (of_char c) = v XOR (of_nat (of_char d) :: 32 word)"
    unfolding crc_byte_def by (blast dest: crc_steps_inj)
  then have "(of_nat (of_char c) :: 32 word) XOR v = of_nat (of_char d) XOR v" by (simp only: xor.commute)
  then have "(of_nat (of_char c) :: 32 word) = of_nat (of_char d)" by (rule xor_cancel)
  then show False using of_char_word_inj \<open>c \<noteq> d\<close> by blast
qed

subsection \<open>The bytes of a decimal\<close>

lemma append_nonzero_eq:
  "append_nonzero out w bs =
     (if w then (out @ bs, True)
      else (out @ dropWhile (\<lambda>c. c = CHR ''0'') bs, dropWhile (\<lambda>c. c = CHR ''0'') bs \<noteq> []))"
  by (induction out w bs rule: append_nonzero.induct) auto

lemma digits_value_drop_zeros: "digits_value (dropWhile (\<lambda>c. c = CHR ''0'') bs) = digits_value bs"
  by (induction bs) (auto simp: digits_value_Cons)

lemma drop_zeros_to_digits:
  assumes "all_digits bs"
  shows "(if dropWhile (\<lambda>c. c = CHR ''0'') bs = [] then ''0'' else dropWhile (\<lambda>c. c = CHR ''0'') bs)
    = to_digits (digits_value bs)"
proof (cases "dropWhile (\<lambda>c. c = CHR ''0'') bs = []")
  case True
  then have "digits_value bs = 0" using digits_value_drop_zeros [of bs] by (simp only: digits_value_Nil)
  then show ?thesis using True by simp
next
  case False
  let ?d = "dropWhile (\<lambda>c. c = CHR ''0'') bs"
  have "all_digits ?d" using assms by (auto simp: list_all_iff dest: set_dropWhileD)
  moreover have "hd ?d \<noteq> CHR ''0''" using hd_dropWhile [OF False] by simp
  ultimately have "to_digits (digits_value ?d) = ?d" using to_digits_digits_value False by blast
  then show ?thesis unfolding digits_value_drop_zeros if_not_P [OF False] by (rule sym)
qed

lemma append_checksum_digits:
  assumes "all_digits (filter (\<lambda>c. c \<noteq> CHR ''.'') v)"
  shows "append_checksum_decimal out v = out @ to_digits (digits_value (filter (\<lambda>c. c \<noteq> CHR ''.'') v))"
  unfolding drop_zeros_to_digits [OF assms, symmetric]
  by (cases "dropWhile (\<lambda>c. c = CHR ''0'') (filter (\<lambda>c. c \<noteq> CHR ''.'') v) = []")
    (simp_all only: append_checksum_decimal_def append_nonzero_eq if_False if_True Let_def prod.case
      append_Nil2 simp_thms)

lemma join_filter:
  "all_digits w \<Longrightarrow> all_digits f \<Longrightarrow> filter (\<lambda>c. c \<noteq> CHR ''.'') (join_decimal w f) = w @ f"
proof -
  assume "all_digits w" "all_digits f"
  then have "\<forall>c \<in> set w \<union> set f. c \<noteq> CHR ''.''" by (auto simp: list_all_iff is_ascii_digit_def)
  then have "filter (\<lambda>c. c \<noteq> CHR ''.'') w = w" "filter (\<lambda>c. c \<noteq> CHR ''.'') f = f"
    by (simp_all add: filter_id_conv)
  then show ?thesis by (simp add: join_decimal_def)
qed

lemma parse_digits:
  assumes "decimal_parse text = Ok d" "\<not> starts_with text (CHR ''-'')"
  shows "all_digits (filter (\<lambda>c. c \<noteq> CHR ''.'') text)"
proof -
  have "strip_minus text = (False, text)"
    using assms(2) by (auto simp: strip_minus_def starts_with_def split: list.splits)
  then obtain w f where "split_decimal text = Ok (w, f)"
    using assms(1) by (auto simp: decimal_parse_def result_simps)
  then have "all_digits w" "all_digits f" "text = join_decimal w f" by (simp_all add: split_decimal_Ok_iff)
  then show ?thesis using join_filter by simp
qed

lemma exact_level_digits:
  assumes "exact_level_new pt qt = Ok l"
  shows "xl_price_text l = pt" "xl_quantity_text l = qt"
    "all_digits (filter (\<lambda>c. c \<noteq> CHR ''.'') pt)" "all_digits (filter (\<lambda>c. c \<noteq> CHR ''.'') qt)"
proof -
  have v: "valid_decimal_text pt" "valid_decimal_text qt" "xl_price_text l = pt" "xl_quantity_text l = qt"
    and p: "\<exists>d. parse_price_text pt = Ok d" "\<exists>d. parse_quantity_text qt = Ok d"
    using assms by (auto simp: exact_level_new_def result_simps split: if_splits)
  have ok: "map_err r f = Ok x \<longleftrightarrow> r = Ok x" for r :: "('a, 'b) result" and f :: "'b \<Rightarrow> 'c" and x
    by (cases r) simp_all
  obtain d e where "decimal_parse pt = Ok d" "decimal_parse qt = Ok e"
    using p by (auto simp: parse_price_text_def parse_quantity_text_def result_simps ok)
  then show "all_digits (filter (\<lambda>c. c \<noteq> CHR ''.'') pt)" "all_digits (filter (\<lambda>c. c \<noteq> CHR ''.'') qt)"
    using parse_digits v(1,2) by (auto simp: valid_decimal_text_def)
  show "xl_price_text l = pt" "xl_quantity_text l = qt" using v by simp_all
qed

text \<open>
  An accepted observation describes the book: it has exactly the book's best levels of both sides,
  to ten levels, price by price and quantity by quantity, and the outcome of the comparison is
  whether the CRC-32 of the source texts is the expected one.
\<close>

lemma verified_checksum_describes_book:
  assumes "k2_verify_book c book = Ok valid"
  shows "map (\<lambda>l. (xl_price l, xl_quantity l)) (k2_asks c) = top_asks book KRAKEN_CHECKSUM_DEPTH
    \<and> map (\<lambda>l. (xl_price l, xl_quantity l)) (k2_bids c) = top_bids book KRAKEN_CHECKSUM_DEPTH
    \<and> (valid \<longleftrightarrow> ieee_crc32 (foldl append_level [] (k2_asks c @ k2_bids c)) = k2_expected c)"
proof -
  have match: "map (\<lambda>l. (xl_price l, xl_quantity l)) xs = ys"
    if "length xs = length ys" "levels_match xs ys" for xs :: "ExactChecksumLevel list" and ys
    using that by (induction xs ys rule: list_induct2) (auto simp: levels_match_def)
  have "length (k2_asks c) = length (top_asks book KRAKEN_CHECKSUM_DEPTH)"
    "length (k2_bids c) = length (top_bids book KRAKEN_CHECKSUM_DEPTH)"
    using assms by (auto simp: k2_verify_book_def top_asks_def top_bids_def min.commute split: if_splits)
  then show ?thesis
    using assms match by (auto simp: k2_verify_book_def k2_matches_expected_def k2_computed_def split: if_splits)
qed

subsection \<open>Properties\<close>

text \<open>
  C38. The checksum detects every single corrupted byte: two byte strings that differ in exactly
  one position never have the same CRC-32, whatever surrounds that position.
\<close>

theorem crc32_detects_byte:
  assumes "c \<noteq> d"
  shows "ieee_crc32 (xs @ c # ys) \<noteq> ieee_crc32 (xs @ d # ys)"
proof
  assume "ieee_crc32 (xs @ c # ys) = ieee_crc32 (xs @ d # ys)"
  then have "NOT (NOT (foldl crc_byte (-1) (xs @ c # ys))) = NOT (NOT (foldl crc_byte (-1) (xs @ d # ys)))"
    by (simp only: ieee_crc32_def)
  then have "crc_byte (foldl crc_byte (-1) xs) c = crc_byte (foldl crc_byte (-1) xs) d"
    by (auto dest: crc_bytes_inj)
  then show False using crc_byte_neq [OF assms] by blast
qed

theorem crc32_detects_byte_witness:
  "ieee_crc32 ''4528551'' \<noteq> ieee_crc32 ''4528541''"
  using crc32_detects_byte [of "CHR ''5''" "CHR ''4''" "''45285''" "''1''"] by simp

text \<open>
  The checksum input of an accepted level is the numeral of its price followed by the numeral
  of its quantity, both read without the decimal point: leading zeros never reach the checksum.
\<close>

theorem checksum_bytes_of_level:
  assumes "exact_level_new pt qt = Ok l"
  shows "append_level bytes l = bytes
    @ to_digits (digits_value (filter (\<lambda>c. c \<noteq> CHR ''.'') pt))
    @ to_digits (digits_value (filter (\<lambda>c. c \<noteq> CHR ''.'') qt))"
  using exact_level_digits [OF assms] by (simp add: append_level_def append_checksum_digits)

lemmas exact_level_eval = exact_level_new_def valid_decimal_text_def MAX_DECIMAL_TEXT_BYTES_def trim_def
  is_ascii_def is_ascii_digit_def is_ascii_whitespace_def starts_with_def parse_price_text_def
  parse_quantity_text_def decimal_parse_def strip_minus_def split_decimal_def parse_magnitude_def
  parse_u128_def signed_magnitude_def decimal_new_def MAX_SCALE_def u32_max_def u128_max_def
  price_new_def quantity_new_def decimal_wrapper_new_def is_positive_def is_negative_def
  checked_i128_def in_i128_def i128_min_def i128_max_def digits_value_def is_zero_def
  canonicalized_def canonicalized_loop.simps trunc_mod_def trunc_div_def and_then_simps

theorem checksum_bytes_of_level_witness:
  "append_level [] \<lparr>xl_price_text = ''0.50'', xl_quantity_text = ''2.0'',
      xl_price = \<lparr>mantissa = 5, scale = 1\<rparr>, xl_quantity = \<lparr>mantissa = 2, scale = 0\<rparr>\<rparr> =
   to_digits 50 @ to_digits 20"
proof -
  have "exact_level_new ''0.50'' ''2.0'' = Ok \<lparr>xl_price_text = ''0.50'', xl_quantity_text = ''2.0'',
      xl_price = \<lparr>mantissa = 5, scale = 1\<rparr>, xl_quantity = \<lparr>mantissa = 2, scale = 0\<rparr>\<rparr>"
    by (simp add: exact_level_eval Let_def)
  from checksum_bytes_of_level [OF this, of "[]"] show ?thesis by (simp add: digits_value_def)
qed

end
