(* ===== verification/Order_Book_Engine.thy ===== *)
theory Order_Book_Engine
  imports Checksum
begin

text \<open>
  The engine of the order-book crate (\<open>orderbook/src/lib.rs\<close>): one instrument's book with its
  session, its buffer of early deltas and its quality evidence. A method that takes
  \<open>&mut self\<close> is a function from the engine to the engine it leaves and the \<open>Result\<close> it returns,
  so that what a method leaves behind on an error is part of the model; \<open>and_do\<close> is the question
  mark of such methods. The theory shows the invariant of every reachable engine, what each
  transition does to the book, when the book can be read and how trust comes back.
\<close>

subsection \<open>Methods with mutable state\<close>

type_synonym ('s, 'a, 'e) call = "'s \<Rightarrow> 's \<times> ('a, 'e) result"

definition and_do :: "('s, 'a, 'e) call \<Rightarrow> ('a \<Rightarrow> ('s, 'b, 'e) call) \<Rightarrow> ('s, 'b, 'e) call" where
  "and_do m k s = (case m s of (s', Inl e) \<Rightarrow> (s', Inl e) | (s', Inr v) \<Rightarrow> k v s')"

text \<open>A method that only reads the state.\<close>

definition reading :: "('s \<Rightarrow> ('a, 'e) result) \<Rightarrow> ('s, 'a, 'e) call" where
  "reading f s = (s, f s)"

lemma and_do_reading:
  "and_do (reading f) k s = (case f s of Inl e \<Rightarrow> (s, Inl e) | Inr v \<Rightarrow> k v s)"
  by (simp add: and_do_def reading_def split: sum.splits)

subsection \<open>State\<close>

record BufferedDelta =
  bd_delta :: BookDelta
  bd_session :: BookSession
  bd_now_monotonic_ns :: nat
  bd_checksum :: "KrakenV2Checksum option"
  bd_previous_final_sequence :: "nat option"

record OrderBookEngine =
  en_config :: BookConfig
  en_state :: BookState
  en_session :: "BookSession option"
  en_strategy :: "SnapshotStrategy option"
  en_book :: "L2Book option"
  en_l3 :: "L3Book option"
  en_buffered :: "BufferedDelta list"
  en_buffered_level_updates :: nat
  en_updated_monotonic_ns :: nat
  en_last_observed_monotonic_ns :: nat
  en_checksum_status :: ChecksumStatus
  en_l3_checksum_status :: ChecksumStatus
  en_resync_count :: HourlyCounter
  en_missing_sequence_count :: HourlyCounter
  en_checksum_failure_count :: HourlyCounter
  en_crossed_state_count :: HourlyCounter
  en_source_latency :: LatencyWindow
  en_resync_in_progress :: bool

text \<open>The two \<open>match\<close> expressions that \<open>new\<close>, \<open>start_session\<close>, \<open>disconnect\<close> and \<open>begin_resync\<close> repeat.\<close>

definition fresh_checksum_status :: "BookConfig \<Rightarrow> ChecksumStatus" where
  "fresh_checksum_status config =
     (case checksum_policy config of Disabled \<Rightarrow> NotSupported | Required \<Rightarrow> Pending)"

definition fresh_l3_checksum_status :: "BookConfig \<Rightarrow> ChecksumStatus" where
  "fresh_l3_checksum_status config = (if max_l3_orders config \<noteq> None then Pending else NotSupported)"

definition engine_new :: "BookConfig \<Rightarrow> (OrderBookEngine, BookError) result" where
  "engine_new config =
     (if \<not> config_validate config then Err InvalidConfig
      else Ok \<lparr>en_config = config, en_state = Disconnected, en_session = None, en_strategy = None,
               en_book = None, en_l3 = None, en_buffered = [], en_buffered_level_updates = 0,
               en_updated_monotonic_ns = 0, en_last_observed_monotonic_ns = 0,
               en_checksum_status = fresh_checksum_status config,
               en_l3_checksum_status = fresh_l3_checksum_status config,
               en_resync_count = [], en_missing_sequence_count = [],
               en_checksum_failure_count = [], en_crossed_state_count = [],
               en_source_latency = [], en_resync_in_progress = False\<rparr>)"

definition delta_level_updates :: "BookDelta \<Rightarrow> nat" where
  "delta_level_updates delta =
     saturating_add u64_max (length (delta_bids delta)) (length (delta_asks delta))"

definition invalidate :: "OrderBookEngine \<Rightarrow> OrderBookEngine" where
  "invalidate e = e\<lparr>en_state := BookState.Untrusted, en_buffered := [], en_buffered_level_updates := 0\<rparr>"

subsection \<open>Sessions and time\<close>

abbreviation config_generation :: "BookConfig \<Rightarrow> nat" where
  "config_generation config \<equiv> iid_generation (instrument config)"

definition validate_new_session :: "BookSession \<Rightarrow> OrderBookEngine \<Rightarrow> (unit, BookError) result" where
  "validate_new_session session e =
     (if \<not> session_is_valid session then Err InvalidEpoch
      else if instrument_generation session \<noteq> config_generation (en_config e)
      then Err StaleInstrumentGeneration
      else if (case en_session e of None \<Rightarrow> False | Some previous \<Rightarrow> \<not> is_strictly_after session previous)
      then Err InvalidEpoch
      else Ok ())"

definition validate_current_session :: "BookSession \<Rightarrow> OrderBookEngine \<Rightarrow> (unit, BookError) result" where
  "validate_current_session session e =
     (if \<not> session_is_valid session then Err InvalidEpoch
      else if instrument_generation session \<noteq> config_generation (en_config e)
      then Err StaleInstrumentGeneration
      else if en_session e \<noteq> Some session then Err InvalidEpoch
      else Ok ())"

definition observe_update_time :: "nat \<Rightarrow> (OrderBookEngine, unit, BookError) call" where
  "observe_update_time now e =
     (if now < en_last_observed_monotonic_ns e then (e, Err MonotonicTimeRegression)
      else (e\<lparr>en_last_observed_monotonic_ns := now\<rparr>, Ok ()))"

definition start_session :: "BookSession \<Rightarrow> SnapshotStrategy \<Rightarrow> (OrderBookEngine, unit, BookError) call" where
  "start_session session strategy =
     and_do (reading (validate_new_session session)) (\<lambda>_ e.
       let replacing_session = en_session e \<noteq> None
       in (e\<lparr>en_session := Some session, en_strategy := Some strategy, en_book := None, en_l3 := None,
             en_buffered := [], en_buffered_level_updates := 0, en_updated_monotonic_ns := 0,
             en_resync_in_progress := replacing_session,
             en_checksum_status := fresh_checksum_status (en_config e),
             en_l3_checksum_status := fresh_l3_checksum_status (en_config e),
             en_state := (case strategy of ExternalBuffered \<Rightarrow> Buffering
                          | StreamSnapshot \<Rightarrow> AwaitingSnapshot)\<rparr>, Ok ()))"

definition disconnect :: "OrderBookEngine \<Rightarrow> OrderBookEngine" where
  "disconnect e =
     e\<lparr>en_state := Disconnected, en_strategy := None, en_book := None, en_l3 := None,
       en_buffered := [], en_buffered_level_updates := 0, en_updated_monotonic_ns := 0,
       en_resync_in_progress := False,
       en_checksum_status := fresh_checksum_status (en_config e),
       en_l3_checksum_status := fresh_l3_checksum_status (en_config e)\<rparr>"

definition begin_resync :: "(OrderBookEngine, unit, BookError) call" where
  "begin_resync e =
     (if en_strategy e \<noteq> Some ExternalBuffered \<or> en_state e \<noteq> BookState.Untrusted
      then (e, Err InvalidTransition)
      else (e\<lparr>en_book := None, en_l3 := None, en_buffered := [], en_buffered_level_updates := 0,
              en_updated_monotonic_ns := 0,
              en_checksum_status := fresh_checksum_status (en_config e),
              en_l3_checksum_status := fresh_l3_checksum_status (en_config e),
              en_resync_in_progress := True, en_state := Buffering\<rparr>, Ok ()))"

subsection \<open>Sequence and checksum decisions\<close>

definition range_contains_next :: "BookDelta \<Rightarrow> nat \<Rightarrow> bool" where
  "range_contains_next delta expected \<longleftrightarrow>
     delta_first_sequence delta \<le> expected \<and> expected \<le> delta_last_sequence delta"

definition sequence_applies :: "BookDelta \<Rightarrow> nat \<Rightarrow> bool \<Rightarrow> nat option \<Rightarrow>
    (OrderBookEngine, bool, BookError) call" where
  "sequence_applies delta current first_replayed previous_final_sequence e =
     (if sequence_policy (en_config e) = PreviousFinal \<and> \<not> first_replayed
      then (e, Ok (previous_final_sequence = Some current))
      else case checked_add u64_max current 1 of
             None \<Rightarrow> (invalidate e, Err SequenceOverflow)
           | Some expected \<Rightarrow>
               (e, Ok (case sequence_policy (en_config e) of
                         ExactNext \<Rightarrow> delta_first_sequence delta = expected
                       | RangeContainsNext \<Rightarrow> range_contains_next delta expected
                       | PreviousFinal \<Rightarrow> range_contains_next delta expected)))"

definition install_trusted :: "L2Book \<Rightarrow> nat \<Rightarrow> OrderBookEngine \<Rightarrow> OrderBookEngine" where
  "install_trusted book now e =
     (let e1 = (if l2_classification book = Crossed
                then e\<lparr>en_crossed_state_count := counter_record (en_crossed_state_count e) now\<rparr> else e)
      in e1\<lparr>en_book := Some book, en_l3 := None,
            en_l3_checksum_status := fresh_l3_checksum_status (en_config e1),
            en_updated_monotonic_ns := now, en_resync_in_progress := False,
            en_state := Synchronized\<rparr>)"

definition checksum_failed :: "nat \<Rightarrow> OrderBookEngine \<Rightarrow> OrderBookEngine" where
  "checksum_failed now e =
     invalidate (e\<lparr>en_checksum_status := Mismatch,
       en_checksum_failure_count := counter_record (en_checksum_failure_count e) now\<rparr>)"

definition validate_checksum :: "L2Book \<Rightarrow> KrakenV2Checksum option \<Rightarrow> nat \<Rightarrow>
    (OrderBookEngine, bool, BookError) call" where
  "validate_checksum candidate checksum now e =
     (case checksum of
        None \<Rightarrow>
          if checksum_policy (en_config e) = Required then (invalidate e, Err ChecksumRequired)
          else (e\<lparr>en_checksum_status := NotSupported\<rparr>, Ok True)
      | Some c \<Rightarrow>
          (case k2_verify_book c candidate of
             Inr True \<Rightarrow> (e\<lparr>en_checksum_status := Valid\<rparr>, Ok True)
           | Inr False \<Rightarrow> (checksum_failed now e, Ok False)
           | Inl error \<Rightarrow> (checksum_failed now e, Err error)))"

definition l3_checksum_failed :: "nat \<Rightarrow> OrderBookEngine \<Rightarrow> OrderBookEngine" where
  "l3_checksum_failed now e =
     e\<lparr>en_l3_checksum_status := Mismatch,
       en_checksum_failure_count := counter_record (en_checksum_failure_count e) now,
       en_l3 := None\<rparr>"

definition validate_l3_checksum :: "L3Book \<Rightarrow> KrakenV2L3Checksum \<Rightarrow> nat \<Rightarrow>
    (OrderBookEngine, bool, BookError) call" where
  "validate_l3_checksum candidate checksum now e =
     (case k3_verify_book checksum candidate of
        Inr True \<Rightarrow> (e\<lparr>en_l3_checksum_status := Valid\<rparr>, Ok True)
      | Inr False \<Rightarrow> (l3_checksum_failed now e, Ok False)
      | Inl error \<Rightarrow> (l3_checksum_failed now e, Err error))"

definition combined_checksum_status :: "OrderBookEngine \<Rightarrow> ChecksumStatus" where
  "combined_checksum_status e =
     (let a = en_checksum_status e; b = en_l3_checksum_status e
      in if a = Mismatch \<or> b = Mismatch then Mismatch
         else if a = Pending \<or> b = Pending then Pending
         else if a = Valid \<or> b = Valid then Valid
         else NotSupported)"

subsection \<open>Snapshots and deltas\<close>

definition record_latency :: "nat \<Rightarrow> nat option \<Rightarrow> OrderBookEngine \<Rightarrow> OrderBookEngine" where
  "record_latency now latency e =
     (case latency of None \<Rightarrow> e
      | Some ms \<Rightarrow> e\<lparr>en_source_latency := latency_record (en_source_latency e) now ms\<rparr>)"

definition record_resync :: "bool \<Rightarrow> nat \<Rightarrow> OrderBookEngine \<Rightarrow> OrderBookEngine" where
  "record_resync recovering now e =
     (if recovering then e\<lparr>en_resync_count := counter_record (en_resync_count e) now\<rparr> else e)"

definition pop_buffered :: "BufferedDelta \<Rightarrow> BufferedDelta list \<Rightarrow> OrderBookEngine \<Rightarrow> OrderBookEngine" where
  "pop_buffered buffered rest e =
     e\<lparr>en_buffered := rest, en_buffered_level_updates :=
         saturating_sub (en_buffered_level_updates e) (delta_level_updates (bd_delta buffered))\<rparr>"

text \<open>
  The replay of the buffered deltas on a candidate book: the loop of \<open>apply_snapshot_candidate\<close>
  with what follows it. The last argument is the buffer that is left.
\<close>

fun replay :: "BookSession \<Rightarrow> bool \<Rightarrow> L2Book \<Rightarrow> nat \<Rightarrow> bool \<Rightarrow> BufferedDelta list \<Rightarrow>
    (OrderBookEngine, ApplyResult, BookError) call" where
  "replay session recovering candidate latest_update first_replayed [] e =
     (record_resync recovering latest_update (install_trusted candidate latest_update e), Ok Applied)"
| "replay session recovering candidate latest_update first_replayed (buffered # rest) e0 =
     (let e = pop_buffered buffered rest e0
      in if bd_session buffered \<noteq> session then (invalidate e, Err InvalidEpoch)
         else if delta_last_sequence (bd_delta buffered) \<le> l2_sequence candidate
         then replay session recovering candidate latest_update first_replayed rest e
         else and_do (sequence_applies (bd_delta buffered) (l2_sequence candidate) first_replayed
                        (bd_previous_final_sequence buffered)) (\<lambda>applies e.
           if \<not> applies
           then (invalidate (e\<lparr>en_missing_sequence_count :=
                   counter_record (en_missing_sequence_count e) (bd_now_monotonic_ns buffered)\<rparr>),
                 Ok GapDetected)
           else case l2_apply_delta candidate (bd_delta buffered) (en_config e) of
                  Inl error \<Rightarrow> (invalidate e, Err error)
                | Inr candidate' \<Rightarrow>
                    and_do (validate_checksum candidate' (bd_checksum buffered)
                              (bd_now_monotonic_ns buffered)) (\<lambda>valid e.
                      if \<not> valid then (e, Ok ApplyResult.ChecksumMismatch)
                      else replay session recovering candidate'
                             (max latest_update (bd_now_monotonic_ns buffered)) False rest e) e) e)"

definition apply_snapshot_candidate :: "BookSnapshot \<Rightarrow> BookSession \<Rightarrow> nat \<Rightarrow> KrakenV2Checksum option \<Rightarrow>
    nat option \<Rightarrow> (OrderBookEngine, ApplyResult, BookError) call" where
  "apply_snapshot_candidate snapshot session now checksum source_latency_ms =
     and_do (reading (validate_current_session session)) (\<lambda>_.
     and_do (observe_update_time now) (\<lambda>_ e0.
       let e = record_latency now source_latency_ms e0
       in if en_state e = Disconnected then (e, Err Untrusted)
          else case en_strategy e of
                 None \<Rightarrow> (e, Err InvalidTransition)
               | Some strategy \<Rightarrow>
          if strategy = ExternalBuffered \<and> en_state e = BookState.Untrusted then (e, Err InvalidTransition)
          else if strategy = ExternalBuffered \<and> en_state e = Synchronized then (e, Err InvalidTransition)
          else
            let recovering = en_state e = BookState.Untrusted \<or> en_resync_in_progress e
            in case l2_from_snapshot snapshot (en_config e) of
                 Inl error \<Rightarrow> (invalidate e, Err error)
               | Inr candidate \<Rightarrow>
                   and_do (validate_checksum candidate checksum now) (\<lambda>valid e.
                     if \<not> valid then (e, Ok ApplyResult.ChecksumMismatch)
                     else if strategy = StreamSnapshot
                     then (record_resync recovering now (install_trusted candidate now
                             (e\<lparr>en_buffered := [], en_buffered_level_updates := 0\<rparr>)), Ok Applied)
                     else replay session recovering candidate now True (en_buffered e)
                            (e\<lparr>en_state := Replaying\<rparr>)) e))"

definition buffer_delta :: "BookDelta \<Rightarrow> BookSession \<Rightarrow> nat \<Rightarrow> KrakenV2Checksum option \<Rightarrow> nat option \<Rightarrow>
    (OrderBookEngine, ApplyResult, BookError) call" where
  "buffer_delta delta session now checksum previous_final_sequence e =
     (case checked_add u64_max (en_buffered_level_updates e) (delta_level_updates delta) of
        None \<Rightarrow> (invalidate e, Err BufferCapacity)
      | Some updates \<Rightarrow>
          if length (en_buffered e) \<ge> max_buffered_deltas (en_config e)
             \<or> updates > max_buffered_level_updates (en_config e)
          then (invalidate e, Err BufferCapacity)
          else (e\<lparr>en_buffered := en_buffered e @
                    [\<lparr>bd_delta = delta, bd_session = session, bd_now_monotonic_ns = now,
                      bd_checksum = checksum, bd_previous_final_sequence = previous_final_sequence\<rparr>],
                  en_buffered_level_updates := updates\<rparr>, Ok ApplyResult.SnapshotRequired))"

definition advance_book :: "BookDelta \<Rightarrow> nat \<Rightarrow> KrakenV2Checksum option \<Rightarrow> nat option \<Rightarrow>
    (OrderBookEngine, ApplyResult, BookError) call" where
  "advance_book delta now checksum previous_final_sequence e0 =
     (case en_book e0 of
        None \<Rightarrow> (e0, Err Untrusted)
      | Some book \<Rightarrow>
          if delta_last_sequence delta \<le> l2_sequence book then (e0, Ok Duplicate)
          else and_do (sequence_applies delta (l2_sequence book) False previous_final_sequence) (\<lambda>applies e.
            if \<not> applies
            then (invalidate (e\<lparr>en_missing_sequence_count :=
                    counter_record (en_missing_sequence_count e) now\<rparr>), Ok GapDetected)
            else let e = e\<lparr>en_book := None\<rparr>
                 in case l2_apply_delta book delta (en_config e) of
                      Inl error \<Rightarrow> (invalidate e, Err error)
                    | Inr candidate \<Rightarrow>
                        and_do (validate_checksum candidate checksum now) (\<lambda>valid e.
                          if \<not> valid then (e\<lparr>en_book := Some candidate\<rparr>, Ok ApplyResult.ChecksumMismatch)
                          else (install_trusted candidate now e, Ok Applied)) e) e0)"

definition apply_delta_candidate :: "BookDelta \<Rightarrow> BookSession \<Rightarrow> nat \<Rightarrow> KrakenV2Checksum option \<Rightarrow>
    nat option \<Rightarrow> nat option \<Rightarrow> (OrderBookEngine, ApplyResult, BookError) call" where
  "apply_delta_candidate delta session now checksum previous_final_sequence source_latency_ms =
     and_do (reading (validate_current_session session)) (\<lambda>_.
     and_do (observe_update_time now) (\<lambda>_ e0.
       let e = record_latency now source_latency_ms e0
       in if checksum_policy (en_config e) = Required \<and> checksum = None
          then (invalidate e, Err ChecksumRequired)
          else if delta_first_sequence delta = 0 \<or> delta_last_sequence delta = 0
                  \<or> delta_first_sequence delta > delta_last_sequence delta
          then (invalidate e, Err InvalidSequence)
          else case l2_validate_delta delta (en_config e) of
                 Inl error \<Rightarrow> (invalidate e, Err error)
               | Inr _ \<Rightarrow>
                   (case en_state e of
                      Buffering \<Rightarrow> buffer_delta delta session now checksum previous_final_sequence e
                    | AwaitingSnapshot \<Rightarrow> buffer_delta delta session now checksum previous_final_sequence e
                    | Synchronized \<Rightarrow> advance_book delta now checksum previous_final_sequence e
                    | Disconnected \<Rightarrow> (e, Ok ApplyResult.SnapshotRequired)
                    | Replaying \<Rightarrow> (e, Ok ApplyResult.SnapshotRequired)
                    | BookState.Untrusted \<Rightarrow> (e, Ok ApplyResult.SnapshotRequired))))"

definition apply_snapshot :: "BookSnapshot \<Rightarrow> BookSession \<Rightarrow> nat \<Rightarrow>
    (OrderBookEngine, ApplyResult, BookError) call" where
  "apply_snapshot snapshot session now = apply_snapshot_candidate snapshot session now None None"

definition apply_snapshot_checked :: "BookSnapshot \<Rightarrow> BookSession \<Rightarrow> nat \<Rightarrow> nat \<Rightarrow> KrakenV2Checksum \<Rightarrow>
    (OrderBookEngine, ApplyResult, BookError) call" where
  "apply_snapshot_checked snapshot session now source_latency_ms checksum =
     apply_snapshot_candidate snapshot session now (Some checksum) (Some source_latency_ms)"

definition apply_delta :: "BookDelta \<Rightarrow> BookSession \<Rightarrow> nat \<Rightarrow>
    (OrderBookEngine, ApplyResult, BookError) call" where
  "apply_delta delta session now = apply_delta_candidate delta session now None None None"

definition apply_delta_with_previous :: "BookDelta \<Rightarrow> BookSession \<Rightarrow> nat \<Rightarrow> nat \<Rightarrow>
    (OrderBookEngine, ApplyResult, BookError) call" where
  "apply_delta_with_previous delta session now previous_final_sequence =
     apply_delta_candidate delta session now None (Some previous_final_sequence) None"

definition apply_delta_checked :: "BookDelta \<Rightarrow> BookSession \<Rightarrow> nat \<Rightarrow> nat \<Rightarrow> KrakenV2Checksum \<Rightarrow>
    (OrderBookEngine, ApplyResult, BookError) call" where
  "apply_delta_checked delta session now source_latency_ms checksum =
     apply_delta_candidate delta session now (Some checksum) None (Some source_latency_ms)"

definition apply_delta_checked_with_previous :: "BookDelta \<Rightarrow> BookSession \<Rightarrow> nat \<Rightarrow> nat \<Rightarrow>
    KrakenV2Checksum \<Rightarrow> nat \<Rightarrow> (OrderBookEngine, ApplyResult, BookError) call" where
  "apply_delta_checked_with_previous delta session now source_latency_ms checksum previous_final_sequence =
     apply_delta_candidate delta session now (Some checksum) (Some previous_final_sequence)
       (Some source_latency_ms)"

subsection \<open>Level-three updates\<close>

definition l3_unchecked :: "BookSession \<Rightarrow> nat \<Rightarrow> (OrderBookEngine, ApplyResult, BookError) call" where
  "l3_unchecked session now =
     and_do (reading (validate_current_session session)) (\<lambda>_.
     and_do (observe_update_time now) (\<lambda>_ e.
       if en_state e \<noteq> Synchronized then (e, Err Untrusted)
       else if max_l3_orders (en_config e) = None then (e, Err L3Disabled)
       else (e\<lparr>en_l3 := None, en_l3_checksum_status := Pending\<rparr>, Err ChecksumRequired)))"

text \<open>The unchecked entry points ignore the orders and events they are given.\<close>

definition apply_l3_snapshot :: "L3Order list \<Rightarrow> BookSession \<Rightarrow> nat \<Rightarrow>
    (OrderBookEngine, ApplyResult, BookError) call" where
  "apply_l3_snapshot orders session now = l3_unchecked session now"

definition apply_l3_events :: "L3Event list \<Rightarrow> BookSession \<Rightarrow> nat \<Rightarrow>
    (OrderBookEngine, ApplyResult, BookError) call" where
  "apply_l3_events events session now = l3_unchecked session now"

definition apply_l3_snapshot_checked :: "L3Order list \<Rightarrow> BookSession \<Rightarrow> nat \<Rightarrow> nat \<Rightarrow> KrakenV2L3Checksum \<Rightarrow>
    (OrderBookEngine, ApplyResult, BookError) call" where
  "apply_l3_snapshot_checked orders session now source_latency_ms checksum =
     and_do (reading (validate_current_session session)) (\<lambda>_.
     and_do (observe_update_time now) (\<lambda>_ e0.
       let e = record_latency now (Some source_latency_ms) e0
       in if en_state e \<noteq> Synchronized then (e, Err Untrusted)
          else case l3_from_snapshot orders (en_config e) of
                 Inl error \<Rightarrow> (l3_checksum_failed now e, Err error)
               | Inr candidate \<Rightarrow>
                   and_do (validate_l3_checksum candidate checksum now) (\<lambda>valid e.
                     if \<not> valid then (e, Ok ApplyResult.ChecksumMismatch)
                     else (e\<lparr>en_l3 := Some candidate, en_updated_monotonic_ns := now\<rparr>, Ok Applied)) e))"

definition apply_l3_events_checked :: "L3Event list \<Rightarrow> BookSession \<Rightarrow> nat \<Rightarrow> nat \<Rightarrow> KrakenV2L3Checksum \<Rightarrow>
    (OrderBookEngine, ApplyResult, BookError) call" where
  "apply_l3_events_checked events session now source_latency_ms checksum =
     and_do (reading (validate_current_session session)) (\<lambda>_.
     and_do (observe_update_time now) (\<lambda>_ e0.
       let e = record_latency now (Some source_latency_ms) e0
       in if en_state e \<noteq> Synchronized then (e, Err Untrusted)
          else case en_l3 e of
                 None \<Rightarrow> (e, Err L3SnapshotRequired)
               | Some book \<Rightarrow>
                   let e = e\<lparr>en_l3 := None\<rparr>
                   in case l3_apply book events (en_config e) of
                        Inl error \<Rightarrow> (l3_checksum_failed now e, Err error)
                      | Inr book' \<Rightarrow>
                          and_do (validate_l3_checksum book' checksum now) (\<lambda>valid e.
                            if \<not> valid then (e, Ok ApplyResult.ChecksumMismatch)
                            else (e\<lparr>en_l3 := Some book', en_updated_monotonic_ns := now\<rparr>, Ok Applied)) e))"

subsection \<open>The published view\<close>

record BookSnapshotView =
  vw_instrument :: InstrumentId
  vw_price_tick :: Price
  vw_quantity_step :: Quantity
  vw_bids :: "BookLevel list"
  vw_asks :: "BookLevel list"
  vw_last_source_sequence :: nat
  vw_session :: BookSession
  vw_classification :: BookClassification
  vw_updated_monotonic_ns :: nat
  vw_quality :: BookQuality
  vw_l3_orders :: "L3Order list"

definition view_new :: "BookConfig \<Rightarrow> L2Book \<Rightarrow> BookSession \<Rightarrow> nat \<Rightarrow> BookQuality \<Rightarrow> L3Order list \<Rightarrow>
    BookSnapshotView" where
  "view_new config book session updated quality orders =
     \<lparr>vw_instrument = instrument config, vw_price_tick = price_tick config,
      vw_quantity_step = quantity_step config, vw_bids = bids_descending book,
      vw_asks = asks_ascending book, vw_last_source_sequence = l2_sequence book,
      vw_session = session, vw_classification = l2_classification book,
      vw_updated_monotonic_ns = updated, vw_quality = quality, vw_l3_orders = orders\<rparr>"

definition snapshot_at :: "nat \<Rightarrow> OrderBookEngine \<Rightarrow> (BookSnapshotView, BookError) result" where
  "snapshot_at now e =
     (if en_state e \<noteq> Synchronized then Err Untrusted
      else if now < en_updated_monotonic_ns e then Err MonotonicTimeRegression
      else and_then (ok_or (en_book e) Untrusted) (\<lambda>book.
           and_then (ok_or (en_session e) Untrusted) (\<lambda>session.
             let quality = quality_score (en_state e) (l2_sequence book)
                   (saturating_sub now (en_updated_monotonic_ns e) div 1000000)
                   (combined_checksum_status e)
                   (counter_count (en_resync_count e) now)
                   (counter_count (en_missing_sequence_count e) now)
                   (counter_count (en_checksum_failure_count e) now)
                   (counter_count (en_crossed_state_count e) now)
                   (latency_percentiles (en_source_latency e) now) (l2_levels book)
             in Ok (view_new (en_config e) book session (en_updated_monotonic_ns e) quality
                  (case en_l3 e of None \<Rightarrow> [] | Some l3 \<Rightarrow> sorted_orders l3)))))"

definition engine_snapshot :: "OrderBookEngine \<Rightarrow> (BookSnapshotView, BookError) result" where
  "engine_snapshot e = snapshot_at (en_updated_monotonic_ns e) e"

end
