(* ===== verification/Engine_Invariant.thy ===== *)
theory Engine_Invariant
  imports Order_Book_Engine "HOL-Library.Sublist"
begin

text \<open>
  The invariant of the order-book engine and the two methods that move the level-two book: what
  a snapshot with its replayed buffer and what a delta does, on every branch, to an engine that
  satisfies the invariant.
\<close>

subsection \<open>The invariant\<close>

definition book_ok :: "BookConfig \<Rightarrow> L2Book \<Rightarrow> bool" where
  "book_ok c b \<longleftrightarrow> l2_wf c b \<and> 0 < l2_sequence b \<and> l2_sequence b \<le> u64_max"

definition session_ok :: "BookConfig \<Rightarrow> BookSession \<Rightarrow> bool" where
  "session_ok c s \<longleftrightarrow> session_is_valid s \<and> instrument_generation s = config_generation c"

text \<open>What holds in every state, also between the steps of one method.\<close>

definition core_wf :: "OrderBookEngine \<Rightarrow> bool" where
  "core_wf e \<longleftrightarrow>
     config_validate (en_config e)
     \<and> (\<forall>s. en_session e = Some s \<longrightarrow> session_ok (en_config e) s)
     \<and> (en_strategy e \<noteq> None \<longrightarrow> en_session e \<noteq> None)
     \<and> (\<forall>b. en_book e = Some b \<longrightarrow> book_ok (en_config e) b)
     \<and> (\<forall>b. en_l3 e = Some b \<longrightarrow> l3_wf b)
     \<and> en_updated_monotonic_ns e \<le> en_last_observed_monotonic_ns e"

definition sequenced :: "BookDelta \<Rightarrow> bool" where
  "sequenced d \<longleftrightarrow> 0 < delta_first_sequence d \<and> delta_first_sequence d \<le> delta_last_sequence d
     \<and> delta_last_sequence d \<le> u64_max"

definition buffered_ok :: "OrderBookEngine \<Rightarrow> BufferedDelta \<Rightarrow> bool" where
  "buffered_ok e x \<longleftrightarrow>
     en_session e = Some (bd_session x) \<and> delta_typed (bd_delta x) \<and> sequenced (bd_delta x)
     \<and> l2_validate_delta (bd_delta x) (en_config e) = Ok ()
     \<and> bd_now_monotonic_ns x \<le> en_last_observed_monotonic_ns e
     \<and> (checksum_policy (en_config e) = Required \<longrightarrow> bd_checksum x \<noteq> None)"

definition buffer_wf :: "OrderBookEngine \<Rightarrow> bool" where
  "buffer_wf e \<longleftrightarrow>
     length (en_buffered e) \<le> max_buffered_deltas (en_config e)
     \<and> en_buffered_level_updates e = sum_list (map (\<lambda>x. delta_level_updates (bd_delta x)) (en_buffered e))
     \<and> en_buffered_level_updates e \<le> max_buffered_level_updates (en_config e)
     \<and> list_all (buffered_ok e) (en_buffered e)"

text \<open>The evidence a checksum policy asks for.\<close>

definition checksum_trusted :: "OrderBookEngine \<Rightarrow> bool" where
  "checksum_trusted e \<longleftrightarrow>
     en_checksum_status e = Valid
     \<or> checksum_policy (en_config e) = Disabled \<and> en_checksum_status e = NotSupported"

definition state_wf :: "OrderBookEngine \<Rightarrow> bool" where
  "state_wf e \<longleftrightarrow>
     en_state e \<noteq> Replaying
     \<and> (en_state e \<in> {Disconnected, Synchronized, BookState.Untrusted} \<longrightarrow> en_buffered e = [])
     \<and> (en_state e = Disconnected \<longrightarrow> en_strategy e = None \<and> en_book e = None \<and> en_l3 e = None)
     \<and> (en_state e = Buffering \<longrightarrow>
          en_strategy e = Some ExternalBuffered \<and> en_book e = None \<and> en_l3 e = None)
     \<and> (en_state e = AwaitingSnapshot \<longrightarrow>
          en_strategy e = Some StreamSnapshot \<and> en_book e = None \<and> en_l3 e = None)
     \<and> (en_state e = Synchronized \<longrightarrow> en_strategy e \<noteq> None \<and> en_book e \<noteq> None \<and> checksum_trusted e
          \<and> (en_l3 e \<noteq> None \<longrightarrow> en_l3_checksum_status e = Valid))"

definition engine_wf :: "OrderBookEngine \<Rightarrow> bool" where
  "engine_wf e \<longleftrightarrow> core_wf e \<and> buffer_wf e \<and> state_wf e"

lemmas engine_wf_defs = engine_wf_def core_wf_def buffer_wf_def state_wf_def checksum_trusted_def

subsection \<open>Building blocks keep the invariant\<close>

lemma engine_new_wf: "engine_new c = Ok e \<Longrightarrow> engine_wf e \<and> en_config e = c"
  by (auto simp: engine_new_def engine_wf_defs split: if_splits)

lemma invalidate_wf: "core_wf e \<Longrightarrow> engine_wf (invalidate e)"
  by (simp add: engine_wf_defs invalidate_def)

lemma invalidate_fields [simp]:
  "en_config (invalidate e) = en_config e" "en_session (invalidate e) = en_session e"
  "en_state (invalidate e) = BookState.Untrusted" "en_buffered (invalidate e) = []"
  "en_book (invalidate e) = en_book e" "en_strategy (invalidate e) = en_strategy e"
  "en_last_observed_monotonic_ns (invalidate e) = en_last_observed_monotonic_ns e"
  by (simp_all add: invalidate_def)

lemma checksum_failed_wf: "core_wf e \<Longrightarrow> engine_wf (checksum_failed now e)"
  unfolding checksum_failed_def by (rule invalidate_wf) (simp add: core_wf_def)

lemma install_trusted_fields [simp]:
  "en_config (install_trusted b now e) = en_config e" "en_session (install_trusted b now e) = en_session e"
  "en_state (install_trusted b now e) = Synchronized" "en_book (install_trusted b now e) = Some b"
  "en_strategy (install_trusted b now e) = en_strategy e" "en_buffered (install_trusted b now e) = en_buffered e"
  "en_buffered_level_updates (install_trusted b now e) = en_buffered_level_updates e"
  "en_l3 (install_trusted b now e) = None"
  "en_updated_monotonic_ns (install_trusted b now e) = now"
  "en_last_observed_monotonic_ns (install_trusted b now e) = en_last_observed_monotonic_ns e"
  "en_checksum_status (install_trusted b now e) = en_checksum_status e"
  by (simp_all add: install_trusted_def Let_def)

lemma record_resync_fields [simp]:
  "en_config (record_resync r now e) = en_config e" "en_session (record_resync r now e) = en_session e"
  "en_state (record_resync r now e) = en_state e" "en_book (record_resync r now e) = en_book e"
  "en_strategy (record_resync r now e) = en_strategy e" "en_buffered (record_resync r now e) = en_buffered e"
  "en_buffered_level_updates (record_resync r now e) = en_buffered_level_updates e"
  "en_l3 (record_resync r now e) = en_l3 e"
  "en_l3_checksum_status (record_resync r now e) = en_l3_checksum_status e"
  "en_updated_monotonic_ns (record_resync r now e) = en_updated_monotonic_ns e"
  "en_last_observed_monotonic_ns (record_resync r now e) = en_last_observed_monotonic_ns e"
  "en_checksum_status (record_resync r now e) = en_checksum_status e"
  by (simp_all add: record_resync_def)

lemma record_resync_wf: "engine_wf e \<Longrightarrow> engine_wf (record_resync r now e)"
proof -
  have "buffered_ok (record_resync r now e) = buffered_ok e"
    by (simp add: fun_eq_iff buffered_ok_def)
  then show "engine_wf e \<Longrightarrow> engine_wf (record_resync r now e)"
    by (simp add: engine_wf_defs)
qed

lemma install_trusted_wf:
  assumes "core_wf e" "en_strategy e \<noteq> None" "book_ok (en_config e) b"
    "now \<le> en_last_observed_monotonic_ns e" "checksum_trusted e"
    "en_buffered e = []" "en_buffered_level_updates e = 0"
  shows "engine_wf (install_trusted b now e)"
  using assms by (auto simp: engine_wf_defs)

lemma record_latency_fields [simp]:
  "en_config (record_latency now l e) = en_config e" "en_session (record_latency now l e) = en_session e"
  "en_state (record_latency now l e) = en_state e" "en_book (record_latency now l e) = en_book e"
  "en_strategy (record_latency now l e) = en_strategy e" "en_buffered (record_latency now l e) = en_buffered e"
  "en_buffered_level_updates (record_latency now l e) = en_buffered_level_updates e"
  "en_l3 (record_latency now l e) = en_l3 e"
  "en_l3_checksum_status (record_latency now l e) = en_l3_checksum_status e"
  "en_updated_monotonic_ns (record_latency now l e) = en_updated_monotonic_ns e"
  "en_last_observed_monotonic_ns (record_latency now l e) = en_last_observed_monotonic_ns e"
  "en_checksum_status (record_latency now l e) = en_checksum_status e"
  "en_resync_in_progress (record_latency now l e) = en_resync_in_progress e"
  by (simp_all add: record_latency_def split: option.splits)

lemma record_latency_wf: "engine_wf e \<Longrightarrow> engine_wf (record_latency now l e)"
proof -
  have "buffered_ok (record_latency now l e) = buffered_ok e"
    by (simp add: fun_eq_iff buffered_ok_def)
  then show "engine_wf e \<Longrightarrow> engine_wf (record_latency now l e)"
    by (simp add: engine_wf_defs)
qed

lemma observe_update_time_wf:
  assumes "engine_wf e" "en_last_observed_monotonic_ns e \<le> now"
  shows "engine_wf (e\<lparr>en_last_observed_monotonic_ns := now\<rparr>)"
proof -
  have "list_all (buffered_ok (e\<lparr>en_last_observed_monotonic_ns := now\<rparr>)) xs"
    if "list_all (buffered_ok e) xs" for xs
    using that assms(2) by (auto simp: list_all_iff buffered_ok_def)
  then show ?thesis using assms by (auto simp: engine_wf_defs)
qed

text \<open>The prologue of every update: the session and the time are checked, the latency is recorded.\<close>

definition admitted :: "BookSession \<Rightarrow> nat \<Rightarrow> OrderBookEngine \<Rightarrow> bool" where
  "admitted session now e \<longleftrightarrow>
     validate_current_session session e = Ok () \<and> en_last_observed_monotonic_ns e \<le> now"

definition observed :: "nat \<Rightarrow> nat option \<Rightarrow> OrderBookEngine \<Rightarrow> OrderBookEngine" where
  "observed now latency e = record_latency now latency (e\<lparr>en_last_observed_monotonic_ns := now\<rparr>)"

lemma prologue:
  "and_do (reading (validate_current_session session)) (\<lambda>_. and_do (observe_update_time now) (\<lambda>_. body)) e =
   (if admitted session now e then body (e\<lparr>en_last_observed_monotonic_ns := now\<rparr>)
    else (e, Err (case validate_current_session session e of Inl error \<Rightarrow> error
                  | Inr _ \<Rightarrow> MonotonicTimeRegression)))"
  by (auto simp: and_do_def reading_def observe_update_time_def admitted_def split: sum.splits)

lemma observed_fields [simp]:
  "en_config (observed now l e) = en_config e" "en_session (observed now l e) = en_session e"
  "en_state (observed now l e) = en_state e" "en_book (observed now l e) = en_book e"
  "en_strategy (observed now l e) = en_strategy e" "en_buffered (observed now l e) = en_buffered e"
  "en_buffered_level_updates (observed now l e) = en_buffered_level_updates e"
  "en_l3 (observed now l e) = en_l3 e"
  "en_l3_checksum_status (observed now l e) = en_l3_checksum_status e"
  "en_updated_monotonic_ns (observed now l e) = en_updated_monotonic_ns e"
  "en_last_observed_monotonic_ns (observed now l e) = now"
  "en_checksum_status (observed now l e) = en_checksum_status e"
  "en_resync_in_progress (observed now l e) = en_resync_in_progress e"
  by (simp_all add: observed_def)

lemma observed_wf: "engine_wf e \<Longrightarrow> admitted session now e \<Longrightarrow> engine_wf (observed now l e)"
  unfolding observed_def admitted_def by (intro record_latency_wf observe_update_time_wf) simp_all

lemma admitted_session: "admitted session now e \<Longrightarrow> en_session e = Some session"
  by (auto simp: admitted_def validate_current_session_def split: if_splits)

subsection \<open>Sequence and checksum decisions\<close>

text \<open>A delta continues a book under a sequence policy.\<close>

definition continues :: "SequencePolicy \<Rightarrow> BookDelta \<Rightarrow> nat \<Rightarrow> bool \<Rightarrow> nat option \<Rightarrow> bool" where
  "continues policy d current first previous \<longleftrightarrow>
     (case policy of
        ExactNext \<Rightarrow> delta_first_sequence d = current + 1
      | RangeContainsNext \<Rightarrow> delta_first_sequence d \<le> current + 1 \<and> current + 1 \<le> delta_last_sequence d
      | PreviousFinal \<Rightarrow>
          if first then delta_first_sequence d \<le> current + 1 \<and> current + 1 \<le> delta_last_sequence d
          else previous = Some current)"

text \<open>No sequence number overflows: a delta that is not stale leaves room for the next number.\<close>

lemma sequence_applies_eq:
  assumes "current < delta_last_sequence d" "sequenced d"
  shows "sequence_applies d current first previous e =
    (e, Ok (continues (sequence_policy (en_config e)) d current first previous))"
proof -
  have "checked_add u64_max current 1 = Some (current + 1)"
    using assms by (simp add: sequenced_def checked_add_def)
  then show ?thesis
    by (cases "sequence_policy (en_config e)")
      (simp_all add: sequence_applies_def continues_def range_contains_next_def)
qed

definition checksum_accepts :: "BookConfig \<Rightarrow> L2Book \<Rightarrow> KrakenV2Checksum option \<Rightarrow> bool" where
  "checksum_accepts c b checksum \<longleftrightarrow>
     (case checksum of None \<Rightarrow> checksum_policy c = Disabled | Some k \<Rightarrow> k2_verify_book k b = Ok True)"

lemma k2_verify_book_error: "k2_verify_book k b = Err error \<Longrightarrow> error = InvalidChecksumInput"
  by (auto simp: k2_verify_book_def split: if_splits)

lemma policy_cases: "checksum_policy c \<noteq> Required \<longleftrightarrow> checksum_policy c = Disabled"
  by (cases "checksum_policy c") simp_all

lemma validate_checksum_accepted:
  "checksum_accepts (en_config e) b checksum \<Longrightarrow>
   validate_checksum b checksum now e =
     (e\<lparr>en_checksum_status := (if checksum = None then NotSupported else Valid)\<rparr>, Ok True)"
  by (auto simp: checksum_accepts_def validate_checksum_def split: option.splits)

lemma validate_checksum_rejected:
  assumes "\<not> checksum_accepts (en_config e) b checksum" "core_wf e"
  obtains e' r where "validate_checksum b checksum now e = (e', r)" "engine_wf e'"
    "en_state e' = BookState.Untrusted" "en_config e' = en_config e" "en_session e' = en_session e"
    "en_strategy e' = en_strategy e" "en_book e' = en_book e"
    "en_last_observed_monotonic_ns e' = en_last_observed_monotonic_ns e"
    "r = Ok False \<or> r = Err InvalidChecksumInput
       \<or> r = Err ChecksumRequired \<and> checksum = None \<and> checksum_policy (en_config e) = Required"
proof (cases checksum)
  case None
  then have "checksum_policy (en_config e) = Required"
    using assms(1) by (simp add: checksum_accepts_def policy_cases [symmetric])
  then show ?thesis using None that [of "invalidate e"] invalidate_wf [OF assms(2)]
    by (simp add: validate_checksum_def)
next
  case (Some k)
  have fields: "en_state (checksum_failed now e) = BookState.Untrusted"
    "en_config (checksum_failed now e) = en_config e" "en_session (checksum_failed now e) = en_session e"
    "en_strategy (checksum_failed now e) = en_strategy e" "en_book (checksum_failed now e) = en_book e"
    "en_last_observed_monotonic_ns (checksum_failed now e) = en_last_observed_monotonic_ns e"
    by (simp_all add: checksum_failed_def)
  note wf = checksum_failed_wf [OF assms(2), of now]
  show ?thesis
  proof (cases "k2_verify_book k b")
    case (Inl error)
    then show ?thesis using Some that [of "checksum_failed now e"] wf fields k2_verify_book_error [OF Inl]
      by (simp add: validate_checksum_def)
  next
    case (Inr valid)
    then have "\<not> valid" using assms(1) Some by (cases valid) (simp_all add: checksum_accepts_def)
    then show ?thesis using Some Inr that [of "checksum_failed now e"] wf fields
      by (simp add: validate_checksum_def)
  qed
qed

lemma accepted_trusted:
  "checksum_accepts (en_config e) b checksum \<Longrightarrow>
   checksum_trusted (e\<lparr>en_checksum_status := (if checksum = None then NotSupported else Valid)\<rparr>)"
  by (auto simp: checksum_accepts_def checksum_trusted_def split: option.splits)

subsection \<open>Replaying the buffer\<close>

text \<open>
  \<open>book_path c b first steps b'\<close>: the deltas of \<open>steps\<close> lead from book \<open>b\<close> to \<open>b'\<close>; each continues
  the book before it, none is stale and every checksum is accepted.
\<close>

fun book_path :: "BookConfig \<Rightarrow> L2Book \<Rightarrow> bool \<Rightarrow> BufferedDelta list \<Rightarrow> L2Book \<Rightarrow> bool" where
  "book_path c b first [] b' \<longleftrightarrow> b' = b"
| "book_path c b first (x # steps) b' \<longleftrightarrow>
     l2_sequence b < delta_last_sequence (bd_delta x)
     \<and> continues (sequence_policy c) (bd_delta x) (l2_sequence b) first (bd_previous_final_sequence x)
     \<and> (\<exists>b1. l2_apply_delta b (bd_delta x) c = Ok b1 \<and> checksum_accepts c b1 (bd_checksum x)
            \<and> book_path c b1 False steps b')"

text \<open>The replay takes every delta that is not stale when it is reached.\<close>

fun fresh :: "nat \<Rightarrow> BufferedDelta list \<Rightarrow> BufferedDelta list" where
  "fresh current [] = []"
| "fresh current (x # xs) =
     (if delta_last_sequence (bd_delta x) \<le> current then fresh current xs
      else x # fresh (delta_last_sequence (bd_delta x)) xs)"

lemma l2_apply_delta_sequence: "l2_apply_delta b d c = Ok b' \<Longrightarrow> l2_sequence b' = delta_last_sequence d"
  by (simp add: l2_apply_delta_Ok_iff)

lemma book_ok_apply:
  "book_ok c b \<Longrightarrow> delta_typed d \<Longrightarrow> sequenced d \<Longrightarrow> l2_apply_delta b d c = Ok b' \<Longrightarrow> book_ok c b'"
  by (auto simp: book_ok_def sequenced_def l2_apply_delta_sequence intro: l2_wf_apply_delta)

definition replay_ready :: "BookSession \<Rightarrow> L2Book \<Rightarrow> nat \<Rightarrow> BufferedDelta list \<Rightarrow> OrderBookEngine \<Rightarrow> bool" where
  "replay_ready session b latest xs e \<longleftrightarrow>
     core_wf e \<and> en_strategy e \<noteq> None \<and> book_ok (en_config e) b \<and> checksum_trusted e
     \<and> latest \<le> en_last_observed_monotonic_ns e \<and> en_session e = Some session
     \<and> list_all (buffered_ok e) xs \<and> en_buffered e = xs
     \<and> en_buffered_level_updates e = sum_list (map (\<lambda>x. delta_level_updates (bd_delta x)) xs)"

definition replay_outcome :: "OrderBookEngine \<Rightarrow> L2Book \<Rightarrow> bool \<Rightarrow> BufferedDelta list \<Rightarrow>
    OrderBookEngine \<times> (ApplyResult, BookError) result \<Rightarrow> bool" where
  "replay_outcome e b first xs out \<longleftrightarrow>
     engine_wf (fst out) \<and> en_config (fst out) = en_config e \<and> en_session (fst out) = en_session e
     \<and> en_strategy (fst out) = en_strategy e
     \<and> en_last_observed_monotonic_ns (fst out) = en_last_observed_monotonic_ns e
     \<and> (if \<exists>b'. book_path (en_config e) b first (fresh (l2_sequence b) xs) b'
        then snd out = Ok Applied \<and> en_state (fst out) = Synchronized
             \<and> (\<exists>b'. en_book (fst out) = Some b'
                   \<and> book_path (en_config e) b first (fresh (l2_sequence b) xs) b')
        else snd out \<in> {Ok GapDetected, Ok ApplyResult.ChecksumMismatch, Err InvalidChecksumInput}
             \<and> en_state (fst out) = BookState.Untrusted)"

lemma pop_buffered_fields [simp]:
  "en_config (pop_buffered x xs e) = en_config e" "en_session (pop_buffered x xs e) = en_session e"
  "en_strategy (pop_buffered x xs e) = en_strategy e" "en_buffered (pop_buffered x xs e) = xs"
  "en_last_observed_monotonic_ns (pop_buffered x xs e) = en_last_observed_monotonic_ns e"
  "en_book (pop_buffered x xs e) = en_book e"
  by (simp_all add: pop_buffered_def)

lemma core_wf_pop [simp]: "core_wf (pop_buffered x xs e) = core_wf e"
  by (simp add: core_wf_def pop_buffered_def)

lemma core_wf_status [simp]:
  "core_wf (e\<lparr>en_checksum_status := v\<rparr>) = core_wf e"
  "core_wf (e\<lparr>en_missing_sequence_count := v'\<rparr>) = core_wf e"
  "core_wf (e\<lparr>en_state := v''\<rparr>) = core_wf e"
  by (simp_all add: core_wf_def)

lemma replay_ready_pop:
  assumes "replay_ready session b latest (x # xs) e"
  shows "replay_ready session b latest xs (pop_buffered x xs e)"
proof -
  have "buffered_ok (pop_buffered x xs e) = buffered_ok e" by (simp add: fun_eq_iff buffered_ok_def)
  moreover have "checksum_trusted (pop_buffered x xs e) = checksum_trusted e"
    by (simp add: checksum_trusted_def pop_buffered_def)
  ultimately show ?thesis using assms
    by (simp add: replay_ready_def) (simp add: pop_buffered_def saturating_sub_def)
qed

lemma replay_ready_advance:
  assumes ready: "replay_ready session b latest xs e" and accepts: "checksum_accepts (en_config e) b' checksum"
    and b': "book_ok (en_config e) b'" and t: "t \<le> en_last_observed_monotonic_ns e"
  shows "replay_ready session b' (max latest t) xs
    (e\<lparr>en_checksum_status := (if checksum = None then NotSupported else Valid)\<rparr>)"
proof -
  let ?e = "e\<lparr>en_checksum_status := (if checksum = None then NotSupported else Valid)\<rparr>"
  have "buffered_ok ?e = buffered_ok e" by (simp add: fun_eq_iff buffered_ok_def)
  then show ?thesis using assms accepted_trusted [OF accepts] by (simp add: replay_ready_def)
qed

lemma replay_outcome_cong:
  assumes "replay_outcome e1 b1 f1 ys out"
    and "en_config e1 = en_config e" "en_session e1 = en_session e" "en_strategy e1 = en_strategy e"
    and "en_last_observed_monotonic_ns e1 = en_last_observed_monotonic_ns e"
    and "\<And>b'. book_path (en_config e) b f (fresh (l2_sequence b) xs) b'
           \<longleftrightarrow> book_path (en_config e) b1 f1 (fresh (l2_sequence b1) ys) b'"
  shows "replay_outcome e b f xs out"
  using assms by (simp add: replay_outcome_def cong: if_cong)

lemma replay_outcome_rejected:
  assumes "engine_wf e'" "en_config e' = en_config e" "en_session e' = en_session e"
    "en_strategy e' = en_strategy e"
    "en_last_observed_monotonic_ns e' = en_last_observed_monotonic_ns e"
    "en_state e' = BookState.Untrusted"
    "r \<in> {Ok GapDetected, Ok ApplyResult.ChecksumMismatch, Err InvalidChecksumInput}"
    "\<And>b'. \<not> book_path (en_config e) b f (fresh (l2_sequence b) xs) b'"
  shows "replay_outcome e b f xs (e', r)"
  using assms by (simp add: replay_outcome_def)

lemma replay_correct:
  "replay_ready session b latest xs e \<Longrightarrow>
   replay_outcome e b first xs (replay session recovering b latest first xs e)"
proof (induction xs arbitrary: b latest first e)
  case Nil
  then have "engine_wf (record_resync recovering latest (install_trusted b latest e))"
    by (intro record_resync_wf install_trusted_wf) (simp_all add: replay_ready_def)
  then show ?case by (simp add: replay_outcome_def)
next
  case (Cons x xs)
  let ?e = "pop_buffered x xs e" and ?d = "bd_delta x" and ?c = "en_config e"
  have ok: "buffered_ok e x" and core: "core_wf ?e" and session: "bd_session x = session"
    using Cons.prems by (auto simp: replay_ready_def buffered_ok_def)
  have seq: "sequenced ?d" and typed: "delta_typed ?d" using ok by (simp_all add: buffered_ok_def)
  note ready = replay_ready_pop [OF Cons.prems]
  show ?case
  proof (cases "delta_last_sequence ?d \<le> l2_sequence b")
    case True
    have "replay_outcome ?e b first xs (replay session recovering b latest first xs ?e)"
      by (rule Cons.IH [OF ready])
    then have "replay_outcome e b first (x # xs) (replay session recovering b latest first xs ?e)"
      by (rule replay_outcome_cong) (simp_all add: True)
    then show ?thesis using True session by (simp add: Let_def)
  next
    case False
    then have less: "l2_sequence b < delta_last_sequence ?d" by simp
    show ?thesis
    proof (cases "continues (sequence_policy ?c) ?d (l2_sequence b) first (bd_previous_final_sequence x)")
      case gap: False
      have "replay_outcome e b first (x # xs) (invalidate (?e\<lparr>en_missing_sequence_count :=
          counter_record (en_missing_sequence_count ?e) (bd_now_monotonic_ns x)\<rparr>), Ok GapDetected)"
        by (rule replay_outcome_rejected) (use core gap False in \<open>simp_all add: invalidate_wf\<close>)
      then show ?thesis using False session gap
        by (simp add: Let_def and_do_def sequence_applies_eq [OF less seq])
    next
      case cont: True
      obtain b' where b': "l2_apply_delta b ?d ?c = Ok b'"
        using ok l2_validate_delta_apply unfolding buffered_ok_def by blast
      have ok': "book_ok ?c b'"
        using book_ok_apply [OF _ typed seq b'] Cons.prems by (simp add: replay_ready_def)
      have seq': "l2_sequence b' = delta_last_sequence ?d" by (rule l2_apply_delta_sequence [OF b'])
      show ?thesis
      proof (cases "checksum_accepts ?c b' (bd_checksum x)")
        case True
        let ?e1 = "?e\<lparr>en_checksum_status := (if bd_checksum x = None then NotSupported else Valid)\<rparr>"
        let ?out = "replay session recovering b' (max latest (bd_now_monotonic_ns x)) False xs ?e1"
        have "replay_ready session b' (max latest (bd_now_monotonic_ns x)) xs ?e1"
          by (rule replay_ready_advance [OF ready]) (use True ok' ok in \<open>simp_all add: buffered_ok_def\<close>)
        then have "replay_outcome ?e1 b' False xs ?out" by (rule Cons.IH)
        then have "replay_outcome e b first (x # xs) ?out"
          by (rule replay_outcome_cong) (use False less cont b' True seq' in simp_all)
        moreover have "validate_checksum b' (bd_checksum x) (bd_now_monotonic_ns x) ?e = (?e1, Ok True)"
          by (rule validate_checksum_accepted) (simp add: True)
        ultimately show ?thesis using False session cont b'
          by (simp add: Let_def and_do_def sequence_applies_eq [OF less seq])
      next
        case reject: False
        obtain e' r where v: "validate_checksum b' (bd_checksum x) (bd_now_monotonic_ns x) ?e = (e', r)"
          and e': "engine_wf e'" "en_state e' = BookState.Untrusted" "en_config e' = ?c"
            "en_session e' = en_session e" "en_strategy e' = en_strategy e"
            "en_last_observed_monotonic_ns e' = en_last_observed_monotonic_ns e"
          and r: "r = Ok False \<or> r = Err InvalidChecksumInput
             \<or> r = Err ChecksumRequired \<and> bd_checksum x = None \<and> checksum_policy ?c = Required"
          by (rule validate_checksum_rejected [of ?e b' "bd_checksum x" "bd_now_monotonic_ns x"])
            (use reject core in simp_all)
        have r': "r = Ok False \<or> r = Err InvalidChecksumInput" using r ok by (auto simp: buffered_ok_def)
        let ?r = "case r of Inl error \<Rightarrow> Err error | Inr _ \<Rightarrow> Ok ApplyResult.ChecksumMismatch"
        have "replay_outcome e b first (x # xs) (e', ?r)"
          by (rule replay_outcome_rejected) (use e' r' False b' reject in auto)
        then show ?thesis using False session cont b' v r'
          by (auto simp: Let_def and_do_def sequence_applies_eq [OF less seq])
      qed
    qed
  qed
qed

subsection \<open>Snapshots\<close>

text \<open>A snapshot is considered in these states; the buffer counts only for an external snapshot.\<close>

definition snapshot_open :: "OrderBookEngine \<Rightarrow> bool" where
  "snapshot_open e \<longleftrightarrow>
     en_state e = Buffering \<or> en_strategy e = Some StreamSnapshot \<and> en_state e \<noteq> Disconnected"

definition pending :: "OrderBookEngine \<Rightarrow> BufferedDelta list" where
  "pending e = (if en_strategy e = Some StreamSnapshot then [] else en_buffered e)"

definition synchronizes :: "OrderBookEngine \<Rightarrow> BookSnapshot \<Rightarrow> KrakenV2Checksum option \<Rightarrow> L2Book \<Rightarrow> bool" where
  "synchronizes e snapshot checksum b' \<longleftrightarrow>
     (\<exists>b. l2_from_snapshot snapshot (en_config e) = Ok b \<and> checksum_accepts (en_config e) b checksum
        \<and> book_path (en_config e) b True (fresh (l2_sequence b) (pending e)) b')"

definition keeps_identity :: "OrderBookEngine \<Rightarrow> OrderBookEngine \<Rightarrow> bool" where
  "keeps_identity e e' \<longleftrightarrow> en_config e' = en_config e \<and> en_session e' = en_session e
     \<and> en_strategy e' = en_strategy e"

definition snapshot_outcome :: "OrderBookEngine \<Rightarrow> BookSnapshot \<Rightarrow> KrakenV2Checksum option \<Rightarrow>
    OrderBookEngine \<times> (ApplyResult, BookError) result \<Rightarrow> bool" where
  "snapshot_outcome e snapshot checksum out \<longleftrightarrow>
     (if \<exists>b'. synchronizes e snapshot checksum b'
      then snd out = Ok Applied \<and> en_state (fst out) = Synchronized
           \<and> (\<exists>b'. en_book (fst out) = Some b' \<and> synchronizes e snapshot checksum b')
      else snd out \<noteq> Ok Applied \<and> en_state (fst out) = BookState.Untrusted)"

lemma book_path_end:
  "book_path c b first xs b' \<Longrightarrow> l2_sequence b' = (if xs = [] then l2_sequence b
     else delta_last_sequence (bd_delta (last xs)))"
proof (induction xs arbitrary: b first)
  case (Cons x xs)
  obtain m where m: "l2_apply_delta b (bd_delta x) c = Ok m" "book_path c m False xs b'"
    using Cons.prems by (simp only: book_path.simps) blast
  show ?case using Cons.IH [OF m(2)] l2_apply_delta_sequence [OF m(1)] by (cases xs) simp_all
qed simp

lemma book_path_unique:
  "book_path c b first xs b1 \<Longrightarrow> book_path c b first xs b2 \<Longrightarrow> b1 = b2"
proof (induction xs arbitrary: b first)
  case (Cons x xs)
  obtain m where "l2_apply_delta b (bd_delta x) c = Ok m" "book_path c m False xs b1"
    using Cons.prems(1) by (simp only: book_path.simps) blast
  moreover have "book_path c m False xs b2" using Cons.prems(2) calculation(1) by simp
  ultimately show ?case using Cons.IH by blast
qed simp

lemma synchronizes_unique:
  "synchronizes e s k b1 \<Longrightarrow> synchronizes e s k b2 \<Longrightarrow> b1 = b2"
  by (auto simp: synchronizes_def dest: book_path_unique)

lemma snapshot_book_ok:
  "l2_from_snapshot s c = Ok b \<Longrightarrow> snapshot_typed s \<Longrightarrow> snap_last_sequence s \<le> u64_max \<Longrightarrow> book_ok c b"
  using l2_from_snapshot_Ok [of s c b] by (simp add: book_ok_def)

lemma closed_states:
  assumes "engine_wf e" "\<not> snapshot_open e"
  shows "en_state e = Disconnected \<or> en_strategy e = None
    \<or> en_strategy e = Some ExternalBuffered \<and> (en_state e = BookState.Untrusted \<or> en_state e = Synchronized)"
proof (cases "en_strategy e")
  case (Some strategy)
  then show ?thesis using assms
    by (cases strategy; cases "en_state e") (simp_all add: engine_wf_def state_wf_def snapshot_open_def)
qed simp

lemma snapshot_closed:
  assumes "engine_wf e" "admitted session now e" "\<not> snapshot_open e"
  shows "\<exists>error \<in> {Untrusted, InvalidTransition}.
    apply_snapshot_candidate s session now checksum latency e = (observed now latency e, Err error)"
  unfolding apply_snapshot_candidate_def prologue Let_def observed_def [symmetric] if_P [OF assms(2)]
  using closed_states [OF assms(1,3)] by auto

lemma snapshot_not_admitted:
  "\<not> admitted session now e \<Longrightarrow> \<exists>error \<in> {InvalidEpoch, StaleInstrumentGeneration, MonotonicTimeRegression}.
     apply_snapshot_candidate s session now checksum latency e = (e, Err error)"
  unfolding apply_snapshot_candidate_def prologue by (auto simp: admitted_def validate_current_session_def)

lemma rejected_outcome:
  "snd out \<noteq> Ok Applied \<Longrightarrow> en_state (fst out) = BookState.Untrusted \<Longrightarrow>
   (\<And>b'. \<not> synchronizes e s checksum b') \<Longrightarrow> snapshot_outcome e s checksum out"
  by (simp add: snapshot_outcome_def)

lemma open_strategy:
  assumes "engine_wf e" "snapshot_open e"
  obtains strategy where "en_strategy e = Some strategy" "en_session e \<noteq> None"
    "strategy = ExternalBuffered \<longrightarrow> en_state e = Buffering" "en_state e \<noteq> Disconnected"
proof -
  obtain strategy where "en_strategy e = Some strategy"
    using assms by (auto simp: engine_wf_def state_wf_def snapshot_open_def)
  then show ?thesis using that assms
    by (cases strategy) (auto simp: engine_wf_defs snapshot_open_def)
qed

lemma snapshot_open_correct:
  fixes checksum :: "KrakenV2Checksum option" and latency :: "nat option"
  assumes wf: "engine_wf e" and ad: "admitted session now e" and op: "snapshot_open e"
    and typed: "snapshot_typed s" "snap_last_sequence s \<le> u64_max"
  defines "out \<equiv> apply_snapshot_candidate s session now checksum latency e"
  shows "engine_wf (fst out) \<and> keeps_identity e (fst out)
    \<and> en_last_observed_monotonic_ns (fst out) = now \<and> snapshot_outcome e s checksum out"
proof -
  let ?e = "observed now latency e" and ?c = "en_config e"
  have wf1: "engine_wf ?e" and core: "core_wf ?e" using observed_wf [OF wf ad] by (simp_all add: engine_wf_def)
  obtain strategy where st: "en_strategy e = Some strategy" "strategy = ExternalBuffered \<longrightarrow> en_state e = Buffering"
    "en_state e \<noteq> Disconnected"
    using open_strategy [OF wf op] by metis
  have out: "out = (case l2_from_snapshot s ?c of Inl error \<Rightarrow> (invalidate ?e, Err error)
      | Inr b \<Rightarrow> and_do (validate_checksum b checksum now) (\<lambda>valid e1.
         if \<not> valid then (e1, Ok ApplyResult.ChecksumMismatch)
         else if strategy = StreamSnapshot
         then (record_resync (en_state e = BookState.Untrusted \<or> en_resync_in_progress e) now
                (install_trusted b now (e1\<lparr>en_buffered := [], en_buffered_level_updates := 0\<rparr>)), Ok Applied)
         else replay session (en_state e = BookState.Untrusted \<or> en_resync_in_progress e) b now True
                (en_buffered e1) (e1\<lparr>en_state := Replaying\<rparr>)) ?e)"
    unfolding out_def apply_snapshot_candidate_def prologue Let_def observed_def [symmetric] if_P [OF ad] observed_fields st(1)
    using st(2,3) by auto
  show ?thesis
  proof (cases "l2_from_snapshot s ?c")
    case (Inl error)
    then show ?thesis
      using invalidate_wf [OF core] by (simp add: out keeps_identity_def snapshot_outcome_def synchronizes_def)
  next
    case (Inr b)
    have b: "book_ok ?c b" by (rule snapshot_book_ok [OF Inr typed])
    show ?thesis
    proof (cases "checksum_accepts ?c b checksum")
      case reject: False
      obtain e' r where v: "validate_checksum b checksum now ?e = (e', r)"
        and e': "engine_wf e'" "en_state e' = BookState.Untrusted" "en_config e' = en_config ?e"
          "en_session e' = en_session ?e" "en_strategy e' = en_strategy ?e"
          "en_last_observed_monotonic_ns e' = en_last_observed_monotonic_ns ?e"
        and r: "r = Ok False \<or> r = Err InvalidChecksumInput
           \<or> r = Err ChecksumRequired \<and> checksum = None \<and> checksum_policy (en_config ?e) = Required"
        by (rule validate_checksum_rejected [of ?e b checksum now]) (use reject core in simp_all)
      have "fst out = e'" "snd out \<noteq> Ok Applied" using r by (auto simp: out Inr and_do_def v)
      then show ?thesis using e' Inr reject
        by (simp add: keeps_identity_def snapshot_outcome_def synchronizes_def)
    next
      case True
      let ?e1 = "?e\<lparr>en_checksum_status := (if checksum = None then NotSupported else Valid)\<rparr>"
      have v: "validate_checksum b checksum now ?e = (?e1, Ok True)"
        by (rule validate_checksum_accepted) (simp add: True)
      have trusted: "checksum_trusted ?e1" by (rule accepted_trusted [of ?e b]) (simp add: True)
      show ?thesis
      proof (cases strategy)
        case StreamSnapshot
        have "engine_wf (install_trusted b now (?e1\<lparr>en_buffered := [], en_buffered_level_updates := 0\<rparr>))"
          by (rule install_trusted_wf)
            (use core b trusted st in \<open>simp_all add: core_wf_def checksum_trusted_def\<close>)
        then have "engine_wf (fst out)" by (simp add: out Inr and_do_def v StreamSnapshot record_resync_wf)
        then show ?thesis using True Inr st StreamSnapshot
          by (simp add: out and_do_def v keeps_identity_def snapshot_outcome_def synchronizes_def pending_def)
      next
        case ExternalBuffered
        let ?e2 = "?e1\<lparr>en_state := Replaying\<rparr>"
        have "list_all (buffered_ok ?e) (en_buffered ?e)" using wf1 by (simp add: engine_wf_def buffer_wf_def)
        moreover have "buffered_ok ?e2 = buffered_ok ?e" by (simp add: fun_eq_iff buffered_ok_def)
        ultimately have "replay_ready session b now (en_buffered e) ?e2"
          using core b trusted st wf admitted_session [OF ad]
          by (simp add: replay_ready_def checksum_trusted_def engine_wf_def buffer_wf_def)
        then have "replay_outcome ?e2 b True (en_buffered e) out"
          using replay_correct by (simp add: out Inr and_do_def v ExternalBuffered)
        then show ?thesis using True Inr st ExternalBuffered
          by (auto simp: replay_outcome_def keeps_identity_def snapshot_outcome_def synchronizes_def pending_def
              split: if_splits)
      qed
    qed
  qed
qed

subsection \<open>Deltas\<close>

definition delta_valid :: "BookConfig \<Rightarrow> BookDelta \<Rightarrow> KrakenV2Checksum option \<Rightarrow> bool" where
  "delta_valid c d checksum \<longleftrightarrow>
     (checksum_policy c = Required \<longrightarrow> checksum \<noteq> None)
     \<and> 0 < delta_first_sequence d \<and> delta_first_sequence d \<le> delta_last_sequence d
     \<and> l2_validate_delta d c = Ok ()"

definition delta_applies :: "OrderBookEngine \<Rightarrow> BookDelta \<Rightarrow> KrakenV2Checksum option \<Rightarrow> nat option \<Rightarrow>
    L2Book \<Rightarrow> bool" where
  "delta_applies e d checksum previous b' \<longleftrightarrow>
     en_state e = Synchronized \<and> delta_valid (en_config e) d checksum
     \<and> (\<exists>b. en_book e = Some b \<and> l2_sequence b < delta_last_sequence d
          \<and> continues (sequence_policy (en_config e)) d (l2_sequence b) False previous
          \<and> l2_apply_delta b d (en_config e) = Ok b' \<and> checksum_accepts (en_config e) b' checksum)"

definition delta_outcome :: "OrderBookEngine \<Rightarrow> BookDelta \<Rightarrow> KrakenV2Checksum option \<Rightarrow> nat option \<Rightarrow>
    OrderBookEngine \<times> (ApplyResult, BookError) result \<Rightarrow> bool" where
  "delta_outcome e d checksum previous out \<longleftrightarrow>
     (if \<exists>b'. delta_applies e d checksum previous b'
      then snd out = Ok Applied \<and> en_state (fst out) = Synchronized
           \<and> (\<exists>b'. en_book (fst out) = Some b' \<and> delta_applies e d checksum previous b')
      else snd out \<in> {Ok Duplicate, Ok ApplyResult.SnapshotRequired}
             \<and> en_state (fst out) = en_state e \<and> en_book (fst out) = en_book e
           \<or> snd out \<notin> {Ok Applied, Ok Duplicate, Ok ApplyResult.SnapshotRequired}
             \<and> en_state (fst out) = BookState.Untrusted)"

lemma delta_malformed:
  assumes "admitted session now e" "\<not> delta_valid (en_config e) d checksum"
  shows "\<exists>error. apply_delta_candidate d session now checksum previous latency e =
    (invalidate (observed now latency e), Err error)"
proof -
  have "l2_validate_delta d (en_config e) = Ok () \<or> (\<exists>error. l2_validate_delta d (en_config e) = Err error)"
    by (cases "l2_validate_delta d (en_config e)") auto
  then show ?thesis
    unfolding apply_delta_candidate_def prologue Let_def observed_def [symmetric] if_P [OF assms(1)] observed_fields
    using assms(2) by (auto simp: delta_valid_def)
qed

lemma delta_dispatch:
  assumes "admitted session now e" "delta_valid (en_config e) d checksum"
  shows "apply_delta_candidate d session now checksum previous latency e =
    (if en_state e = Buffering \<or> en_state e = AwaitingSnapshot
     then buffer_delta d session now checksum previous (observed now latency e)
     else if en_state e = Synchronized then advance_book d now checksum previous (observed now latency e)
     else (observed now latency e, Ok ApplyResult.SnapshotRequired))"
  unfolding apply_delta_candidate_def prologue Let_def observed_def [symmetric] if_P [OF assms(1)] observed_fields
  using assms(2) by (cases "en_state e") (auto simp: delta_valid_def)

lemma delta_not_admitted:
  "\<not> admitted session now e \<Longrightarrow> \<exists>error \<in> {InvalidEpoch, StaleInstrumentGeneration, MonotonicTimeRegression}.
     apply_delta_candidate d session now checksum previous latency e = (e, Err error)"
  unfolding apply_delta_candidate_def prologue by (auto simp: admitted_def validate_current_session_def)

lemma buffer_delta_full: "core_wf e \<Longrightarrow> engine_wf (invalidate e) \<and> keeps_identity e (invalidate e)"
  by (simp add: invalidate_wf keeps_identity_def)

lemma buffer_delta_correct:
  assumes wf: "engine_wf e" and st: "en_state e = Buffering \<or> en_state e = AwaitingSnapshot"
    and session: "en_session e = Some session" and now: "en_last_observed_monotonic_ns e = now"
    and d: "delta_valid (en_config e) d checksum" "delta_typed d" "delta_last_sequence d \<le> u64_max"
  shows "engine_wf (fst (buffer_delta d session now checksum previous e))
    \<and> keeps_identity e (fst (buffer_delta d session now checksum previous e))
    \<and> en_last_observed_monotonic_ns (fst (buffer_delta d session now checksum previous e)) = now
    \<and> delta_outcome e d checksum previous (buffer_delta d session now checksum previous e)"
proof -
  let ?n = "en_buffered_level_updates e + delta_level_updates d"
  let ?x = "\<lparr>bd_delta = d, bd_session = session, bd_now_monotonic_ns = now, bd_checksum = checksum,
             bd_previous_final_sequence = previous\<rparr>"
  let ?e = "e\<lparr>en_buffered := en_buffered e @ [?x], en_buffered_level_updates := ?n\<rparr>"
  have none: "\<not> delta_applies e d checksum previous b'" for b' using st by (auto simp: delta_applies_def)
  have core: "core_wf e" using wf by (simp add: engine_wf_def)
  show ?thesis
  proof (cases "?n \<le> u64_max \<and> length (en_buffered e) < max_buffered_deltas (en_config e)
      \<and> ?n \<le> max_buffered_level_updates (en_config e)")
    case True
    have out: "buffer_delta d session now checksum previous e = (?e, Ok ApplyResult.SnapshotRequired)"
      using True by (simp add: buffer_delta_def checked_add_def)
    have x: "buffered_ok e ?x"
      using session now d by (simp add: buffered_ok_def delta_valid_def sequenced_def)
    have "buffered_ok ?e = buffered_ok e" by (simp add: fun_eq_iff buffered_ok_def)
    then have "buffer_wf ?e" using wf True x by (simp add: engine_wf_def buffer_wf_def)
    moreover have "core_wf ?e" "state_wf ?e"
      using wf st by (auto simp: engine_wf_def core_wf_def state_wf_def)
    ultimately have "engine_wf ?e" by (simp add: engine_wf_def)
    then show ?thesis using none now by (simp add: out keeps_identity_def delta_outcome_def)
  next
    case False
    then have "buffer_delta d session now checksum previous e = (invalidate e, Err BufferCapacity)"
      by (auto simp: buffer_delta_def checked_add_def)
    then show ?thesis using none now buffer_delta_full [OF core] by (simp add: delta_outcome_def)
  qed
qed

lemma core_wf_book [simp]: "core_wf e \<Longrightarrow> core_wf (e\<lparr>en_book := None\<rparr>)"
  by (simp add: core_wf_def)

lemma advance_book_correct:
  assumes wf: "engine_wf e" and st: "en_state e = Synchronized"
    and now: "en_last_observed_monotonic_ns e = now"
    and d: "delta_valid (en_config e) d checksum" "delta_typed d" "delta_last_sequence d \<le> u64_max"
  shows "engine_wf (fst (advance_book d now checksum previous e))
    \<and> keeps_identity e (fst (advance_book d now checksum previous e))
    \<and> en_last_observed_monotonic_ns (fst (advance_book d now checksum previous e)) = now
    \<and> delta_outcome e d checksum previous (advance_book d now checksum previous e)"
proof -
  let ?c = "en_config e"
  obtain b where b: "en_book e = Some b" "book_ok ?c b" and core: "core_wf e"
    and buffer: "en_buffered e = []" "en_buffered_level_updates e = 0" and strategy: "en_strategy e \<noteq> None"
    using wf st by (auto simp: engine_wf_defs)
  have seq: "sequenced d" using d by (simp add: delta_valid_def sequenced_def)
  show ?thesis
  proof (cases "delta_last_sequence d \<le> l2_sequence b")
    case True
    then have "advance_book d now checksum previous e = (e, Ok Duplicate)" using b by (simp add: advance_book_def)
    then show ?thesis using wf now b True by (simp add: keeps_identity_def delta_outcome_def delta_applies_def)
  next
    case False
    then have less: "l2_sequence b < delta_last_sequence d" by simp
    show ?thesis
    proof (cases "continues (sequence_policy ?c) d (l2_sequence b) False previous")
      case gap: False
      let ?e = "e\<lparr>en_missing_sequence_count := counter_record (en_missing_sequence_count e) now\<rparr>"
      have "advance_book d now checksum previous e = (invalidate ?e, Ok GapDetected)"
        using b False gap by (simp add: advance_book_def and_do_def sequence_applies_eq [OF less seq])
      moreover have "engine_wf (invalidate ?e)" by (rule invalidate_wf) (simp add: core)
      ultimately show ?thesis using now b gap
        by (simp add: keeps_identity_def delta_outcome_def delta_applies_def)
    next
      case cont: True
      obtain b' where b': "l2_apply_delta b d ?c = Ok b'"
        using d l2_validate_delta_apply unfolding delta_valid_def by blast
      have ok': "book_ok ?c b'" by (rule book_ok_apply [OF b(2) d(2) seq b'])
      have eq: "advance_book d now checksum previous e =
          and_do (validate_checksum b' checksum now) (\<lambda>valid e.
            if \<not> valid then (e\<lparr>en_book := Some b'\<rparr>, Ok ApplyResult.ChecksumMismatch)
            else (install_trusted b' now e, Ok Applied)) (e\<lparr>en_book := None\<rparr>)"
        using b False cont b' by (simp add: advance_book_def and_do_def sequence_applies_eq [OF less seq])
      show ?thesis
      proof (cases "checksum_accepts ?c b' checksum")
        case True
        let ?e1 = "e\<lparr>en_book := None, en_checksum_status := (if checksum = None then NotSupported else Valid)\<rparr>"
        have "validate_checksum b' checksum now (e\<lparr>en_book := None\<rparr>) = (?e1, Ok True)"
          using validate_checksum_accepted [of "e\<lparr>en_book := None\<rparr>" b' checksum now] True by simp
        then have out: "advance_book d now checksum previous e = (install_trusted b' now ?e1, Ok Applied)"
          by (simp add: eq and_do_def)
        have "checksum_trusted ?e1" using accepted_trusted [of "e\<lparr>en_book := None\<rparr>" b' checksum] True by simp
        then have "engine_wf (install_trusted b' now ?e1)"
          by (intro install_trusted_wf) (use core ok' strategy now buffer in simp_all)
        moreover have "delta_applies e d checksum previous b'"
          using st d b less cont b' True by (simp add: delta_applies_def)
        ultimately show ?thesis using now by (auto simp: out keeps_identity_def delta_outcome_def)
      next
        case reject: False
        obtain e' r where v: "validate_checksum b' checksum now (e\<lparr>en_book := None\<rparr>) = (e', r)"
          and e': "engine_wf e'" "en_state e' = BookState.Untrusted" "en_config e' = ?c"
            "en_session e' = en_session e" "en_strategy e' = en_strategy e"
            "en_last_observed_monotonic_ns e' = en_last_observed_monotonic_ns e"
          and r: "r = Ok False \<or> r = Err InvalidChecksumInput
             \<or> r = Err ChecksumRequired \<and> checksum = None \<and> checksum_policy ?c = Required"
          by (rule validate_checksum_rejected [of "e\<lparr>en_book := None\<rparr>" b' checksum now])
            (use reject core in simp_all)
        have none: "\<not> delta_applies e d checksum previous b''" for b''
          using b b' reject by (auto simp: delta_applies_def)
        have "engine_wf (e'\<lparr>en_book := Some b'\<rparr>)"
        proof -
          have "buffered_ok (e'\<lparr>en_book := Some b'\<rparr>) = buffered_ok e'" by (simp add: fun_eq_iff buffered_ok_def)
          then show ?thesis using e' ok' by (simp add: engine_wf_defs)
        qed
        then show ?thesis using r e' now none
          by (auto simp: eq and_do_def v keeps_identity_def delta_outcome_def)
      qed
    qed
  qed
qed

lemma delta_outcome_observed:
  "delta_outcome (observed now latency e) d checksum previous out = delta_outcome e d checksum previous out"
proof -
  have "delta_applies (observed now latency e) d checksum previous = delta_applies e d checksum previous"
    by (simp add: fun_eq_iff delta_applies_def)
  then show ?thesis by (simp add: delta_outcome_def)
qed

lemma keeps_identity_observed: "keeps_identity (observed now latency e) e' = keeps_identity e e'"
  by (simp add: keeps_identity_def)

lemma delta_correct:
  assumes wf: "engine_wf e" and ad: "admitted session now e"
    and d: "delta_typed d" "delta_last_sequence d \<le> u64_max"
  shows "engine_wf (fst (apply_delta_candidate d session now checksum previous latency e))
    \<and> keeps_identity e (fst (apply_delta_candidate d session now checksum previous latency e))
    \<and> en_last_observed_monotonic_ns (fst (apply_delta_candidate d session now checksum previous latency e)) = now
    \<and> delta_outcome e d checksum previous (apply_delta_candidate d session now checksum previous latency e)"
proof -
  let ?e = "observed now latency e"
  have wf1: "engine_wf ?e" by (rule observed_wf [OF wf ad])
  then have core: "core_wf ?e" by (simp add: engine_wf_def)
  have session: "en_session ?e = Some session" using admitted_session [OF ad] by simp
  have none: "\<not> delta_applies e d checksum previous b'"
    if "en_state e \<noteq> Synchronized \<or> \<not> delta_valid (en_config e) d checksum" for b'
    using that by (auto simp: delta_applies_def)
  show ?thesis
  proof (cases "delta_valid (en_config e) d checksum")
    case False
    then show ?thesis using delta_malformed [OF ad False, of previous latency] invalidate_wf [OF core] none
      by (auto simp: keeps_identity_def delta_outcome_def)
  next
    case valid: True
    then have valid1: "delta_valid (en_config ?e) d checksum" by simp
    note dispatch = delta_dispatch [OF ad valid, of previous latency]
    note buffered = buffer_delta_correct [OF wf1 _ session _ valid1 d, of now previous]
    note advanced = advance_book_correct [OF wf1 _ _ valid1 d, of now previous]
    show ?thesis
    proof (cases "en_state e = Buffering \<or> en_state e = AwaitingSnapshot")
      case True
      then show ?thesis using buffered unfolding dispatch delta_outcome_observed keeps_identity_observed by simp
    next
      case other: False
      show ?thesis
      proof (cases "en_state e = Synchronized")
        case True
        then show ?thesis
          using advanced other unfolding dispatch delta_outcome_observed keeps_identity_observed by simp
      next
        case False
        then show ?thesis using other wf1 none by (simp add: dispatch keeps_identity_def delta_outcome_def)
      qed
    qed
  qed
qed

end
