(* ===== verification/Engine_Correct.thy ===== *)
theory Engine_Correct
  imports Engine_Invariant
begin

text \<open>
  What the order-book engine guarantees: the invariant of every reachable engine, the meaning of
  an applied delta and of an applied snapshot with its replayed buffer, when the book can be
  read, which outcomes end trust and how trust is regained.
\<close>

subsection \<open>Level-three updates and sessions\<close>

text \<open>Level-three updates leave the level-two book, its state and its trust as they are.\<close>

definition keeps_book :: "OrderBookEngine \<Rightarrow> OrderBookEngine \<Rightarrow> bool" where
  "keeps_book e e' \<longleftrightarrow> keeps_identity e e' \<and> en_state e' = en_state e \<and> en_book e' = en_book e
     \<and> en_checksum_status e' = en_checksum_status e"

lemma engine_wf_l3:
  assumes "engine_wf e" "en_l3 e' = None \<or> en_state e' = Synchronized \<and> en_l3_checksum_status e' = Valid"
    "\<And>b. en_l3 e' = Some b \<Longrightarrow> l3_wf b" "keeps_book e e'" "en_buffered e' = en_buffered e"
    "en_buffered_level_updates e' = en_buffered_level_updates e"
    "en_last_observed_monotonic_ns e' = en_last_observed_monotonic_ns e"
    "en_updated_monotonic_ns e' \<le> en_last_observed_monotonic_ns e'"
  shows "engine_wf e'"
proof -
  have "buffered_ok e' = buffered_ok e"
    using assms(4,7) by (simp add: fun_eq_iff buffered_ok_def keeps_book_def keeps_identity_def)
  then have "buffer_wf e'"
    using assms(1,4-6) by (simp add: engine_wf_def buffer_wf_def keeps_book_def keeps_identity_def)
  moreover have "core_wf e'"
    using assms(1,3,4,8) by (simp add: engine_wf_def core_wf_def keeps_book_def keeps_identity_def)
  moreover have "state_wf e'"
  proof -
    have "en_l3 e' \<noteq> None \<longrightarrow> en_l3_checksum_status e' = Valid \<and> en_state e' = Synchronized" using assms(2) by auto
    then show ?thesis using assms(1,4,5)
      by (cases "en_l3 e' = None")
        (simp_all add: engine_wf_def state_wf_def checksum_trusted_def keeps_book_def keeps_identity_def)
  qed
  ultimately show ?thesis by (simp add: engine_wf_def)
qed

lemma l3_checksum_failed_wf:
  "engine_wf e \<Longrightarrow> engine_wf (l3_checksum_failed now e) \<and> keeps_book e (l3_checksum_failed now e)
     \<and> en_last_observed_monotonic_ns (l3_checksum_failed now e) = en_last_observed_monotonic_ns e"
  by (intro conjI, rule engine_wf_l3 [of e])
    (simp_all add: l3_checksum_failed_def keeps_book_def keeps_identity_def engine_wf_def core_wf_def)

lemma l3_drop_wf:
  "engine_wf e \<Longrightarrow> engine_wf (e\<lparr>en_l3 := None\<rparr>)"
  by (rule engine_wf_l3 [of e]) (simp_all add: keeps_book_def keeps_identity_def engine_wf_def core_wf_def)

text \<open>The common end of the two checked updates.\<close>

definition l3_commit :: "L3Book \<Rightarrow> KrakenV2L3Checksum \<Rightarrow> nat \<Rightarrow>
    (OrderBookEngine, ApplyResult, BookError) call" where
  "l3_commit candidate checksum now =
     and_do (validate_l3_checksum candidate checksum now) (\<lambda>valid e.
       if \<not> valid then (e, Ok ApplyResult.ChecksumMismatch)
       else (e\<lparr>en_l3 := Some candidate, en_updated_monotonic_ns := now\<rparr>, Ok Applied))"

definition l3_kept :: "OrderBookEngine \<Rightarrow> OrderBookEngine \<Rightarrow> bool" where
  "l3_kept e e' \<longleftrightarrow> engine_wf e' \<and> keeps_book e e'
     \<and> en_last_observed_monotonic_ns e \<le> en_last_observed_monotonic_ns e'"

lemma l3_commit_wf:
  assumes wf: "engine_wf e" and st: "en_state e = Synchronized" and b: "l3_wf b"
    and now: "en_last_observed_monotonic_ns e = now"
  shows "l3_kept e (fst (l3_commit b checksum now e))"
proof (cases "k3_verify_book checksum b = Ok True")
  case True
  let ?e = "e\<lparr>en_l3_checksum_status := Valid, en_l3 := Some b, en_updated_monotonic_ns := now\<rparr>"
  have "fst (l3_commit b checksum now e) = ?e"
    by (simp add: l3_commit_def and_do_def validate_l3_checksum_def True)
  moreover have "engine_wf ?e"
    by (rule engine_wf_l3 [OF wf]) (use st b now in \<open>simp_all add: keeps_book_def keeps_identity_def\<close>)
  ultimately show ?thesis by (simp add: l3_kept_def keeps_book_def keeps_identity_def)
next
  case False
  then have "fst (l3_commit b checksum now e) = l3_checksum_failed now e"
    by (auto simp: l3_commit_def and_do_def validate_l3_checksum_def split: sum.splits bool.splits)
  then show ?thesis using l3_checksum_failed_wf [OF wf, of now] by (simp add: l3_kept_def)
qed

lemma l3_kept_observed:
  assumes "l3_kept (observed now latency e) e'" "admitted session now e"
  shows "l3_kept e e'"
  using assms by (simp add: l3_kept_def keeps_book_def keeps_identity_def admitted_def)

lemma l3_kept_refl: "engine_wf e \<Longrightarrow> l3_kept e e"
  by (simp add: l3_kept_def keeps_book_def keeps_identity_def)

lemma l3_failed_kept: "engine_wf e \<Longrightarrow> l3_kept e (l3_checksum_failed now e)"
  using l3_checksum_failed_wf [of e now] by (simp add: l3_kept_def)

lemma l3_snapshot_kept:
  assumes wf: "engine_wf e" and typed: "list_all order_typed orders"
  shows "l3_kept e (fst (apply_l3_snapshot_checked orders session now latency checksum e))"
proof (cases "admitted session now e")
  case False
  then show ?thesis using l3_kept_refl [OF wf] unfolding apply_l3_snapshot_checked_def prologue by simp
next
  case ad: True
  let ?e = "observed now (Some latency) e"
  have wf1: "engine_wf ?e" by (rule observed_wf [OF wf ad])
  have eq: "apply_l3_snapshot_checked orders session now latency checksum e =
      (if en_state e \<noteq> Synchronized then (?e, Err Untrusted)
       else case l3_from_snapshot orders (en_config e) of
              Inl error \<Rightarrow> (l3_checksum_failed now ?e, Err error)
            | Inr candidate \<Rightarrow> l3_commit candidate checksum now ?e)"
    unfolding apply_l3_snapshot_checked_def prologue Let_def observed_def [symmetric] if_P [OF ad] observed_fields
      l3_commit_def by simp
  have "l3_kept ?e (fst (apply_l3_snapshot_checked orders session now latency checksum e))"
  proof (cases "en_state e = Synchronized")
    case True
    then show ?thesis
      using l3_failed_kept [OF wf1] l3_commit_wf [OF wf1] l3_from_snapshot_wf [OF _ typed]
      by (auto simp: eq split: sum.splits)
  qed (simp add: eq l3_kept_refl [OF wf1])
  then show ?thesis by (rule l3_kept_observed [OF _ ad])
qed

lemma l3_events_kept:
  assumes wf: "engine_wf e" and typed: "\<forall>ev \<in> set events. event_typed ev"
  shows "l3_kept e (fst (apply_l3_events_checked events session now latency checksum e))"
proof (cases "admitted session now e")
  case False
  then show ?thesis using l3_kept_refl [OF wf] unfolding apply_l3_events_checked_def prologue by simp
next
  case ad: True
  let ?e = "observed now (Some latency) e"
  have wf1: "engine_wf ?e" by (rule observed_wf [OF wf ad])
  have wf2: "engine_wf (?e\<lparr>en_l3 := None\<rparr>)" by (rule l3_drop_wf [OF wf1])
  have eq: "apply_l3_events_checked events session now latency checksum e =
      (if en_state e \<noteq> Synchronized then (?e, Err Untrusted)
       else case en_l3 e of None \<Rightarrow> (?e, Err L3SnapshotRequired)
            | Some book \<Rightarrow>
                (case l3_apply book events (en_config e) of
                   Inl error \<Rightarrow> (l3_checksum_failed now (?e\<lparr>en_l3 := None\<rparr>), Err error)
                 | Inr book' \<Rightarrow> l3_commit book' checksum now (?e\<lparr>en_l3 := None\<rparr>)))"
    unfolding apply_l3_events_checked_def prologue Let_def observed_def [symmetric] if_P [OF ad] observed_fields
      l3_commit_def by (simp split: option.splits)
  have drop: "l3_kept (?e\<lparr>en_l3 := None\<rparr>) e' \<Longrightarrow> l3_kept ?e e'" for e'
    by (simp add: l3_kept_def keeps_book_def keeps_identity_def)
  have "l3_kept ?e (fst (apply_l3_events_checked events session now latency checksum e))"
  proof (cases "en_state e = Synchronized \<and> en_l3 e \<noteq> None")
    case True
    then obtain book where book: "en_l3 e = Some book" by blast
    have "l3_wf book" "config_validate (en_config e)" using wf book by (auto simp: engine_wf_def core_wf_def)
    then have "l3_wf b'" if "l3_apply book events (en_config e) = Ok b'" for b'
      using l3_apply_wf typed that by blast
    then show ?thesis using True book l3_failed_kept [OF wf2] l3_commit_wf [OF wf2]
      by (auto simp: eq split: sum.splits intro!: drop)
  qed (auto simp: eq l3_kept_refl [OF wf1])
  then show ?thesis by (rule l3_kept_observed [OF _ ad])
qed

lemma l3_unchecked_kept:
  assumes wf: "engine_wf e"
  shows "l3_kept e (fst (l3_unchecked session now e))"
proof (cases "admitted session now e")
  case False
  then show ?thesis using l3_kept_refl [OF wf] unfolding l3_unchecked_def prologue by simp
next
  case ad: True
  let ?e = "observed now None e"
  have wf1: "engine_wf ?e" by (rule observed_wf [OF wf ad])
  have e: "e\<lparr>en_last_observed_monotonic_ns := now\<rparr> = ?e" by (simp add: observed_def record_latency_def)
  have "engine_wf (?e\<lparr>en_l3 := None, en_l3_checksum_status := Pending\<rparr>)"
    by (rule engine_wf_l3 [OF wf1]) (use wf1 in \<open>simp_all add: keeps_book_def keeps_identity_def engine_wf_def core_wf_def\<close>)
  then have "l3_kept ?e (fst (l3_unchecked session now e))"
    unfolding l3_unchecked_def prologue if_P [OF ad] e
    using l3_kept_refl [OF wf1] by (simp add: l3_kept_def keeps_book_def keeps_identity_def)
  then show ?thesis by (rule l3_kept_observed [OF _ ad])
qed

lemma start_session_wf:
  assumes wf: "engine_wf e"
  shows "engine_wf (fst (start_session session strategy e))"
proof (cases "validate_new_session session e")
  case (Inl error)
  then show ?thesis using wf by (simp add: start_session_def and_do_reading)
next
  case (Inr u)
  then have "session_ok (en_config e) session"
    by (auto simp: validate_new_session_def session_ok_def split: if_splits)
  then show ?thesis using wf Inr
    by (cases strategy) (auto simp: start_session_def and_do_reading Let_def engine_wf_defs)
qed

lemma disconnect_wf: "engine_wf e \<Longrightarrow> engine_wf (disconnect e)"
  by (auto simp: disconnect_def engine_wf_defs)

lemma begin_resync_wf: "engine_wf e \<Longrightarrow> engine_wf (fst (begin_resync e))"
  by (auto simp: begin_resync_def engine_wf_defs)

subsection \<open>Reachable engines\<close>

text \<open>
  One call of a mutating method. The values a caller can build are those of the sources' types:
  decimals in their canonical range and 64-bit sequence numbers.
\<close>

definition snapshot_value :: "BookSnapshot \<Rightarrow> bool" where
  "snapshot_value s \<longleftrightarrow> snapshot_typed s \<and> snap_last_sequence s \<le> u64_max"

definition delta_value :: "BookDelta \<Rightarrow> bool" where
  "delta_value d \<longleftrightarrow> delta_typed d \<and> delta_last_sequence d \<le> u64_max"

inductive engine_step :: "OrderBookEngine \<Rightarrow> OrderBookEngine \<Rightarrow> bool" where
  step_start: "engine_step e (fst (start_session session strategy e))"
| step_disconnect: "engine_step e (disconnect e)"
| step_resync: "engine_step e (fst (begin_resync e))"
| step_snapshot: "snapshot_value s \<Longrightarrow>
    engine_step e (fst (apply_snapshot_candidate s session now checksum latency e))"
| step_delta: "delta_value d \<Longrightarrow>
    engine_step e (fst (apply_delta_candidate d session now checksum previous latency e))"
| step_l3_snapshot: "engine_step e (fst (apply_l3_snapshot orders session now e))"
| step_l3_events: "engine_step e (fst (apply_l3_events events session now e))"
| step_l3_snapshot_checked: "list_all order_typed orders \<Longrightarrow>
    engine_step e (fst (apply_l3_snapshot_checked orders session now ms l3_checksum e))"
| step_l3_events_checked: "\<forall>ev \<in> set events. event_typed ev \<Longrightarrow>
    engine_step e (fst (apply_l3_events_checked events session now ms l3_checksum e))"

inductive engine_reachable :: "BookConfig \<Rightarrow> OrderBookEngine \<Rightarrow> bool" for c where
  reach_new: "engine_new c = Ok e \<Longrightarrow> engine_reachable c e"
| reach_step: "engine_reachable c e \<Longrightarrow> engine_step e e' \<Longrightarrow> engine_reachable c e'"

lemma snapshot_step_wf:
  assumes wf: "engine_wf e" and s: "snapshot_value s"
  shows "engine_wf (fst (apply_snapshot_candidate s session now checksum latency e))
    \<and> keeps_identity e (fst (apply_snapshot_candidate s session now checksum latency e))"
proof (cases "admitted session now e")
  case False
  then show ?thesis using snapshot_not_admitted [OF False, of s checksum latency] wf
    by (auto simp: keeps_identity_def)
next
  case ad: True
  show ?thesis
  proof (cases "snapshot_open e")
    case True
    then show ?thesis
      using snapshot_open_correct [OF wf ad True, of s checksum latency] s by (simp add: snapshot_value_def)
  next
    case False
    then show ?thesis
      using snapshot_closed [OF wf ad False, of s checksum latency] observed_wf [OF wf ad]
      by (auto simp: keeps_identity_def)
  qed
qed

lemma delta_step_wf:
  assumes wf: "engine_wf e" and d: "delta_value d"
  shows "engine_wf (fst (apply_delta_candidate d session now checksum previous latency e))
    \<and> keeps_identity e (fst (apply_delta_candidate d session now checksum previous latency e))"
proof (cases "admitted session now e")
  case False
  then show ?thesis using delta_not_admitted [OF False, of d checksum previous latency] wf
    by (auto simp: keeps_identity_def)
next
  case True
  then show ?thesis using delta_correct [OF wf True, of d] d by (simp add: delta_value_def)
qed

lemma engine_step_wf: "engine_step e e' \<Longrightarrow> engine_wf e \<Longrightarrow> engine_wf e' \<and> en_config e' = en_config e"
proof (induction rule: engine_step.induct)
  case (step_start e session strategy)
  then show ?case
    using start_session_wf by (auto simp: start_session_def and_do_reading Let_def split: sum.splits)
next
  case (step_disconnect e)
  then show ?case using disconnect_wf by (simp add: disconnect_def)
next
  case (step_resync e)
  then show ?case using begin_resync_wf by (simp add: begin_resync_def)
next
  case (step_snapshot s e session now checksum latency)
  then show ?case using snapshot_step_wf by (simp add: keeps_identity_def)
next
  case (step_delta d e session now checksum previous latency)
  then show ?case using delta_step_wf by (simp add: keeps_identity_def)
qed (use l3_unchecked_kept l3_snapshot_kept l3_events_kept in
    \<open>simp_all add: apply_l3_snapshot_def apply_l3_events_def l3_kept_def keeps_book_def keeps_identity_def\<close>)

lemma reachable_wf: "engine_reachable c e \<Longrightarrow> engine_wf e \<and> en_config e = c"
  by (induction rule: engine_reachable.induct) (simp_all add: engine_new_wf engine_step_wf)

subsection \<open>What the view shows\<close>

lemma ascending_entries:
  "sorted_wrt (\<lambda>a b. decimal_cmp a b = Less) (map fst side) \<Longrightarrow> strictly_ascending (map entry_level side)"
proof (induction side)
  case (Cons x side)
  then show ?case by (cases side) (simp_all add: entry_level_def)
qed simp

lemma view_levels:
  assumes "l2_wf c b"
  shows "strictly_descending (bids_descending b)" "strictly_ascending (asks_ascending b)"
    "length (bids_descending b) \<le> max_levels_per_side c" "length (asks_ascending b) \<le> max_levels_per_side c"
    "\<forall>l \<in> set (bids_descending b) \<union> set (asks_ascending b). is_positive (lvl_price l) \<and> is_positive (lvl_quantity l)"
proof -
  have "bt_wf decimal_cmp decimal_wf (l2_bids b)" "bt_wf decimal_cmp decimal_wf (l2_asks b)"
    using assms by (simp_all add: l2_wf_def side_wf_def)
  then have "strictly_ascending (map entry_level (l2_bids b))" "strictly_ascending (map entry_level (l2_asks b))"
    by (simp_all add: bt_wf_def ascending_entries)
  moreover have "rev (bids_descending b) = map entry_level (l2_bids b)"
    by (simp add: bids_descending_def rev_map)
  moreover have "list_all level_typed (bids_descending b)"
    using assms by (auto simp: l2_wf_def side_wf_def bids_descending_def list_all_iff entry_ok_def)
  ultimately show "strictly_descending (bids_descending b)" "strictly_ascending (asks_ascending b)"
    using descending_rev [of "bids_descending b"] by (simp_all add: asks_ascending_def)
  show "length (bids_descending b) \<le> max_levels_per_side c" "length (asks_ascending b) \<le> max_levels_per_side c"
    using assms by (simp_all add: l2_wf_def side_wf_def bids_descending_def asks_ascending_def)
  show "\<forall>l \<in> set (bids_descending b) \<union> set (asks_ascending b). is_positive (lvl_price l) \<and> is_positive (lvl_quantity l)"
    using assms by (auto simp: l2_wf_def side_wf_def bids_descending_def asks_ascending_def list_all_iff entry_ok_def
        entry_level_def level_typed_def)
qed

lemma snapshot_at_Ok:
  assumes "snapshot_at now e = Ok v"
  obtains b s where "en_state e = Synchronized" "en_updated_monotonic_ns e \<le> now" "en_book e = Some b"
    "en_session e = Some s" "vw_bids v = bids_descending b" "vw_asks v = asks_ascending b"
    "vw_last_source_sequence v = l2_sequence b" "vw_session v = s" "vw_updated_monotonic_ns v = en_updated_monotonic_ns e"
    "vw_l3_orders v = (case en_l3 e of None \<Rightarrow> [] | Some l3 \<Rightarrow> sorted_orders l3)"
  using assms that
  by (auto simp: snapshot_at_def view_new_def Let_def result_simps split: if_splits)

lemma snapshot_at_readable:
  assumes "en_state e = Synchronized" "en_updated_monotonic_ns e \<le> now" "en_book e = Some b" "en_session e = Some s"
  obtains v where "snapshot_at now e = Ok v"
  using assms by (simp add: snapshot_at_def Let_def)

subsection \<open>An engine to evaluate\<close>

definition example_session :: BookSession where
  "example_session = \<lparr>connection_epoch = 1, subscription_epoch = 1, instrument_generation = 1\<rparr>"

definition example_new :: OrderBookEngine where
  "example_new =
     \<lparr>en_config = example_config, en_state = Disconnected, en_session = None, en_strategy = None,
      en_book = None, en_l3 = None, en_buffered = [], en_buffered_level_updates = 0,
      en_updated_monotonic_ns = 0, en_last_observed_monotonic_ns = 0,
      en_checksum_status = NotSupported, en_l3_checksum_status = Pending, en_resync_count = [],
      en_missing_sequence_count = [], en_checksum_failure_count = [], en_crossed_state_count = [],
      en_source_latency = [], en_resync_in_progress = False\<rparr>"

definition example_started :: OrderBookEngine where
  "example_started = fst (start_session example_session ExternalBuffered example_new)"

definition example_live :: OrderBookEngine where
  "example_live = fst (apply_snapshot example_snapshot example_session 5 example_started)"

lemma example_engine_new: "engine_new example_config = Ok example_new"
  by (simp add: engine_new_def config_validate_def example_config_def is_positive_def in_range_def
      MAX_BOOK_LEVELS_PER_SIDE_def MAX_BUFFERED_DELTAS_def MAX_BUFFERED_LEVEL_UPDATES_def MAX_L3_ORDERS_def
      fresh_checksum_status_def fresh_l3_checksum_status_def example_new_def)

lemma example_started_fields:
  "en_config example_started = example_config" "en_state example_started = Buffering"
  "en_session example_started = Some example_session" "en_strategy example_started = Some ExternalBuffered"
  "en_buffered example_started = []" "en_last_observed_monotonic_ns example_started = 0"
  by (simp_all add: example_started_def start_session_def and_do_reading Let_def validate_new_session_def
      session_is_valid_def example_session_def example_new_def example_config_def)

lemma example_started_reachable: "engine_reachable example_config example_started"
  unfolding example_started_def by (intro reach_step [OF reach_new [OF example_engine_new]] step_start)

lemma example_admitted: "admitted example_session 5 example_started"
  by (simp add: admitted_def validate_current_session_def example_started_fields session_is_valid_def)
    (simp add: example_session_def example_config_def)

lemma example_snapshot_value: "snapshot_value example_snapshot"
  using example_typed(1) by (simp add: snapshot_value_def example_snapshot_def u64_max_def)

lemma example_synchronizes: "synchronizes example_started example_snapshot None example_book"
  using example_from_snapshot
  by (simp add: synchronizes_def example_started_fields pending_def checksum_accepts_def)
    (simp add: example_config_def)

lemma example_live_reachable: "engine_reachable example_config example_live"
  unfolding example_live_def apply_snapshot_def
  by (intro reach_step [OF example_started_reachable] step_snapshot example_snapshot_value)

lemma example_live_fields:
  "en_state example_live = Synchronized" "en_book example_live = Some example_book"
  "en_session example_live = Some example_session" "en_config example_live = example_config"
  "en_last_observed_monotonic_ns example_live = 5"
proof -
  have wf: "engine_wf example_started" using reachable_wf [OF example_started_reachable] by simp
  have op: "snapshot_open example_started" by (simp add: snapshot_open_def example_started_fields)
  note correct = snapshot_open_correct [OF wf example_admitted op, of example_snapshot None None]
    example_snapshot_value [unfolded snapshot_value_def]
  have out: "snapshot_outcome example_started example_snapshot None
      (apply_snapshot_candidate example_snapshot example_session 5 None None example_started)"
    and rest: "keeps_identity example_started example_live" "en_last_observed_monotonic_ns example_live = 5"
    using correct by (simp_all add: example_live_def apply_snapshot_def)
  have "\<exists>b'. synchronizes example_started example_snapshot None b'" using example_synchronizes by blast
  then obtain b' where "en_state example_live = Synchronized" "en_book example_live = Some b'"
    "synchronizes example_started example_snapshot None b'"
    using out by (auto simp: snapshot_outcome_def example_live_def apply_snapshot_def)
  then show "en_state example_live = Synchronized" "en_book example_live = Some example_book"
    using synchronizes_unique [OF example_synchronizes] by auto
  show "en_session example_live = Some example_session" "en_config example_live = example_config"
    "en_last_observed_monotonic_ns example_live = 5"
    using rest by (simp_all add: keeps_identity_def example_started_fields)
qed

subsection \<open>Properties\<close>

text \<open>
  C18. Whatever sequence of calls an engine has seen, with whatever outcomes, it satisfies the
  invariant: a synchronized engine has a session, a strategy, a well-formed book and the checksum
  evidence its policy asks for; only a buffering engine has buffered deltas, all of them of the
  current session, validated and within both limits; no engine is left in the middle of a replay.
\<close>

theorem reachable_engine_invariant:
  assumes "engine_reachable c e"
  shows "engine_wf e \<and> en_config e = c"
  using reachable_wf [OF assms] .

theorem reachable_engine_invariant_witness: "engine_wf example_live \<and> en_config example_live = example_config"
  using reachable_engine_invariant [OF example_live_reachable] .

lemma view_of_reachable:
  assumes "engine_reachable c e" "snapshot_at now e = Ok v"
  shows "en_state e = Synchronized \<and> en_session e = Some (vw_session v)
    \<and> strictly_descending (vw_bids v) \<and> strictly_ascending (vw_asks v)
    \<and> length (vw_bids v) \<le> max_levels_per_side c \<and> length (vw_asks v) \<le> max_levels_per_side c
    \<and> (\<forall>l \<in> set (vw_bids v) \<union> set (vw_asks v). is_positive (lvl_price l) \<and> is_positive (lvl_quantity l))
    \<and> (checksum_policy c = Required \<longrightarrow> en_checksum_status e = Valid)
    \<and> (vw_l3_orders v \<noteq> [] \<longrightarrow> en_l3_checksum_status e = Valid)"
proof -
  obtain b s where v: "en_state e = Synchronized" "en_book e = Some b" "en_session e = Some s"
    "vw_bids v = bids_descending b" "vw_asks v = asks_ascending b" "vw_session v = s"
    "vw_l3_orders v = (case en_l3 e of None \<Rightarrow> [] | Some l3 \<Rightarrow> sorted_orders l3)"
    by (rule snapshot_at_Ok [OF assms(2)])
  have wf: "engine_wf e" "en_config e = c" using reachable_wf [OF assms(1)] by simp_all
  then have b: "l2_wf c b" using v(2) by (auto simp: engine_wf_def core_wf_def book_ok_def)
  have "state_wf e" using wf(1) by (simp add: engine_wf_def)
  then have "checksum_trusted e" "en_l3 e \<noteq> None \<longrightarrow> en_l3_checksum_status e = Valid"
    using v(1) by (simp_all add: state_wf_def)
  then have "checksum_policy c = Required \<longrightarrow> en_checksum_status e = Valid"
    "vw_l3_orders v \<noteq> [] \<longrightarrow> en_l3_checksum_status e = Valid"
    using wf(2) v(7) by (auto simp: checksum_trusted_def split: option.splits)
  then show ?thesis using view_levels [OF b] v by simp
qed

text \<open>
  C2. A book can be read only when it is trusted. A view of a reachable engine belongs to the
  engine's current session, its bids fall and its asks rise strictly, every level has a positive
  price and quantity, both sides are within the configured depth, a policy that requires checksums
  has a valid one, and level-three orders are shown only under a valid level-three checksum.
\<close>

theorem published_view_sound:
  assumes "engine_reachable c e" "snapshot_at now e = Ok v"
  shows "en_state e = Synchronized \<and> en_session e = Some (vw_session v)
    \<and> strictly_descending (vw_bids v) \<and> strictly_ascending (vw_asks v)
    \<and> length (vw_bids v) \<le> max_levels_per_side c \<and> length (vw_asks v) \<le> max_levels_per_side c
    \<and> (\<forall>l \<in> set (vw_bids v) \<union> set (vw_asks v). is_positive (lvl_price l) \<and> is_positive (lvl_quantity l))
    \<and> (checksum_policy c = Required \<longrightarrow> en_checksum_status e = Valid)
    \<and> (vw_l3_orders v \<noteq> [] \<longrightarrow> en_l3_checksum_status e = Valid)"
  using assms by (rule view_of_reachable)

theorem published_view_sound_witness:
  "\<exists>v. snapshot_at 5 example_live = Ok v \<and> strictly_descending (vw_bids v)"
proof -
  have "en_updated_monotonic_ns example_live \<le> 5"
    using reachable_wf [OF example_live_reachable] example_live_fields(5) by (simp add: engine_wf_def core_wf_def)
  then obtain v where v: "snapshot_at 5 example_live = Ok v"
    by (rule snapshot_at_readable [OF example_live_fields(1) _ example_live_fields(2,3)])
  then show ?thesis using published_view_sound [OF example_live_reachable v] by blast
qed

text \<open>
  C4. A delta is applied exactly when it should be: the session is current and the time has not
  gone back, the engine is synchronized, the delta is well formed, is newer than the book,
  continues it under the configured sequence policy and has an accepted checksum. The new book is
  then the old one with the delta applied, its sequence number the last of the delta.
\<close>

theorem delta_applied_iff:
  assumes "engine_reachable c e" "delta_value d"
    and "apply_delta_candidate d session now checksum previous latency e = (e', r)"
  shows "(r = Ok Applied \<longleftrightarrow> admitted session now e \<and> (\<exists>b'. delta_applies e d checksum previous b'))
    \<and> (r = Ok Applied \<longrightarrow> en_state e' = Synchronized
         \<and> (\<exists>b'. en_book e' = Some b' \<and> delta_applies e d checksum previous b'
               \<and> l2_sequence b' = delta_last_sequence d))"
proof (cases "admitted session now e")
  case False
  then show ?thesis using delta_not_admitted [OF False, of d checksum previous latency] assms(3) by auto
next
  case True
  have wf: "engine_wf e" using reachable_wf [OF assms(1)] by simp
  have "delta_outcome e d checksum previous (e', r)"
    using delta_correct [OF wf True, of d checksum previous latency] assms(2,3) by (simp add: delta_value_def)
  moreover have "l2_sequence b' = delta_last_sequence d" if "delta_applies e d checksum previous b'" for b'
    using that by (auto simp: delta_applies_def l2_apply_delta_sequence)
  ultimately show ?thesis using True by (auto simp: delta_outcome_def split: if_splits)
qed

lemma example_delta_value: "delta_value example_delta"
  using example_typed(2) by (simp add: delta_value_def example_delta_def u64_max_def)

lemma example_delta_applies: "\<exists>b'. delta_applies example_live example_delta None None b'"
proof -
  have v: "l2_validate_delta example_delta example_config = Ok ()" by code_simp
  then obtain b' where "l2_apply_delta example_book example_delta example_config = Ok b'"
    using l2_validate_delta_apply by blast
  then have "delta_applies example_live example_delta None None b'"
    using v by (simp add: delta_applies_def delta_valid_def example_live_fields checksum_accepts_def continues_def)
      (simp add: example_delta_def example_book_def example_config_def)
  then show ?thesis ..
qed

lemma example_live_admitted: "admitted example_session 6 example_live"
  by (simp add: admitted_def validate_current_session_def example_live_fields session_is_valid_def)
    (simp add: example_session_def example_config_def)

theorem delta_applied_iff_witness:
  "snd (apply_delta_candidate example_delta example_session 6 None None None example_live) = Ok Applied"
  using delta_applied_iff [OF example_live_reachable example_delta_value, of example_session 6 None None None
      "fst (apply_delta_candidate example_delta example_session 6 None None None example_live)"
      "snd (apply_delta_candidate example_delta example_session 6 None None None example_live)"]
    example_live_admitted example_delta_applies by simp

text \<open>
  C3. A snapshot refines the replay of the early deltas. It is applied exactly when the engine is
  open to a snapshot in the current session and a path leads from the snapshot's book through
  every buffered delta that is not stale, each continuing the one before it, all checksums
  accepted; the engine then holds the book at the end of that path. Otherwise an engine that was
  open to the snapshot is left untrusted.
\<close>

theorem snapshot_refines_replay:
  assumes "engine_reachable c e" "snapshot_value s"
    and "apply_snapshot_candidate s session now checksum latency e = (e', r)"
  shows "(r = Ok Applied \<longleftrightarrow> admitted session now e \<and> snapshot_open e \<and> (\<exists>b'. synchronizes e s checksum b'))
    \<and> (r = Ok Applied \<longrightarrow> en_state e' = Synchronized
         \<and> (\<exists>b'. en_book e' = Some b' \<and> synchronizes e s checksum b'))
    \<and> (r \<noteq> Ok Applied \<longrightarrow> admitted session now e \<longrightarrow> snapshot_open e \<longrightarrow> en_state e' = BookState.Untrusted)"
proof -
  have wf: "engine_wf e" using reachable_wf [OF assms(1)] by simp
  show ?thesis
  proof (cases "admitted session now e \<and> snapshot_open e")
    case True
    then have "snapshot_outcome e s checksum (e', r)"
      using snapshot_open_correct [OF wf, of session now s checksum latency] assms(2,3)
      by (simp add: snapshot_value_def)
    then show ?thesis using True by (auto simp: snapshot_outcome_def split: if_splits)
  next
    case False
    have "r \<noteq> Ok Applied"
    proof (cases "admitted session now e")
      case True
      then have "\<not> snapshot_open e" using False by simp
      then show ?thesis using snapshot_closed [OF wf True, of s checksum latency] assms(3) by auto
    next
      case False
      then show ?thesis using snapshot_not_admitted [OF False, of s checksum latency] assms(3) by auto
    qed
    then show ?thesis using False by blast
  qed
qed

theorem snapshot_refines_replay_witness:
  "snd (apply_snapshot_candidate example_snapshot example_session 5 None None example_started) = Ok Applied"
proof -
  have "snapshot_open example_started" by (simp add: snapshot_open_def example_started_fields)
  then show ?thesis
    using snapshot_refines_replay [OF example_started_reachable example_snapshot_value,
        of example_session 5 None None
        "fst (apply_snapshot_candidate example_snapshot example_session 5 None None example_started)"
        "snd (apply_snapshot_candidate example_snapshot example_session 5 None None example_started)"]
      example_admitted example_synchronizes by auto
qed

text \<open>
  C21. No failed delta leaves a readable book that could be wrong. A call with another session or
  an earlier time changes nothing; a duplicate or a delta before the snapshot changes neither the
  state nor the book; every other outcome but an application, whether a gap, a checksum mismatch
  or any error, leaves the engine untrusted, where no view can be taken.
\<close>

theorem failed_delta_withdraws_book:
  assumes "engine_reachable c e" "delta_value d"
    and "apply_delta_candidate d session now checksum previous latency e = (e', r)" "r \<noteq> Ok Applied"
  shows "if \<not> admitted session now e then e' = e
    else if r \<in> {Ok Duplicate, Ok ApplyResult.SnapshotRequired}
    then en_state e' = en_state e \<and> en_book e' = en_book e
    else \<forall>t. snapshot_at t e' = Err Untrusted"
proof (cases "admitted session now e")
  case False
  then show ?thesis using delta_not_admitted [OF False, of d checksum previous latency] assms(3) by auto
next
  case True
  have wf: "engine_wf e" using reachable_wf [OF assms(1)] by simp
  have "delta_outcome e d checksum previous (e', r)"
    using delta_correct [OF wf True, of d checksum previous latency] assms(2,3) by (simp add: delta_value_def)
  then have "r \<in> {Ok Duplicate, Ok ApplyResult.SnapshotRequired} \<and> en_state e' = en_state e \<and> en_book e' = en_book e
      \<or> r \<notin> {Ok Applied, Ok Duplicate, Ok ApplyResult.SnapshotRequired} \<and> en_state e' = BookState.Untrusted"
    using assms(4) by (simp add: delta_outcome_def split: if_splits)
  then show ?thesis using True by (auto simp: snapshot_at_def)
qed

definition example_gap :: BookDelta where
  "example_gap = example_delta\<lparr>delta_first_sequence := 9, delta_last_sequence := 9\<rparr>"

lemma example_gap_detected:
  "snd (apply_delta_candidate example_gap example_session 6 None None None example_live) = Ok GapDetected"
proof -
  have v: "l2_validate_delta example_gap example_config = Ok ()" by code_simp
  have "delta_valid (en_config example_live) example_gap None"
    using v by (simp add: delta_valid_def example_live_fields)
      (simp add: example_gap_def example_config_def)
  note dispatch = delta_dispatch [OF example_live_admitted this, of None None]
  have "sequenced example_gap" "l2_sequence example_book < delta_last_sequence example_gap"
    by (simp_all add: sequenced_def example_gap_def u64_max_def example_book_def)
  note seq = sequence_applies_eq [OF this(2,1)]
  have "\<not> continues (sequence_policy example_config) example_gap (l2_sequence example_book) False None"
    by (simp add: continues_def example_config_def example_gap_def example_book_def)
  then show ?thesis using \<open>l2_sequence example_book < delta_last_sequence example_gap\<close>
    by (simp add: dispatch example_live_fields advance_book_def and_do_def seq)
qed

lemma example_gap_value: "delta_value example_gap"
  using example_typed(2) by (simp add: delta_value_def delta_typed_def example_gap_def u64_max_def)

definition example_broken :: OrderBookEngine where
  "example_broken = fst (apply_delta_candidate example_gap example_session 6 None None None example_live)"

lemma example_broken_outcome:
  "apply_delta_candidate example_gap example_session 6 None None None example_live = (example_broken, Ok GapDetected)"
  by (simp add: prod_eq_iff example_broken_def example_gap_detected)

theorem failed_delta_withdraws_book_witness: "snapshot_at 7 example_broken = Err Untrusted"
  using failed_delta_withdraws_book [OF example_live_reachable example_gap_value example_broken_outcome]
    example_live_admitted by simp

lemma snapshot_trust:
  assumes wf: "engine_wf e" and s: "snapshot_value s" and old: "en_state e \<noteq> Synchronized"
    and new: "en_state (fst (apply_snapshot_candidate s session now checksum latency e)) = Synchronized"
  shows "admitted session now e \<and> (\<exists>b'. synchronizes e s checksum b'
    \<and> en_book (fst (apply_snapshot_candidate s session now checksum latency e)) = Some b')"
proof -
  have moved: "fst (apply_snapshot_candidate s session now checksum latency e) \<noteq> e'" if "en_state e' \<noteq> Synchronized" for e'
    using that new by auto
  have ad: "admitted session now e"
  proof (rule ccontr)
    assume "\<not> admitted session now e"
    then show False using snapshot_not_admitted [of session now e s checksum latency] moved [OF old] by auto
  qed
  have "snapshot_open e"
  proof (rule ccontr)
    assume "\<not> snapshot_open e"
    then show False
      using snapshot_closed [OF wf ad, of s checksum latency] moved [of "observed now latency e"] old by auto
  qed
  then have "snapshot_outcome e s checksum (apply_snapshot_candidate s session now checksum latency e)"
    using snapshot_open_correct [OF wf ad, of s checksum latency] s by (simp add: snapshot_value_def)
  then show ?thesis using ad new by (auto simp: snapshot_outcome_def split: if_splits)
qed

lemma delta_no_trust:
  assumes wf: "engine_wf e" and d: "delta_value d" and old: "en_state e \<noteq> Synchronized"
  shows "en_state (fst (apply_delta_candidate d session now checksum previous latency e)) \<noteq> Synchronized"
proof (cases "admitted session now e")
  case False
  then show ?thesis using delta_not_admitted [OF False, of d checksum previous latency] old by auto
next
  case True
  then have "delta_outcome e d checksum previous (apply_delta_candidate d session now checksum previous latency e)"
    using delta_correct [OF wf True, of d checksum previous latency] d by (simp add: delta_value_def)
  then show ?thesis using old by (auto simp: delta_outcome_def delta_applies_def split: if_splits)
qed

text \<open>
  C19. Only a snapshot makes an engine trusted: when one call takes an engine from any other state
  to the synchronized one, the call was a snapshot of the current session that was accepted, and
  the book is the one that snapshot and the replayed buffer determine.
\<close>

theorem only_snapshot_restores_trust:
  assumes "engine_reachable c e" "engine_step e e'" "en_state e \<noteq> Synchronized" "en_state e' = Synchronized"
  shows "\<exists>s session now checksum latency b'.
    e' = fst (apply_snapshot_candidate s session now checksum latency e)
    \<and> admitted session now e \<and> synchronizes e s checksum b' \<and> en_book e' = Some b'"
proof -
  have wf: "engine_wf e" using reachable_wf [OF assms(1)] by simp
  show ?thesis
    using assms(2)
  proof (cases rule: engine_step.cases)
    case (step_start session strategy)
    then show ?thesis using assms(3,4)
      by (cases strategy) (auto simp: start_session_def and_do_reading Let_def split: sum.splits)
  next
    case step_disconnect
    then show ?thesis using assms(4) by (simp add: disconnect_def)
  next
    case step_resync
    then show ?thesis using assms(3,4) by (auto simp: begin_resync_def split: if_splits)
  next
    case (step_snapshot s session now checksum latency)
    then obtain b' where "admitted session now e" "synchronizes e s checksum b'" "en_book e' = Some b'"
      using snapshot_trust [OF wf step_snapshot(2) assms(3), of session now checksum latency] assms(4) by auto
    then show ?thesis using step_snapshot(1) by blast
  next
    case (step_delta d session now checksum previous latency)
    then show ?thesis
      using delta_no_trust [OF wf step_delta(2) assms(3), of session now checksum previous latency] assms(4) by simp
  qed (use assms(3,4) l3_unchecked_kept [OF wf] l3_snapshot_kept [OF wf] l3_events_kept [OF wf] in
      \<open>simp_all add: apply_l3_snapshot_def apply_l3_events_def l3_kept_def keeps_book_def\<close>)
qed

theorem only_snapshot_restores_trust_witness:
  "\<exists>s session now checksum latency b'.
    example_live = fst (apply_snapshot_candidate s session now checksum latency example_started)
    \<and> admitted session now example_started \<and> synchronizes example_started s checksum b'
    \<and> en_book example_live = Some b'"
proof (rule only_snapshot_restores_trust [OF example_started_reachable])
  show "engine_step example_started example_live"
    unfolding example_live_def apply_snapshot_def by (intro step_snapshot example_snapshot_value)
qed (simp_all add: example_started_fields example_live_fields)

lemma unbuffered_snapshot_time:
  assumes "admitted session now e" "en_buffered e = []"
    and "snd (apply_snapshot_candidate s session now checksum latency e) = Ok Applied"
  shows "en_updated_monotonic_ns (fst (apply_snapshot_candidate s session now checksum latency e)) = now"
  using assms(2,3)
  unfolding apply_snapshot_candidate_def prologue Let_def observed_def [symmetric] if_P [OF assms(1)]
  by (auto simp: validate_checksum_def and_do_def split: if_splits option.splits sum.splits bool.splits)

text \<open>
  C20. An untrusted engine whose snapshots come from outside the stream can always recover: it accepts
  a resynchronization, and the next acceptable snapshot for its session, not earlier than what it has
  observed, makes it publish exactly the levels of that snapshot at the snapshot's sequence number and
  at the time the snapshot was applied. An engine that is fed snapshots by the stream refuses the
  resynchronization and stays as it is.
\<close>

theorem resync_recovers:
  assumes "engine_reachable c e" "en_state e = BookState.Untrusted" "en_strategy e = Some ExternalBuffered"
    and "en_session e = Some session" "en_last_observed_monotonic_ns e \<le> now"
    and "snapshot_value s" "l2_from_snapshot s c = Ok b" "checksum_accepts c b checksum"
  shows "snd (begin_resync e) = Ok ()
    \<and> snd (apply_snapshot_candidate s session now checksum latency (fst (begin_resync e))) = Ok Applied
    \<and> (\<exists>v. engine_snapshot (fst (apply_snapshot_candidate s session now checksum latency (fst (begin_resync e)))) = Ok v
         \<and> vw_bids v = snap_bids s \<and> vw_asks v = snap_asks s
         \<and> vw_last_source_sequence v = snap_last_sequence s \<and> vw_session v = session \<and> vw_updated_monotonic_ns v = now)
    \<and> begin_resync (e\<lparr>en_strategy := Some StreamSnapshot\<rparr>) = (e\<lparr>en_strategy := Some StreamSnapshot\<rparr>, Err InvalidTransition)"
proof -
  let ?e = "fst (begin_resync e)"
  let ?out = "apply_snapshot_candidate s session now checksum latency ?e"
  have wf0: "engine_wf e" "en_config e = c" using reachable_wf [OF assms(1)] by simp_all
  have resync: "snd (begin_resync e) = Ok ()" "en_state ?e = Buffering" "en_strategy ?e = Some ExternalBuffered"
    "en_buffered ?e = []" "en_session ?e = Some session" "en_config ?e = c"
    "en_last_observed_monotonic_ns ?e = en_last_observed_monotonic_ns e"
    using assms(2-4) wf0(2) by (simp_all add: begin_resync_def)
  have wf: "engine_wf ?e" by (rule begin_resync_wf [OF wf0(1)])
  have "session_ok c session" using wf0 assms(4) by (auto simp: engine_wf_def core_wf_def)
  then have ad: "admitted session now ?e"
    using assms(5) resync by (simp add: admitted_def validate_current_session_def session_ok_def)
  have op: "snapshot_open ?e" by (simp add: snapshot_open_def resync)
  have sync: "synchronizes ?e s checksum b"
    using assms(7,8) resync by (simp add: synchronizes_def pending_def)
  have out: "engine_wf (fst ?out)" "keeps_identity ?e (fst ?out)" "snapshot_outcome ?e s checksum ?out"
    using snapshot_open_correct [OF wf ad op, of s checksum latency] assms(6) by (simp_all add: snapshot_value_def)
  then obtain b' where b': "snd ?out = Ok Applied" "en_state (fst ?out) = Synchronized"
    "en_book (fst ?out) = Some b'" "synchronizes ?e s checksum b'"
    using sync by (auto simp: snapshot_outcome_def split: if_splits)
  then have book: "en_book (fst ?out) = Some b" using synchronizes_unique [OF sync b'(4)] by simp
  have session: "en_session (fst ?out) = Some session" using out(2) resync by (simp add: keeps_identity_def)
  obtain v where v: "engine_snapshot (fst ?out) = Ok v"
    unfolding engine_snapshot_def by (rule snapshot_at_readable [OF b'(2) order_refl book session])
  have "vw_bids v = bids_descending b" "vw_asks v = asks_ascending b" "vw_last_source_sequence v = l2_sequence b"
    "vw_session v = session" "vw_updated_monotonic_ns v = en_updated_monotonic_ns (fst ?out)"
    using snapshot_at_Ok [OF v [unfolded engine_snapshot_def]] book session by auto
  moreover have "en_updated_monotonic_ns (fst ?out) = now" by (rule unbuffered_snapshot_time [OF ad resync(4) b'(1)])
  moreover have "bids_descending b = snap_bids s" "asks_ascending b = snap_asks s" "l2_sequence b = snap_last_sequence s"
    using l2_from_snapshot_Ok [OF assms(7)] assms(6)
    by (simp_all add: snapshot_value_def bids_descending_def asks_ascending_def comp_def)
  moreover have "begin_resync (e\<lparr>en_strategy := Some StreamSnapshot\<rparr>) = (e\<lparr>en_strategy := Some StreamSnapshot\<rparr>, Err InvalidTransition)"
    by (simp add: begin_resync_def)
  ultimately show ?thesis using resync(1) b'(1) v by (intro conjI exI [of _ v]) simp_all
qed

theorem resync_recovers_witness:
  "snd (apply_snapshot_candidate example_snapshot example_session 9 None None (fst (begin_resync example_broken)))
    = Ok Applied"
proof -
  have reach: "engine_reachable example_config example_broken"
    unfolding example_broken_def by (intro reach_step [OF example_live_reachable] step_delta example_gap_value)
  have wf: "engine_wf example_live" using reachable_wf [OF example_live_reachable] by simp
  have "\<not> delta_applies example_live example_gap None None b'" for b'
    by (simp add: delta_applies_def example_live_fields continues_def)
      (simp add: example_config_def example_gap_def example_book_def)
  then have fields: "en_state example_broken = BookState.Untrusted" "keeps_identity example_live example_broken"
    "en_last_observed_monotonic_ns example_broken = 6"
    using delta_correct [OF wf example_live_admitted, of example_gap None None None] example_gap_value
    by (simp_all add: delta_value_def delta_outcome_def example_broken_outcome)
  have "en_strategy example_live = Some ExternalBuffered"
    using snapshot_step_wf [OF _ example_snapshot_value, of example_started example_session 5 None None]
      reachable_wf [OF example_started_reachable]
    by (simp add: example_live_def apply_snapshot_def keeps_identity_def example_started_fields)
  then have "en_strategy example_broken = Some ExternalBuffered" "en_session example_broken = Some example_session"
    using fields(2) by (simp_all add: keeps_identity_def example_live_fields)
  moreover have "checksum_accepts example_config example_book None"
    by (simp add: checksum_accepts_def example_config_def)
  ultimately show ?thesis
    using resync_recovers [OF reach fields(1) _ _ _ example_snapshot_value example_from_snapshot, of example_session 9 None None]
      fields(3) by simp
qed

end
