(* ===== verification/Event_Payload.thy ===== *)
theory Event_Payload
  imports L2_Book "HOL-Library.Sublist"
begin

text \<open>
  The normalized records of the event contract (\<open>event-envelope/src/payload.rs\<close> and
  \<open>quality.rs\<close>) and their validation. A text is the list of its UTF-8 bytes. The wrappers
  \<open>Rate\<close> and \<open>Notional\<close> are their decimal and \<open>QualityFlags\<close> its bits.
\<close>

type_synonym Rate = FixedDecimal
type_synonym Notional = FixedDecimal
type_synonym QualityFlags = nat

datatype EventError =
    InvalidMetadata string
  | InvalidPayload string
  | SequenceMismatch
  | IdentityMismatch
  | EventTypeMismatch
  | CanonicalFieldTooLarge
  | WireTooLarge
  | InvalidWire

definition MAX_TEXT :: nat where "MAX_TEXT = 4096"
definition MAX_COLLECTION :: nat where "MAX_COLLECTION = 10000"
definition MAX_PRIORITY :: nat where "MAX_PRIORITY = 3"
definition MAX_QUALITY_SCORE_PPM :: nat where "MAX_QUALITY_SCORE_PPM = 1000000"

subsection \<open>Texts\<close>

abbreviation bytes :: "nat list \<Rightarrow> string" where
  "bytes ns \<equiv> map char_of ns"

text \<open>
  The encodings of the characters with the Unicode property \<open>White_Space\<close>, which \<open>str::trim\<close>
  removes. UTF-8 synchronises itself, so a text ends in such a character exactly when its bytes
  end in the character's encoding.
\<close>

definition whitespace_encodings :: "string list" where
  "whitespace_encodings =
     map (\<lambda>n. bytes [n]) [9, 10, 11, 12, 13, 32]
     @ [bytes [194, 133], bytes [194, 160], bytes [225, 154, 128]]
     @ map (\<lambda>n. bytes [226, 128, n]) [128, 129, 130, 131, 132, 133, 134, 135, 136, 137, 138, 168, 169, 175]
     @ [bytes [226, 129, 159], bytes [227, 128, 128]]"

definition is_trimmed :: "string \<Rightarrow> bool" where
  "is_trimmed v \<longleftrightarrow> list_all (\<lambda>w. \<not> prefix w v \<and> \<not> suffix w v) whitespace_encodings"

text \<open>\<open>char::is_control\<close>: the code points 0 to 31, 127 and 128 to 159.\<close>

fun has_control :: "string \<Rightarrow> bool" where
  "has_control [] \<longleftrightarrow> False"
| "has_control (c # cs) \<longleftrightarrow>
     (of_char c :: nat) < 32 \<or> (of_char c :: nat) = 127
     \<or> (of_char c :: nat) = 194 \<and> (case cs of [] \<Rightarrow> False | d # _ \<Rightarrow> 128 \<le> (of_char d :: nat) \<and> (of_char d :: nat) < 160)
     \<or> has_control cs"

definition validate_text :: "string \<Rightarrow> string \<Rightarrow> (unit, EventError) result" where
  "validate_text v field =
     (if v = [] \<or> length v > MAX_TEXT \<or> has_control v \<or> \<not> is_trimmed v
      then Err (InvalidPayload field) else Ok ())"

definition validate_optional_text :: "string option \<Rightarrow> string \<Rightarrow> (unit, EventError) result" where
  "validate_optional_text v field =
     (case v of None \<Rightarrow> Ok () | Some t \<Rightarrow> validate_text t field)"

fun validate_texts :: "(string \<times> string) list \<Rightarrow> (unit, EventError) result" where
  "validate_texts [] = Ok ()"
| "validate_texts ((v, field) # rest) = and_then (validate_text v field) (\<lambda>_. validate_texts rest)"

subsection \<open>Scores, rates and intervals\<close>

definition validate_score :: "nat \<Rightarrow> string \<Rightarrow> (unit, EventError) result" where
  "validate_score v field = (if v > 1000000 then Err (InvalidPayload field) else Ok ())"

fun validate_scores :: "(nat \<times> string) list \<Rightarrow> (unit, EventError) result" where
  "validate_scores [] = Ok ()"
| "validate_scores ((v, field) # rest) = and_then (validate_score v field) (\<lambda>_. validate_scores rest)"

definition validate_interval :: "UnixNanos \<Rightarrow> UnixNanos \<Rightarrow> string \<Rightarrow> (unit, EventError) result" where
  "validate_interval start end_time field = (if end_time \<le> start then Err (InvalidPayload field) else Ok ())"

definition validate_unit_rate :: "Rate \<Rightarrow> string \<Rightarrow> (unit, EventError) result" where
  "validate_unit_rate v field =
     and_then (map_err (decimal_new (-1) 0) (\<lambda>_. InvalidPayload field)) (\<lambda>negative_one.
     and_then (map_err (decimal_new 1 0) (\<lambda>_. InvalidPayload field)) (\<lambda>one.
       if decimal_cmp v negative_one = Less \<or> decimal_cmp v one = Greater
       then Err (InvalidPayload field) else Ok ()))"

subsection \<open>Market records\<close>

datatype Side = Buy | Sell | Unknown

record Trade =
  tr_trade_id :: string
  tr_price :: Price
  tr_quantity :: Quantity
  tr_side :: Side

record TopOfBook =
  tob_bid :: "BookLevel option"
  tob_ask :: "BookLevel option"

definition level_has_zero :: "BookLevel option \<Rightarrow> bool" where
  "level_has_zero level = (case level of None \<Rightarrow> False | Some l \<Rightarrow> is_zero (lvl_quantity l))"

definition top_of_book_validate :: "TopOfBook \<Rightarrow> (unit, EventError) result" where
  "top_of_book_validate v =
     (if tob_bid v = None \<and> tob_ask v = None then Err (InvalidPayload ''top of book'')
      else if (case (tob_bid v, tob_ask v) of
                 (Some bid, Some ask) \<Rightarrow> decimal_cmp (lvl_price bid) (lvl_price ask) \<noteq> Less
               | _ \<Rightarrow> False)
              \<or> level_has_zero (tob_bid v) \<or> level_has_zero (tob_ask v)
      then Err (InvalidPayload ''top of book state'')
      else Ok ())"

record FundingObservation =
  fund_funding_rate :: Rate
  fund_observed_at :: UnixNanos
  fund_next_funding_time :: "UnixNanos option"

definition funding_validate :: "FundingObservation \<Rightarrow> (unit, EventError) result" where
  "funding_validate v =
     (case fund_next_funding_time v of
        None \<Rightarrow> Ok ()
      | Some next \<Rightarrow> if next \<le> fund_observed_at v then Err (InvalidPayload ''funding time'') else Ok ())"

record OpenInterestObservation =
  oi_quantity :: Quantity
  oi_quote_notional :: "Notional option"
  oi_observed_at :: UnixNanos

record LiquidationObservation =
  liq_liquidation_id :: string
  liq_price :: Price
  liq_quantity :: Quantity
  liq_side :: Side

definition liquidation_validate :: "LiquidationObservation \<Rightarrow> (unit, EventError) result" where
  "liquidation_validate v =
     and_then (validate_text (liq_liquidation_id v) ''liquidation id'') (\<lambda>_.
       if is_zero (liq_quantity v) \<or> liq_side v = Unknown then Err (InvalidPayload ''liquidation'') else Ok ())"

record MarkIndexObservation =
  mi_mark_price :: Price
  mi_index_price :: Price

record FutureBasisObservation =
  fb_future_price :: Price
  fb_reference_price :: Price
  fb_basis_rate :: Rate
  fb_annualized_basis_rate :: "Rate option"

record OptionTicker =
  ot_bid_price :: "Price option"
  ot_ask_price :: "Price option"
  ot_mark_price :: Price
  ot_mark_iv :: Rate
  ot_delta :: Rate
  ot_open_interest :: Quantity

definition option_ticker_validate :: "OptionTicker \<Rightarrow> (unit, EventError) result" where
  "option_ticker_validate v =
     (if (case (ot_bid_price v, ot_ask_price v) of
            (Some bid, Some ask) \<Rightarrow> decimal_cmp bid ask = Greater
          | _ \<Rightarrow> False)
         \<or> is_negative (ot_mark_iv v)
      then Err (InvalidPayload ''option ticker'')
      else validate_unit_rate (ot_delta v) ''option delta'')"

record OptionTrade =
  otr_trade_id :: string
  otr_price :: Price
  otr_quantity :: Quantity
  otr_side :: Side
  otr_implied_volatility :: "Rate option"

definition option_trade_validate :: "OptionTrade \<Rightarrow> (unit, EventError) result" where
  "option_trade_validate v =
     and_then (validate_text (otr_trade_id v) ''option trade id'') (\<lambda>_.
       if is_zero (otr_quantity v)
          \<or> (case otr_implied_volatility v of None \<Rightarrow> False | Some iv \<Rightarrow> is_negative iv)
       then Err (InvalidPayload ''option trade'') else Ok ())"

datatype VenueState = Operational | Degraded | Maintenance | Auction | Suspended | Offline

record VenueStatus =
  vs_state :: VenueState
  vs_observed_at :: UnixNanos
  vs_message :: "string option"

definition venue_status_validate :: "VenueStatus \<Rightarrow> (unit, EventError) result" where
  "venue_status_validate v = validate_optional_text (vs_message v) ''venue status message''"

subsection \<open>Chain records\<close>

datatype FinalityState = Unconfirmed | Confirmed | Finalized | Reverted

record ChainBlock =
  cb_chain :: AssetId
  cb_block_hash :: string
  cb_parent_hash :: "string option"
  cb_height :: nat
  cb_block_time :: UnixNanos
  cb_confirmation_depth :: nat
  cb_finality :: FinalityState
  cb_transaction_count :: nat

definition chain_block_validate :: "ChainBlock \<Rightarrow> (unit, EventError) result" where
  "chain_block_validate v =
     and_then (validate_text (cb_block_hash v) ''block hash'') (\<lambda>_.
     and_then (validate_optional_text (cb_parent_hash v) ''parent hash'') (\<lambda>_. Ok ()))"

record ChainTransactionAggregate =
  ca_chain :: AssetId
  ca_interval_start :: UnixNanos
  ca_interval_end :: UnixNanos
  ca_transaction_count :: nat
  ca_transferred_value :: "Notional option"
  ca_fee_total :: "Notional option"

definition chain_aggregate_validate :: "ChainTransactionAggregate \<Rightarrow> (unit, EventError) result" where
  "chain_aggregate_validate v =
     validate_interval (ca_interval_start v) (ca_interval_end v) ''chain transaction interval''"

record ChainMempoolObservation =
  mp_chain :: AssetId
  mp_observed_at :: UnixNanos
  mp_transaction_count :: nat
  mp_virtual_size :: nat
  mp_total_fees :: "Notional option"

record ChainMetric =
  cm_chain :: AssetId
  cm_metric_name :: string
  cm_value :: FixedDecimal
  cm_observed_at :: UnixNanos

definition chain_metric_validate :: "ChainMetric \<Rightarrow> (unit, EventError) result" where
  "chain_metric_validate v = validate_text (cm_metric_name v) ''chain metric name''"

subsection \<open>External and structured records\<close>

record ExternalMarketObservation =
  em_market_id :: string
  em_value :: FixedDecimal
  em_observed_at :: UnixNanos
  em_source_native_id :: "string option"

definition external_market_validate :: "ExternalMarketObservation \<Rightarrow> (unit, EventError) result" where
  "external_market_validate v =
     and_then (validate_text (em_market_id v) ''external market id'') (\<lambda>_.
       validate_optional_text (em_source_native_id v) ''source native id'')"

record StructuredFact =
  sf_key :: string
  sf_value :: string

record StructuredEvent =
  se_structured_event_id :: string
  se_event_type :: string
  se_affected_assets :: "AssetId list"
  se_affected_venues :: "VenueId list"
  se_affected_protocols :: "string list"
  se_source_identity :: SourceId
  se_source_reliability_ppm :: nat
  se_publication_time :: UnixNanos
  se_effective_time :: "UnixNanos option"
  se_expected_end_time :: "UnixNanos option"
  se_direction_prior :: Rate
  se_severity_ppm :: nat
  se_extraction_confidence_ppm :: nat
  se_human_verified :: bool
  se_source_document_hash :: string
  se_extractor_model_id :: string
  se_extractor_prompt_version :: string
  se_extracted_facts :: "StructuredFact list"

definition zero_hash :: string where
  "zero_hash = replicate 32 (char_of (0 :: nat))"

definition structured_shape_error :: "StructuredEvent \<Rightarrow> bool" where
  "structured_shape_error v \<longleftrightarrow>
     se_source_document_hash v = zero_hash
     \<or> length (se_affected_assets v) > MAX_COLLECTION
     \<or> length (se_affected_venues v) > MAX_COLLECTION
     \<or> length (se_affected_protocols v) > MAX_COLLECTION
     \<or> length (se_extracted_facts v) > MAX_COLLECTION
     \<or> (case (se_effective_time v, se_expected_end_time v) of
          (Some effective, Some end_time) \<Rightarrow> end_time \<le> effective
        | _ \<Rightarrow> False)"

definition structured_event_validate :: "StructuredEvent \<Rightarrow> (unit, EventError) result" where
  "structured_event_validate v =
     and_then (validate_texts
       [(se_structured_event_id v, ''structured event id''), (se_event_type v, ''structured event type''),
        (se_extractor_model_id v, ''extractor model id''),
        (se_extractor_prompt_version v, ''extractor prompt version'')]) (\<lambda>_.
     and_then (validate_scores
       [(se_source_reliability_ppm v, ''source reliability''), (se_severity_ppm v, ''severity''),
        (se_extraction_confidence_ppm v, ''extraction confidence'')]) (\<lambda>_.
     and_then (validate_unit_rate (se_direction_prior v) ''direction prior'') (\<lambda>_.
       if structured_shape_error v then Err (InvalidPayload ''structured event'')
       else and_then (validate_texts (map (\<lambda>p. (p, ''affected protocol'')) (se_affected_protocols v))) (\<lambda>_.
            validate_texts (concat (map (\<lambda>f. [(sf_key f, ''structured fact key''),
                                               (sf_value f, ''structured fact value'')])
              (se_extracted_facts v)))))))"

record DataQualityObservation =
  dq_component :: string
  dq_observed_at :: UnixNanos
  dq_score_ppm :: nat
  dq_flags :: QualityFlags
  dq_details :: "string option"

definition data_quality_validate :: "DataQualityObservation \<Rightarrow> (unit, EventError) result" where
  "data_quality_validate v =
     and_then (validate_text (dq_component v) ''quality component'') (\<lambda>_.
     and_then (validate_score (dq_score_ppm v) ''quality score'') (\<lambda>_.
       validate_optional_text (dq_details v) ''quality details''))"

subsection \<open>Forecasts and alerts\<close>

datatype AvailabilityState = Available | Degraded | Unavailable | Abstained

record PredictionRecord =
  pr_forecast_id :: string
  pr_issued_at :: UnixNanos
  pr_entity_id :: string
  pr_model_package_id :: string
  pr_forecast_schema_version :: nat
  pr_prediction_event_type :: string
  pr_horizon_seconds :: nat
  pr_calibrated_probability_ppm :: nat
  pr_raw_score :: Rate
  pr_base_rate_ppm :: nat
  pr_lower_uncertainty_ppm :: nat
  pr_upper_uncertainty_ppm :: nat
  pr_availability :: AvailabilityState
  pr_quality_score_ppm :: nat
  pr_applicability_score_ppm :: nat
  pr_scenario_summary_id :: string
  pr_evidence_bundle_id :: string
  pr_supersedes_forecast_id :: "string option"

definition prediction_validate :: "PredictionRecord \<Rightarrow> (unit, EventError) result" where
  "prediction_validate v =
     and_then (validate_texts
       [(pr_forecast_id v, ''forecast id''), (pr_entity_id v, ''forecast entity id''),
        (pr_model_package_id v, ''model package id''), (pr_prediction_event_type v, ''prediction event type''),
        (pr_scenario_summary_id v, ''scenario summary id''),
        (pr_evidence_bundle_id v, ''evidence bundle id'')]) (\<lambda>_.
     and_then (validate_optional_text (pr_supersedes_forecast_id v) ''superseded forecast id'') (\<lambda>_.
     and_then (validate_scores
       [(pr_calibrated_probability_ppm v, ''calibrated probability''), (pr_base_rate_ppm v, ''base rate''),
        (pr_lower_uncertainty_ppm v, ''lower uncertainty''), (pr_upper_uncertainty_ppm v, ''upper uncertainty''),
        (pr_quality_score_ppm v, ''forecast quality''),
        (pr_applicability_score_ppm v, ''forecast applicability'')]) (\<lambda>_.
       if pr_forecast_schema_version v = 0 \<or> pr_horizon_seconds v = 0
          \<or> pr_lower_uncertainty_ppm v > pr_calibrated_probability_ppm v
          \<or> pr_calibrated_probability_ppm v > pr_upper_uncertainty_ppm v
       then Err (InvalidPayload ''prediction record'') else Ok ())))"

datatype AlertStatus = Triggered | Updated | Recovered | Acknowledged

record AlertEvent =
  al_alert_id :: string
  al_rule_id :: string
  al_status :: AlertStatus
  al_priority :: nat
  al_triggered_at :: UnixNanos
  al_recovered_at :: "UnixNanos option"
  al_forecast_id :: "string option"
  al_message :: string

definition alert_validate :: "AlertEvent \<Rightarrow> (unit, EventError) result" where
  "alert_validate v =
     and_then (validate_texts
       [(al_alert_id v, ''alert id''), (al_rule_id v, ''alert rule id''), (al_message v, ''alert message'')]) (\<lambda>_.
     and_then (validate_optional_text (al_forecast_id v) ''alert forecast id'') (\<lambda>_.
       if al_priority v > MAX_PRIORITY
          \<or> (case al_recovered_at v of None \<Rightarrow> False | Some recovered \<Rightarrow> recovered < al_triggered_at v)
          \<or> al_status v = Recovered \<and> al_recovered_at v = None
          \<or> al_status v \<noteq> Recovered \<and> al_recovered_at v \<noteq> None
       then Err (InvalidPayload ''alert event'') else Ok ()))"

end
