(* ===== verification/Bytes.thy ===== *)
theory Bytes
  imports Prelude
begin

text \<open>
  Big-endian bytes of machine integers, shared by the canonical event encoding and the write-ahead
  log. A byte is a \<open>char\<close> and a slice is a list of them. The locale \<open>wire_field\<close> states what a
  fixed-width field promises: writing it and reading it back are inverse in both directions. Every
  integer width the sources write is an instance.
\<close>

definition u16_max :: nat where "u16_max = 2 ^ 16 - 1"

subsection \<open>Conversions\<close>

text \<open>\<open>to_be_bytes\<close> of a value of \<open>k\<close> bytes, and \<open>from_be_bytes\<close>.\<close>

fun to_be_bytes :: "nat \<Rightarrow> nat \<Rightarrow> string" where
  "to_be_bytes 0 n = []"
| "to_be_bytes (Suc k) n = to_be_bytes k (n div 256) @ [char_of (n mod 256)]"

definition from_be_bytes :: "string \<Rightarrow> nat" where
  "from_be_bytes bs = foldl (\<lambda>n c. n * 256 + of_char c) 0 bs"

text \<open>Signed 64-bit values are written as the bytes of their two's complement.\<close>

definition i64_to_be_bytes :: "int \<Rightarrow> string" where
  "i64_to_be_bytes v = to_be_bytes 8 (nat (v mod 2 ^ 64))"

definition i64_from_be_bytes :: "string \<Rightarrow> int" where
  "i64_from_be_bytes bs =
     (let n = from_be_bytes bs in if n < 2 ^ 63 then int n else int n - 2 ^ 64)"

text \<open>The slice of \<open>k\<close> bytes at an offset.\<close>

definition slice_at :: "nat \<Rightarrow> nat \<Rightarrow> string \<Rightarrow> string" where
  "slice_at offset k bytes = take k (drop offset bytes)"

definition be_at :: "nat \<Rightarrow> nat \<Rightarrow> string \<Rightarrow> nat" where
  "be_at offset k bytes = from_be_bytes (slice_at offset k bytes)"

subsection \<open>Rules\<close>

lemma length_be_bytes [simp]: "length (to_be_bytes k n) = k"
  by (induction k arbitrary: n) simp_all

lemma from_be_bytes_simps [simp]:
  "from_be_bytes [] = 0"
  "from_be_bytes (bs @ [c]) = from_be_bytes bs * 256 + of_char c"
  by (simp_all add: from_be_bytes_def)

lemma from_be_bytes_less: "from_be_bytes bs < 256 ^ length bs"
proof (induction bs rule: rev_induct)
  case (snoc c bs)
  have "from_be_bytes bs * 256 + of_char c < (from_be_bytes bs + 1) * 256" by simp
  also have "\<dots> \<le> 256 ^ length bs * 256" using snoc by (simp add: Suc_le_eq del: mult_Suc)
  finally show ?case by (simp only: from_be_bytes_simps length_append_singleton power_Suc2)
qed simp

lemma to_from_be_bytes: "to_be_bytes (length bs) (from_be_bytes bs) = bs"
  by (induction bs rule: rev_induct) simp_all

lemma from_to_be_bytes: "n < 256 ^ k \<Longrightarrow> from_be_bytes (to_be_bytes k n) = n"
proof (induction k arbitrary: n)
  case (Suc k)
  have "from_be_bytes (to_be_bytes k (n div 256)) = n div 256"
    using Suc.prems by (intro Suc.IH less_mult_imp_div_less) (simp only: power_Suc2)
  then show ?case by simp
qed simp

lemma be_bytes_inj:
  "m < 256 ^ k \<Longrightarrow> n < 256 ^ k \<Longrightarrow> to_be_bytes k m = to_be_bytes k n \<Longrightarrow> m = n"
  by (metis from_to_be_bytes)

lemma length_slice_at [simp]: "length (slice_at off k bs) = min k (length bs - off)"
  by (simp add: slice_at_def)

lemma slice_at_skip: "length front \<le> off \<Longrightarrow> slice_at off k (front @ rest) = slice_at (off - length front) k rest"
  by (simp add: slice_at_def)

lemma slice_at_front: "length front = k \<Longrightarrow> slice_at 0 k (front @ rest) = front"
  by (simp add: slice_at_def)

lemma slice_at_append: "slice_at off j bs @ slice_at (off + j) k bs = slice_at off (j + k) bs"
  by (simp add: slice_at_def take_add add.commute)

lemma slice_at_0: "slice_at 0 k bs = take k bs"
  by (simp add: slice_at_def)

lemma slice_at_take: "off + k \<le> n \<Longrightarrow> slice_at off k (take n bs) = slice_at off k bs"
  by (simp add: slice_at_def drop_take)

lemma drop_slice_at: "drop k (slice_at off n bs) = slice_at (off + k) (n - k) bs"
  by (simp add: slice_at_def drop_take add.commute)

lemma split_at: "n + k \<le> length bs \<Longrightarrow> take n bs @ slice_at n k bs @ drop (n + k) bs = bs"
  by (metis append_assoc append_take_drop_id slice_at_0 slice_at_append add_0)

subsection \<open>Fixed-width fields\<close>

locale wire_field =
  fixes enc :: "'a \<Rightarrow> string" and dec :: "string \<Rightarrow> 'a" and width :: nat and valid :: "'a \<Rightarrow> bool"
  assumes width: "length (enc v) = width"
    and read_back: "valid v \<Longrightarrow> dec (enc v) = v"
    and write_back: "length bs = width \<Longrightarrow> enc (dec bs) = bs"
    and dec_valid: "length bs = width \<Longrightarrow> valid (dec bs)"
begin

lemma enc_inj: "valid v \<Longrightarrow> valid u \<Longrightarrow> enc v = enc u \<Longrightarrow> v = u"
  using read_back by metis

lemma read_front: "valid v \<Longrightarrow> dec (take width (enc v @ rest)) = v"
  by (simp add: width read_back)

lemma read_next:
  "length front = off \<Longrightarrow> valid v \<Longrightarrow> dec (slice_at off width (front @ enc v @ rest)) = v"
  by (simp add: slice_at_def width read_back)

lemma write_slice: "off + width \<le> length bs \<Longrightarrow> enc (dec (slice_at off width bs)) = slice_at off width bs"
  by (rule write_back) simp

lemma slice_valid: "off + width \<le> length bs \<Longrightarrow> valid (dec (slice_at off width bs))"
  by (rule dec_valid) simp

end

interpretation be16: wire_field "to_be_bytes 2" from_be_bytes 2 "\<lambda>n. n \<le> u16_max"
proof
  fix bs :: string assume "length bs = 2"
  then show "to_be_bytes 2 (from_be_bytes bs) = bs" "from_be_bytes bs \<le> u16_max"
    using to_from_be_bytes [of bs] from_be_bytes_less [of bs] by (simp_all add: u16_max_def)
qed (simp_all add: from_to_be_bytes u16_max_def)

interpretation be32: wire_field "to_be_bytes 4" from_be_bytes 4 "\<lambda>n. n \<le> u32_max"
proof
  fix bs :: string assume "length bs = 4"
  then show "to_be_bytes 4 (from_be_bytes bs) = bs" "from_be_bytes bs \<le> u32_max"
    using to_from_be_bytes [of bs] from_be_bytes_less [of bs] by (simp_all add: u32_max_def)
qed (simp_all add: from_to_be_bytes u32_max_def)

interpretation be64: wire_field "to_be_bytes 8" from_be_bytes 8 "\<lambda>n. n \<le> u64_max"
proof
  fix bs :: string assume "length bs = 8"
  then show "to_be_bytes 8 (from_be_bytes bs) = bs" "from_be_bytes bs \<le> u64_max"
    using to_from_be_bytes [of bs] from_be_bytes_less [of bs] by (simp_all add: u64_max_def)
qed (simp_all add: from_to_be_bytes u64_max_def)

interpretation bei64: wire_field i64_to_be_bytes i64_from_be_bytes 8 "\<lambda>v. i64_min \<le> v \<and> v \<le> i64_max"
proof
  fix v :: int assume v: "i64_min \<le> v \<and> v \<le> i64_max"
  have "nat (v mod 2 ^ 64) < 256 ^ 8"
    using pos_mod_bound [of "2 ^ 64" v] by (simp add: nat_less_iff)
  then have "from_be_bytes (i64_to_be_bytes v) = nat (v mod 2 ^ 64)"
    by (simp add: i64_to_be_bytes_def from_to_be_bytes)
  moreover have "v mod 2 ^ 64 = (if v < 0 then v + 2 ^ 64 else v)"
  proof (cases "v < 0")
    case True
    have "(v + 2 ^ 64) mod 2 ^ 64 = v + 2 ^ 64"
      using v True by (intro mod_pos_pos_trivial) (simp_all add: i64_min_def)
    then show ?thesis using True by simp
  next
    case False
    then show ?thesis using v by (simp add: mod_pos_pos_trivial i64_max_def)
  qed
  ultimately show "i64_from_be_bytes (i64_to_be_bytes v) = v"
    using v by (simp add: i64_from_be_bytes_def Let_def i64_min_def i64_max_def nat_less_iff)
next
  fix bs :: string assume n: "length bs = 8"
  have less: "from_be_bytes bs < 2 ^ 64" using from_be_bytes_less [of bs] n by simp
  have "nat (i64_from_be_bytes bs mod 2 ^ 64) = from_be_bytes bs"
  proof (cases "from_be_bytes bs < 2 ^ 63")
    case True
    then show ?thesis by (simp add: i64_from_be_bytes_def zmod_int [symmetric])
  next
    case False
    have "(int (from_be_bytes bs) - 2 ^ 64) mod 2 ^ 64 = int (from_be_bytes bs) mod 2 ^ 64" by simp
    then show ?thesis using False less by (simp add: i64_from_be_bytes_def)
  qed
  then show "i64_to_be_bytes (i64_from_be_bytes bs) = bs"
    using to_from_be_bytes [of bs] n by (simp add: i64_to_be_bytes_def)
  show "i64_min \<le> i64_from_be_bytes bs \<and> i64_from_be_bytes bs \<le> i64_max"
    using less by (auto simp: i64_from_be_bytes_def Let_def i64_min_def i64_max_def)
qed (simp add: i64_to_be_bytes_def)

end
