(* ===== verification/Event_Envelope.thy ===== *)
theory Event_Envelope
  imports Event_Payload Bytes
begin

text \<open>
  The envelope of the crate \<open>event-envelope\<close> (\<open>lib.rs\<close>): the metadata contract, the payload
  contract, the canonical bytes an event's identity is computed from and the construction and
  verification of envelopes. A writer method of \<open>CanonicalWriter\<close> is the bytes it appends, or its
  error; \<open>writes\<close> runs several of them in order. BLAKE3 and the JSON serializer are not part of the
  repository: the digest of a byte string and the lengths of the chunks the serializer writes
  for an envelope are arguments of the definitions that use them.
\<close>

subsection \<open>Metadata\<close>

datatype SnapshotKind = NotApplicable | Snapshot | Delta

record UncheckedEventMetadata =
  md_schema_version :: nat
  md_source :: SourceId
  md_venue :: "VenueId option"
  md_instrument_id :: "InstrumentId option"
  md_exchange_timestamp :: "UnixNanos option"
  md_exchange_transaction_timestamp :: "UnixNanos option"
  md_receive_wall_timestamp :: UnixNanos
  md_receive_monotonic_ns :: nat
  md_normalization_timestamp :: UnixNanos
  md_connection_started_at :: UnixNanos
  md_sequence_number :: "nat option"
  md_previous_sequence_number :: "nat option"
  md_connection_epoch :: nat
  md_subscription_epoch :: nat
  md_snapshot_kind :: SnapshotKind
  md_source_checksum :: "string option"
  md_raw_payload_hash :: string
  md_parser_version :: string
  md_normalizer_version :: string
  md_ingestion_instance :: string
  md_quality_score_ppm :: nat
  md_quality_flags :: QualityFlags

definition MAX_BOOK_LEVELS :: nat where "MAX_BOOK_LEVELS = 100000"
definition MAX_METADATA_TEXT :: nat where "MAX_METADATA_TEXT = 4096"
definition MAX_EVENT_WIRE_BYTES :: nat where "MAX_EVENT_WIRE_BYTES = 16 * 1024 * 1024"

definition valid_metadata_text :: "string \<Rightarrow> bool" where
  "valid_metadata_text v \<longleftrightarrow> v \<noteq> [] \<and> length v \<le> MAX_METADATA_TEXT \<and> is_trimmed v \<and> \<not> has_control v"

definition metadata_sequence_error :: "UncheckedEventMetadata \<Rightarrow> bool" where
  "metadata_sequence_error m \<longleftrightarrow>
     (case (md_previous_sequence_number m, md_sequence_number m) of
        (Some previous, Some current) \<Rightarrow> previous \<ge> current
      | _ \<Rightarrow> False)
     \<or> md_previous_sequence_number m \<noteq> None \<and> md_sequence_number m = None"

definition metadata_validate :: "UncheckedEventMetadata \<Rightarrow> (unit, EventError) result" where
  "metadata_validate m =
     (if md_schema_version m \<notin> {1, 2, 3} then Err (InvalidMetadata ''schema_version'')
      else if md_schema_version m < 3
              \<and> (case md_instrument_id m of None \<Rightarrow> False | Some i \<Rightarrow> iid_product_type i \<noteq> Spot)
      then Err (InvalidMetadata ''instrument product identity schema'')
      else if md_connection_epoch m = 0 then Err (InvalidMetadata ''connection_epoch'')
      else if md_subscription_epoch m = 0 then Err (InvalidMetadata ''subscription_epoch'')
      else if md_receive_wall_timestamp m < md_connection_started_at m
      then Err (InvalidMetadata ''receive_wall_timestamp'')
      else if md_normalization_timestamp m < md_receive_wall_timestamp m
      then Err (InvalidMetadata ''normalization_timestamp'')
      else if metadata_sequence_error m then Err (InvalidMetadata ''sequence_number'')
      else if md_raw_payload_hash m = zero_hash then Err (InvalidMetadata ''raw_payload_hash'')
      else if \<not> valid_metadata_text (md_parser_version m) then Err (InvalidMetadata ''parser_version'')
      else if \<not> valid_metadata_text (md_normalizer_version m) then Err (InvalidMetadata ''normalizer_version'')
      else if \<not> valid_metadata_text (md_ingestion_instance m) then Err (InvalidMetadata ''ingestion_instance'')
      else if (case md_source_checksum m of None \<Rightarrow> False | Some v \<Rightarrow> \<not> valid_metadata_text v)
      then Err (InvalidMetadata ''source_checksum'')
      else if md_quality_score_ppm m > MAX_QUALITY_SCORE_PPM then Err (InvalidMetadata ''quality_score_ppm'')
      else if sid_kind (md_source m) = Exchange \<and> md_venue m = None then Err (InvalidMetadata ''venue'')
      else if (case md_instrument_id m of None \<Rightarrow> False | Some i \<Rightarrow> md_venue m \<noteq> Some (iid_venue i))
      then Err (InvalidMetadata ''instrument_id'')
      else Ok ())"

subsection \<open>Payloads\<close>

datatype EventType =
    Trade | TopOfBook | BookSnapshot | BookDelta | InstrumentDefinition | FundingObservation
  | OpenInterestObservation | LiquidationObservation | MarkIndexObservation | FutureBasisObservation
  | OptionTicker | OptionTrade | VenueStatus | ChainBlock | ChainTransactionAggregate
  | ChainMempoolObservation | ChainMetric | ExternalMarketObservation | StructuredEvent
  | DataQualityObservation | PredictionRecord | AlertEvent

datatype UncheckedEventPayload =
    Trade Trade
  | TopOfBook TopOfBook
  | BookSnapshot BookSnapshot
  | BookDelta BookDelta
  | InstrumentDefinition InstrumentDefinition
  | FundingObservation FundingObservation
  | OpenInterestObservation OpenInterestObservation
  | LiquidationObservation LiquidationObservation
  | MarkIndexObservation MarkIndexObservation
  | FutureBasisObservation FutureBasisObservation
  | OptionTicker OptionTicker
  | OptionTrade OptionTrade
  | VenueStatus VenueStatus
  | ChainBlock ChainBlock
  | ChainTransactionAggregate ChainTransactionAggregate
  | ChainMempoolObservation ChainMempoolObservation
  | ChainMetric ChainMetric
  | ExternalMarketObservation ExternalMarketObservation
  | StructuredEvent StructuredEvent
  | DataQualityObservation DataQualityObservation
  | PredictionRecord PredictionRecord
  | AlertEvent AlertEvent

primrec payload_event_type :: "UncheckedEventPayload \<Rightarrow> EventType" where
  "payload_event_type (Trade _) = EventType.Trade"
| "payload_event_type (TopOfBook _) = EventType.TopOfBook"
| "payload_event_type (BookSnapshot _) = EventType.BookSnapshot"
| "payload_event_type (BookDelta _) = EventType.BookDelta"
| "payload_event_type (InstrumentDefinition _) = EventType.InstrumentDefinition"
| "payload_event_type (FundingObservation _) = EventType.FundingObservation"
| "payload_event_type (OpenInterestObservation _) = EventType.OpenInterestObservation"
| "payload_event_type (LiquidationObservation _) = EventType.LiquidationObservation"
| "payload_event_type (MarkIndexObservation _) = EventType.MarkIndexObservation"
| "payload_event_type (FutureBasisObservation _) = EventType.FutureBasisObservation"
| "payload_event_type (OptionTicker _) = EventType.OptionTicker"
| "payload_event_type (OptionTrade _) = EventType.OptionTrade"
| "payload_event_type (VenueStatus _) = EventType.VenueStatus"
| "payload_event_type (ChainBlock _) = EventType.ChainBlock"
| "payload_event_type (ChainTransactionAggregate _) = EventType.ChainTransactionAggregate"
| "payload_event_type (ChainMempoolObservation _) = EventType.ChainMempoolObservation"
| "payload_event_type (ChainMetric _) = EventType.ChainMetric"
| "payload_event_type (ExternalMarketObservation _) = EventType.ExternalMarketObservation"
| "payload_event_type (StructuredEvent _) = EventType.StructuredEvent"
| "payload_event_type (DataQualityObservation _) = EventType.DataQualityObservation"
| "payload_event_type (PredictionRecord _) = EventType.PredictionRecord"
| "payload_event_type (AlertEvent _) = EventType.AlertEvent"

definition requires_instrument :: "UncheckedEventPayload \<Rightarrow> bool" where
  "requires_instrument p \<longleftrightarrow> payload_event_type p \<in>
     {EventType.Trade, EventType.TopOfBook, EventType.BookSnapshot, EventType.BookDelta,
      EventType.InstrumentDefinition, EventType.FundingObservation, EventType.OpenInterestObservation,
      EventType.LiquidationObservation, EventType.MarkIndexObservation, EventType.FutureBasisObservation,
      EventType.OptionTicker, EventType.OptionTrade}"

definition require_observation :: "UncheckedEventMetadata \<Rightarrow> (unit, EventError) result" where
  "require_observation m =
     (if md_snapshot_kind m = NotApplicable then Ok () else Err (InvalidMetadata ''snapshot_kind''))"

definition require_source_kind :: "UncheckedEventMetadata \<Rightarrow> SourceKind \<Rightarrow> (unit, EventError) result" where
  "require_source_kind m expected =
     (if sid_kind (md_source m) = expected then Ok () else Err (InvalidMetadata ''source kind''))"

definition validate_book :: "BookLevel list \<Rightarrow> BookLevel list \<Rightarrow> bool \<Rightarrow> bool \<Rightarrow> (unit, EventError) result" where
  "validate_book bids asks allow_zero_quantity enforce_uncrossed =
     (if saturating_add u64_max (length bids) (length asks) > MAX_BOOK_LEVELS
      then Err (InvalidPayload ''book level capacity'')
      else if \<not> allow_zero_quantity \<and> list_ex (\<lambda>l. is_zero (lvl_quantity l)) (bids @ asks)
      then Err (InvalidPayload ''zero snapshot quantity'')
      else if \<not> strictly_descending bids \<or> \<not> strictly_ascending asks
      then Err (InvalidPayload ''book ordering'')
      else if enforce_uncrossed
              \<and> (case (bids, asks) of
                   (bid # _, ask # _) \<Rightarrow> decimal_cmp (lvl_price bid) (lvl_price ask) \<noteq> Less
                 | _ \<Rightarrow> False)
      then Err (InvalidPayload ''crossed book'')
      else Ok ())"

definition valid_predecessor :: "UncheckedEventMetadata \<Rightarrow> BookDelta \<Rightarrow> bool" where
  "valid_predecessor m d =
     (if md_schema_version m = 1
      then md_previous_sequence_number m = checked_sub (delta_first_sequence d) 1
      else if md_schema_version m \<in> {2, 3}
      then (case md_previous_sequence_number m of
              None \<Rightarrow> delta_first_sequence d = 0
            | Some previous \<Rightarrow> previous < delta_first_sequence d)
      else False)"

fun payload_contract :: "UncheckedEventMetadata \<Rightarrow> UncheckedEventPayload \<Rightarrow> (unit, EventError) result" where
  "payload_contract m (Trade t) =
     (if \<not> valid_metadata_text (tr_trade_id t) \<or> is_zero (tr_quantity t) then Err (InvalidPayload ''trade'')
      else if md_snapshot_kind m \<noteq> NotApplicable then Err (InvalidMetadata ''snapshot_kind'')
      else Ok ())"
| "payload_contract m (TopOfBook v) = and_then (top_of_book_validate v) (\<lambda>_. require_observation m)"
| "payload_contract m (BookSnapshot s) =
     and_then (validate_book (snap_bids s) (snap_asks s) False True) (\<lambda>_.
       if md_snapshot_kind m \<noteq> Snapshot \<or> md_sequence_number m \<noteq> Some (snap_last_sequence s)
       then Err SequenceMismatch else Ok ())"
| "payload_contract m (BookDelta d) =
     and_then (validate_book (delta_bids d) (delta_asks d) True False) (\<lambda>_.
       if delta_first_sequence d > delta_last_sequence d \<or> md_snapshot_kind m \<noteq> Delta
          \<or> md_sequence_number m \<noteq> Some (delta_last_sequence d) \<or> \<not> valid_predecessor m d
       then Err SequenceMismatch else Ok ())"
| "payload_contract m (InstrumentDefinition v) =
     and_then (require_observation m) (\<lambda>_.
       if md_instrument_id m \<noteq> Some (def_id v) then Err (InvalidMetadata ''instrument definition'') else Ok ())"
| "payload_contract m (FundingObservation v) = and_then (funding_validate v) (\<lambda>_. require_observation m)"
| "payload_contract m (OpenInterestObservation _) = require_observation m"
| "payload_contract m (MarkIndexObservation _) = require_observation m"
| "payload_contract m (LiquidationObservation v) = and_then (liquidation_validate v) (\<lambda>_. require_observation m)"
| "payload_contract m (FutureBasisObservation _) = require_observation m"
| "payload_contract m (OptionTicker v) = and_then (option_ticker_validate v) (\<lambda>_. require_observation m)"
| "payload_contract m (OptionTrade v) = and_then (option_trade_validate v) (\<lambda>_. require_observation m)"
| "payload_contract m (VenueStatus v) =
     and_then (venue_status_validate v) (\<lambda>_. and_then (require_observation m) (\<lambda>_.
       if md_venue m = None then Err (InvalidMetadata ''venue'') else Ok ()))"
| "payload_contract m (ChainBlock v) =
     and_then (chain_block_validate v) (\<lambda>_. and_then (require_observation m) (\<lambda>_. require_source_kind m Chain))"
| "payload_contract m (ChainTransactionAggregate v) =
     and_then (chain_aggregate_validate v) (\<lambda>_. and_then (require_observation m) (\<lambda>_. require_source_kind m Chain))"
| "payload_contract m (ChainMempoolObservation _) =
     and_then (require_observation m) (\<lambda>_. require_source_kind m Chain)"
| "payload_contract m (ChainMetric v) =
     and_then (require_observation m) (\<lambda>_. and_then (require_source_kind m Chain) (\<lambda>_. chain_metric_validate v))"
| "payload_contract m (ExternalMarketObservation v) =
     and_then (external_market_validate v) (\<lambda>_. require_observation m)"
| "payload_contract m (StructuredEvent v) =
     and_then (structured_event_validate v) (\<lambda>_. and_then (require_observation m) (\<lambda>_.
       if md_source m \<noteq> se_source_identity v then Err (InvalidMetadata ''structured event source'') else Ok ()))"
| "payload_contract m (DataQualityObservation v) = and_then (data_quality_validate v) (\<lambda>_. require_observation m)"
| "payload_contract m (PredictionRecord v) = and_then (prediction_validate v) (\<lambda>_. require_observation m)"
| "payload_contract m (AlertEvent v) = and_then (alert_validate v) (\<lambda>_. require_observation m)"

definition payload_validate :: "UncheckedEventPayload \<Rightarrow> UncheckedEventMetadata \<Rightarrow> (unit, EventError) result" where
  "payload_validate p m =
     and_then (metadata_validate m) (\<lambda>_.
       if requires_instrument p \<and> (md_venue m = None \<or> md_instrument_id m = None)
       then Err (InvalidMetadata ''instrument identity'')
       else payload_contract m p)"

subsection \<open>The canonical writer\<close>

type_synonym written = "(string, EventError) result"

fun writes :: "written list \<Rightarrow> written" where
  "writes [] = Ok []"
| "writes (w # ws) = and_then w (\<lambda>a. and_then (writes ws) (\<lambda>b. Ok (a @ b)))"

definition w_u8 :: "nat \<Rightarrow> written" where "w_u8 n = Ok (to_be_bytes 1 n)"
definition w_u32 :: "nat \<Rightarrow> written" where "w_u32 n = Ok (to_be_bytes 4 n)"
definition w_u64 :: "nat \<Rightarrow> written" where "w_u64 n = Ok (to_be_bytes 8 n)"
definition w_i64 :: "int \<Rightarrow> written" where "w_i64 v = Ok (i64_to_be_bytes v)"
definition w_boolean :: "bool \<Rightarrow> written" where "w_boolean b = w_u8 (if b then 1 else 0)"

definition w_count :: "nat \<Rightarrow> written" where
  "w_count n = (if n > u32_max then Err CanonicalFieldTooLarge else w_u32 n)"

definition w_bytes :: "string \<Rightarrow> written" where
  "w_bytes v = writes [w_count (length v), Ok v]"

definition w_string :: "string \<Rightarrow> written" where "w_string v = w_bytes v"

definition w_decimal :: "FixedDecimal \<Rightarrow> written" where "w_decimal v = w_string (decimal_to_string v)"

definition w_optional :: "('a \<Rightarrow> written) \<Rightarrow> 'a option \<Rightarrow> written" where
  "w_optional encode v = (case v of Some x \<Rightarrow> writes [w_u8 1, encode x] | None \<Rightarrow> w_u8 0)"

definition w_list :: "('a \<Rightarrow> written) \<Rightarrow> 'a list \<Rightarrow> written" where
  "w_list encode xs = writes (w_count (length xs) # map encode xs)"

text \<open>The discriminants of the \<open>repr(u8)\<close> enums.\<close>

primrec namespace_u8 :: "AssetNamespace \<Rightarrow> nat" where
  "namespace_u8 Native = 0" | "namespace_u8 Evm = 1" | "namespace_u8 Solana = 2"
| "namespace_u8 Fiat = 3" | "namespace_u8 Synthetic = 4"

primrec source_kind_u8 :: "SourceKind \<Rightarrow> nat" where
  "source_kind_u8 Exchange = 0" | "source_kind_u8 Chain = 1" | "source_kind_u8 Macro = 2"
| "source_kind_u8 News = 3" | "source_kind_u8 Derived = 4" | "source_kind_u8 System = 5"

primrec product_u8 :: "ProductType \<Rightarrow> nat" where
  "product_u8 Spot = 0" | "product_u8 Perpetual = 1" | "product_u8 Future = 2" | "product_u8 Option = 3"

primrec contract_kind_u8 :: "ContractKind \<Rightarrow> nat" where
  "contract_kind_u8 ContractNone = 0" | "contract_kind_u8 Linear = 1" | "contract_kind_u8 Inverse = 2"

primrec value_unit_u8 :: "ContractValueUnit \<Rightarrow> nat" where
  "value_unit_u8 Base = 0" | "value_unit_u8 Quote = 1"

primrec option_side_u8 :: "OptionSide \<Rightarrow> nat" where
  "option_side_u8 Call = 0" | "option_side_u8 Put = 1"

primrec side_u8 :: "Side \<Rightarrow> nat" where
  "side_u8 Buy = 0" | "side_u8 Sell = 1" | "side_u8 Unknown = 2"

primrec venue_state_u8 :: "VenueState \<Rightarrow> nat" where
  "venue_state_u8 Operational = 0" | "venue_state_u8 VenueState.Degraded = 1" | "venue_state_u8 Maintenance = 2"
| "venue_state_u8 Auction = 3" | "venue_state_u8 Suspended = 4" | "venue_state_u8 Offline = 5"

primrec finality_u8 :: "FinalityState \<Rightarrow> nat" where
  "finality_u8 Unconfirmed = 0" | "finality_u8 Confirmed = 1" | "finality_u8 Finalized = 2"
| "finality_u8 Reverted = 3"

primrec availability_u8 :: "AvailabilityState \<Rightarrow> nat" where
  "availability_u8 Available = 0" | "availability_u8 AvailabilityState.Degraded = 1"
| "availability_u8 Unavailable = 2" | "availability_u8 Abstained = 3"

primrec alert_status_u8 :: "AlertStatus \<Rightarrow> nat" where
  "alert_status_u8 Triggered = 0" | "alert_status_u8 Updated = 1" | "alert_status_u8 Recovered = 2"
| "alert_status_u8 Acknowledged = 3"

definition w_source :: "SourceId \<Rightarrow> written" where
  "w_source v = writes [w_u8 (source_kind_u8 (sid_kind v)), w_string (sid_name v), w_u32 (sid_generation v)]"

definition w_venue :: "VenueId \<Rightarrow> written" where "w_venue v = w_string v"

definition w_asset :: "AssetId \<Rightarrow> written" where
  "w_asset v = writes
     [w_u8 (namespace_u8 (aid_namespace v)), w_string (aid_chain_id v), w_string (aid_contract_or_mint v),
      w_string (aid_canonical_symbol v), w_u32 (aid_generation v)]"

definition w_instrument_definition :: "InstrumentDefinition \<Rightarrow> written" where
  "w_instrument_definition v = writes
     [w_venue (iid_venue (def_id v)), w_string (iid_venue_symbol (def_id v)), w_u32 (iid_generation (def_id v)),
      w_u8 (product_u8 (def_product_type v)), w_asset (def_base_asset v), w_asset (def_quote_asset v),
      w_asset (def_settlement_asset v), w_decimal (def_contract_multiplier v),
      w_u8 (value_unit_u8 (def_contract_value_unit v)), w_u8 (contract_kind_u8 (def_contract_kind v)),
      w_optional w_i64 (def_expiry_time v), w_optional w_decimal (def_strike v),
      w_optional (\<lambda>s. w_u8 (option_side_u8 s)) (def_option_side v), w_decimal (def_price_tick v),
      w_decimal (def_quantity_step v), w_i64 (def_listing_time v), w_optional w_i64 (def_delisting_time v)]"

definition w_level :: "BookLevel \<Rightarrow> written" where
  "w_level l = writes [w_decimal (lvl_price l), w_decimal (lvl_quantity l), w_optional w_u32 (lvl_order_count l)]"

definition w_fact :: "StructuredFact \<Rightarrow> written" where
  "w_fact f = writes [w_string (sf_key f), w_string (sf_value f)]"

subsection \<open>Canonical bytes\<close>

definition w_instrument_identity :: "nat \<Rightarrow> InstrumentId \<Rightarrow> written" where
  "w_instrument_identity schema_version i = writes
     ([w_string (iid_venue i), w_string (iid_venue_symbol i)]
      @ (if schema_version \<ge> 3 then [w_u8 (product_u8 (iid_product_type i))] else [])
      @ [w_u32 (iid_generation i)])"

definition encode_identity_metadata :: "UncheckedEventMetadata \<Rightarrow> written" where
  "encode_identity_metadata m = writes
     ([w_u8 (source_kind_u8 (sid_kind (md_source m))), w_string (sid_name (md_source m)),
       w_u32 (sid_generation (md_source m)),
       w_optional w_string (md_venue m),
       w_optional (w_instrument_identity (md_schema_version m)) (md_instrument_id m),
       w_optional w_i64 (md_exchange_timestamp m),
       w_optional w_i64 (md_exchange_transaction_timestamp m),
       w_optional w_u64 (md_sequence_number m)]
      @ (if md_schema_version m \<ge> 2 then [w_optional w_u64 (md_previous_sequence_number m)] else []))"

primrec payload_fields :: "UncheckedEventPayload \<Rightarrow> written list" where
  "payload_fields (Trade v) =
     [w_u8 0, w_string (tr_trade_id v), w_decimal (tr_price v), w_decimal (tr_quantity v), w_u8 (side_u8 (tr_side v))]"
| "payload_fields (TopOfBook v) = [w_u8 1, w_optional w_level (tob_bid v), w_optional w_level (tob_ask v)]"
| "payload_fields (BookSnapshot v) =
     [w_u8 2, w_list w_level (snap_bids v), w_list w_level (snap_asks v), w_u64 (snap_last_sequence v)]"
| "payload_fields (BookDelta v) =
     [w_u8 3, w_list w_level (delta_bids v), w_list w_level (delta_asks v), w_u64 (delta_first_sequence v),
      w_u64 (delta_last_sequence v)]"
| "payload_fields (InstrumentDefinition v) = [w_u8 4, w_instrument_definition v]"
| "payload_fields (FundingObservation v) =
     [w_u8 5, w_decimal (fund_funding_rate v), w_i64 (fund_observed_at v), w_optional w_i64 (fund_next_funding_time v)]"
| "payload_fields (OpenInterestObservation v) =
     [w_u8 6, w_decimal (oi_quantity v), w_optional w_decimal (oi_quote_notional v), w_i64 (oi_observed_at v)]"
| "payload_fields (LiquidationObservation v) =
     [w_u8 7, w_string (liq_liquidation_id v), w_decimal (liq_price v), w_decimal (liq_quantity v),
      w_u8 (side_u8 (liq_side v))]"
| "payload_fields (MarkIndexObservation v) = [w_u8 8, w_decimal (mi_mark_price v), w_decimal (mi_index_price v)]"
| "payload_fields (FutureBasisObservation v) =
     [w_u8 9, w_decimal (fb_future_price v), w_decimal (fb_reference_price v), w_decimal (fb_basis_rate v),
      w_optional w_decimal (fb_annualized_basis_rate v)]"
| "payload_fields (OptionTicker v) =
     [w_u8 10, w_optional w_decimal (ot_bid_price v), w_optional w_decimal (ot_ask_price v),
      w_decimal (ot_mark_price v), w_decimal (ot_mark_iv v), w_decimal (ot_delta v), w_decimal (ot_open_interest v)]"
| "payload_fields (OptionTrade v) =
     [w_u8 11, w_string (otr_trade_id v), w_decimal (otr_price v), w_decimal (otr_quantity v),
      w_u8 (side_u8 (otr_side v)), w_optional w_decimal (otr_implied_volatility v)]"
| "payload_fields (VenueStatus v) =
     [w_u8 12, w_u8 (venue_state_u8 (vs_state v)), w_i64 (vs_observed_at v), w_optional w_string (vs_message v)]"
| "payload_fields (ChainBlock v) =
     [w_u8 13, w_asset (cb_chain v), w_string (cb_block_hash v), w_optional w_string (cb_parent_hash v),
      w_u64 (cb_height v), w_i64 (cb_block_time v), w_u64 (cb_confirmation_depth v),
      w_u8 (finality_u8 (cb_finality v)), w_u64 (cb_transaction_count v)]"
| "payload_fields (ChainTransactionAggregate v) =
     [w_u8 14, w_asset (ca_chain v), w_i64 (ca_interval_start v), w_i64 (ca_interval_end v),
      w_u64 (ca_transaction_count v), w_optional w_decimal (ca_transferred_value v),
      w_optional w_decimal (ca_fee_total v)]"
| "payload_fields (ChainMempoolObservation v) =
     [w_u8 15, w_asset (mp_chain v), w_i64 (mp_observed_at v), w_u64 (mp_transaction_count v),
      w_u64 (mp_virtual_size v), w_optional w_decimal (mp_total_fees v)]"
| "payload_fields (ChainMetric v) =
     [w_u8 16, w_asset (cm_chain v), w_string (cm_metric_name v), w_decimal (cm_value v), w_i64 (cm_observed_at v)]"
| "payload_fields (ExternalMarketObservation v) =
     [w_u8 17, w_string (em_market_id v), w_decimal (em_value v), w_i64 (em_observed_at v),
      w_optional w_string (em_source_native_id v)]"
| "payload_fields (StructuredEvent v) =
     [w_u8 18, w_string (se_structured_event_id v), w_string (se_event_type v),
      w_list w_asset (se_affected_assets v), w_list w_venue (se_affected_venues v),
      w_list w_string (se_affected_protocols v), w_source (se_source_identity v),
      w_u32 (se_source_reliability_ppm v), w_i64 (se_publication_time v),
      w_optional w_i64 (se_effective_time v), w_optional w_i64 (se_expected_end_time v),
      w_decimal (se_direction_prior v), w_u32 (se_severity_ppm v), w_u32 (se_extraction_confidence_ppm v),
      w_boolean (se_human_verified v), w_bytes (se_source_document_hash v),
      w_string (se_extractor_model_id v), w_string (se_extractor_prompt_version v),
      w_list w_fact (se_extracted_facts v)]"
| "payload_fields (DataQualityObservation v) =
     [w_u8 19, w_string (dq_component v), w_i64 (dq_observed_at v), w_u32 (dq_score_ppm v), w_u64 (dq_flags v),
      w_optional w_string (dq_details v)]"
| "payload_fields (PredictionRecord v) =
     [w_u8 20, w_string (pr_forecast_id v), w_i64 (pr_issued_at v), w_string (pr_entity_id v),
      w_string (pr_model_package_id v), w_u32 (pr_forecast_schema_version v),
      w_string (pr_prediction_event_type v), w_u64 (pr_horizon_seconds v),
      w_u32 (pr_calibrated_probability_ppm v), w_decimal (pr_raw_score v), w_u32 (pr_base_rate_ppm v),
      w_u32 (pr_lower_uncertainty_ppm v), w_u32 (pr_upper_uncertainty_ppm v),
      w_u8 (availability_u8 (pr_availability v)), w_u32 (pr_quality_score_ppm v),
      w_u32 (pr_applicability_score_ppm v), w_string (pr_scenario_summary_id v),
      w_string (pr_evidence_bundle_id v), w_optional w_string (pr_supersedes_forecast_id v)]"
| "payload_fields (AlertEvent v) =
     [w_u8 21, w_string (al_alert_id v), w_string (al_rule_id v), w_u8 (alert_status_u8 (al_status v)),
      w_u8 (al_priority v), w_i64 (al_triggered_at v), w_optional w_i64 (al_recovered_at v),
      w_optional w_string (al_forecast_id v), w_string (al_message v)]"

definition encode_payload :: "UncheckedEventPayload \<Rightarrow> written" where
  "encode_payload p = writes (payload_fields p)"

definition event_domain :: "nat \<Rightarrow> (string, EventError) result" where
  "event_domain schema_version =
     (if schema_version = 1 then Ok (''cmti:event:v1'' @ bytes [0])
      else if schema_version = 2 then Ok (''cmti:event:v2'' @ bytes [0])
      else if schema_version = 3 then Ok (''cmti:event:v3'' @ bytes [0])
      else Err (InvalidMetadata ''schema_version''))"

definition canonical_bytes :: "UncheckedEventMetadata \<Rightarrow> UncheckedEventPayload \<Rightarrow> written" where
  "canonical_bytes m p =
     writes [event_domain (md_schema_version m), encode_identity_metadata m, encode_payload p]"

type_synonym EventId = string

definition canonical_event_id_unchecked :: "(string \<Rightarrow> EventId) \<Rightarrow> UncheckedEventMetadata \<Rightarrow>
    UncheckedEventPayload \<Rightarrow> (EventId, EventError) result" where
  "canonical_event_id_unchecked digest m p = and_then (canonical_bytes m p) (\<lambda>b. Ok (digest b))"

subsection \<open>Envelopes\<close>

record EventEnvelope =
  ev_id :: EventId
  ev_event_type :: EventType
  ev_metadata :: UncheckedEventMetadata
  ev_payload :: UncheckedEventPayload

text \<open>The fields of an envelope on the wire, and what \<open>Serialize\<close> writes into them.\<close>

record WireEnvelope =
  wi_event_id :: EventId
  wi_event_type :: EventType
  wi_schema_version :: nat
  wi_source :: SourceId
  wi_venue :: "VenueId option"
  wi_instrument_id :: "InstrumentId option"
  wi_exchange_event_time_ns :: "UnixNanos option"
  wi_exchange_transaction_time_ns :: "UnixNanos option"
  wi_receive_wall_time_ns :: UnixNanos
  wi_receive_monotonic_time_ns :: nat
  wi_normalization_time_ns :: UnixNanos
  wi_connection_started_at :: UnixNanos
  wi_sequence_number :: "nat option"
  wi_previous_sequence_number :: "nat option"
  wi_connection_epoch :: nat
  wi_subscription_epoch :: nat
  wi_snapshot_or_delta :: SnapshotKind
  wi_source_checksum :: "string option"
  wi_raw_payload_hash :: string
  wi_parser_version :: string
  wi_normalizer_version :: string
  wi_ingestion_instance :: string
  wi_quality_score_ppm :: nat
  wi_quality_flags :: QualityFlags
  wi_payload :: UncheckedEventPayload

definition envelope_serialize :: "EventEnvelope \<Rightarrow> WireEnvelope" where
  "envelope_serialize e =
     (let metadata = ev_metadata e
      in \<lparr>wi_event_id = ev_id e,
          wi_event_type = ev_event_type e,
          wi_schema_version = md_schema_version metadata,
          wi_source = md_source metadata,
          wi_venue = md_venue metadata,
          wi_instrument_id = md_instrument_id metadata,
          wi_exchange_event_time_ns = md_exchange_timestamp metadata,
          wi_exchange_transaction_time_ns = md_exchange_transaction_timestamp metadata,
          wi_receive_wall_time_ns = md_receive_wall_timestamp metadata,
          wi_receive_monotonic_time_ns = md_receive_monotonic_ns metadata,
          wi_normalization_time_ns = md_normalization_timestamp metadata,
          wi_connection_started_at = md_connection_started_at metadata,
          wi_sequence_number = md_sequence_number metadata,
          wi_previous_sequence_number = md_previous_sequence_number metadata,
          wi_connection_epoch = md_connection_epoch metadata,
          wi_subscription_epoch = md_subscription_epoch metadata,
          wi_snapshot_or_delta = md_snapshot_kind metadata,
          wi_source_checksum = md_source_checksum metadata,
          wi_raw_payload_hash = md_raw_payload_hash metadata,
          wi_parser_version = md_parser_version metadata,
          wi_normalizer_version = md_normalizer_version metadata,
          wi_ingestion_instance = md_ingestion_instance metadata,
          wi_quality_score_ppm = md_quality_score_ppm metadata,
          wi_quality_flags = md_quality_flags metadata,
          wi_payload = ev_payload e\<rparr>)"

text \<open>\<open>BoundedWireCounter\<close>: the length so far, or \<open>None\<close> once a chunk would exceed the bound.\<close>

fun counter_write :: "nat \<Rightarrow> nat list \<Rightarrow> nat option" where
  "counter_write len [] = Some len"
| "counter_write len (chunk # chunks) =
     (if chunk > saturating_sub MAX_EVENT_WIRE_BYTES len then None
      else counter_write (len + chunk) chunks)"

text \<open>
  \<open>json w\<close> is the lengths of the chunks the JSON serializer writes for the fields \<open>w\<close> and whether it
  ends without an error of its own.
\<close>

definition ensure_wire_size :: "(WireEnvelope \<Rightarrow> nat list \<times> bool) \<Rightarrow> EventEnvelope \<Rightarrow> (unit, EventError) result" where
  "ensure_wire_size json e =
     (case counter_write 0 (fst (json (envelope_serialize e))) of
        None \<Rightarrow> Err WireTooLarge
      | Some _ \<Rightarrow> if snd (json (envelope_serialize e)) then Ok () else Err InvalidWire)"

definition envelope_new :: "(string \<Rightarrow> EventId) \<Rightarrow> (WireEnvelope \<Rightarrow> nat list \<times> bool) \<Rightarrow>
    UncheckedEventMetadata \<Rightarrow> UncheckedEventPayload \<Rightarrow> (EventEnvelope, EventError) result" where
  "envelope_new digest json m p =
     and_then (payload_validate p m) (\<lambda>_.
     and_then (canonical_event_id_unchecked digest m p) (\<lambda>eid.
       let envelope = \<lparr>ev_id = eid, ev_event_type = payload_event_type p, ev_metadata = m, ev_payload = p\<rparr>
       in and_then (ensure_wire_size json envelope) (\<lambda>_. Ok envelope)))"

definition envelope_verify :: "(string \<Rightarrow> EventId) \<Rightarrow> EventEnvelope \<Rightarrow> (unit, EventError) result" where
  "envelope_verify digest e =
     and_then (canonical_event_id_unchecked digest (ev_metadata e) (ev_payload e)) (\<lambda>eid.
       if eid = ev_id e then Ok () else Err IdentityMismatch)"

text \<open>What \<open>Deserialize\<close> does with the fields of a wire envelope, once serde has read them.\<close>

definition wire_metadata :: "WireEnvelope \<Rightarrow> UncheckedEventMetadata" where
  "wire_metadata wire =
     \<lparr>md_schema_version = wi_schema_version wire,
      md_source = wi_source wire,
      md_venue = wi_venue wire,
      md_instrument_id = wi_instrument_id wire,
      md_exchange_timestamp = wi_exchange_event_time_ns wire,
      md_exchange_transaction_timestamp = wi_exchange_transaction_time_ns wire,
      md_receive_wall_timestamp = wi_receive_wall_time_ns wire,
      md_receive_monotonic_ns = wi_receive_monotonic_time_ns wire,
      md_normalization_timestamp = wi_normalization_time_ns wire,
      md_connection_started_at = wi_connection_started_at wire,
      md_sequence_number = wi_sequence_number wire,
      md_previous_sequence_number = wi_previous_sequence_number wire,
      md_connection_epoch = wi_connection_epoch wire,
      md_subscription_epoch = wi_subscription_epoch wire,
      md_snapshot_kind = wi_snapshot_or_delta wire,
      md_source_checksum = wi_source_checksum wire,
      md_raw_payload_hash = wi_raw_payload_hash wire,
      md_parser_version = wi_parser_version wire,
      md_normalizer_version = wi_normalizer_version wire,
      md_ingestion_instance = wi_ingestion_instance wire,
      md_quality_score_ppm = wi_quality_score_ppm wire,
      md_quality_flags = wi_quality_flags wire\<rparr>"

definition envelope_from_wire :: "(string \<Rightarrow> EventId) \<Rightarrow> (WireEnvelope \<Rightarrow> nat list \<times> bool) \<Rightarrow>
    WireEnvelope \<Rightarrow> (EventEnvelope, EventError) result" where
  "envelope_from_wire digest json wire =
     and_then (envelope_new digest json (wire_metadata wire) (wi_payload wire)) (\<lambda>envelope.
       if ev_event_type envelope \<noteq> wi_event_type wire then Err EventTypeMismatch
       else if ev_id envelope \<noteq> wi_event_id wire then Err IdentityMismatch
       else Ok envelope)"

text \<open>\<open>from_json_slice\<close>; \<open>parse\<close> is \<open>serde_json\<close> reading the fields of a wire envelope.\<close>

definition from_json_slice :: "(string \<Rightarrow> EventId) \<Rightarrow> (WireEnvelope \<Rightarrow> nat list \<times> bool) \<Rightarrow>
    (string \<Rightarrow> WireEnvelope option) \<Rightarrow> string \<Rightarrow> (EventEnvelope, EventError) result" where
  "from_json_slice digest json parse input =
     (if length input > MAX_EVENT_WIRE_BYTES then Err WireTooLarge
      else case parse input of
             None \<Rightarrow> Err InvalidWire
           | Some w \<Rightarrow> map_err (envelope_from_wire digest json w) (\<lambda>_. InvalidWire))"

end
