(* ===== verification/Event_Identity.thy ===== *)
theory Event_Identity
  imports Event_Envelope
begin

text \<open>
  The identity of an event determines the event. The canonical writer is built from encoders whose
  output can be cut off a byte string in one way only; the locale \<open>codec\<close> states that law, every
  encoder of the source is an interpretation of it, and the encoding of a whole event follows.
\<close>

subsection \<open>Uniquely readable encoders\<close>

text \<open>Two runs of the writer that agree up to what follows them.\<close>

definition agree :: "written list \<Rightarrow> written list \<Rightarrow> string \<Rightarrow> string \<Rightarrow> bool" where
  "agree ws vs r s \<longleftrightarrow> (\<exists>a b. writes ws = Ok a \<and> writes vs = Ok b \<and> a @ r = b @ s)"

lemma agree_Nil [simp]: "agree [] [] r s \<longleftrightarrow> r = s"
  by (simp add: agree_def)

lemma writes_Cons_Ok: "writes (w # ws) = Ok c \<longleftrightarrow> (\<exists>a b. w = Ok a \<and> writes ws = Ok b \<and> c = a @ b)"
  by (auto simp: result_simps)

lemma writes_append: "writes (ws @ vs) = and_then (writes ws) (\<lambda>a. and_then (writes vs) (\<lambda>b. Ok (a @ b)))"
proof (induction ws)
  case Nil
  then show ?case by (cases "writes vs") simp_all
next
  case (Cons w ws)
  then show ?case by (cases w; cases "writes ws"; cases "writes vs") simp_all
qed

locale codec =
  fixes w :: "'a \<Rightarrow> written" and valid :: "'a \<Rightarrow> bool"
  assumes prefix_free: "valid x \<Longrightarrow> valid y \<Longrightarrow> w x = Ok a \<Longrightarrow> w y = Ok b \<Longrightarrow> a @ r = b @ s \<Longrightarrow> x = y"
begin

lemma field:
  assumes "valid x" "valid y"
  shows "agree (w x # ws) (w y # vs) r s \<longleftrightarrow> x = y \<and> is_ok (w x) \<and> agree ws vs r s"
proof
  assume "agree (w x # ws) (w y # vs) r s"
  then obtain a a' b b' where ab: "w x = Ok a" "writes ws = Ok a'" "w y = Ok b" "writes vs = Ok b'"
    "a @ (a' @ r) = b @ (b' @ s)"
    by (auto simp only: agree_def writes_Cons_Ok append_assoc)
  have xy: "x = y" by (rule prefix_free [OF assms ab(1,3,5)])
  then have "a = b" using ab(1,3) by simp
  then show "x = y \<and> is_ok (w x) \<and> agree ws vs r s" using xy ab by (auto simp: agree_def)
next
  assume "x = y \<and> is_ok (w x) \<and> agree ws vs r s"
  then show "agree (w x # ws) (w y # vs) r s"
    by (cases "w y") (auto simp: agree_def)
qed

lemma injective: "valid x \<Longrightarrow> valid y \<Longrightarrow> w x = Ok a \<Longrightarrow> w y = Ok a \<Longrightarrow> x = y"
  using prefix_free by blast

end

text \<open>An encoder that writes fields is uniquely readable when agreeing fields determine the value.\<close>

lemma codec_fields:
  assumes "\<And>x. w x = writes (fs x)"
    and "\<And>x y r s. valid x \<Longrightarrow> valid y \<Longrightarrow> agree (fs x) (fs y) r s \<Longrightarrow> x = y"
  shows "codec w valid"
proof
  fix x y a b r s
  assume "valid x" "valid y" "w x = Ok a" "w y = Ok b" "a @ r = b @ s"
  then show "x = y" using assms(2) [of x y r s] by (auto simp: assms(1) agree_def)
qed

subsection \<open>Integers\<close>

lemma codec_fixed:
  assumes "\<And>x. w x = Ok (f x)" "\<And>x. length (f x) = k"
    and "\<And>x y. valid x \<Longrightarrow> valid y \<Longrightarrow> f x = f y \<Longrightarrow> x = y"
  shows "codec w valid"
proof
  fix x y a b r s
  assume "valid x" "valid y" "w x = Ok a" "w y = Ok b" "a @ r = b @ s"
  then show "x = y" using assms(3) [of x y] by (auto simp: assms(1,2))
qed

definition is_u8 :: "nat \<Rightarrow> bool" where "is_u8 n \<longleftrightarrow> n < 256"
definition is_u32 :: "nat \<Rightarrow> bool" where "is_u32 n \<longleftrightarrow> n \<le> u32_max"
definition is_u64 :: "nat \<Rightarrow> bool" where "is_u64 n \<longleftrightarrow> n \<le> u64_max"
definition is_i64 :: "int \<Rightarrow> bool" where "is_i64 v \<longleftrightarrow> i64_min \<le> v \<and> v \<le> i64_max"

interpretation u8: codec w_u8 is_u8
  by (rule codec_fixed [of _ "to_be_bytes 1" 1]) (auto simp: w_u8_def is_u8_def dest: be_bytes_inj [rotated 2])

interpretation u32: codec w_u32 is_u32
  by (rule codec_fixed [of _ "to_be_bytes 4" 4])
    (auto simp: w_u32_def is_u32_def u32_max_def dest: be_bytes_inj [rotated 2])

interpretation u64: codec w_u64 is_u64
  by (rule codec_fixed [of _ "to_be_bytes 8" 8])
    (auto simp: w_u64_def is_u64_def u64_max_def dest: be_bytes_inj [rotated 2])

interpretation i64: codec w_i64 is_i64
  by (rule codec_fixed [of _ i64_to_be_bytes 8])
    (auto simp: w_i64_def bei64.width is_i64_def dest: bei64.enc_inj [rotated 2])

interpretation boolean: codec w_boolean "\<lambda>_. True"
proof (rule codec_fixed [of _ "\<lambda>b. to_be_bytes 1 (if b then 1 else 0)" 1])
  fix x y assume "to_be_bytes 1 (if x then 1 else 0) = to_be_bytes 1 (if y then 1 else 0)"
  then have "(if x then 1 else 0 :: nat) = (if y then 1 else 0)"
    by (rule be_bytes_inj [rotated 2]) simp_all
  then show "x = y" by (simp split: if_splits)
qed (simp_all add: w_boolean_def w_u8_def)

interpretation count: codec w_count "\<lambda>_. True"
proof
  fix x y :: nat and a b r s
  assume ab: "w_count x = Ok a" "w_count y = Ok b" "a @ r = b @ s"
  then have "is_u32 x" "is_u32 y" "w_u32 x = Ok a" "w_u32 y = Ok b"
    by (auto simp: w_count_def is_u32_def split: if_splits)
  then show "x = y" using u32.prefix_free ab(3) by blast
qed

subsection \<open>Texts, options and lists\<close>

interpretation byte_string: codec w_bytes "\<lambda>_. True"
proof
  fix x y a b r s
  assume ab: "w_bytes x = Ok a" "w_bytes y = Ok b" "a @ r = b @ s"
  then have "agree [w_count (length x), Ok x] [w_count (length y), Ok y] r s"
    unfolding agree_def w_bytes_def by blast
  then have "length x = length y" "agree [Ok x] [Ok y] r s" by (simp_all only: count.field)
  then show "x = y" by (simp add: agree_def)
qed

interpretation utf8: codec w_string "\<lambda>_. True"
  unfolding w_string_def by (rule byte_string.codec_axioms)

interpretation venue: codec w_venue "\<lambda>_. True"
  unfolding w_venue_def by (rule utf8.codec_axioms)

interpretation decimal: codec w_decimal decimal_wf
proof
  fix x y a b r s
  assume wf: "decimal_wf x" "decimal_wf y" and ab: "w_decimal x = Ok a" "w_decimal y = Ok b" "a @ r = b @ s"
  have eq: "decimal_to_string x = decimal_to_string y"
    by (rule utf8.prefix_free [OF TrueI TrueI ab [unfolded w_decimal_def]])
  have "Ok x = decimal_parse_canonical (decimal_to_string x)" by (simp only: parse_canonical_complete [OF wf(1)])
  also have "\<dots> = decimal_parse_canonical (decimal_to_string y)" by (rule arg_cong [OF eq])
  also have "\<dots> = Ok y" by (rule parse_canonical_complete [OF wf(2)])
  finally show "x = y" by (rule Inr_inject)
qed

lemma codec_optional:
  assumes "codec w valid"
  shows "codec (w_optional w) (pred_option valid)"
proof
  fix x y a b r s
  assume v: "pred_option valid x" "pred_option valid y" and ab: "w_optional w x = Ok a" "w_optional w y = Ok b" "a @ r = b @ s"
  define fs where "fs o' = (case o' of Some z \<Rightarrow> [w_u8 1, w z] | None \<Rightarrow> [w_u8 0])" for o'
  have fs: "writes (fs o') = w_optional w o'" for o'
    by (cases o') (simp_all add: fs_def w_optional_def w_u8_def)
  have "agree (fs x) (fs y) r s" using ab unfolding agree_def fs by blast
  then show "x = y" using v
    by (cases x; cases y) (simp_all add: fs_def u8.field is_u8_def codec.field [OF assms])
qed

lemma codec_list:
  assumes "codec w valid"
  shows "codec (w_list w) (list_all valid)"
proof (rule codec_fields [of _ "\<lambda>xs. w_count (length xs) # map w xs"])
  fix xs ys r s
  assume v: "list_all valid xs" "list_all valid ys"
    and a: "agree (w_count (length xs) # map w xs) (w_count (length ys) # map w ys) r s"
  have len: "length xs = length ys" and rest: "agree (map w xs) (map w ys) r s"
    using a by (simp_all only: count.field)
  from len rest v show "xs = ys"
    by (induction xs ys rule: list_induct2) (simp_all add: codec.field [OF assms])
qed (simp add: w_list_def)

interpretation opt_text: codec "w_optional w_string" "pred_option (\<lambda>_. True)"
  by (rule codec_optional [OF utf8.codec_axioms])

interpretation opt_decimal: codec "w_optional w_decimal" "pred_option decimal_wf"
  by (rule codec_optional [OF decimal.codec_axioms])

interpretation opt_i64: codec "w_optional w_i64" "pred_option is_i64"
  by (rule codec_optional [OF i64.codec_axioms])

interpretation opt_u32: codec "w_optional w_u32" "pred_option is_u32"
  by (rule codec_optional [OF u32.codec_axioms])

interpretation opt_u64: codec "w_optional w_u64" "pred_option is_u64"
  by (rule codec_optional [OF u64.codec_axioms])

interpretation texts: codec "w_list w_string" "list_all (\<lambda>_. True)"
  by (rule codec_list [OF utf8.codec_axioms])

interpretation venues: codec "w_list w_venue" "list_all (\<lambda>_. True)"
  by (rule codec_list [OF venue.codec_axioms])

lemmas codec_fields_simps = u8.field u32.field u64.field i64.field boolean.field byte_string.field utf8.field
  venue.field decimal.field opt_text.field opt_decimal.field opt_i64.field opt_u32.field opt_u64.field
  texts.field venues.field

subsection \<open>Discriminants\<close>

lemma discriminants_u8 [simp]:
  "is_u8 (namespace_u8 a)" "is_u8 (source_kind_u8 b)" "is_u8 (product_u8 c)" "is_u8 (contract_kind_u8 d)"
  "is_u8 (value_unit_u8 e)" "is_u8 (option_side_u8 f)" "is_u8 (side_u8 g)" "is_u8 (venue_state_u8 h)"
  "is_u8 (finality_u8 i)" "is_u8 (availability_u8 j)" "is_u8 (alert_status_u8 k)"
  by ((cases a; simp add: is_u8_def), (cases b; simp add: is_u8_def), (cases c; simp add: is_u8_def), (cases d; simp add: is_u8_def), (cases e; simp add: is_u8_def), (cases f; simp add: is_u8_def), (cases g; simp add: is_u8_def), (cases h; simp add: is_u8_def), (cases i; simp add: is_u8_def), (cases j; simp add: is_u8_def), (cases k; simp add: is_u8_def))

lemma discriminants_inj [simp]:
  "namespace_u8 a = namespace_u8 a' \<longleftrightarrow> a = a'" "source_kind_u8 b = source_kind_u8 b' \<longleftrightarrow> b = b'"
  "product_u8 c = product_u8 c' \<longleftrightarrow> c = c'" "contract_kind_u8 d = contract_kind_u8 d' \<longleftrightarrow> d = d'"
  "value_unit_u8 e = value_unit_u8 e' \<longleftrightarrow> e = e'" "option_side_u8 f = option_side_u8 f' \<longleftrightarrow> f = f'"
  "side_u8 g = side_u8 g' \<longleftrightarrow> g = g'" "venue_state_u8 h = venue_state_u8 h' \<longleftrightarrow> h = h'"
  "finality_u8 i = finality_u8 i' \<longleftrightarrow> i = i'" "availability_u8 j = availability_u8 j' \<longleftrightarrow> j = j'"
  "alert_status_u8 k = alert_status_u8 k' \<longleftrightarrow> k = k'"
  by ((cases a; cases a'; simp), (cases b; cases b'; simp), (cases c; cases c'; simp), (cases d; cases d'; simp), (cases e; cases e'; simp), (cases f; cases f'; simp), (cases g; cases g'; simp), (cases h; cases h'; simp), (cases i; cases i'; simp), (cases j; cases j'; simp), (cases k; cases k'; simp))

interpretation opt_side: codec "w_optional (\<lambda>s. w_u8 (option_side_u8 s))" "pred_option (\<lambda>_. True)"
proof (rule codec_optional, standard)
  fix x y a b r s
  assume "w_u8 (option_side_u8 x) = Ok a" "w_u8 (option_side_u8 y) = Ok b" "a @ r = b @ s"
  then have "option_side_u8 x = option_side_u8 y"
    using u8.prefix_free [of "option_side_u8 x" "option_side_u8 y"] by simp
  then show "x = y" by simp
qed

subsection \<open>Records\<close>

definition asset_typed :: "AssetId \<Rightarrow> bool" where "asset_typed v \<longleftrightarrow> is_u32 (aid_generation v)"
definition source_typed :: "SourceId \<Rightarrow> bool" where "source_typed v \<longleftrightarrow> is_u32 (sid_generation v)"

definition level_value_typed :: "BookLevel \<Rightarrow> bool" where
  "level_value_typed l \<longleftrightarrow> decimal_wf (lvl_price l) \<and> decimal_wf (lvl_quantity l) \<and> pred_option is_u32 (lvl_order_count l)"

definition definition_typed :: "InstrumentDefinition \<Rightarrow> bool" where
  "definition_typed v \<longleftrightarrow>
     definition_new v = Ok v \<and> is_u32 (iid_generation (def_id v)) \<and> asset_typed (def_base_asset v)
     \<and> asset_typed (def_quote_asset v) \<and> asset_typed (def_settlement_asset v)
     \<and> decimal_wf (def_contract_multiplier v) \<and> pred_option is_i64 (def_expiry_time v)
     \<and> pred_option decimal_wf (def_strike v) \<and> decimal_wf (def_price_tick v) \<and> decimal_wf (def_quantity_step v)
     \<and> is_i64 (def_listing_time v) \<and> pred_option is_i64 (def_delisting_time v)"

interpretation asset: codec w_asset asset_typed
  by (rule codec_fields [OF w_asset_def]) (simp add: codec_fields_simps asset_typed_def)

interpretation source: codec w_source source_typed
  by (rule codec_fields [OF w_source_def]) (simp add: codec_fields_simps source_typed_def)

interpretation level: codec w_level level_value_typed
  by (rule codec_fields [OF w_level_def]) (simp add: codec_fields_simps level_value_typed_def)

interpretation fact: codec w_fact "\<lambda>_. True"
  by (rule codec_fields [OF w_fact_def]) (simp add: codec_fields_simps)

interpretation opt_level: codec "w_optional w_level" "pred_option level_value_typed"
  by (rule codec_optional [OF level.codec_axioms])

interpretation levels: codec "w_list w_level" "list_all level_value_typed"
  by (rule codec_list [OF level.codec_axioms])

interpretation assets: codec "w_list w_asset" "list_all asset_typed"
  by (rule codec_list [OF asset.codec_axioms])

interpretation facts: codec "w_list w_fact" "list_all (\<lambda>_. True)"
  by (rule codec_list [OF fact.codec_axioms])

lemma definition_product: "definition_typed v \<Longrightarrow> iid_product_type (def_id v) = def_product_type v"
  by (auto simp: definition_typed_def definition_new_def validate_instrument_def result_simps split: if_splits)

interpretation instrument_definition: codec w_instrument_definition definition_typed
proof (rule codec_fields [OF w_instrument_definition_def])
  fix x y r s
  assume typed: "definition_typed x" "definition_typed y"
  note product = definition_product [OF typed(1)] definition_product [OF typed(2)]
  assume "agree
     [w_venue (iid_venue (def_id x)), w_string (iid_venue_symbol (def_id x)), w_u32 (iid_generation (def_id x)),
      w_u8 (product_u8 (def_product_type x)), w_asset (def_base_asset x), w_asset (def_quote_asset x),
      w_asset (def_settlement_asset x), w_decimal (def_contract_multiplier x),
      w_u8 (value_unit_u8 (def_contract_value_unit x)), w_u8 (contract_kind_u8 (def_contract_kind x)),
      w_optional w_i64 (def_expiry_time x), w_optional w_decimal (def_strike x),
      w_optional (\<lambda>s. w_u8 (option_side_u8 s)) (def_option_side x), w_decimal (def_price_tick x),
      w_decimal (def_quantity_step x), w_i64 (def_listing_time x), w_optional w_i64 (def_delisting_time x)]
     [w_venue (iid_venue (def_id y)), w_string (iid_venue_symbol (def_id y)), w_u32 (iid_generation (def_id y)),
      w_u8 (product_u8 (def_product_type y)), w_asset (def_base_asset y), w_asset (def_quote_asset y),
      w_asset (def_settlement_asset y), w_decimal (def_contract_multiplier y),
      w_u8 (value_unit_u8 (def_contract_value_unit y)), w_u8 (contract_kind_u8 (def_contract_kind y)),
      w_optional w_i64 (def_expiry_time y), w_optional w_decimal (def_strike y),
      w_optional (\<lambda>s. w_u8 (option_side_u8 s)) (def_option_side y), w_decimal (def_price_tick y),
      w_decimal (def_quantity_step y), w_i64 (def_listing_time y), w_optional w_i64 (def_delisting_time y)] r s"
  then have fields: "iid_venue (def_id x) = iid_venue (def_id y)"
      "iid_venue_symbol (def_id x) = iid_venue_symbol (def_id y)"
      "iid_generation (def_id x) = iid_generation (def_id y)" "def_product_type x = def_product_type y"
      "def_base_asset x = def_base_asset y" "def_quote_asset x = def_quote_asset y"
      "def_settlement_asset x = def_settlement_asset y" "def_contract_multiplier x = def_contract_multiplier y"
      "def_contract_value_unit x = def_contract_value_unit y" "def_contract_kind x = def_contract_kind y"
      "def_expiry_time x = def_expiry_time y" "def_strike x = def_strike y" "def_option_side x = def_option_side y"
      "def_price_tick x = def_price_tick y" "def_quantity_step x = def_quantity_step y"
      "def_listing_time x = def_listing_time y" "def_delisting_time x = def_delisting_time y"
    using typed by (simp_all add: codec_fields_simps opt_side.field asset.field definition_typed_def option.pred_True)
  have "def_id x = def_id y" by (rule InstrumentId.equality) (simp_all add: fields product)
  then show "x = y" by (intro InstrumentDefinitionInput.equality) (simp_all add: fields)
qed

subsection \<open>Payloads\<close>

text \<open>The ranges of the field types: what every payload value of the source satisfies.\<close>

primrec payload_typed :: "UncheckedEventPayload \<Rightarrow> bool" where
  "payload_typed (Trade v) \<longleftrightarrow> decimal_wf (tr_price v) \<and> decimal_wf (tr_quantity v)"
| "payload_typed (TopOfBook v) \<longleftrightarrow>
     pred_option level_value_typed (tob_bid v) \<and> pred_option level_value_typed (tob_ask v)"
| "payload_typed (BookSnapshot v) \<longleftrightarrow>
     list_all level_value_typed (snap_bids v) \<and> list_all level_value_typed (snap_asks v) \<and> is_u64 (snap_last_sequence v)"
| "payload_typed (BookDelta v) \<longleftrightarrow>
     list_all level_value_typed (delta_bids v) \<and> list_all level_value_typed (delta_asks v)
     \<and> is_u64 (delta_first_sequence v) \<and> is_u64 (delta_last_sequence v)"
| "payload_typed (InstrumentDefinition v) \<longleftrightarrow> definition_typed v"
| "payload_typed (FundingObservation v) \<longleftrightarrow>
     decimal_wf (fund_funding_rate v) \<and> is_i64 (fund_observed_at v) \<and> pred_option is_i64 (fund_next_funding_time v)"
| "payload_typed (OpenInterestObservation v) \<longleftrightarrow>
     decimal_wf (oi_quantity v) \<and> pred_option decimal_wf (oi_quote_notional v) \<and> is_i64 (oi_observed_at v)"
| "payload_typed (LiquidationObservation v) \<longleftrightarrow> decimal_wf (liq_price v) \<and> decimal_wf (liq_quantity v)"
| "payload_typed (MarkIndexObservation v) \<longleftrightarrow> decimal_wf (mi_mark_price v) \<and> decimal_wf (mi_index_price v)"
| "payload_typed (FutureBasisObservation v) \<longleftrightarrow>
     decimal_wf (fb_future_price v) \<and> decimal_wf (fb_reference_price v) \<and> decimal_wf (fb_basis_rate v)
     \<and> pred_option decimal_wf (fb_annualized_basis_rate v)"
| "payload_typed (OptionTicker v) \<longleftrightarrow>
     pred_option decimal_wf (ot_bid_price v) \<and> pred_option decimal_wf (ot_ask_price v) \<and> decimal_wf (ot_mark_price v)
     \<and> decimal_wf (ot_mark_iv v) \<and> decimal_wf (ot_delta v) \<and> decimal_wf (ot_open_interest v)"
| "payload_typed (OptionTrade v) \<longleftrightarrow>
     decimal_wf (otr_price v) \<and> decimal_wf (otr_quantity v) \<and> pred_option decimal_wf (otr_implied_volatility v)"
| "payload_typed (VenueStatus v) \<longleftrightarrow> is_i64 (vs_observed_at v)"
| "payload_typed (ChainBlock v) \<longleftrightarrow>
     asset_typed (cb_chain v) \<and> is_u64 (cb_height v) \<and> is_i64 (cb_block_time v) \<and> is_u64 (cb_confirmation_depth v)
     \<and> is_u64 (cb_transaction_count v)"
| "payload_typed (ChainTransactionAggregate v) \<longleftrightarrow>
     asset_typed (ca_chain v) \<and> is_i64 (ca_interval_start v) \<and> is_i64 (ca_interval_end v)
     \<and> is_u64 (ca_transaction_count v) \<and> pred_option decimal_wf (ca_transferred_value v)
     \<and> pred_option decimal_wf (ca_fee_total v)"
| "payload_typed (ChainMempoolObservation v) \<longleftrightarrow>
     asset_typed (mp_chain v) \<and> is_i64 (mp_observed_at v) \<and> is_u64 (mp_transaction_count v)
     \<and> is_u64 (mp_virtual_size v) \<and> pred_option decimal_wf (mp_total_fees v)"
| "payload_typed (ChainMetric v) \<longleftrightarrow> asset_typed (cm_chain v) \<and> decimal_wf (cm_value v) \<and> is_i64 (cm_observed_at v)"
| "payload_typed (ExternalMarketObservation v) \<longleftrightarrow> decimal_wf (em_value v) \<and> is_i64 (em_observed_at v)"
| "payload_typed (StructuredEvent v) \<longleftrightarrow>
     list_all asset_typed (se_affected_assets v) \<and> source_typed (se_source_identity v)
     \<and> is_u32 (se_source_reliability_ppm v) \<and> is_i64 (se_publication_time v)
     \<and> pred_option is_i64 (se_effective_time v) \<and> pred_option is_i64 (se_expected_end_time v)
     \<and> decimal_wf (se_direction_prior v) \<and> is_u32 (se_severity_ppm v) \<and> is_u32 (se_extraction_confidence_ppm v)"
| "payload_typed (DataQualityObservation v) \<longleftrightarrow>
     is_i64 (dq_observed_at v) \<and> is_u32 (dq_score_ppm v) \<and> is_u64 (dq_flags v)"
| "payload_typed (PredictionRecord v) \<longleftrightarrow>
     is_i64 (pr_issued_at v) \<and> is_u32 (pr_forecast_schema_version v) \<and> is_u64 (pr_horizon_seconds v)
     \<and> is_u32 (pr_calibrated_probability_ppm v) \<and> decimal_wf (pr_raw_score v) \<and> is_u32 (pr_base_rate_ppm v)
     \<and> is_u32 (pr_lower_uncertainty_ppm v) \<and> is_u32 (pr_upper_uncertainty_ppm v)
     \<and> is_u32 (pr_quality_score_ppm v) \<and> is_u32 (pr_applicability_score_ppm v)"
| "payload_typed (AlertEvent v) \<longleftrightarrow>
     is_u8 (al_priority v) \<and> is_i64 (al_triggered_at v) \<and> pred_option is_i64 (al_recovered_at v)"

lemmas payload_codecs = codec_fields_simps opt_side.field asset.field source.field opt_level.field levels.field
  assets.field facts.field instrument_definition.field option.pred_True list.pred_True

primrec payload_tag :: "UncheckedEventPayload \<Rightarrow> nat" where
  "payload_tag (Trade _) = 0" | "payload_tag (TopOfBook _) = 1" | "payload_tag (BookSnapshot _) = 2"
| "payload_tag (BookDelta _) = 3" | "payload_tag (InstrumentDefinition _) = 4"
| "payload_tag (FundingObservation _) = 5" | "payload_tag (OpenInterestObservation _) = 6"
| "payload_tag (LiquidationObservation _) = 7" | "payload_tag (MarkIndexObservation _) = 8"
| "payload_tag (FutureBasisObservation _) = 9" | "payload_tag (OptionTicker _) = 10"
| "payload_tag (OptionTrade _) = 11" | "payload_tag (VenueStatus _) = 12" | "payload_tag (ChainBlock _) = 13"
| "payload_tag (ChainTransactionAggregate _) = 14" | "payload_tag (ChainMempoolObservation _) = 15"
| "payload_tag (ChainMetric _) = 16" | "payload_tag (ExternalMarketObservation _) = 17"
| "payload_tag (StructuredEvent _) = 18" | "payload_tag (DataQualityObservation _) = 19"
| "payload_tag (PredictionRecord _) = 20" | "payload_tag (AlertEvent _) = 21"

lemma payload_tag_fields:
  obtains fields where "payload_fields p = w_u8 (payload_tag p) # fields" "is_u8 (payload_tag p)"
  by (cases p) (simp_all add: is_u8_def)

lemma agree_tags:
  assumes "agree (payload_fields p) (payload_fields q) r s"
  shows "payload_tag p = payload_tag q"
proof -
  obtain fp fq where "payload_fields p = w_u8 (payload_tag p) # fp" "payload_fields q = w_u8 (payload_tag q) # fq"
    "is_u8 (payload_tag p)" "is_u8 (payload_tag q)"
    using payload_tag_fields [of p] payload_tag_fields [of q] by metis
  then show ?thesis using assms by (simp add: u8.field)
qed

lemma is_u8_literals [simp]: "is_u8 0" "is_u8 (Suc 0)" "is_u8 (numeral k) \<longleftrightarrow> numeral k < (256 :: nat)"
  by (simp_all add: is_u8_def)

lemma agree_trade:
  "agree (payload_fields (Trade v)) (payload_fields (Trade u)) r s \<Longrightarrow>
   payload_typed (Trade v) \<Longrightarrow> payload_typed (Trade u) \<Longrightarrow> v = u"
  by (rule Event_Payload.Trade.equality) (simp_all add: payload_codecs)

lemma agree_top_of_book:
  "agree (payload_fields (TopOfBook v)) (payload_fields (TopOfBook u)) r s \<Longrightarrow>
   payload_typed (TopOfBook v) \<Longrightarrow> payload_typed (TopOfBook u) \<Longrightarrow> v = u"
  by (rule Event_Payload.TopOfBook.equality) (simp_all add: payload_codecs)

lemma agree_book_snapshot:
  "agree (payload_fields (BookSnapshot v)) (payload_fields (BookSnapshot u)) r s \<Longrightarrow>
   payload_typed (BookSnapshot v) \<Longrightarrow> payload_typed (BookSnapshot u) \<Longrightarrow> v = u"
  by (rule L2_Book.BookSnapshot.equality) (simp_all add: payload_codecs)

lemma agree_book_delta:
  "agree (payload_fields (BookDelta v)) (payload_fields (BookDelta u)) r s \<Longrightarrow>
   payload_typed (BookDelta v) \<Longrightarrow> payload_typed (BookDelta u) \<Longrightarrow> v = u"
  by (rule L2_Book.BookDelta.equality) (simp_all add: payload_codecs)

lemma agree_funding_observation:
  "agree (payload_fields (FundingObservation v)) (payload_fields (FundingObservation u)) r s \<Longrightarrow>
   payload_typed (FundingObservation v) \<Longrightarrow> payload_typed (FundingObservation u) \<Longrightarrow> v = u"
  by (rule Event_Payload.FundingObservation.equality) (simp_all add: payload_codecs)

lemma agree_open_interest_observation:
  "agree (payload_fields (OpenInterestObservation v)) (payload_fields (OpenInterestObservation u)) r s \<Longrightarrow>
   payload_typed (OpenInterestObservation v) \<Longrightarrow> payload_typed (OpenInterestObservation u) \<Longrightarrow> v = u"
  by (rule Event_Payload.OpenInterestObservation.equality) (simp_all add: payload_codecs)

lemma agree_liquidation_observation:
  "agree (payload_fields (LiquidationObservation v)) (payload_fields (LiquidationObservation u)) r s \<Longrightarrow>
   payload_typed (LiquidationObservation v) \<Longrightarrow> payload_typed (LiquidationObservation u) \<Longrightarrow> v = u"
  by (rule Event_Payload.LiquidationObservation.equality) (simp_all add: payload_codecs)

lemma agree_mark_index_observation:
  "agree (payload_fields (MarkIndexObservation v)) (payload_fields (MarkIndexObservation u)) r s \<Longrightarrow>
   payload_typed (MarkIndexObservation v) \<Longrightarrow> payload_typed (MarkIndexObservation u) \<Longrightarrow> v = u"
  by (rule Event_Payload.MarkIndexObservation.equality) (simp_all add: payload_codecs)

lemma agree_future_basis_observation:
  "agree (payload_fields (FutureBasisObservation v)) (payload_fields (FutureBasisObservation u)) r s \<Longrightarrow>
   payload_typed (FutureBasisObservation v) \<Longrightarrow> payload_typed (FutureBasisObservation u) \<Longrightarrow> v = u"
  by (rule Event_Payload.FutureBasisObservation.equality) (simp_all add: payload_codecs)

lemma agree_option_ticker:
  "agree (payload_fields (OptionTicker v)) (payload_fields (OptionTicker u)) r s \<Longrightarrow>
   payload_typed (OptionTicker v) \<Longrightarrow> payload_typed (OptionTicker u) \<Longrightarrow> v = u"
  by (rule Event_Payload.OptionTicker.equality) (simp_all add: payload_codecs)

lemma agree_option_trade:
  "agree (payload_fields (OptionTrade v)) (payload_fields (OptionTrade u)) r s \<Longrightarrow>
   payload_typed (OptionTrade v) \<Longrightarrow> payload_typed (OptionTrade u) \<Longrightarrow> v = u"
  by (rule Event_Payload.OptionTrade.equality) (simp_all add: payload_codecs)

lemma agree_venue_status:
  "agree (payload_fields (VenueStatus v)) (payload_fields (VenueStatus u)) r s \<Longrightarrow>
   payload_typed (VenueStatus v) \<Longrightarrow> payload_typed (VenueStatus u) \<Longrightarrow> v = u"
  by (rule Event_Payload.VenueStatus.equality) (simp_all add: payload_codecs)

lemma agree_chain_block:
  "agree (payload_fields (ChainBlock v)) (payload_fields (ChainBlock u)) r s \<Longrightarrow>
   payload_typed (ChainBlock v) \<Longrightarrow> payload_typed (ChainBlock u) \<Longrightarrow> v = u"
  by (rule Event_Payload.ChainBlock.equality) (simp_all add: payload_codecs)

lemma agree_chain_transaction_aggregate:
  "agree (payload_fields (ChainTransactionAggregate v)) (payload_fields (ChainTransactionAggregate u)) r s \<Longrightarrow>
   payload_typed (ChainTransactionAggregate v) \<Longrightarrow> payload_typed (ChainTransactionAggregate u) \<Longrightarrow> v = u"
  by (rule Event_Payload.ChainTransactionAggregate.equality) (simp_all add: payload_codecs)

lemma agree_chain_mempool_observation:
  "agree (payload_fields (ChainMempoolObservation v)) (payload_fields (ChainMempoolObservation u)) r s \<Longrightarrow>
   payload_typed (ChainMempoolObservation v) \<Longrightarrow> payload_typed (ChainMempoolObservation u) \<Longrightarrow> v = u"
  by (rule Event_Payload.ChainMempoolObservation.equality) (simp_all add: payload_codecs)

lemma agree_chain_metric:
  "agree (payload_fields (ChainMetric v)) (payload_fields (ChainMetric u)) r s \<Longrightarrow>
   payload_typed (ChainMetric v) \<Longrightarrow> payload_typed (ChainMetric u) \<Longrightarrow> v = u"
  by (rule Event_Payload.ChainMetric.equality) (simp_all add: payload_codecs)

lemma agree_external_market_observation:
  "agree (payload_fields (ExternalMarketObservation v)) (payload_fields (ExternalMarketObservation u)) r s \<Longrightarrow>
   payload_typed (ExternalMarketObservation v) \<Longrightarrow> payload_typed (ExternalMarketObservation u) \<Longrightarrow> v = u"
  by (rule Event_Payload.ExternalMarketObservation.equality) (simp_all add: payload_codecs)

lemma agree_structured_event:
  "agree (payload_fields (StructuredEvent v)) (payload_fields (StructuredEvent u)) r s \<Longrightarrow>
   payload_typed (StructuredEvent v) \<Longrightarrow> payload_typed (StructuredEvent u) \<Longrightarrow> v = u"
  by (rule Event_Payload.StructuredEvent.equality) (simp_all add: payload_codecs)

lemma agree_data_quality_observation:
  "agree (payload_fields (DataQualityObservation v)) (payload_fields (DataQualityObservation u)) r s \<Longrightarrow>
   payload_typed (DataQualityObservation v) \<Longrightarrow> payload_typed (DataQualityObservation u) \<Longrightarrow> v = u"
  by (rule Event_Payload.DataQualityObservation.equality) (simp_all add: payload_codecs)

lemma agree_prediction_record:
  "agree (payload_fields (PredictionRecord v)) (payload_fields (PredictionRecord u)) r s \<Longrightarrow>
   payload_typed (PredictionRecord v) \<Longrightarrow> payload_typed (PredictionRecord u) \<Longrightarrow> v = u"
  by (rule Event_Payload.PredictionRecord.equality) (simp_all add: payload_codecs)

lemma agree_alert_event:
  "agree (payload_fields (AlertEvent v)) (payload_fields (AlertEvent u)) r s \<Longrightarrow>
   payload_typed (AlertEvent v) \<Longrightarrow> payload_typed (AlertEvent u) \<Longrightarrow> v = u"
  by (rule Event_Payload.AlertEvent.equality) (simp_all add: payload_codecs)

lemma agree_instrument_definition:
  "agree (payload_fields (InstrumentDefinition v)) (payload_fields (InstrumentDefinition u)) r s \<Longrightarrow>
   payload_typed (InstrumentDefinition v) \<Longrightarrow> payload_typed (InstrumentDefinition u) \<Longrightarrow> v = u"
  by (simp add: payload_codecs)

lemmas agree_arms =
  agree_trade agree_top_of_book agree_book_snapshot agree_book_delta
  agree_funding_observation agree_open_interest_observation agree_liquidation_observation agree_mark_index_observation
  agree_future_basis_observation agree_option_ticker agree_option_trade agree_venue_status
  agree_chain_block agree_chain_transaction_aggregate agree_chain_mempool_observation agree_chain_metric
  agree_external_market_observation agree_structured_event agree_data_quality_observation agree_prediction_record
  agree_alert_event agree_instrument_definition

lemma agree_payload:
  assumes "agree (payload_fields p) (payload_fields q) r s" "payload_typed p" "payload_typed q"
  shows "p = q"
  using agree_tags [OF assms(1)] assms
  by (cases p; cases q; simp del: payload_fields.simps payload_typed.simps)
    (drule (2) agree_arms, assumption)+

subsection \<open>Whole events\<close>

text \<open>
  The part of the metadata an identity covers. Local times, session epochs, parser lineage, raw
  evidence and quality are left out; schema 1 does not cover the previous sequence number.
\<close>

record Identity =
  idn_schema_version :: nat
  idn_source :: SourceId
  idn_venue :: "VenueId option"
  idn_instrument :: "InstrumentId option"
  idn_exchange_timestamp :: "UnixNanos option"
  idn_exchange_transaction_timestamp :: "UnixNanos option"
  idn_sequence_number :: "nat option"
  idn_previous_sequence_number :: "nat option"

definition identity_of :: "UncheckedEventMetadata \<Rightarrow> Identity" where
  "identity_of m =
     \<lparr>idn_schema_version = md_schema_version m, idn_source = md_source m, idn_venue = md_venue m,
      idn_instrument = md_instrument_id m, idn_exchange_timestamp = md_exchange_timestamp m,
      idn_exchange_transaction_timestamp = md_exchange_transaction_timestamp m,
      idn_sequence_number = md_sequence_number m,
      idn_previous_sequence_number =
        (if md_schema_version m \<ge> 2 then md_previous_sequence_number m else None)\<rparr>"

definition identity_typed :: "nat \<Rightarrow> InstrumentId \<Rightarrow> bool" where
  "identity_typed schema_version i \<longleftrightarrow>
     is_u32 (iid_generation i) \<and> (schema_version < 3 \<longrightarrow> iid_product_type i = Spot)"

definition metadata_typed :: "UncheckedEventMetadata \<Rightarrow> bool" where
  "metadata_typed m \<longleftrightarrow>
     is_u32 (sid_generation (md_source m)) \<and> pred_option (\<lambda>i. is_u32 (iid_generation i)) (md_instrument_id m)
     \<and> pred_option is_i64 (md_exchange_timestamp m) \<and> pred_option is_i64 (md_exchange_transaction_timestamp m)
     \<and> pred_option is_u64 (md_sequence_number m) \<and> pred_option is_u64 (md_previous_sequence_number m)"

lemma codec_identity: "codec (w_instrument_identity v) (identity_typed v)"
proof (rule codec_fields [OF w_instrument_identity_def])
  fix i j r s
  assume typed: "identity_typed v i" "identity_typed v j"
    and "agree ([w_string (iid_venue i), w_string (iid_venue_symbol i)]
      @ (if v \<ge> 3 then [w_u8 (product_u8 (iid_product_type i))] else []) @ [w_u32 (iid_generation i)])
      ([w_string (iid_venue j), w_string (iid_venue_symbol j)]
      @ (if v \<ge> 3 then [w_u8 (product_u8 (iid_product_type j))] else []) @ [w_u32 (iid_generation j)]) r s"
  then show "i = j"
    by (cases "v \<ge> 3"; intro InstrumentId.equality) (simp_all add: codec_fields_simps identity_typed_def)
qed

interpretation version: codec event_domain "\<lambda>_. True"
proof
  fix x y a b r s
  assume ab: "event_domain x = Ok a" "event_domain y = Ok b" "a @ r = b @ s"
  have "length a = 14" "length b = 14" using ab(1,2) by (auto simp: event_domain_def split: if_splits)
  then have "a = b" using ab(3) by simp
  then show "x = y" using ab(1,2) by (auto simp: event_domain_def split: if_splits)
qed

lemma agree_nested:
  "agree (writes fs # ws) (writes gs # vs) r s \<longleftrightarrow> agree (fs @ ws) (gs @ vs) r s"
  by (auto simp: agree_def writes_append result_simps)

definition metadata_fields :: "UncheckedEventMetadata \<Rightarrow> written list" where
  "metadata_fields m =
     [w_u8 (source_kind_u8 (sid_kind (md_source m))), w_string (sid_name (md_source m)),
       w_u32 (sid_generation (md_source m)),
       w_optional w_string (md_venue m),
       w_optional (w_instrument_identity (md_schema_version m)) (md_instrument_id m),
       w_optional w_i64 (md_exchange_timestamp m),
       w_optional w_i64 (md_exchange_transaction_timestamp m),
       w_optional w_u64 (md_sequence_number m)]
      @ (if md_schema_version m \<ge> 2 then [w_optional w_u64 (md_previous_sequence_number m)] else [])"

lemma agree_metadata:
  assumes v: "md_schema_version m = md_schema_version n" and typed: "metadata_typed m" "metadata_typed n"
    and i: "pred_option (identity_typed (md_schema_version m)) (md_instrument_id m)"
      "pred_option (identity_typed (md_schema_version n)) (md_instrument_id n)"
    and a: "agree (metadata_fields m @ ws) (metadata_fields n @ vs) r s"
  shows "identity_of m = identity_of n \<and> agree ws vs r s"
proof -
  note opt = codec.field [OF codec_optional [OF codec_identity [of "md_schema_version n"]]]
  have fields: "sid_kind (md_source m) = sid_kind (md_source n)" "sid_name (md_source m) = sid_name (md_source n)"
    "sid_generation (md_source m) = sid_generation (md_source n)" "md_venue m = md_venue n"
    "md_instrument_id m = md_instrument_id n" "md_exchange_timestamp m = md_exchange_timestamp n"
    "md_exchange_transaction_timestamp m = md_exchange_transaction_timestamp n"
    "md_sequence_number m = md_sequence_number n"
    and rest: "2 \<le> md_schema_version n \<Longrightarrow> md_previous_sequence_number m = md_previous_sequence_number n"
      "agree ws vs r s"
    using a typed i v
    by (cases "2 \<le> md_schema_version n";
        simp add: metadata_fields_def metadata_typed_def codec_fields_simps opt option.pred_True)+
  have "md_source m = md_source n" by (rule SourceId.equality) (simp_all add: fields)
  then show ?thesis using fields rest v by (simp add: identity_of_def)
qed

lemma validated_product:
  assumes "payload_validate p m = Ok ()" "metadata_typed m"
  shows "pred_option (identity_typed (md_schema_version m)) (md_instrument_id m)"
  using assms
  by (cases "md_instrument_id m")
    (auto simp: payload_validate_def metadata_validate_def result_simps identity_typed_def metadata_typed_def
      split: if_splits)

lemma canonical_fields:
  "canonical_bytes m p = writes [event_domain (md_schema_version m), writes (metadata_fields m), writes (payload_fields p)]"
  by (simp add: canonical_bytes_def encode_identity_metadata_def encode_payload_def metadata_fields_def)

lemma canonical_injective:
  assumes bytes: "canonical_bytes m p = Ok b" "canonical_bytes n q = Ok b"
    and typed: "metadata_typed m" "metadata_typed n" "payload_typed p" "payload_typed q"
    and valid: "payload_validate p m = Ok ()" "payload_validate q n = Ok ()"
  shows "identity_of m = identity_of n \<and> p = q"
proof -
  have a: "agree [event_domain (md_schema_version m), writes (metadata_fields m), writes (payload_fields p)]
      [event_domain (md_schema_version n), writes (metadata_fields n), writes (payload_fields q)] [] []"
    using bytes unfolding agree_def canonical_fields by blast
  then have v: "md_schema_version m = md_schema_version n"
    and md: "agree (metadata_fields m @ [writes (payload_fields p)]) (metadata_fields n @ [writes (payload_fields q)]) [] []"
    by (simp_all only: version.field agree_nested)
  have "identity_of m = identity_of n \<and> agree [writes (payload_fields p)] [writes (payload_fields q)] [] []"
    by (rule agree_metadata [OF v typed(1,2) validated_product [OF valid(1) typed(1)]
          validated_product [OF valid(2) typed(2)] md])
  then show ?thesis using agree_payload [of p q "[]" "[]"] typed(3,4) by (simp add: agree_nested)
qed

lemma canonical_depends:
  assumes "identity_of m = identity_of n"
  shows "canonical_bytes m p = canonical_bytes n p"
proof -
  have "md_schema_version m = md_schema_version n" "metadata_fields m = metadata_fields n"
    using assms by (auto simp: identity_of_def metadata_fields_def split: if_splits)
  then show ?thesis by (simp add: canonical_fields)
qed

subsection \<open>Accepted envelopes\<close>

lemma counter_write_eq:
  "len \<le> MAX_EVENT_WIRE_BYTES \<Longrightarrow>
   counter_write len chunks =
     (if len + sum_list chunks \<le> MAX_EVENT_WIRE_BYTES then Some (len + sum_list chunks) else None)"
  by (induction chunks arbitrary: len) (auto simp: saturating_sub_def)

text \<open>The serialization succeeds within the bound.\<close>

definition fits_wire :: "(WireEnvelope \<Rightarrow> nat list \<times> bool) \<Rightarrow> WireEnvelope \<Rightarrow> bool" where
  "fits_wire json w \<longleftrightarrow> sum_list (fst (json w)) \<le> MAX_EVENT_WIRE_BYTES \<and> snd (json w)"

lemma ensure_wire_size_Ok:
  "ensure_wire_size json e = Ok () \<longleftrightarrow> fits_wire json (envelope_serialize e)"
  by (auto simp: ensure_wire_size_def counter_write_eq fits_wire_def)

lemma unit_Ok: "r = Ok v \<longleftrightarrow> r = Ok ()" for r :: "(unit, 'e) result"
  by (cases r) simp_all

lemma envelope_new_Ok_iff:
  "envelope_new digest json m p = Ok e \<longleftrightarrow>
     payload_validate p m = Ok () \<and> ev_metadata e = m \<and> ev_payload e = p \<and> ev_event_type e = payload_event_type p
     \<and> (\<exists>b. canonical_bytes m p = Ok b \<and> ev_id e = digest b)
     \<and> fits_wire json (envelope_serialize e)"
proof
  assume "envelope_new digest json m p = Ok e"
  then obtain u u' b where "payload_validate p m = Ok u" "canonical_bytes m p = Ok b"
    "e = \<lparr>ev_id = digest b, ev_event_type = payload_event_type p, ev_metadata = m, ev_payload = p\<rparr>"
    "ensure_wire_size json e = Ok u'"
    by (auto simp: envelope_new_def canonical_event_id_unchecked_def Let_def result_simps)
  then show "payload_validate p m = Ok () \<and> ev_metadata e = m \<and> ev_payload e = p \<and> ev_event_type e = payload_event_type p
     \<and> (\<exists>b. canonical_bytes m p = Ok b \<and> ev_id e = digest b)
     \<and> fits_wire json (envelope_serialize e)"
    using ensure_wire_size_Ok [of json e] by simp
next
  assume r: "payload_validate p m = Ok () \<and> ev_metadata e = m \<and> ev_payload e = p \<and> ev_event_type e = payload_event_type p
     \<and> (\<exists>b. canonical_bytes m p = Ok b \<and> ev_id e = digest b)
     \<and> fits_wire json (envelope_serialize e)"
  then obtain b where b: "canonical_bytes m p = Ok b" "ev_id e = digest b" by blast
  then have env: "\<lparr>ev_id = digest b, ev_event_type = payload_event_type p, ev_metadata = m, ev_payload = p\<rparr> = e"
    using r by (intro EventEnvelope.equality) simp_all
  have "ensure_wire_size json e = Ok ()" using r by (simp add: ensure_wire_size_Ok)
  moreover have "payload_validate p m = Ok ()" using r by blast
  ultimately show "envelope_new digest json m p = Ok e"
    unfolding envelope_new_def canonical_event_id_unchecked_def b(1) Let_def by (simp add: env)
qed

text \<open>The wire fields hold an envelope and nothing else.\<close>

lemma wire_of_envelope [simp]:
  "wire_metadata (envelope_serialize e) = ev_metadata e" "wi_payload (envelope_serialize e) = ev_payload e"
  "wi_event_type (envelope_serialize e) = ev_event_type e" "wi_event_id (envelope_serialize e) = ev_id e"
  by (simp_all add: envelope_serialize_def wire_metadata_def Let_def)

lemma envelope_of_wire:
  "envelope_serialize e = w \<longleftrightarrow>
     ev_metadata e = wire_metadata w \<and> ev_payload e = wi_payload w \<and> ev_event_type e = wi_event_type w \<and> ev_id e = wi_event_id w"
proof
  assume e: "ev_metadata e = wire_metadata w \<and> ev_payload e = wi_payload w \<and> ev_event_type e = wi_event_type w \<and> ev_id e = wi_event_id w"
  show "envelope_serialize e = w"
    by (rule WireEnvelope.equality) (simp_all add: e envelope_serialize_def wire_metadata_def Let_def)
qed auto

lemma from_wire_Ok_iff:
  "envelope_from_wire digest json w = Ok e \<longleftrightarrow>
     w = envelope_serialize e \<and> envelope_new digest json (ev_metadata e) (ev_payload e) = Ok e"
proof
  assume a: "envelope_from_wire digest json w = Ok e"
  then have new: "envelope_new digest json (wire_metadata w) (wi_payload w) = Ok e"
    and eq: "ev_event_type e = wi_event_type w" "ev_id e = wi_event_id w"
    by (auto simp: envelope_from_wire_def result_simps split: if_splits)
  then have fields: "ev_metadata e = wire_metadata w" "ev_payload e = wi_payload w" by (simp_all add: envelope_new_Ok_iff)
  then have "envelope_serialize e = w" using eq by (simp add: envelope_of_wire)
  then show "w = envelope_serialize e \<and> envelope_new digest json (ev_metadata e) (ev_payload e) = Ok e"
    using new fields by simp
qed (simp add: envelope_from_wire_def)

lemma validate_book_Ok:
  assumes "validate_book bids asks zero uncrossed = Ok ()"
  shows "strictly_descending bids" "strictly_ascending asks" "length bids + length asks \<le> MAX_BOOK_LEVELS"
    "\<not> zero \<Longrightarrow> \<forall>l \<in> set bids \<union> set asks. \<not> is_zero (lvl_quantity l)"
    "uncrossed \<Longrightarrow> bids = b # bs \<Longrightarrow> asks = a # as \<Longrightarrow> decimal_cmp (lvl_price b) (lvl_price a) = Less"
proof -
  have "MAX_BOOK_LEVELS < u64_max" by (simp add: MAX_BOOK_LEVELS_def u64_max_def)
  then show "strictly_descending bids" "strictly_ascending asks" "length bids + length asks \<le> MAX_BOOK_LEVELS"
    "\<not> zero \<Longrightarrow> \<forall>l \<in> set bids \<union> set asks. \<not> is_zero (lvl_quantity l)"
    "uncrossed \<Longrightarrow> bids = b # bs \<Longrightarrow> asks = a # as \<Longrightarrow> decimal_cmp (lvl_price b) (lvl_price a) = Less"
    using assms by (auto simp: validate_book_def saturating_add_def list_ex_iff split: if_splits)
qed

lemma ascending_head:
  "strictly_ascending (l # ls) \<Longrightarrow> x \<in> set (l # ls) \<Longrightarrow> decimal_value (lvl_price l) \<le> decimal_value (lvl_price x)"
proof (induction ls arbitrary: l)
  case (Cons k ls)
  have "decimal_value (lvl_price l) < decimal_value (lvl_price k)" "strictly_ascending (k # ls)"
    using Cons.prems(1) by (simp_all add: decimal_cmp_value)
  then show ?case using Cons.IH [of k] Cons.prems(2) by fastforce
qed simp

lemma descending_head:
  "strictly_descending (l # ls) \<Longrightarrow> x \<in> set (l # ls) \<Longrightarrow> decimal_value (lvl_price x) \<le> decimal_value (lvl_price l)"
proof (induction ls arbitrary: l)
  case (Cons k ls)
  have "decimal_value (lvl_price k) < decimal_value (lvl_price l)" "strictly_descending (k # ls)"
    using Cons.prems(1) by (simp_all add: decimal_cmp_value)
  then show ?case using Cons.IH [of k] Cons.prems(2) by fastforce
qed simp

subsection \<open>An event to evaluate\<close>

definition example_metadata :: UncheckedEventMetadata where
  "example_metadata =
     \<lparr>md_schema_version = 3, md_source = \<lparr>sid_kind = Exchange, sid_name = ''kraken'', sid_generation = 1\<rparr>,
      md_venue = Some ''kraken'', md_instrument_id = Some (instrument example_config),
      md_exchange_timestamp = Some 1000000, md_exchange_transaction_timestamp = None,
      md_receive_wall_timestamp = 3000000, md_receive_monotonic_ns = 5, md_normalization_timestamp = 3000000,
      md_connection_started_at = 0, md_sequence_number = Some 7, md_previous_sequence_number = None,
      md_connection_epoch = 1, md_subscription_epoch = 1, md_snapshot_kind = Snapshot,
      md_source_checksum = None, md_raw_payload_hash = ''h'', md_parser_version = ''p'',
      md_normalizer_version = ''n'', md_ingestion_instance = ''i'', md_quality_score_ppm = 0,
      md_quality_flags = 0\<rparr>"

lemma writes_ok: "is_ok (writes ws) \<longleftrightarrow> list_all is_ok ws"
proof (induction ws)
  case (Cons w ws)
  then show ?case by (cases w; cases "writes ws") simp_all
qed simp

lemma codec_ok [simp]:
  "is_ok (w_u8 n)" "is_ok (w_u32 n)" "is_ok (w_u64 n)" "is_ok (w_i64 i)"
  "is_ok (w_count n) \<longleftrightarrow> n \<le> u32_max"
  "is_ok (w_string s) \<longleftrightarrow> length s \<le> u32_max"
  "is_ok (w_decimal d) \<longleftrightarrow> length (decimal_to_string d) \<le> u32_max"
  "is_ok (w_optional enc v) \<longleftrightarrow> pred_option (\<lambda>x. is_ok (enc x)) v"
  "is_ok (w_list enc xs) \<longleftrightarrow> length xs \<le> u32_max \<and> list_all (\<lambda>x. is_ok (enc x)) xs"
proof -
  show count: "is_ok (w_count n) \<longleftrightarrow> n \<le> u32_max" for n by (simp add: w_count_def w_u32_def)
  show u8: "is_ok (w_u8 n)" for n by (simp add: w_u8_def)
  show s: "is_ok (w_string s) \<longleftrightarrow> length s \<le> u32_max" for s
    unfolding w_string_def w_bytes_def writes_ok by (simp add: count)
  show "is_ok (w_decimal d) \<longleftrightarrow> length (decimal_to_string d) \<le> u32_max" by (simp add: w_decimal_def s)
  show "is_ok (w_optional enc v) \<longleftrightarrow> pred_option (\<lambda>x. is_ok (enc x)) v"
  proof (cases v)
    case (Some x)
    have "is_ok (w_optional enc (Some x)) \<longleftrightarrow> list_all is_ok [w_u8 1, enc x]"
      unfolding w_optional_def option.case by (rule writes_ok)
    then show ?thesis using u8 Some by simp
  qed (simp add: w_optional_def u8)
  show "is_ok (w_list enc xs) \<longleftrightarrow> length xs \<le> u32_max \<and> list_all (\<lambda>x. is_ok (enc x)) xs"
    unfolding w_list_def writes_ok by (simp add: count list_all_iff)
qed (simp_all add: w_u32_def w_u64_def w_i64_def)

definition example_payload :: UncheckedEventPayload where
  "example_payload = BookSnapshot example_snapshot"

text \<open>The same source event, received again in a later connection.\<close>

definition example_again :: UncheckedEventMetadata where
  "example_again = example_metadata\<lparr>md_receive_monotonic_ns := 9, md_connection_epoch := 2\<rparr>"

lemma example_text: "valid_metadata_text ''p'' \<and> valid_metadata_text ''n'' \<and> valid_metadata_text ''i''"
  by (simp add: valid_metadata_text_def MAX_METADATA_TEXT_def) code_simp

lemma example_validates:
  "payload_validate example_payload example_metadata = Ok ()" "payload_validate example_payload example_again = Ok ()"
proof -
  have book: "strictly_descending (snap_bids example_snapshot)" "strictly_ascending (snap_asks example_snapshot)"
    "decimal_cmp \<lparr>mantissa = 101, scale = 0\<rparr> \<lparr>mantissa = 102, scale = 0\<rparr> = Less"
    by code_simp+
  have contract: "validate_book (snap_bids example_snapshot) (snap_asks example_snapshot) False True = Ok ()"
    using book by (simp add: validate_book_def saturating_add_def MAX_BOOK_LEVELS_def u64_max_def)
      (simp add: example_snapshot_def example_level_def is_zero_def)
  have "length ''h'' \<noteq> length zero_hash" by (simp add: zero_hash_def)
  then have "''h'' \<noteq> zero_hash" by (rule contrapos_nn) (rule arg_cong)
  then have metadata: "metadata_validate example_metadata = Ok ()" "metadata_validate example_again = Ok ()"
    using example_text
    by (simp_all add: metadata_validate_def example_again_def example_metadata_def example_config_def
        metadata_sequence_error_def MAX_QUALITY_SCORE_PPM_def)
  show "payload_validate example_payload example_metadata = Ok ()" "payload_validate example_payload example_again = Ok ()"
    using contract metadata
    by (simp_all add: payload_validate_def example_payload_def)
      (simp_all add: example_again_def example_metadata_def example_snapshot_def)
qed

lemma example_canonical: "is_ok (canonical_bytes example_metadata example_payload)"
proof -
  have "list_all (\<lambda>l. is_ok (w_level l)) (snap_bids example_snapshot @ snap_asks example_snapshot)"
    by (simp add: w_level_def writes_ok example_snapshot_def example_level_def decimal_to_string_def
        to_digits.simps unsigned_abs_def u32_max_def del: writes.simps)
  then show ?thesis
    by (simp add: canonical_fields writes_ok metadata_fields_def example_payload_def event_domain_def
        w_instrument_identity_def u32_max_def del: writes.simps)
      (simp add: example_metadata_def example_config_def example_snapshot_def u32_max_def)
qed

definition example_json :: "WireEnvelope \<Rightarrow> nat list \<times> bool" where
  "example_json e = ([100, 200], True)"

lemma example_envelope:
  obtains b where "canonical_bytes example_metadata example_payload = Ok b"
    "envelope_new digest example_json example_metadata example_payload =
       Ok \<lparr>ev_id = digest b, ev_event_type = EventType.BookSnapshot, ev_metadata = example_metadata, ev_payload = example_payload\<rparr>"
    "envelope_new digest example_json example_again example_payload =
       Ok \<lparr>ev_id = digest b, ev_event_type = EventType.BookSnapshot, ev_metadata = example_again, ev_payload = example_payload\<rparr>"
proof -
  obtain b where b: "canonical_bytes example_metadata example_payload = Ok b"
    using example_canonical by (cases "canonical_bytes example_metadata example_payload") simp_all
  have "identity_of example_again = identity_of example_metadata" by (simp add: identity_of_def example_again_def)
  then have b': "canonical_bytes example_again example_payload = Ok b" using canonical_depends b by metis
  have ty: "payload_event_type example_payload = EventType.BookSnapshot" by (simp add: example_payload_def)
  show ?thesis
    by (rule that [OF b]) (simp_all add: envelope_new_Ok_iff b b' ty example_validates example_json_def fits_wire_def
      MAX_EVENT_WIRE_BYTES_def)
qed

lemma example_event_typed: "metadata_typed example_metadata" "metadata_typed example_again" "payload_typed example_payload"
proof -
  have "list_all level_value_typed (snap_bids example_snapshot)" "list_all level_value_typed (snap_asks example_snapshot)"
    using example_typed(1)
    by (auto simp: snapshot_typed_def list_all_iff level_typed_def level_value_typed_def example_snapshot_def example_level_def)
  then show "payload_typed example_payload"
    by (simp add: example_payload_def is_u64_def u64_max_def) (simp add: example_snapshot_def)
  show "metadata_typed example_metadata" "metadata_typed example_again"
    by (simp_all add: metadata_typed_def example_again_def example_metadata_def example_config_def is_u32_def u32_max_def
        is_i64_def i64_min_def i64_max_def is_u64_def u64_max_def)
qed

subsection \<open>Properties\<close>

text \<open>
  C7. The identity of an accepted event is exact. Two accepted events have the same identity
  exactly when they agree on source, venue, instrument, source times, sequence numbers and schema
  version, and on the whole payload, every field of every one of the 22 kinds included. Local
  times, session epochs, parser lineage and quality never matter. The digest is assumed not to
  collide on the two canonical encodings.
\<close>

theorem event_identity_exact:
  assumes accepted: "envelope_new digest json m p = Ok e" "envelope_new digest json n q = Ok f"
    and typed: "metadata_typed m" "metadata_typed n" "payload_typed p" "payload_typed q"
    and collision_free: "\<And>a b. canonical_bytes m p = Ok a \<Longrightarrow> canonical_bytes n q = Ok b \<Longrightarrow> digest a = digest b \<Longrightarrow> a = b"
  shows "ev_id e = ev_id f \<longleftrightarrow> identity_of m = identity_of n \<and> p = q"
proof -
  obtain a b where ab: "canonical_bytes m p = Ok a" "ev_id e = digest a" "canonical_bytes n q = Ok b" "ev_id f = digest b"
    and valid: "payload_validate p m = Ok ()" "payload_validate q n = Ok ()"
    using accepted by (auto simp: envelope_new_Ok_iff)
  show ?thesis
  proof
    assume "ev_id e = ev_id f"
    then have "a = b" using collision_free ab by simp
    then show "identity_of m = identity_of n \<and> p = q"
      using canonical_injective [OF ab(1) _ typed valid] ab(3) by simp
  next
    assume "identity_of m = identity_of n \<and> p = q"
    then have "Ok a = (Ok b :: written)" using canonical_depends [of m n p] ab by simp
    then show "ev_id e = ev_id f" using ab by simp
  qed
qed

theorem event_identity_exact_witness:
  "\<exists>e f. envelope_new (\<lambda>b. b) example_json example_metadata example_payload = Ok e
    \<and> envelope_new (\<lambda>b. b) example_json example_again example_payload = Ok f \<and> ev_id e = ev_id f"
proof -
  obtain b where
    e: "envelope_new (\<lambda>b. b) example_json example_metadata example_payload = Ok
       \<lparr>ev_id = b, ev_event_type = EventType.BookSnapshot, ev_metadata = example_metadata, ev_payload = example_payload\<rparr>"
    (is "_ = Ok ?e") and
    f: "envelope_new (\<lambda>b. b) example_json example_again example_payload = Ok
       \<lparr>ev_id = b, ev_event_type = EventType.BookSnapshot, ev_metadata = example_again, ev_payload = example_payload\<rparr>"
    (is "_ = Ok ?f")
    by (rule example_envelope [where digest = "\<lambda>b. b"])
  have "identity_of example_metadata = identity_of example_again" by (simp add: identity_of_def example_again_def)
  then have "ev_id ?e = ev_id ?f"
    using event_identity_exact [OF e f example_event_typed(1,2,3,3)] by blast
  then show ?thesis using e f by blast
qed

text \<open>
  C39. Envelopes survive the wire and nothing else does. The fields a reader is given are accepted
  exactly when they are the serialization of an envelope whose payload is valid under its metadata,
  whose type is the payload's, whose identity verifies and whose serialization stays within 16 MiB,
  and the result is that envelope. So an envelope that was built is read back as itself from its
  fields, and from its text when the JSON library reads the fields back from the text it wrote and
  reported the length of that text.
\<close>

theorem envelope_wire_roundtrip:
  "(envelope_from_wire digest json w = Ok e \<longleftrightarrow>
     w = envelope_serialize e \<and> payload_validate (ev_payload e) (ev_metadata e) = Ok ()
     \<and> ev_event_type e = payload_event_type (ev_payload e) \<and> envelope_verify digest e = Ok ()
     \<and> sum_list (fst (json w)) \<le> MAX_EVENT_WIRE_BYTES \<and> snd (json w))
   \<and> (envelope_new digest json m p = Ok e' \<longrightarrow>
     envelope_from_wire digest json (envelope_serialize e') = Ok e'
     \<and> (parse input = Some (envelope_serialize e') \<and> length input = sum_list (fst (json (envelope_serialize e')))
         \<longrightarrow> from_json_slice digest json parse input = Ok e'))"
proof (intro conjI impI)
  show "envelope_from_wire digest json w = Ok e \<longleftrightarrow>
     w = envelope_serialize e \<and> payload_validate (ev_payload e) (ev_metadata e) = Ok ()
     \<and> ev_event_type e = payload_event_type (ev_payload e) \<and> envelope_verify digest e = Ok ()
     \<and> sum_list (fst (json w)) \<le> MAX_EVENT_WIRE_BYTES \<and> snd (json w)"
    by (auto simp: from_wire_Ok_iff envelope_new_Ok_iff envelope_verify_def canonical_event_id_unchecked_def fits_wire_def
        result_simps split: if_splits)
next
  assume new: "envelope_new digest json m p = Ok e'"
  then have "ev_metadata e' = m" "ev_payload e' = p" "fits_wire json (envelope_serialize e')"
    by (simp_all add: envelope_new_Ok_iff)
  then show read: "envelope_from_wire digest json (envelope_serialize e') = Ok e'"
    using new by (simp add: from_wire_Ok_iff)
  assume "parse input = Some (envelope_serialize e') \<and> length input = sum_list (fst (json (envelope_serialize e')))"
  then show "from_json_slice digest json parse input = Ok e'"
    using read \<open>fits_wire json (envelope_serialize e')\<close> by (simp add: from_json_slice_def fits_wire_def)
qed

text \<open>A library that writes every envelope as 300 characters and reads the example back from them.\<close>

theorem envelope_wire_roundtrip_witness:
  "\<exists>e input parse. envelope_new (\<lambda>b. b) example_json example_metadata example_payload = Ok e \<and> length input = 300
    \<and> parse input = Some (envelope_serialize e) \<and> envelope_from_wire (\<lambda>b. b) example_json (envelope_serialize e) = Ok e
    \<and> from_json_slice (\<lambda>b. b) example_json parse input = Ok e"
proof -
  obtain e where e: "envelope_new (\<lambda>b. b) example_json example_metadata example_payload = Ok e"
    using example_envelope [of "\<lambda>b. b"] by blast
  let ?input = "replicate 300 (CHR ''x'')" and ?parse = "\<lambda>input. if length input = 300 then Some (envelope_serialize e) else None"
  show ?thesis
    using envelope_wire_roundtrip [of "\<lambda>b. b" example_json _ _ example_metadata example_payload e ?parse ?input] e
    by (intro exI [of _ e] exI [of _ ?input] exI [of _ ?parse]) (simp add: example_json_def)
qed

text \<open>
  C40. A snapshot event that was accepted describes a consistent book: bids fall and asks rise
  strictly, no quantity is zero, every bid is below every ask, the levels are within the limit and
  the snapshot's sequence number is the event's.
\<close>

theorem accepted_snapshot_consistent:
  assumes "envelope_new digest json m (BookSnapshot s) = Ok e"
  shows "strictly_descending (snap_bids s) \<and> strictly_ascending (snap_asks s)
    \<and> length (snap_bids s) + length (snap_asks s) \<le> MAX_BOOK_LEVELS
    \<and> (\<forall>l \<in> set (snap_bids s) \<union> set (snap_asks s). \<not> is_zero (lvl_quantity l))
    \<and> (\<forall>b \<in> set (snap_bids s). \<forall>a \<in> set (snap_asks s). decimal_value (lvl_price b) < decimal_value (lvl_price a))
    \<and> md_sequence_number m = Some (snap_last_sequence s) \<and> md_instrument_id m \<noteq> None"
proof -
  have "payload_validate (BookSnapshot s) m = Ok ()" using assms by (simp add: envelope_new_Ok_iff)
  then have book: "validate_book (snap_bids s) (snap_asks s) False True = Ok ()"
    and m: "md_sequence_number m = Some (snap_last_sequence s)" "md_instrument_id m \<noteq> None"
    by (auto simp: payload_validate_def requires_instrument_def result_simps split: if_splits)
  note sides = validate_book_Ok [OF book]
  have "decimal_value (lvl_price b) < decimal_value (lvl_price a)"
    if ba: "b \<in> set (snap_bids s)" "a \<in> set (snap_asks s)" for a b
  proof -
    obtain b0 bs a0 as where heads: "snap_bids s = b0 # bs" "snap_asks s = a0 # as"
      using ba by (cases "snap_bids s"; cases "snap_asks s") auto
    have "decimal_value (lvl_price b) \<le> decimal_value (lvl_price b0)"
      "decimal_value (lvl_price a0) \<le> decimal_value (lvl_price a)"
      using descending_head [of b0 bs b] ascending_head [of a0 as a] sides(1,2) ba heads by auto
    moreover have "decimal_value (lvl_price b0) < decimal_value (lvl_price a0)"
      using sides(5) heads by (simp add: decimal_cmp_value)
    ultimately show ?thesis by linarith
  qed
  then show ?thesis using sides(1-4) m by simp
qed

theorem accepted_snapshot_consistent_witness:
  "strictly_descending (snap_bids example_snapshot) \<and> md_sequence_number example_metadata = Some 7"
proof -
  obtain b where "envelope_new (\<lambda>b. b) example_json example_metadata (BookSnapshot example_snapshot) = Ok
      \<lparr>ev_id = b, ev_event_type = EventType.BookSnapshot, ev_metadata = example_metadata, ev_payload = example_payload\<rparr>"
    by (rule example_envelope [where digest = "\<lambda>b. b", unfolded example_payload_def]) (simp add: example_payload_def)
  from accepted_snapshot_consistent [OF this] show ?thesis by (simp add: example_metadata_def)
qed

end
