(* ===== verification/Engine_Events.thy ===== *)
theory Engine_Events
  imports Engine_Correct Event_Identity
begin

text \<open>
  The engine fed with envelopes (\<open>apply_event\<close> and \<open>apply_event_with_receipt\<close> of
  \<open>orderbook/src/lib.rs\<close>): the two crates composed. A receipt binds the identity of the event to
  the book that was published after it.
\<close>

subsection \<open>Events\<close>

record BookEventApplyReceipt =
  rc_event_id :: EventId
  rc_snapshot :: BookSnapshotView

datatype BookEventApplyOutcome =
    Applied BookEventApplyReceipt
  | AppliedWithoutReceipt
  | NotApplied ApplyResult

primrec outcome_result :: "BookEventApplyOutcome \<Rightarrow> ApplyResult" where
  "outcome_result (Applied _) = ApplyResult.Applied"
| "outcome_result AppliedWithoutReceipt = ApplyResult.Applied"
| "outcome_result (NotApplied r) = r"

text \<open>\<open>i64::checked_sub\<close>, then \<open>u64::try_from\<close>, in milliseconds.\<close>

definition source_latency_ms :: "UncheckedEventMetadata \<Rightarrow> nat option" where
  "source_latency_ms m =
     (case md_exchange_timestamp m of
        None \<Rightarrow> None
      | Some exchange_timestamp \<Rightarrow>
          let difference = md_receive_wall_timestamp m - exchange_timestamp
          in if i64_min \<le> difference \<and> difference \<le> i64_max \<and> 0 \<le> difference
             then Some (nat difference div 1000000) else None)"

definition event_session :: "UncheckedEventMetadata \<Rightarrow> nat \<Rightarrow> BookSession" where
  "event_session m generation =
     \<lparr>connection_epoch = md_connection_epoch m, subscription_epoch = md_subscription_epoch m,
      instrument_generation = generation\<rparr>"

definition apply_event :: "(string \<Rightarrow> EventId) \<Rightarrow> EventEnvelope \<Rightarrow>
    (OrderBookEngine, ApplyResult, BookError) call" where
  "apply_event digest event =
     and_do (reading (\<lambda>_. map_err (envelope_verify digest event) (\<lambda>_. InvalidEvent))) (\<lambda>_ e.
       let m = ev_metadata event
       in if md_source_checksum m \<noteq> None then (e, Err ChecksumSourceUnavailable)
          else case md_instrument_id m of
                 None \<Rightarrow> (e, Err InvalidEvent)
               | Some i \<Rightarrow>
                   if i \<noteq> instrument (en_config e) then (e, Err WrongInstrument)
                   else let session = event_session m (iid_generation i)
                        in case ev_payload event of
                             BookSnapshot s \<Rightarrow>
                               apply_snapshot_candidate s session (md_receive_monotonic_ns m) None (source_latency_ms m) e
                           | BookDelta d \<Rightarrow>
                               apply_delta_candidate d session (md_receive_monotonic_ns m) None
                                 (md_previous_sequence_number m) (source_latency_ms m) e
                           | _ \<Rightarrow> (e, Err InvalidEvent))"

definition apply_event_with_receipt :: "(string \<Rightarrow> EventId) \<Rightarrow> EventEnvelope \<Rightarrow>
    (OrderBookEngine, BookEventApplyOutcome, BookError) call" where
  "apply_event_with_receipt digest event =
     and_do (apply_event digest event) (\<lambda>r e.
       if r \<noteq> ApplyResult.Applied then (e, Ok (NotApplied r))
       else case engine_snapshot e of
              Inl error \<Rightarrow> (e, Err error)
            | Inr snapshot \<Rightarrow>
                if md_sequence_number (ev_metadata event) \<noteq> Some (vw_last_source_sequence snapshot)
                   \<or> md_receive_monotonic_ns (ev_metadata event) \<noteq> vw_updated_monotonic_ns snapshot
                then (e, Ok AppliedWithoutReceipt)
                else (e, Ok (Applied \<lparr>rc_event_id = ev_id event, rc_snapshot = snapshot\<rparr>)))"

subsection \<open>Events are steps of the engine\<close>

definition event_value :: "EventEnvelope \<Rightarrow> bool" where
  "event_value event \<longleftrightarrow>
     (case ev_payload event of BookSnapshot s \<Rightarrow> snapshot_value s | BookDelta d \<Rightarrow> delta_value d | _ \<Rightarrow> True)"

lemma apply_event_cases:
  obtains (rejected) error where "apply_event digest event e = (e, Err error)"
      "error \<in> {InvalidEvent, ChecksumSourceUnavailable, WrongInstrument}"
  | (snapshot) s session where "ev_payload event = BookSnapshot s" "md_instrument_id (ev_metadata event) = Some (instrument (en_config e))"
      "session = event_session (ev_metadata event) (config_generation (en_config e))" "envelope_verify digest event = Ok ()"
      "apply_event digest event e = apply_snapshot_candidate s session (md_receive_monotonic_ns (ev_metadata event)) None
         (source_latency_ms (ev_metadata event)) e"
  | (delta) d session where "ev_payload event = BookDelta d" "md_instrument_id (ev_metadata event) = Some (instrument (en_config e))"
      "session = event_session (ev_metadata event) (config_generation (en_config e))" "envelope_verify digest event = Ok ()"
      "apply_event digest event e = apply_delta_candidate d session (md_receive_monotonic_ns (ev_metadata event)) None
         (md_previous_sequence_number (ev_metadata event)) (source_latency_ms (ev_metadata event)) e"
proof (cases "envelope_verify digest event")
  case (Inl error)
  then show ?thesis by (intro rejected [of InvalidEvent]) (simp_all add: apply_event_def and_do_reading)
next
  case (Inr u)
  then have ok: "envelope_verify digest event = Ok ()" by simp
  show ?thesis
  proof (cases "md_source_checksum (ev_metadata event) = None
      \<and> md_instrument_id (ev_metadata event) = Some (instrument (en_config e))")
    case False
    then have "\<exists>error \<in> {InvalidEvent, ChecksumSourceUnavailable, WrongInstrument}.
        apply_event digest event e = (e, Err error)"
      by (auto simp: apply_event_def and_do_reading ok Let_def split: option.splits)
    then show ?thesis using rejected by blast
  next
    case True
    let ?m = "ev_metadata event"
    let ?session = "event_session ?m (config_generation (en_config e))"
    have eq: "apply_event digest event e =
        (case ev_payload event of
           BookSnapshot s \<Rightarrow> apply_snapshot_candidate s ?session (md_receive_monotonic_ns ?m) None (source_latency_ms ?m) e
         | BookDelta d \<Rightarrow> apply_delta_candidate d ?session (md_receive_monotonic_ns ?m) None
             (md_previous_sequence_number ?m) (source_latency_ms ?m) e
         | _ \<Rightarrow> (e, Err InvalidEvent))"
      using True by (simp add: apply_event_def and_do_reading ok Let_def)
    consider s where "ev_payload event = BookSnapshot s" | d where "ev_payload event = BookDelta d"
      | "apply_event digest event e = (e, Err InvalidEvent)"
      by (cases "ev_payload event") (simp_all add: eq)
    then show ?thesis
    proof cases
      case 1
      then show ?thesis using True by (intro snapshot [OF 1 _ refl ok]) (simp_all add: eq)
    next
      case 2
      then show ?thesis using True by (intro delta [OF 2 _ refl ok]) (simp_all add: eq)
    next
      case 3
      then show ?thesis by (rule rejected) simp
    qed
  qed
qed

lemma apply_event_step:
  assumes "event_value event"
  shows "fst (apply_event digest event e) = e \<or> engine_step e (fst (apply_event digest event e))"
proof (cases rule: apply_event_cases [of digest event e])
  case (snapshot s session)
  then have "snapshot_value s" using assms by (simp add: event_value_def)
  then show ?thesis unfolding snapshot(5) by (intro disjI2 step_snapshot)
next
  case (delta d session)
  then have "delta_value d" using assms by (simp add: event_value_def)
  then show ?thesis unfolding delta(5) by (intro disjI2 step_delta)
qed simp

lemma apply_event_reachable:
  "engine_reachable c e \<Longrightarrow> event_value event \<Longrightarrow> engine_reachable c (fst (apply_event digest event e))"
  using apply_event_step [of event digest e] reach_step by metis

text \<open>What an event does to the book of an engine that applies it.\<close>

definition event_book :: "OrderBookEngine \<Rightarrow> EventEnvelope \<Rightarrow> L2Book \<Rightarrow> bool" where
  "event_book e event b' \<longleftrightarrow>
     (case ev_payload event of
        BookSnapshot s \<Rightarrow> synchronizes e s None b'
      | BookDelta d \<Rightarrow> delta_applies e d None (md_previous_sequence_number (ev_metadata event)) b'
      | _ \<Rightarrow> False)"

definition event_of_session :: "OrderBookEngine \<Rightarrow> EventEnvelope \<Rightarrow> bool" where
  "event_of_session e event \<longleftrightarrow>
     md_instrument_id (ev_metadata event) = Some (instrument (en_config e))
     \<and> en_session e = Some (event_session (ev_metadata event) (config_generation (en_config e)))"

lemma snapshot_event_applied:
  assumes wf: "engine_wf e" and s: "snapshot_value s"
    and out: "snd (apply_snapshot_candidate s session now None latency e) = Ok ApplyResult.Applied"
  defines "e' \<equiv> fst (apply_snapshot_candidate s session now None latency e)"
  shows "en_session e = Some session" "en_state e' = Synchronized" "keeps_identity e e'"
    "\<exists>b'. en_book e' = Some b' \<and> synchronizes e s None b'"
proof -
  have ad: "admitted session now e"
  proof (rule ccontr)
    assume "\<not> admitted session now e"
    then show False using snapshot_not_admitted [of session now e s None latency] out by auto
  qed
  have "snapshot_open e"
  proof (rule ccontr)
    assume "\<not> snapshot_open e"
    then show False using snapshot_closed [OF wf ad, of s None latency] out by auto
  qed
  then have "keeps_identity e e'" "snapshot_outcome e s None (apply_snapshot_candidate s session now None latency e)"
    using snapshot_open_correct [OF wf ad, of s None latency] s by (simp_all add: snapshot_value_def e'_def)
  then show "en_state e' = Synchronized" "keeps_identity e e'" "\<exists>b'. en_book e' = Some b' \<and> synchronizes e s None b'"
    using out by (auto simp: snapshot_outcome_def e'_def split: if_splits)
  show "en_session e = Some session" by (rule admitted_session [OF ad])
qed

lemma delta_event_applied:
  assumes wf: "engine_wf e" and d: "delta_value d"
    and out: "snd (apply_delta_candidate d session now None previous latency e) = Ok ApplyResult.Applied"
  defines "e' \<equiv> fst (apply_delta_candidate d session now None previous latency e)"
  shows "en_session e = Some session" "en_state e' = Synchronized" "keeps_identity e e'"
    "\<exists>b'. en_book e' = Some b' \<and> delta_applies e d None previous b'"
proof -
  have ad: "admitted session now e"
  proof (rule ccontr)
    assume "\<not> admitted session now e"
    then show False using delta_not_admitted [of session now e d None previous latency] out by auto
  qed
  then have "keeps_identity e e'" "delta_outcome e d None previous (apply_delta_candidate d session now None previous latency e)"
    using delta_correct [OF wf ad, of d None previous latency] d by (simp_all add: delta_value_def e'_def)
  then show "en_state e' = Synchronized" "keeps_identity e e'" "\<exists>b'. en_book e' = Some b' \<and> delta_applies e d None previous b'"
    using out by (auto simp: delta_outcome_def e'_def split: if_splits)
  show "en_session e = Some session" by (rule admitted_session [OF ad])
qed

lemma apply_event_applied:
  assumes wf: "engine_wf e" and event: "event_value event"
    and out: "apply_event digest event e = (e', Ok ApplyResult.Applied)"
  shows "envelope_verify digest event = Ok () \<and> event_of_session e event \<and> en_state e' = Synchronized
    \<and> keeps_identity e e' \<and> (\<exists>b'. en_book e' = Some b' \<and> event_book e event b')"
proof (cases rule: apply_event_cases [of digest event e])
  case (snapshot s session)
  have "snapshot_value s" using event snapshot(1) by (simp add: event_value_def)
  note applied = snapshot_event_applied [OF wf this, of session "md_receive_monotonic_ns (ev_metadata event)"
      "source_latency_ms (ev_metadata event)"]
  show ?thesis
    using applied out snapshot by (simp add: event_of_session_def event_book_def)
next
  case (delta d session)
  have "delta_value d" using event delta(1) by (simp add: event_value_def)
  note applied = delta_event_applied [OF wf this, of session "md_receive_monotonic_ns (ev_metadata event)"
      "md_previous_sequence_number (ev_metadata event)" "source_latency_ms (ev_metadata event)"]
  show ?thesis
    using applied out delta by (simp add: event_of_session_def event_book_def)
qed (use out in simp)

subsection \<open>Properties\<close>

text \<open>
  C22. A receipt is evidence. When a reachable engine hands out a receipt for an event, the event's
  identity verifies and is the receipt's, the event belongs to the engine's instrument and current
  session, and the snapshot in the receipt is the view anyone can take of the engine now: its
  sequence number and time are the event's, and its levels are the book that the event's snapshot
  or delta leads to.
\<close>

theorem receipt_binds_event:
  assumes "engine_reachable c e" "event_value event"
    and "apply_event_with_receipt digest event e = (e', Ok (Applied receipt))"
  shows "envelope_verify digest event = Ok () \<and> rc_event_id receipt = ev_id event
    \<and> event_of_session e event \<and> engine_snapshot e' = Ok (rc_snapshot receipt)
    \<and> md_sequence_number (ev_metadata event) = Some (vw_last_source_sequence (rc_snapshot receipt))
    \<and> md_receive_monotonic_ns (ev_metadata event) = vw_updated_monotonic_ns (rc_snapshot receipt)
    \<and> (\<exists>b'. event_book e event b' \<and> vw_bids (rc_snapshot receipt) = bids_descending b'
          \<and> vw_asks (rc_snapshot receipt) = asks_ascending b')"
proof -
  have wf: "engine_wf e" using reachable_wf [OF assms(1)] by simp
  obtain v where out: "apply_event digest event e = (e', Ok ApplyResult.Applied)" and v: "engine_snapshot e' = Ok v"
    and m: "md_sequence_number (ev_metadata event) = Some (vw_last_source_sequence v)"
      "md_receive_monotonic_ns (ev_metadata event) = vw_updated_monotonic_ns v"
    and receipt: "receipt = \<lparr>rc_event_id = ev_id event, rc_snapshot = v\<rparr>"
    using assms(3) by (auto simp: apply_event_with_receipt_def and_do_def split: prod.splits sum.splits if_splits)
  note applied = apply_event_applied [OF wf assms(2) out]
  then obtain b' where b': "en_book e' = Some b'" "event_book e event b'" by blast
  obtain b s where "en_book e' = Some b" "vw_bids v = bids_descending b" "vw_asks v = asks_ascending b"
    by (rule snapshot_at_Ok [OF v [unfolded engine_snapshot_def]])
  then show ?thesis using applied b' v m receipt by auto
qed

definition example_event :: "string \<Rightarrow> EventEnvelope" where
  "example_event b = \<lparr>ev_id = b, ev_event_type = EventType.BookSnapshot, ev_metadata = example_metadata,
     ev_payload = example_payload\<rparr>"

lemma example_snapshot_run:
  "snd (apply_snapshot_candidate example_snapshot example_session 5 None latency example_started) = Ok ApplyResult.Applied"
  "en_updated_monotonic_ns (fst (apply_snapshot_candidate example_snapshot example_session 5 None latency example_started)) = 5"
proof -
  have "checksum_policy example_config = Disabled" by (simp add: example_config_def)
  then show "snd (apply_snapshot_candidate example_snapshot example_session 5 None latency example_started) = Ok ApplyResult.Applied"
    "en_updated_monotonic_ns (fst (apply_snapshot_candidate example_snapshot example_session 5 None latency example_started)) = 5"
    unfolding apply_snapshot_candidate_def prologue Let_def observed_def [symmetric] if_P [OF example_admitted]
    by (simp_all add: example_started_fields example_from_snapshot validate_checksum_def and_do_def)
qed

lemma example_receipt:
  assumes b: "canonical_bytes example_metadata example_payload = Ok b"
  shows "\<exists>e' receipt. apply_event_with_receipt (\<lambda>b. b) (example_event b) example_started = (e', Ok (Applied receipt))"
proof -
  let ?latency = "source_latency_ms example_metadata"
  let ?out = "apply_snapshot_candidate example_snapshot example_session 5 None ?latency example_started"
  have wf: "engine_wf example_started" using reachable_wf [OF example_started_reachable] by simp
  have "envelope_verify (\<lambda>b. b) (example_event b) = Ok ()"
    by (simp add: envelope_verify_def canonical_event_id_unchecked_def example_event_def b)
  moreover have "md_instrument_id example_metadata = Some (instrument (en_config example_started))"
    "event_session example_metadata (config_generation (en_config example_started)) = example_session"
    "md_source_checksum example_metadata = None" "md_receive_monotonic_ns example_metadata = 5"
    "md_sequence_number example_metadata = Some 7"
    by (simp_all add: example_started_fields example_metadata_def event_session_def example_session_def example_config_def)
  ultimately have run: "apply_event (\<lambda>b. b) (example_event b) example_started = ?out"
    by (simp add: apply_event_def and_do_reading Let_def example_event_def example_payload_def)
  note applied = snapshot_event_applied [OF wf example_snapshot_value example_snapshot_run(1) [of ?latency]]
  obtain b' where b': "en_book (fst ?out) = Some b'" "synchronizes example_started example_snapshot None b'"
    using applied(4) by blast
  have book: "en_book (fst ?out) = Some example_book"
    using b'(1) synchronizes_unique [OF example_synchronizes b'(2)] by simp
  have session: "en_session (fst ?out) = Some example_session"
    using applied(1,3) by (simp add: keeps_identity_def)
  obtain v where v: "engine_snapshot (fst ?out) = Ok v"
    unfolding engine_snapshot_def by (rule snapshot_at_readable [OF applied(2) order_refl book session])
  obtain b0 where b0: "en_book (fst ?out) = Some b0" "vw_last_source_sequence v = l2_sequence b0"
    "vw_updated_monotonic_ns v = en_updated_monotonic_ns (fst ?out)"
    by (rule snapshot_at_Ok [OF v [unfolded engine_snapshot_def]])
  have "b0 = example_book" using b0(1) book by simp
  then have "vw_last_source_sequence v = 7" "vw_updated_monotonic_ns v = 5"
    using b0(2,3) example_snapshot_run(2) by (simp_all add: example_book_def)
  moreover have "apply_event (\<lambda>b. b) (example_event b) example_started = (fst ?out, Ok ApplyResult.Applied)"
    unfolding run using example_snapshot_run(1) by (simp add: prod_eq_iff)
  moreover have "md_sequence_number (ev_metadata (example_event b)) = Some 7"
    "md_receive_monotonic_ns (ev_metadata (example_event b)) = 5"
    by (simp_all add: example_event_def example_metadata_def)
  ultimately show ?thesis using v by (simp add: apply_event_with_receipt_def and_do_def)
qed

theorem receipt_binds_event_witness:
  "\<exists>b e' receipt. apply_event_with_receipt (\<lambda>b. b) (example_event b) example_started = (e', Ok (Applied receipt))
    \<and> rc_event_id receipt = b"
proof -
  obtain b where b: "canonical_bytes example_metadata example_payload = Ok b"
    by (rule example_envelope)
  obtain e' receipt where out: "apply_event_with_receipt (\<lambda>b. b) (example_event b) example_started = (e', Ok (Applied receipt))"
    using example_receipt [OF b] by blast
  have "event_value (example_event b)"
    by (simp add: event_value_def example_event_def example_payload_def example_snapshot_value)
  from receipt_binds_event [OF example_started_reachable this out]
  have "rc_event_id receipt = b" by (simp add: example_event_def)
  then show ?thesis using out by blast
qed

end
