(* ===== verification/Book_Sync.thy ===== *)
theory Book_Sync
  imports Engine_Events
begin

text \<open>
  What the order-book synchronizers of the four venue connectors have in common: each owns one
  engine and moves it only through the engine's methods. A method of a synchronizer that calls the
  engine with a question mark is \<open>engine_call\<close>: the call runs on the engine field, and its error is
  converted by the \<open>From\<close> implementation of the venue's error type. The locale states the contract
  and carries what follows from it for every venue.
\<close>

subsection \<open>Maps with the same entries\<close>

context rust_ord
begin

lemma wf_distinct: "bt_wf cmp valid m \<Longrightarrow> distinct (map fst m)"
proof (induction m)
  case (Cons e m)
  obtain k v where e: "e = (k, v)" by force
  have "k \<notin> fst ` set m" using Cons.prems cmp_refl [of k] by (force simp: e bt_wf_Cons)
  then show ?case using Cons by (simp add: e bt_wf_Cons)
qed simp

lemma wf_ext: "bt_wf cmp valid m \<Longrightarrow> bt_wf cmp valid n \<Longrightarrow> set m = set n \<Longrightarrow> m = n"
proof (induction m arbitrary: n)
  case (Cons e m)
  obtain k v where e: "e = (k, v)" by force
  obtain k' v' n' where n: "n = (k', v') # n'" using Cons.prems(3) by (cases n) auto
  have m: "valid k" "\<forall>j \<in> fst ` set m. cmp k j = Less" "bt_wf cmp valid m"
    and n': "valid k'" "\<forall>j \<in> fst ` set n'. cmp k' j = Less" "bt_wf cmp valid n'"
    using Cons.prems(1,2) by (simp_all add: e n bt_wf_Cons)
  have "k = k'"
  proof (rule ccontr)
    assume ne: "k \<noteq> k'"
    then have "cmp k' k = Less" using Cons.prems(3) n'(2) by (force simp: e n)
    moreover have "cmp k k' = Less" using ne Cons.prems(3) m(2) by (force simp: e n)
    ultimately show False using cmp_reverse [OF m(1) n'(1)] by simp
  qed
  have fresh: "k \<notin> fst ` set m" "k \<notin> fst ` set n'"
    using m n' cmp_refl [OF m(1)] \<open>k = k'\<close> by force+
  then have "v = v'" using Cons.prems(3) \<open>k = k'\<close> by (force simp: e n)
  have "set m = set (e # m) - {e}" "set n' = set n - {e}"
    using fresh \<open>k = k'\<close> \<open>v = v'\<close> by (force simp: e n)+
  then have "set m = set n'" unfolding Cons.prems(3) by simp
  then have "m = n'" using Cons.IH [OF m(3) n'(3)] by blast
  then show ?case using \<open>k = k'\<close> \<open>v = v'\<close> by (simp add: e n)
qed simp

lemma wf_get_ext:
  assumes "bt_wf cmp valid m" "bt_wf cmp valid n" "\<And>k. valid k \<Longrightarrow> bt_get cmp k m = bt_get cmp k n"
  shows "m = n"
proof (rule wf_ext [OF assms(1,2)])
  have "(k, v) \<in> set m \<longleftrightarrow> (k, v) \<in> set n" for k v
    using assms wf_key_valid [OF assms(1)] wf_key_valid [OF assms(2)] get_Some_iff [OF assms(1)] get_Some_iff [OF assms(2)]
    by metis
  then show "set m = set n" by auto
qed

lemma get_map_of: "bt_wf cmp valid m \<Longrightarrow> valid k \<Longrightarrow> bt_get cmp k m = map_of m k"
  using get_Some_iff [of m k] map_of_eq_Some_iff [OF wf_distinct, of m k] by (intro option_ext) simp

lemma get_collect:
  "bt_wf cmp valid m \<Longrightarrow> list_all valid (map fst kvs) \<Longrightarrow> valid k \<Longrightarrow>
     bt_get cmp k (bt_collect cmp m kvs) = (case map_of (rev kvs) k of None \<Rightarrow> bt_get cmp k m | Some v \<Rightarrow> Some v)"
proof (induction kvs arbitrary: m)
  case (Cons e kvs)
  obtain j v where e: "e = (j, v)" by force
  have "valid j" using Cons.prems(2) by (simp add: e)
  then show ?case
    using Cons.IH [OF wf_insert [OF Cons.prems(1)], of j v] Cons.prems get_insert [OF Cons.prems(1)]
    by (auto simp: e map_add_def split: option.splits)
qed simp

lemma set_collect:
  "bt_wf cmp valid m \<Longrightarrow> list_all valid (map fst kvs) \<Longrightarrow> set (bt_collect cmp m kvs) \<subseteq> set m \<union> set kvs"
proof (induction kvs arbitrary: m)
  case (Cons e kvs)
  obtain j v where e: "e = (j, v)" by force
  have "valid j" using Cons.prems(2) by (simp add: e)
  then show ?case
    using Cons.IH [OF wf_insert [OF Cons.prems(1)], of j v] Cons.prems set_insert [OF Cons.prems(1), of j v]
    by (auto simp: e)
qed simp

end

text \<open>A function on the values commutes with every change of the keys.\<close>

definition map_values :: "('v \<Rightarrow> 'w) \<Rightarrow> ('k, 'v) btree \<Rightarrow> ('k, 'w) btree" where
  "map_values f m = map (\<lambda>(k, v). (k, f v)) m"

lemma map_values_simps [simp]:
  "map_values f [] = []" "map fst (map_values f m) = map fst m" "length (map_values f m) = length m"
  "map_values f (take n m) = take n (map_values f m)" "map_values f (drop n m) = drop n (map_values f m)"
  "map_values f (rev m) = rev (map_values f m)"
  by (simp_all add: map_values_def take_map drop_map rev_map) (induction m; auto)

lemma map_values_wf [simp]: "bt_wf cmp valid (map_values f m) = bt_wf cmp valid m"
  by (simp add: bt_wf_def)

lemma map_values_insert: "map_values f (bt_insert cmp k v m) = bt_insert cmp k (f v) (map_values f m)"
proof (induction m)
  case (Cons e m)
  then show ?case by (cases e; cases "cmp k (fst e)") (simp_all add: map_values_def)
qed (simp add: map_values_def)

lemma map_values_remove: "map_values f (bt_remove cmp k m) = bt_remove cmp k (map_values f m)"
proof (induction m)
  case (Cons e m)
  then show ?case by (cases e; cases "cmp k (fst e)") (simp_all add: map_values_def)
qed (simp add: map_values_def)

subsection \<open>Calls on the engine\<close>

definition engine_call :: "('s \<Rightarrow> OrderBookEngine) \<Rightarrow> (OrderBookEngine \<Rightarrow> 's \<Rightarrow> 's) \<Rightarrow> (BookError \<Rightarrow> 'f) \<Rightarrow>
    (OrderBookEngine, 'a, BookError) call \<Rightarrow> ('s, 'a, 'f) call" where
  "engine_call get put wrap m s = (case m (get s) of (e, r) \<Rightarrow> (put e s, map_err r wrap))"

lemma engine_call_eq:
  "m (get s) = (e, r) \<Longrightarrow> engine_call get put wrap m s = (put e s, map_err r wrap)"
  by (simp add: engine_call_def)

lemma fst_engine_call: "fst (engine_call get put wrap m s) = put (fst (m (get s))) s"
  by (simp add: engine_call_def split: prod.split)

lemma snd_engine_call: "snd (engine_call get put wrap m s) = map_err (snd (m (get s))) wrap"
  by (simp add: engine_call_def split: prod.split)

lemma engine_call_then:
  "and_do (engine_call get put wrap m) (\<lambda>r s. (f r s, Ok r)) s =
     (case snd (m (get s)) of Inl _ \<Rightarrow> put (fst (m (get s))) s | Inr r \<Rightarrow> f r (put (fst (m (get s))) s),
      map_err (snd (m (get s))) wrap)"
  by (simp add: and_do_def engine_call_def split: prod.split sum.split)

lemma engine_steps_reachable:
  "engine_reachable c e \<Longrightarrow> engine_step\<^sup>*\<^sup>* e e' \<Longrightarrow> engine_reachable c e'"
  by (rotate_tac, induction rule: rtranclp_induct) (auto intro: reach_step)

lemma engine_new_fields:
  assumes "engine_new c = Ok e"
  shows "en_state e = Disconnected" "en_strategy e = None" "en_session e = None" "en_book e = None"
    "en_l3 e = None" "en_buffered e = []"
  using assms by (auto simp: engine_new_def split: if_splits)

lemma engine_readable:
  assumes "engine_wf e" "en_state e = Synchronized"
  obtains v b where "engine_snapshot e = Ok v" "en_book e = Some b" "vw_bids v = bids_descending b"
    "vw_asks v = asks_ascending b" "vw_last_source_sequence v = l2_sequence b"
proof -
  obtain b s where b: "en_book e = Some b" "en_session e = Some s"
    using assms by (auto simp: engine_wf_defs)
  then obtain v where v: "engine_snapshot e = Ok v"
    unfolding engine_snapshot_def by (metis snapshot_at_readable assms(2) order_refl)
  then show ?thesis using that b snapshot_at_Ok [OF v [unfolded engine_snapshot_def]] by (metis option.inject)
qed

text \<open>
  What an update leaves of the book: an applied one leaves a new book that satisfies \<open>P\<close>; any other
  leaves the engine out of the synchronized state or the state and the book as they were.
\<close>

definition book_left :: "OrderBookEngine \<Rightarrow> (L2Book \<Rightarrow> bool) \<Rightarrow>
    OrderBookEngine \<times> (ApplyResult, BookError) result \<Rightarrow> bool" where
  "book_left e P out \<longleftrightarrow> keeps_identity e (fst out)
     \<and> (if snd out = Ok ApplyResult.Applied
        then en_state (fst out) = Synchronized \<and> (\<exists>b. en_book (fst out) = Some b \<and> P b)
        else en_state (fst out) \<noteq> Synchronized
             \<or> snd out \<noteq> Ok ApplyResult.ChecksumMismatch \<and> snd out \<noteq> Ok GapDetected
               \<and> en_state (fst out) = en_state e \<and> en_book (fst out) = en_book e)"

lemma snapshot_book_left:
  assumes wf: "engine_wf e" and s: "snapshot_value s" and strategy: "en_strategy e \<in> {None, Some StreamSnapshot}"
  shows "book_left e (\<lambda>b. l2_from_snapshot s (en_config e) = Ok b) (apply_snapshot_candidate s session now checksum latency e)"
    (is "book_left e ?P ?out")
proof (cases "admitted session now e")
  case False
  then show ?thesis using snapshot_not_admitted [OF False, of s checksum latency] by (auto simp: book_left_def keeps_identity_def)
next
  case ad: True
  show ?thesis
  proof (cases "snapshot_open e")
    case False
    then show ?thesis using snapshot_closed [OF wf ad False, of s checksum latency] by (auto simp: book_left_def keeps_identity_def)
  next
    case True
    have "snapshot_outcome e s checksum ?out" "keeps_identity e (fst ?out)"
      using snapshot_open_correct [OF wf ad True, of s checksum latency] s by (simp_all add: snapshot_value_def)
    moreover have "l2_from_snapshot s (en_config e) = Ok b" if "synchronizes e s checksum b" for b
    proof -
      have "en_strategy e = Some StreamSnapshot" using True strategy wf by (auto simp: snapshot_open_def engine_wf_def state_wf_def)
      then show ?thesis using that by (auto simp: synchronizes_def pending_def)
    qed
    ultimately show ?thesis
      by (auto simp: book_left_def snapshot_outcome_def dest: synchronizes_unique split: if_splits)
  qed
qed

lemma delta_book_left:
  assumes wf: "engine_wf e" and d: "delta_value d"
  shows "book_left e (delta_applies e d checksum previous) (apply_delta_candidate d session now checksum previous latency e)"
    (is "book_left e ?P ?out")
proof (cases "admitted session now e")
  case False
  then show ?thesis using delta_not_admitted [OF False, of d checksum previous latency] by (auto simp: book_left_def keeps_identity_def)
next
  case True
  have "delta_outcome e d checksum previous ?out" "keeps_identity e (fst ?out)"
    using delta_correct [OF wf True, of d checksum previous latency] d by (simp_all add: delta_value_def)
  then show ?thesis by (auto simp: book_left_def delta_outcome_def split: if_splits)
qed

text \<open>A snapshot of the stream itself is applied as soon as it is valid.\<close>

lemma stream_snapshot_applied:
  assumes wf: "engine_wf e" and s: "snapshot_value s" and strategy: "en_strategy e = Some StreamSnapshot"
    and "en_state e \<noteq> Disconnected" "en_session e = Some session" "en_last_observed_monotonic_ns e \<le> now"
    and "checksum_policy (en_config e) = Disabled" "l2_from_snapshot s (en_config e) = Ok b"
  shows "snd (apply_snapshot_candidate s session now None latency e) = Ok ApplyResult.Applied"
    "en_state (fst (apply_snapshot_candidate s session now None latency e)) = Synchronized"
    "en_book (fst (apply_snapshot_candidate s session now None latency e)) = Some b"
proof -
  have "session_ok (en_config e) session" using wf assms(5) by (simp add: engine_wf_def core_wf_def)
  then have "admitted session now e"
    using assms(5,6) by (simp add: admitted_def validate_current_session_def session_ok_def)
  moreover have "snapshot_open e" using strategy assms(4) by (simp add: snapshot_open_def)
  moreover have sync: "synchronizes e s None b"
    using assms(7,8) strategy by (simp add: synchronizes_def pending_def checksum_accepts_def)
  ultimately have out: "snapshot_outcome e s None (apply_snapshot_candidate s session now None latency e)"
    using snapshot_open_correct [OF wf, of session now s None latency] s by (simp add: snapshot_value_def)
  have "\<exists>b. synchronizes e s None b" using sync by blast
  with out show "snd (apply_snapshot_candidate s session now None latency e) = Ok ApplyResult.Applied"
    "en_state (fst (apply_snapshot_candidate s session now None latency e)) = Synchronized"
    "en_book (fst (apply_snapshot_candidate s session now None latency e)) = Some b"
    using synchronizes_unique [OF sync] by (auto simp: snapshot_outcome_def)
qed

locale book_synchronizer =
  fixes eng :: "'s \<Rightarrow> OrderBookEngine"
    and opened :: "BookConfig \<Rightarrow> 's \<Rightarrow> bool"
    and step :: "'s \<Rightarrow> 's \<Rightarrow> bool"
  assumes opened_engine: "opened c s \<Longrightarrow> engine_new c = Ok (eng s)"
    and step_engine: "step s s' \<Longrightarrow> engine_step\<^sup>*\<^sup>* (eng s) (eng s')"
begin

lemma run_engine:
  assumes "opened c s" "step\<^sup>*\<^sup>* s s'"
  shows "engine_reachable c (eng s')"
  using assms(2)
proof (induction rule: rtranclp_induct)
  case base
  then show ?case using opened_engine [OF assms(1)] by (rule reach_new)
next
  case (step s1 s2)
  then show ?case using engine_steps_reachable step_engine by blast
qed

lemma run_wf:
  assumes "opened c s" "step\<^sup>*\<^sup>* s s'"
  shows "engine_wf (eng s')" "en_config (eng s') = c"
  using reachable_wf [OF run_engine [OF assms]] by simp_all

lemma run_view:
  assumes "opened c s" "step\<^sup>*\<^sup>* s s'" "engine_snapshot (eng s') = Ok v"
  shows "en_state (eng s') = Synchronized \<and> en_session (eng s') = Some (vw_session v)
    \<and> strictly_descending (vw_bids v) \<and> strictly_ascending (vw_asks v)
    \<and> length (vw_bids v) \<le> max_levels_per_side c \<and> length (vw_asks v) \<le> max_levels_per_side c"
  using view_of_reachable [OF run_engine [OF assms(1,2)] assms(3) [unfolded engine_snapshot_def]] by simp

text \<open>An invariant of a synchronizer that every step keeps, given the invariant of its engine.\<close>

lemma run_invariant:
  assumes "opened c s" "step\<^sup>*\<^sup>* s s'"
    and "P c s" "\<And>t t'. engine_wf (eng t) \<Longrightarrow> en_config (eng t) = c \<Longrightarrow> P c t \<Longrightarrow> step t t' \<Longrightarrow> P c t'"
  shows "P c s'"
  using assms(2)
proof (induction rule: rtranclp_induct)
  case (step s1 s2)
  then show ?case using assms(4) run_wf [OF assms(1) step(1)] by blast
qed (rule assms(3))

end

end
