(* ===== verification/Sync_Binance.thy ===== *)
theory Sync_Binance
  imports Book_Sync
begin

text \<open>
  \<open>connector-binance/src/book_sync.rs\<close>: the order-book synchronizer of the Binance connector. It
  feeds durable normalized events to an engine with an external snapshot source and starts the
  recovery itself whenever an event costs the engine its trust. An output is modelled by the
  envelope it carries, the only part the synchronizer reads. The theory shows that no event leaves
  the synchronizer untrusted.
\<close>

subsection \<open>State and operations\<close>

datatype BinanceMarket = Spot | UsdMarginedPerpetual

datatype BinanceBookSyncError = InvalidConfig | Book BookError

record BinanceBookSynchronizer =
  bn_engine :: OrderBookEngine
  bn_resnapshot_count :: nat

definition binance_try_new :: "BinanceMarket \<Rightarrow> BookConfig \<Rightarrow>
    (BinanceBookSynchronizer, BinanceBookSyncError) result" where
  "binance_try_new market config =
     (let expected_product = (case market of BinanceMarket.Spot \<Rightarrow> ProductType.Spot
                              | UsdMarginedPerpetual \<Rightarrow> Perpetual);
          expected_policy = (case market of BinanceMarket.Spot \<Rightarrow> RangeContainsNext
                             | UsdMarginedPerpetual \<Rightarrow> PreviousFinal)
      in if iid_product_type (instrument config) \<noteq> expected_product
            \<or> iid_venue (instrument config) \<noteq> ''binance''
            \<or> sequence_policy config \<noteq> expected_policy
            \<or> checksum_policy config \<noteq> Disabled
         then Err InvalidConfig
         else and_then (map_err (engine_new config) Book) (\<lambda>engine.
                Ok \<lparr>bn_engine = engine, bn_resnapshot_count = 0\<rparr>))"

abbreviation bn_call :: "(OrderBookEngine, 'a, BookError) call \<Rightarrow>
    (BinanceBookSynchronizer, 'a, BinanceBookSyncError) call" where
  "bn_call \<equiv> engine_call bn_engine (\<lambda>e s. s\<lparr>bn_engine := e\<rparr>) Book"

text \<open>\<open>self.resnapshot_count = self.resnapshot_count.saturating_add(1)\<close>\<close>

abbreviation count_resnapshot :: "BinanceBookSynchronizer \<Rightarrow> BinanceBookSynchronizer" where
  "count_resnapshot s \<equiv> s\<lparr>bn_resnapshot_count := saturating_add u64_max (bn_resnapshot_count s) 1\<rparr>"

definition binance_start_session :: "BookSession \<Rightarrow>
    (BinanceBookSynchronizer, unit, BinanceBookSyncError) call" where
  "binance_start_session session = bn_call (start_session session ExternalBuffered)"

definition binance_renew_session :: "BookSession \<Rightarrow>
    (BinanceBookSynchronizer, unit, BinanceBookSyncError) call" where
  "binance_renew_session session =
     and_do (bn_call (start_session session ExternalBuffered)) (\<lambda>_ s. (count_resnapshot s, Ok ()))"

definition binance_disconnect :: "BinanceBookSynchronizer \<Rightarrow> BinanceBookSynchronizer" where
  "binance_disconnect s = s\<lparr>bn_engine := disconnect (bn_engine s)\<rparr>"

definition binance_heartbeat_timeout :: "BinanceBookSynchronizer \<Rightarrow> BinanceBookSynchronizer" where
  "binance_heartbeat_timeout s = count_resnapshot (s\<lparr>bn_engine := disconnect (bn_engine s)\<rparr>)"

definition binance_begin_recovery :: "(BinanceBookSynchronizer, unit, BinanceBookSyncError) call" where
  "binance_begin_recovery = and_do (bn_call begin_resync) (\<lambda>_ s. (count_resnapshot s, Ok ()))"

definition invalidated_by :: "BookError \<Rightarrow> bool" where
  "invalidated_by error \<longleftrightarrow>
     error \<in> {InvalidSequence, SequenceOverflow, BufferCapacity, Capacity, MisalignedLevel,
              AmbiguousDelta, InvalidBook, ChecksumRequired, BookError.ChecksumMismatch, SequenceGap,
              BookError.SnapshotRequired}"

definition binance_apply_output_with_receipt :: "(string \<Rightarrow> EventId) \<Rightarrow> EventEnvelope \<Rightarrow>
    (BinanceBookSynchronizer, BookEventApplyOutcome, BinanceBookSyncError) call" where
  "binance_apply_output_with_receipt digest event s0 =
     (case apply_event_with_receipt digest event (bn_engine s0) of
        (e, Inl error) \<Rightarrow>
          let s = s0\<lparr>bn_engine := e\<rparr>
          in if invalidated_by error
             then and_do binance_begin_recovery (\<lambda>_ s. (s, Err (Book error))) s
             else (s, Err (Book error))
      | (e, Inr outcome) \<Rightarrow>
          let s = s0\<lparr>bn_engine := e\<rparr>
          in if outcome_result outcome = GapDetected \<or> outcome_result outcome = ApplyResult.ChecksumMismatch
             then and_do binance_begin_recovery (\<lambda>_ s. (s, Ok outcome)) s
             else (s, Ok outcome))"

definition binance_apply_output :: "(string \<Rightarrow> EventId) \<Rightarrow> EventEnvelope \<Rightarrow>
    (BinanceBookSynchronizer, ApplyResult, BinanceBookSyncError) call" where
  "binance_apply_output digest event =
     and_do (binance_apply_output_with_receipt digest event) (\<lambda>outcome s. (s, Ok (outcome_result outcome)))"

definition binance_snapshot :: "BinanceBookSynchronizer \<Rightarrow> (BookSnapshotView, BookError) result" where
  "binance_snapshot s = engine_snapshot (bn_engine s)"

inductive binance_step :: "BinanceBookSynchronizer \<Rightarrow> BinanceBookSynchronizer \<Rightarrow> bool" where
  binance_starts: "binance_step s (fst (binance_start_session session s))"
| binance_renews: "binance_step s (fst (binance_renew_session session s))"
| binance_disconnects: "binance_step s (binance_disconnect s)"
| binance_times_out: "binance_step s (binance_heartbeat_timeout s)"
| binance_applies: "event_value event \<Longrightarrow> binance_step s (fst (binance_apply_output_with_receipt digest event s))"

definition binance_opened :: "BookConfig \<Rightarrow> BinanceBookSynchronizer \<Rightarrow> bool" where
  "binance_opened c s \<longleftrightarrow> (\<exists>market. binance_try_new market c = Ok s)"

lemma binance_opened_fields:
  assumes "binance_opened c s"
  shows "engine_new c = Ok (bn_engine s)" "checksum_policy c = Disabled" "bn_resnapshot_count s = 0"
proof -
  obtain market where new: "binance_try_new market c = Ok s" using assms by (auto simp: binance_opened_def)
  obtain e where "engine_new c = Ok e" "s = \<lparr>bn_engine = e, bn_resnapshot_count = 0\<rparr>"
    using new by (cases "engine_new c") (auto simp: binance_try_new_def Let_def result_simps split: if_splits)
  then show "engine_new c = Ok (bn_engine s)" "bn_resnapshot_count s = 0" by simp_all
  show "checksum_policy c = Disabled" using new by (auto simp: binance_try_new_def Let_def split: if_splits)
qed

subsection \<open>The engine inside\<close>

lemma begin_recovery_engine:
  "bn_engine (fst (binance_begin_recovery s)) = fst (begin_resync (bn_engine s))"
  by (simp add: binance_begin_recovery_def and_do_def engine_call_def split: prod.splits sum.splits)

lemma receipt_engine: "fst (apply_event_with_receipt digest event e) = fst (apply_event digest event e)"
  by (simp add: apply_event_with_receipt_def and_do_def Let_def split: prod.splits sum.splits)

lemma recovery_engine:
  "(\<And>u v. fst (k u v) = v) \<Longrightarrow>
     bn_engine (fst (and_do binance_begin_recovery k s)) = fst (begin_resync (bn_engine s))"
  using begin_recovery_engine [of s] by (auto simp: and_do_def split: prod.splits sum.splits)

lemma output_engine:
  assumes "apply_event digest event (bn_engine s) = (e', r)"
  shows "bn_engine (fst (binance_apply_output_with_receipt digest event s)) \<in> {e', fst (begin_resync e')}"
proof -
  obtain r' where "apply_event_with_receipt digest event (bn_engine s) = (e', r')"
    using receipt_engine [of digest event "bn_engine s"] assms by (metis fst_conv prod.collapse)
  then show ?thesis
    by (cases r') (auto simp: binance_apply_output_with_receipt_def Let_def recovery_engine)
qed

lemma bn_call_fields [simp]:
  "bn_engine (fst (bn_call m s)) = fst (m (bn_engine s))"
  by (simp add: fst_engine_call)

lemma renew_engine: "bn_engine (fst (binance_renew_session session s)) = fst (start_session session ExternalBuffered (bn_engine s))"
  by (simp add: binance_renew_session_def and_do_def engine_call_def split: prod.splits sum.splits)

lemma binance_step_engine: "binance_step s s' \<Longrightarrow> engine_step\<^sup>*\<^sup>* (bn_engine s) (bn_engine s')"
proof (induction rule: binance_step.induct)
  case (binance_applies event s digest)
  obtain e r where e: "apply_event digest event (bn_engine s) = (e, r)" by force
  have "engine_step\<^sup>*\<^sup>* (bn_engine s) e"
    using apply_event_step [OF binance_applies, of digest "bn_engine s"] e by auto
  moreover have "engine_step\<^sup>*\<^sup>* e (fst (begin_resync e))" using step_resync by blast
  ultimately show ?case using output_engine [OF e] rtranclp_trans by auto
qed (auto simp: binance_start_session_def renew_engine binance_disconnect_def binance_heartbeat_timeout_def
    intro: step_start step_disconnect)

interpretation binance: book_synchronizer bn_engine binance_opened binance_step
  by unfold_locales (auto simp: binance_opened_fields binance_step_engine)

subsection \<open>Which outcomes cost the engine its trust\<close>

definition trust_lost :: "(ApplyResult, BookError) result \<Rightarrow> bool" where
  "trust_lost r \<longleftrightarrow> r = Ok GapDetected \<or> r = Ok ApplyResult.ChecksumMismatch
     \<or> (\<exists>error. r = Err error \<and> invalidated_by error)"

lemma trust_lost_simps [simp]:
  "trust_lost (Err error) \<longleftrightarrow> invalidated_by error"
  "trust_lost (Ok x) \<longleftrightarrow> x = GapDetected \<or> x = ApplyResult.ChecksumMismatch"
  by (auto simp: trust_lost_def)

lemma invalidated_simps [simp]:
  "invalidated_by InvalidSequence" "invalidated_by InvalidBook" "invalidated_by SequenceOverflow"
  "invalidated_by BufferCapacity" "\<not> invalidated_by InvalidEpoch" "\<not> invalidated_by StaleInstrumentGeneration"
  "\<not> invalidated_by MonotonicTimeRegression" "\<not> invalidated_by BookError.Untrusted"
  "\<not> invalidated_by InvalidTransition" "\<not> invalidated_by InvalidEvent" "\<not> invalidated_by WrongInstrument"
  "\<not> invalidated_by ChecksumSourceUnavailable"
  by (simp_all add: invalidated_by_def)

lemma validate_levels_errors: "validate_levels levels z c = Err error \<Longrightarrow> invalidated_by error"
proof -
  have "validate_each z c xs = Err error \<Longrightarrow> invalidated_by error" for xs
    by (induction xs) (auto simp: result_simps validate_level_def invalidated_by_def split: if_splits sum.splits)
  then show "validate_levels levels z c = Err error \<Longrightarrow> invalidated_by error"
    by (auto simp: validate_levels_def invalidated_by_def split: if_splits)
qed

lemma ensure_unique_errors: "ensure_unique_prices levels = Err error \<Longrightarrow> invalidated_by error"
  by (auto simp: ensure_unique_prices_def invalidated_by_def split: if_splits)

lemma and_then_Err: "and_then m k = Err error \<Longrightarrow> m = Err error \<or> (\<exists>v. m = Ok v \<and> k v = Err error)"
  by (cases m) (simp_all add: result_simps)

lemma l2_errors:
  "l2_from_snapshot s c = Err error \<Longrightarrow> invalidated_by error"
  "l2_validate_delta d c = Err error \<Longrightarrow> invalidated_by error"
  "l2_apply_delta b d c = Err error \<Longrightarrow> invalidated_by error"
proof -
  note errors = validate_levels_errors ensure_unique_errors and_then_Err
  show "l2_from_snapshot s c = Err error \<Longrightarrow> invalidated_by error"
    by (auto simp: l2_from_snapshot_def dest!: errors split: if_splits)
  show "l2_validate_delta d c = Err error \<Longrightarrow> invalidated_by error"
    by (auto simp: l2_validate_delta_def dest!: errors split: if_splits)
  show "l2_apply_delta b d c = Err error \<Longrightarrow> invalidated_by error"
    by (auto simp: l2_apply_delta_def dest!: errors)
qed

definition no_checksums :: "OrderBookEngine \<Rightarrow> bool" where
  "no_checksums e \<longleftrightarrow> list_all (\<lambda>x. bd_checksum x = None) (en_buffered e)"

lemma replay_results:
  "list_all (\<lambda>x. bd_session x = session \<and> bd_checksum x = None) xs \<Longrightarrow>
   checksum_policy (en_config e) = Disabled \<Longrightarrow>
   replay session recovering b latest first xs e = (e', r) \<Longrightarrow> r = Ok ApplyResult.Applied \<or> trust_lost r"
proof (induction xs arbitrary: b latest first e)
  case (Cons x xs)
  let ?e = "pop_buffered x xs e"
  have x: "bd_session x = session" "bd_checksum x = None" "list_all (\<lambda>x. bd_session x = session \<and> bd_checksum x = None) xs"
    and policy: "checksum_policy (en_config ?e) = Disabled"
    using Cons.prems(1,2) by simp_all
  show ?case
  proof (cases "delta_last_sequence (bd_delta x) \<le> l2_sequence b")
    case True
    then show ?thesis using Cons.IH [OF x(3) policy] Cons.prems(3) x(1) by (simp add: Let_def)
  next
    case False
    obtain e1 r1 where seq: "sequence_applies (bd_delta x) (l2_sequence b) first (bd_previous_final_sequence x) ?e = (e1, r1)"
      by force
    have e1: "r1 = Err SequenceOverflow \<or> e1 = ?e \<and> (\<exists>applies. r1 = Ok applies)"
      using seq by (auto simp: sequence_applies_def split: if_splits option.splits)
    show ?thesis
    proof (cases r1)
      case (Inl error)
      then have "r = Err SequenceOverflow" using Cons.prems(3) False x(1) seq e1 by (auto simp: Let_def and_do_def)
      then show ?thesis by simp
    next
      case (Inr applies)
      then have e1: "e1 = ?e" using e1 by auto
      show ?thesis
      proof (cases "applies \<and> (\<exists>b'. l2_apply_delta b (bd_delta x) (en_config ?e) = Ok b')")
        case True
        then obtain b' where b': "l2_apply_delta b (bd_delta x) (en_config ?e) = Ok b'" by blast
        have "validate_checksum b' None now ?e = (?e\<lparr>en_checksum_status := NotSupported\<rparr>, Ok True)" for now
          using policy by (simp add: validate_checksum_def)
        then show ?thesis
          using Cons.IH [OF x(3), of "?e\<lparr>en_checksum_status := NotSupported\<rparr>"] Cons.prems(3) False x(1,2) seq e1 Inr True b' policy
          by (simp add: Let_def and_do_def)
      next
        case no: False
        then have "r = Ok GapDetected \<or> (\<exists>error. l2_apply_delta b (bd_delta x) (en_config ?e) = Err error \<and> r = Err error)"
          using Cons.prems(3) False x(1) seq e1 Inr by (auto simp: Let_def and_do_def split: sum.splits if_splits)
        then show ?thesis using l2_errors(3) by auto
      qed
    qed
  qed
qed simp

lemma snapshot_results:
  assumes wf: "engine_wf e" and ad: "admitted session now e" and op: "snapshot_open e"
    and policy: "checksum_policy (en_config e) = Disabled" and plain: "no_checksums e"
    and out: "apply_snapshot_candidate s session now None latency e = (e', r)"
  shows "r = Ok ApplyResult.Applied \<or> trust_lost r"
proof -
  let ?e = "observed now latency e"
  obtain strategy where st: "en_strategy e = Some strategy" "strategy = ExternalBuffered \<longrightarrow> en_state e = Buffering"
    "en_state e \<noteq> Disconnected" by (rule open_strategy [OF wf op])
  have eq: "apply_snapshot_candidate s session now None latency e =
      (case l2_from_snapshot s (en_config e) of
         Inl error \<Rightarrow> (invalidate ?e, Err error)
       | Inr b \<Rightarrow>
           if strategy = StreamSnapshot
           then (record_resync (en_state e = BookState.Untrusted \<or> en_resync_in_progress e) now (install_trusted b now
                  (?e\<lparr>en_checksum_status := NotSupported, en_buffered := [], en_buffered_level_updates := 0\<rparr>)), Ok ApplyResult.Applied)
           else replay session (en_state e = BookState.Untrusted \<or> en_resync_in_progress e) b now True (en_buffered e)
                  (?e\<lparr>en_checksum_status := NotSupported, en_state := Replaying\<rparr>))"
    unfolding apply_snapshot_candidate_def prologue Let_def observed_def [symmetric] if_P [OF ad] observed_fields
    using st policy by (auto simp: and_do_def validate_checksum_def split: sum.splits)
  have "list_all (\<lambda>x. bd_session x = session \<and> bd_checksum x = None) (en_buffered e)"
    using wf plain admitted_session [OF ad]
    by (auto simp: engine_wf_def buffer_wf_def no_checksums_def list_all_iff buffered_ok_def)
  note replayed = replay_results [OF this]
  show ?thesis using out l2_errors(1) policy unfolding eq
    by (auto split: sum.splits if_splits dest!: replayed [rotated])
qed

lemma delta_results:
  assumes ad: "admitted session now e" and policy: "checksum_policy (en_config e) = Disabled"
    and wf: "engine_wf e" and d: "delta_value d"
    and out: "apply_delta_candidate d session now None previous latency e = (e', Err error)"
  shows "invalidated_by error"
proof (cases "delta_valid (en_config e) d None")
  case False
  have "l2_validate_delta d (en_config e) = Ok () \<or> (\<exists>error. l2_validate_delta d (en_config e) = Err error)"
    by (cases "l2_validate_delta d (en_config e)") auto
  moreover have "apply_delta_candidate d session now None previous latency e =
      (if delta_first_sequence d = 0 \<or> delta_last_sequence d = 0 \<or> delta_first_sequence d > delta_last_sequence d
       then (invalidate (observed now latency e), Err InvalidSequence)
       else (case l2_validate_delta d (en_config e) of
               Inl error \<Rightarrow> (invalidate (observed now latency e), Err error)
             | Inr u \<Rightarrow> apply_delta_candidate d session now None previous latency e))"
    unfolding apply_delta_candidate_def prologue Let_def observed_def [symmetric] if_P [OF ad] observed_fields
    using policy by (auto split: sum.splits)
  ultimately show ?thesis using out False policy l2_errors(2)
    by (auto simp: delta_valid_def split: if_splits)
next
  case True
  have "en_state e = Synchronized \<Longrightarrow> en_book e \<noteq> None" using wf by (simp add: engine_wf_def state_wf_def)
  then show ?thesis using out policy True l2_errors(3) unfolding delta_dispatch [OF ad True]
    by (auto simp: buffer_delta_def advance_book_def and_do_def validate_checksum_def sequence_applies_def Let_def
        split: option.splits if_splits sum.splits)
qed

lemma delta_no_checksums:
  assumes wf: "engine_wf e" and plain: "no_checksums e" and d: "delta_value d"
  shows "no_checksums (fst (apply_delta_candidate d session now None previous latency e))"
proof (cases "admitted session now e")
  case False
  then show ?thesis using delta_not_admitted [OF False, of d None previous latency] plain by auto
next
  case ad: True
  show ?thesis
  proof (cases "delta_valid (en_config e) d None")
    case False
    then show ?thesis using delta_malformed [OF ad False, of previous latency] by (auto simp: no_checksums_def)
  next
    case True
    let ?out = "apply_delta_candidate d session now None previous latency e"
    have out: "engine_wf (fst ?out)" "delta_outcome e d None previous ?out"
      using delta_correct [OF wf ad, of d None previous latency] d by (simp_all add: delta_value_def)
    show ?thesis
    proof (cases "en_state e = Buffering \<or> en_state e = AwaitingSnapshot")
      case True
      then show ?thesis using plain unfolding delta_dispatch [OF ad \<open>delta_valid (en_config e) d None\<close>]
        by (auto simp: buffer_delta_def no_checksums_def split: option.splits)
    next
      case False
      then have "en_state (fst ?out) \<in> {Disconnected, Synchronized, BookState.Untrusted}"
        using out(2) wf by (cases "en_state e") (auto simp: delta_outcome_def delta_applies_def engine_wf_def state_wf_def split: if_splits)
      then have "en_buffered (fst ?out) = []" using out(1) unfolding engine_wf_def state_wf_def by blast
      then show ?thesis by (simp add: no_checksums_def)
    qed
  qed
qed

text \<open>The engines of a Binance synchronizer between two calls.\<close>

definition recovered :: "OrderBookEngine \<Rightarrow> bool" where
  "recovered e \<longleftrightarrow> (en_strategy e \<noteq> None \<longrightarrow> en_state e \<in> {Buffering, Synchronized})
     \<and> en_strategy e \<in> {None, Some ExternalBuffered} \<and> no_checksums e"

definition event_left :: "OrderBookEngine \<Rightarrow> OrderBookEngine \<times> (ApplyResult, BookError) result \<Rightarrow> bool" where
  "event_left e out \<longleftrightarrow> engine_wf (fst out) \<and> en_config (fst out) = en_config e
     \<and> en_session (fst out) = en_session e \<and> en_strategy (fst out) = en_strategy e \<and> no_checksums (fst out)
     \<and> (if trust_lost (snd out) then en_state (fst out) = BookState.Untrusted
        else en_state (fst out) = en_state e \<or> en_state (fst out) = Synchronized \<and> snd out = Ok ApplyResult.Applied)"

lemma event_left_kept:
  "engine_wf e \<Longrightarrow> no_checksums e \<Longrightarrow> \<not> trust_lost r \<Longrightarrow> event_left e (e, r)"
  by (simp add: event_left_def)

lemma snapshot_left:
  assumes wf: "engine_wf e" and e: "recovered e" "checksum_policy (en_config e) = Disabled" and s: "snapshot_value s"
  shows "event_left e (apply_snapshot_candidate s session now None latency e)" (is "event_left e ?out")
proof (cases "admitted session now e")
  case False
  then show ?thesis using snapshot_not_admitted [OF False, of s None latency] e(1)
      event_left_kept [OF wf] by (auto simp: recovered_def)
next
  case ad: True
  show ?thesis
  proof (cases "snapshot_open e")
    case False
    then show ?thesis using snapshot_closed [OF wf ad False, of s None latency] e(1) observed_wf [OF wf ad, of latency]
      by (auto simp: event_left_def recovered_def no_checksums_def)
  next
    case op: True
    have out: "engine_wf (fst ?out)" "keeps_identity e (fst ?out)" "snapshot_outcome e s None ?out"
      using snapshot_open_correct [OF wf ad op, of s None latency] s by (simp_all add: snapshot_value_def)
    have "snd ?out = Ok ApplyResult.Applied \<or> trust_lost (snd ?out)"
      using snapshot_results [OF wf ad op e(2), of s latency "fst ?out" "snd ?out"] e(1) by (simp add: recovered_def)
    moreover have st: "en_state (fst ?out) = (if snd ?out = Ok ApplyResult.Applied then Synchronized else BookState.Untrusted)"
      using out(3) by (auto simp: snapshot_outcome_def split: if_splits)
    moreover have "en_buffered (fst ?out) = []"
      using out(1) st by (simp add: engine_wf_def state_wf_def split: if_splits)
    ultimately show ?thesis using out(1,2)
      by (auto simp: event_left_def keeps_identity_def no_checksums_def)
  qed
qed

lemma delta_left:
  assumes wf: "engine_wf e" and e: "recovered e" "checksum_policy (en_config e) = Disabled" and d: "delta_value d"
  shows "event_left e (apply_delta_candidate d session now None previous latency e)" (is "event_left e ?out")
proof (cases "admitted session now e")
  case False
  then show ?thesis using delta_not_admitted [OF False, of d None previous latency] e(1)
      event_left_kept [OF wf] by (auto simp: recovered_def)
next
  case ad: True
  have out: "engine_wf (fst ?out)" "keeps_identity e (fst ?out)" "delta_outcome e d None previous ?out"
    using delta_correct [OF wf ad, of d None previous latency] d by (simp_all add: delta_value_def)
  have plain: "no_checksums (fst ?out)"
    by (rule delta_no_checksums [OF wf _ d]) (use e(1) in \<open>simp add: recovered_def\<close>)
  show ?thesis
  proof (cases "snd ?out")
    case (Inl error)
    then have "invalidated_by error" by (intro delta_results [OF ad e(2) wf d, of previous latency "fst ?out"]) (metis prod.collapse)
    then show ?thesis using out plain Inl by (auto simp: event_left_def keeps_identity_def delta_outcome_def split: if_splits)
  next
    case (Inr result)
    then show ?thesis using out plain
      by (cases result) (auto simp: event_left_def keeps_identity_def delta_outcome_def split: if_splits)
  qed
qed

lemma apply_event_left:
  assumes wf: "engine_wf e" and e: "recovered e" "checksum_policy (en_config e) = Disabled" and event: "event_value event"
  shows "event_left e (apply_event digest event e)"
proof (cases rule: apply_event_cases [of digest event e])
  case (rejected error)
  then have "\<not> invalidated_by error" by auto
  then show ?thesis using rejected event_left_kept [OF wf] e(1) by (simp add: recovered_def)
next
  case (snapshot s session)
  then show ?thesis using snapshot_left [OF wf e] event by (simp add: event_value_def)
next
  case (delta d session)
  then show ?thesis using delta_left [OF wf e] event by (simp add: event_value_def)
qed

subsection \<open>The synchronizer after an output\<close>

lemma receipt_result:
  assumes "engine_wf e" "event_value event" "apply_event digest event e = (e', r)"
  obtains r' where "apply_event_with_receipt digest event e = (e', r')"
    "r = (case r' of Inl error \<Rightarrow> Err error | Inr outcome \<Rightarrow> Ok (outcome_result outcome))"
proof (cases "r = Ok ApplyResult.Applied")
  case True
  have "engine_wf e'" using apply_event_step [OF assms(2), of digest e] engine_step_wf assms(1,3) by fastforce
  moreover have "en_state e' = Synchronized" using apply_event_applied [OF assms(1,2)] assms(3) True by simp
  ultimately obtain v where "engine_snapshot e' = Ok v" by (rule engine_readable)
  then show ?thesis using that assms(3) True
    by (cases "md_sequence_number (ev_metadata event) \<noteq> Some (vw_last_source_sequence v)
      \<or> md_receive_monotonic_ns (ev_metadata event) \<noteq> vw_updated_monotonic_ns v")
      (auto simp: apply_event_with_receipt_def and_do_def)
next
  case False
  then show ?thesis using that assms(3)
    by (cases r) (simp_all add: apply_event_with_receipt_def and_do_def)
qed

lemma recovery_lost:
  assumes "en_state e' = BookState.Untrusted"
  shows "and_do binance_begin_recovery (\<lambda>_ s. (s, r)) (s\<lparr>bn_engine := e'\<rparr>) =
    (if en_strategy e' = Some ExternalBuffered
     then (count_resnapshot (s\<lparr>bn_engine := fst (begin_resync e')\<rparr>), r)
     else (s\<lparr>bn_engine := e'\<rparr>, Err (Book InvalidTransition)))"
  using assms by (simp add: binance_begin_recovery_def and_do_def engine_call_def begin_resync_def map_err_def)

lemma output_eq:
  assumes wf: "engine_wf (bn_engine s)" and e: "recovered (bn_engine s)" "checksum_policy (en_config (bn_engine s)) = Disabled"
    and event: "event_value event" and out: "apply_event digest event (bn_engine s) = (e', r)"
  shows "binance_apply_output digest event s =
    (if \<not> trust_lost r then (s\<lparr>bn_engine := e'\<rparr>, map_err r Book)
     else if en_strategy (bn_engine s) = Some ExternalBuffered
     then (count_resnapshot (s\<lparr>bn_engine := fst (begin_resync e')\<rparr>), map_err r Book)
     else (s\<lparr>bn_engine := e'\<rparr>, Err (Book InvalidTransition)))"
    and "fst (binance_apply_output_with_receipt digest event s) = fst (binance_apply_output digest event s)"
proof -
  have left: "event_left (bn_engine s) (e', r)" using apply_event_left [OF wf e event, of digest] out by simp
  obtain r' where r': "apply_event_with_receipt digest event (bn_engine s) = (e', r')"
    "r = (case r' of Inl error \<Rightarrow> Err error | Inr outcome \<Rightarrow> Ok (outcome_result outcome))"
    by (rule receipt_result [OF wf event out])
  have untrusted: "en_state e' = BookState.Untrusted" if "trust_lost r" using left that by (simp add: event_left_def)
  have strategy: "en_strategy e' = en_strategy (bn_engine s)" using left by (simp add: event_left_def)
  have out: "binance_apply_output_with_receipt digest event s =
    (if \<not> trust_lost r then (s\<lparr>bn_engine := e'\<rparr>, map_err r' Book)
     else if en_strategy (bn_engine s) = Some ExternalBuffered
     then (count_resnapshot (s\<lparr>bn_engine := fst (begin_resync e')\<rparr>), map_err r' Book)
     else (s\<lparr>bn_engine := e'\<rparr>, Err (Book InvalidTransition)))"
  proof (cases r')
    case (Inl error)
    then show ?thesis using r' untrusted
      by (simp add: binance_apply_output_with_receipt_def Let_def recovery_lost strategy map_err_def)
  next
    case (Inr outcome)
    then show ?thesis using r' untrusted
      by (simp add: binance_apply_output_with_receipt_def Let_def recovery_lost strategy map_err_def)
  qed
  have "binance_apply_output digest event s =
    (case binance_apply_output_with_receipt digest event s of
       (t, Inl error) \<Rightarrow> (t, Err error) | (t, Inr outcome) \<Rightarrow> (t, Ok (outcome_result outcome)))"
    by (simp add: binance_apply_output_def and_do_def)
  then show "binance_apply_output digest event s =
    (if \<not> trust_lost r then (s\<lparr>bn_engine := e'\<rparr>, map_err r Book)
     else if en_strategy (bn_engine s) = Some ExternalBuffered
     then (count_resnapshot (s\<lparr>bn_engine := fst (begin_resync e')\<rparr>), map_err r Book)
     else (s\<lparr>bn_engine := e'\<rparr>, Err (Book InvalidTransition)))"
    and "fst (binance_apply_output_with_receipt digest event s) = fst (binance_apply_output digest event s)"
    using r'(2) unfolding out by (cases r'; simp add: map_err_def)+
qed

lemma begin_resync_recovered:
  assumes "en_state e = BookState.Untrusted" "en_strategy e = Some ExternalBuffered"
  shows "recovered (fst (begin_resync e))" "en_state (fst (begin_resync e)) = Buffering"
    "en_book (fst (begin_resync e)) = None" "en_buffered (fst (begin_resync e)) = []"
    "en_session (fst (begin_resync e)) = en_session e"
  using assms by (simp_all add: begin_resync_def recovered_def no_checksums_def)

lemma output_recovered:
  assumes wf: "engine_wf (bn_engine s)" and e: "recovered (bn_engine s)" "checksum_policy (en_config (bn_engine s)) = Disabled"
    and event: "event_value event"
  shows "recovered (bn_engine (fst (binance_apply_output digest event s)))"
proof -
  obtain e' r where out: "apply_event digest event (bn_engine s) = (e', r)" by force
  have left: "event_left (bn_engine s) (e', r)" using apply_event_left [OF wf e event, of digest] out by simp
  show ?thesis unfolding output_eq(1) [OF wf e event out]
    using left e(1) begin_resync_recovered(1) [of e']
    by (auto simp: event_left_def recovered_def split: if_splits)
qed

lemma output_strategy:
  assumes wf: "engine_wf (bn_engine s)" and e: "recovered (bn_engine s)" "checksum_policy (en_config (bn_engine s)) = Disabled"
    and event: "event_value event"
  shows "en_strategy (bn_engine (fst (binance_apply_output digest event s))) = en_strategy (bn_engine s)"
proof -
  obtain e' r where out: "apply_event digest event (bn_engine s) = (e', r)" by force
  have "event_left (bn_engine s) (e', r)" using apply_event_left [OF wf e event, of digest] out by simp
  then show ?thesis unfolding output_eq(1) [OF wf e event out] by (auto simp: event_left_def begin_resync_def)
qed

lemma binance_step_recovered:
  assumes "engine_wf (bn_engine s)" "en_config (bn_engine s) = c" "checksum_policy c = Disabled" "recovered (bn_engine s)"
    and "binance_step s s'"
  shows "recovered (bn_engine s')"
  using assms(5,1-4)
proof (induction rule: binance_step.induct)
  case (binance_applies event s digest)
  obtain e' r where out: "apply_event digest event (bn_engine s) = (e', r)" by force
  have policy: "checksum_policy (en_config (bn_engine s)) = Disabled" using binance_applies by simp
  show ?case
    unfolding output_eq(2) [OF binance_applies(2,5) policy binance_applies(1) out]
    by (rule output_recovered [OF binance_applies(2,5) policy binance_applies(1)])
qed (auto simp: binance_start_session_def renew_engine binance_disconnect_def binance_heartbeat_timeout_def
    start_session_def and_do_reading Let_def disconnect_def recovered_def no_checksums_def split: sum.splits)

lemma binance_run:
  assumes "binance_opened c s0" "binance_step\<^sup>*\<^sup>* s0 s"
  shows "engine_wf (bn_engine s)" "en_config (bn_engine s) = c" "checksum_policy c = Disabled" "recovered (bn_engine s)"
proof -
  show "engine_wf (bn_engine s)" "en_config (bn_engine s) = c" by (rule binance.run_wf [OF assms])+
  show policy: "checksum_policy c = Disabled" by (rule binance_opened_fields(2) [OF assms(1)])
  have "recovered (bn_engine s0)"
    using engine_new_fields [OF binance_opened_fields(1) [OF assms(1)]] by (simp add: recovered_def no_checksums_def)
  then show "recovered (bn_engine s)"
    by (intro binance.run_invariant [OF assms, of "\<lambda>_ t. recovered (bn_engine t)"])
      (use binance_step_recovered policy in auto)
qed

lemma snapshot_event_run:
  assumes "envelope_verify digest event = Ok ()" "md_source_checksum (ev_metadata event) = None"
    and "event_of_session e event" "ev_payload event = BookSnapshot snapshot"
  shows "apply_event digest event e = apply_snapshot_candidate snapshot
    (event_session (ev_metadata event) (config_generation (en_config e))) (md_receive_monotonic_ns (ev_metadata event)) None
    (source_latency_ms (ev_metadata event)) e"
  using assms by (simp add: apply_event_def and_do_reading event_of_session_def Let_def)

text \<open>An accepted snapshot event makes a buffering engine synchronized.\<close>

lemma snapshot_event_synchronizes:
  assumes wf: "engine_wf e" and st: "en_state e = Buffering" and event: "event_value event"
    and verified: "envelope_verify digest event = Ok ()" "md_source_checksum (ev_metadata event) = None"
      "event_of_session e event" "ev_payload event = BookSnapshot snapshot"
    and time: "en_last_observed_monotonic_ns e \<le> md_receive_monotonic_ns (ev_metadata event)"
    and sync: "synchronizes e snapshot None b"
  shows "snd (apply_event digest event e) = Ok ApplyResult.Applied"
proof -
  let ?session = "event_session (ev_metadata event) (config_generation (en_config e))"
  have session: "en_session e = Some ?session" using verified(3) by (simp add: event_of_session_def)
  then have "session_ok (en_config e) ?session" using wf by (auto simp: engine_wf_def core_wf_def)
  then have ad: "admitted ?session (md_receive_monotonic_ns (ev_metadata event)) e"
    using time session by (simp add: admitted_def validate_current_session_def session_ok_def)
  have op: "snapshot_open e" using st by (simp add: snapshot_open_def)
  have "snapshot_value snapshot" using event verified(4) by (simp add: event_value_def)
  then have "snapshot_outcome e snapshot None (apply_event digest event e)"
    unfolding snapshot_event_run [OF verified]
    using snapshot_open_correct [OF wf ad op, of snapshot None "source_latency_ms (ev_metadata event)"]
    by (simp add: snapshot_value_def)
  then show ?thesis using sync by (auto simp: snapshot_outcome_def split: if_splits)
qed

text \<open>
  A malformed delta of an ended session takes a disconnected engine to the untrusted state: the
  engine checks the form of a delta before its own state. The synchronizer then cannot recover,
  because the strategy was dropped by the disconnection, and reports \<open>InvalidTransition\<close> in place of
  the error of the delta.
\<close>

lemma late_delta_leaves_disconnected:
  assumes "admitted session now e" "en_state e = Disconnected" "\<not> delta_valid (en_config e) d None"
  shows "en_state (fst (apply_delta_candidate d session now None previous latency e)) = BookState.Untrusted"
  using delta_malformed [OF assms(1,3), of previous latency] by auto

text \<open>The two kinds of outcome the property tells apart.\<close>

lemma output_lost:
  assumes wf: "engine_wf (bn_engine s)" and e: "recovered (bn_engine s)" "checksum_policy (en_config (bn_engine s)) = Disabled"
    and event: "event_value event" and out: "binance_apply_output digest event s = (s', r)"
    and st: "en_state (bn_engine s) = Synchronized" "en_state (bn_engine s') \<noteq> Synchronized"
  shows "en_state (bn_engine s') = Buffering \<and> en_book (bn_engine s') = None \<and> en_buffered (bn_engine s') = []
    \<and> en_session (bn_engine s') = en_session (bn_engine s) \<and> r \<noteq> Ok ApplyResult.Applied
    \<and> bn_resnapshot_count s' = saturating_add u64_max (bn_resnapshot_count s) 1"
proof -
  obtain e' q where run: "apply_event digest event (bn_engine s) = (e', q)" by force
  have left: "event_left (bn_engine s) (e', q)" using apply_event_left [OF wf e event, of digest] run by simp
  note eq = output_eq(1) [OF wf e event run, unfolded out]
  have strategy: "en_strategy (bn_engine s) = Some ExternalBuffered"
    using wf e(1) st(1) by (auto simp: recovered_def engine_wf_def state_wf_def)
  have lost: "trust_lost q" using eq left st by (auto simp: event_left_def split: if_splits)
  then have e': "en_state e' = BookState.Untrusted" "en_strategy e' = Some ExternalBuffered"
    "en_session e' = en_session (bn_engine s)"
    using left strategy by (simp_all add: event_left_def)
  show ?thesis
    using eq lost strategy begin_resync_recovered [OF e'(1,2)] e'(3) by (cases q) (auto simp: map_err_def)
qed

lemma output_applied:
  assumes wf: "engine_wf (bn_engine s)" and e: "recovered (bn_engine s)" "checksum_policy (en_config (bn_engine s)) = Disabled"
    and event: "event_value event" and out: "binance_apply_output digest event s = (s', r)"
  shows "r = Ok ApplyResult.Applied \<longleftrightarrow> snd (apply_event digest event (bn_engine s)) = Ok ApplyResult.Applied"
    and "r = Ok ApplyResult.Applied \<Longrightarrow> \<exists>v b. binance_snapshot s' = Ok v \<and> event_book (bn_engine s) event b
      \<and> vw_bids v = bids_descending b \<and> vw_asks v = asks_ascending b"
proof -
  obtain e' q where run: "apply_event digest event (bn_engine s) = (e', q)" by force
  have left: "event_left (bn_engine s) (e', q)" using apply_event_left [OF wf e event, of digest] run by simp
  note eq = output_eq(1) [OF wf e event run, unfolded out]
  show result: "r = Ok ApplyResult.Applied \<longleftrightarrow> snd (apply_event digest event (bn_engine s)) = Ok ApplyResult.Applied"
    using eq run by (cases q) (auto simp: map_err_def split: if_splits)
  assume "r = Ok ApplyResult.Applied"
  then have q: "q = Ok ApplyResult.Applied" using result run by simp
  then have s': "bn_engine s' = e'" using eq by simp
  obtain b where b: "en_state e' = Synchronized" "en_book e' = Some b" "event_book (bn_engine s) event b"
    using apply_event_applied [OF wf event] run q by blast
  have "engine_wf e'" using left by (simp add: event_left_def)
  then show "\<exists>v b. binance_snapshot s' = Ok v \<and> event_book (bn_engine s) event b
      \<and> vw_bids v = bids_descending b \<and> vw_asks v = asks_ascending b"
    using engine_readable [OF _ b(1)] b(2,3) unfolding binance_snapshot_def s' by (metis option.inject)
qed

subsection \<open>Properties\<close>

text \<open>
  C9. The Binance synchronizer repairs itself. While its session is connected it is always either
  collecting deltas for a snapshot or synchronized, whatever outputs it was given. An output that
  costs a synchronized book its trust leaves it collecting for the same session with no book and an
  empty buffer, counted as one more snapshot to fetch. A verified snapshot of the session that
  joins the collected deltas is applied, and after every applied output the published view is the
  book the output leads to.
\<close>

theorem binance_recovers:
  assumes "binance_try_new market c = Ok s0" "binance_step\<^sup>*\<^sup>* s0 s" "event_value event"
    and "binance_apply_output digest event s = (s', r)"
  shows "(en_strategy (bn_engine s') \<noteq> None \<longrightarrow> en_state (bn_engine s') \<in> {Buffering, Synchronized})
    \<and> (en_state (bn_engine s) = Synchronized \<and> en_state (bn_engine s') \<noteq> Synchronized \<longrightarrow>
         en_state (bn_engine s') = Buffering \<and> en_book (bn_engine s') = None \<and> en_buffered (bn_engine s') = []
         \<and> en_session (bn_engine s') = en_session (bn_engine s) \<and> r \<noteq> Ok ApplyResult.Applied
         \<and> bn_resnapshot_count s' = saturating_add u64_max (bn_resnapshot_count s) 1)
    \<and> (\<forall>snapshot b. en_state (bn_engine s) = Buffering \<and> envelope_verify digest event = Ok ()
         \<and> md_source_checksum (ev_metadata event) = None \<and> event_of_session (bn_engine s) event
         \<and> ev_payload event = BookSnapshot snapshot
         \<and> en_last_observed_monotonic_ns (bn_engine s) \<le> md_receive_monotonic_ns (ev_metadata event)
         \<and> synchronizes (bn_engine s) snapshot None b \<longrightarrow> r = Ok ApplyResult.Applied)
    \<and> (r = Ok ApplyResult.Applied \<longrightarrow> (\<exists>v b. binance_snapshot s' = Ok v \<and> event_book (bn_engine s) event b
         \<and> vw_bids v = bids_descending b \<and> vw_asks v = asks_ascending b))"
proof -
  have "binance_opened c s0" using assms(1) by (auto simp: binance_opened_def)
  note run = binance_run [OF this assms(2)]
  have wf: "engine_wf (bn_engine s)" and rec: "recovered (bn_engine s)"
    and policy: "checksum_policy (en_config (bn_engine s)) = Disabled" using run by simp_all
  have "recovered (bn_engine s')" using output_recovered [OF wf rec policy assms(3), of digest] by (simp add: assms(4))
  then show ?thesis
    using output_lost [OF wf rec policy assms(3,4)] output_applied [OF wf rec policy assms(3,4)]
      snapshot_event_synchronizes [OF wf _ assms(3), of digest]
    unfolding recovered_def by blast
qed

definition example_binance :: BookConfig where
  "example_binance = example_config\<lparr>instrument := \<lparr>iid_venue = ''binance'', iid_venue_symbol = ''BTCUSDT'',
     iid_product_type = ProductType.Spot, iid_generation = 1\<rparr>, sequence_policy := RangeContainsNext\<rparr>"

definition example_synchronizer :: BinanceBookSynchronizer where
  "example_synchronizer = \<lparr>bn_engine = example_new\<lparr>en_config := example_binance\<rparr>, bn_resnapshot_count = 0\<rparr>"

lemma example_binance_new: "binance_try_new BinanceMarket.Spot example_binance = Ok example_synchronizer"
proof -
  have "config_validate example_binance"
    using example_engine_new by (simp add: engine_new_def example_binance_def config_validate_def split: if_splits)
  then have "engine_new example_binance = Ok (example_new\<lparr>en_config := example_binance\<rparr>)"
    by (simp add: engine_new_def example_new_def fresh_checksum_status_def fresh_l3_checksum_status_def
        example_binance_def example_config_def)
  then show ?thesis
    by (simp add: binance_try_new_def example_synchronizer_def example_binance_def example_config_def)
qed

theorem binance_recovers_witness:
  "en_state (bn_engine (fst (binance_apply_output (\<lambda>b. b) (example_event ''id'')
     (fst (binance_start_session example_session example_synchronizer))))) \<in> {Buffering, Synchronized}"
proof -
  let ?s = "fst (binance_start_session example_session example_synchronizer)"
  let ?out = "binance_apply_output (\<lambda>b. b) (example_event ''id'') ?s"
  have run: "binance_step\<^sup>*\<^sup>* example_synchronizer ?s" using binance_starts by (rule r_into_rtranclp)
  have event: "event_value (example_event ''id'')"
    by (simp add: event_value_def example_event_def example_payload_def example_snapshot_value)
  have "en_strategy (bn_engine ?s) = Some ExternalBuffered"
    by (simp add: binance_start_session_def start_session_def and_do_reading validate_new_session_def
        example_synchronizer_def example_new_def example_binance_def example_session_def session_is_valid_def)
  moreover have "en_strategy (bn_engine (fst ?out)) = en_strategy (bn_engine ?s)"
  proof (rule output_strategy [OF _ _ _ event])
    have "binance_opened example_binance example_synchronizer" using example_binance_new by (auto simp: binance_opened_def)
    then show "engine_wf (bn_engine ?s)" "recovered (bn_engine ?s)" "checksum_policy (en_config (bn_engine ?s)) = Disabled"
      using binance_run [OF _ run] by auto
  qed
  ultimately show ?thesis
    using binance_recovers [OF example_binance_new run event, of "\<lambda>b. b" "fst ?out" "snd ?out"] by simp
qed

end
