(* ===== verification/Sync_Kraken.thy ===== *)
theory Sync_Kraken
  imports Book_Sync
begin

text \<open>
  \<open>connector-kraken/src/book_sync.rs\<close> with the allowlist of \<open>l3.rs\<close> and the level reader of
  \<open>parser.rs\<close>: the synchronizer of the Kraken connector. The venue numbers no updates and checks
  books by a CRC-32 of their decimal texts, so the synchronizer keeps the best levels with the texts
  they came in, numbers the messages itself and hands the engine a checksum observation with every
  message. This theory holds the operations; \<open>Kraken_Mirror\<close> shows that the exact levels and the
  engine's book never diverge.
\<close>

subsection \<open>Messages\<close>

datatype BookMessageKind = Snapshot | Update

datatype L3EventKind = Add | Modify | Delete

record KrakenLevel =
  kl_price :: Price
  kl_quantity :: Quantity
  kl_price_text :: string
  kl_quantity_text :: string

record SpotBookMessage =
  sm_symbol :: string
  sm_kind :: BookMessageKind
  sm_timestamp :: string
  sm_checksum :: "32 word"
  sm_bids :: "KrakenLevel list"
  sm_asks :: "KrakenLevel list"

record NativeL3Order =
  no_event :: "L3EventKind option"
  no_order_id :: string
  no_price :: Price
  no_quantity :: Quantity
  no_price_text :: string
  no_quantity_text :: string
  no_timestamp :: string

record SpotL3Message =
  s3_symbol :: string
  s3_kind :: BookMessageKind
  s3_timestamp :: string
  s3_checksum :: "32 word"
  s3_bids :: "NativeL3Order list"
  s3_asks :: "NativeL3Order list"

text \<open>
  Reading a level: the text of a number after \<open>serde_json\<close> has taken it from the frame, and the
  level of two such numbers. All failures are one error of the parser.
\<close>

definition exact_decimal :: "string \<Rightarrow> FixedDecimal option" where
  "exact_decimal chars =
     (if chars = [] \<or> length chars > 128 \<or> CHR ''e'' \<in> set chars \<or> CHR ''E'' \<in> set chars \<or> CHR ''+'' \<in> set chars
         \<or> trim chars \<noteq> chars
      then None
      else case decimal_parse chars of Inl _ \<Rightarrow> None | Inr v \<Rightarrow> Some v)"

definition native_level :: "bool \<Rightarrow> string \<Rightarrow> string \<Rightarrow> KrakenLevel option" where
  "native_level allow_zero price_text quantity_text =
     Option.bind (exact_decimal price_text) (\<lambda>p.
     Option.bind (exact_decimal quantity_text) (\<lambda>q.
       case quantity_new q of
         Inl _ \<Rightarrow> None
       | Inr quantity \<Rightarrow>
           if \<not> allow_zero \<and> is_zero quantity then None
           else case price_new p of
                  Inl _ \<Rightarrow> None
                | Inr price \<Rightarrow>
                    if is_positive price
                    then Some \<lparr>kl_price = price, kl_quantity = quantity, kl_price_text = price_text,
                               kl_quantity_text = quantity_text\<rparr>
                    else None))"

subsection \<open>The allowlist of level-three symbols\<close>

record KrakenL3Policy =
  kp_symbols :: "(string, unit) btree"
  kp_depth :: nat
  kp_max_orders_per_symbol :: nat

datatype KrakenL3PolicyError = InvalidCapacity | InvalidSymbol

definition policy_disabled :: KrakenL3Policy where
  "policy_disabled = \<lparr>kp_symbols = [], kp_depth = 10, kp_max_orders_per_symbol = 1\<rparr>"

text \<open>The symbol is ASCII by the time its characters are inspected.\<close>

definition valid_symbol :: "string \<Rightarrow> bool" where
  "valid_symbol symbol \<longleftrightarrow>
     symbol \<noteq> [] \<and> length symbol \<le> 64 \<and> trim symbol = symbol \<and> list_all is_ascii symbol
     \<and> \<not> list_ex is_ascii_control symbol"

fun retain_symbols :: "(string, unit) btree \<Rightarrow> string list \<Rightarrow>
    ((string, unit) btree, KrakenL3PolicyError) result" where
  "retain_symbols retained [] = Ok retained"
| "retain_symbols retained (symbol # symbols) =
     (if \<not> valid_symbol symbol \<or> bt_contains str_cmp symbol retained then Err InvalidSymbol
      else retain_symbols (bt_insert str_cmp symbol () retained) symbols)"

definition policy_try_new :: "string list \<Rightarrow> nat \<Rightarrow> nat \<Rightarrow> (KrakenL3Policy, KrakenL3PolicyError) result" where
  "policy_try_new symbols depth max_orders_per_symbol =
     (if depth \<notin> {10, 100, 1000} \<or> max_orders_per_symbol = 0 then Err InvalidCapacity
      else and_then (retain_symbols [] symbols) (\<lambda>retained.
             if retained = [] \<or> length retained > 200 then Err InvalidCapacity
             else Ok \<lparr>kp_symbols = retained, kp_depth = depth,
                      kp_max_orders_per_symbol = max_orders_per_symbol\<rparr>))"

definition is_enabled_for :: "KrakenL3Policy \<Rightarrow> string \<Rightarrow> bool" where
  "is_enabled_for policy symbol \<longleftrightarrow> bt_contains str_cmp symbol (kp_symbols policy)"

subsection \<open>State\<close>

record ExactL3Entry =
  xe_order :: L3Order
  xe_price_text :: string
  xe_quantity_text :: string

record L3Candidate =
  lc_entries :: "(L3OrderId, ExactL3Entry) btree"
  lc_events :: "L3Event list"
  lc_next_queue_order :: nat

record KrakenBookSynchronizer =
  kr_engine :: OrderBookEngine
  kr_symbol :: string
  kr_exact_bids :: "(Price, KrakenLevel) btree"
  kr_exact_asks :: "(Price, KrakenLevel) btree"
  kr_local_revision :: nat
  kr_max_depth :: nat
  kr_l3_policy :: KrakenL3Policy
  kr_exact_l3 :: "(L3OrderId, ExactL3Entry) btree"
  kr_next_queue_order :: nat

datatype KrakenBookSyncError =
    InvalidConfig
  | WrongMessage
  | SessionNotStarted
  | RevisionOverflow
  | L3NotAllowed
  | L2NotSynchronized
  | L3SnapshotRequired
  | UnknownL3Order
  | AmbiguousL3Order
  | L3Capacity
  | Book BookError

definition kraken_try_new_with_l3 :: "BookConfig \<Rightarrow> KrakenL3Policy \<Rightarrow>
    (KrakenBookSynchronizer, KrakenBookSyncError) result" where
  "kraken_try_new_with_l3 config l3_policy =
     (if iid_venue (instrument config) \<noteq> ''kraken''
         \<or> sequence_policy config \<noteq> ExactNext
         \<or> checksum_policy config \<noteq> Required
         \<or> (kp_symbols l3_policy \<noteq> []) \<noteq> (max_l3_orders config \<noteq> None)
         \<or> (case max_l3_orders config of None \<Rightarrow> False
            | Some maximum \<Rightarrow> maximum \<noteq> kp_max_orders_per_symbol l3_policy
                \<or> max_l3_levels_per_side config \<noteq> Some (kp_depth l3_policy))
      then Err InvalidConfig
      else and_then (map_err (engine_new config) Book) (\<lambda>engine.
             Ok \<lparr>kr_engine = engine, kr_symbol = iid_venue_symbol (instrument config),
                 kr_exact_bids = [], kr_exact_asks = [], kr_local_revision = 0,
                 kr_max_depth = max_levels_per_side config, kr_l3_policy = l3_policy,
                 kr_exact_l3 = [], kr_next_queue_order = 0\<rparr>))"

definition kraken_try_new :: "BookConfig \<Rightarrow> (KrakenBookSynchronizer, KrakenBookSyncError) result" where
  "kraken_try_new config = kraken_try_new_with_l3 config policy_disabled"

abbreviation kr_call :: "(OrderBookEngine, 'a, BookError) call \<Rightarrow>
    (KrakenBookSynchronizer, 'a, KrakenBookSyncError) call" where
  "kr_call \<equiv> engine_call kr_engine (\<lambda>e s. s\<lparr>kr_engine := e\<rparr>) Book"

definition clear_exact :: "KrakenBookSynchronizer \<Rightarrow> KrakenBookSynchronizer" where
  "clear_exact s = s\<lparr>kr_exact_bids := [], kr_exact_asks := [], kr_exact_l3 := [], kr_local_revision := 0,
     kr_next_queue_order := 0\<rparr>"

definition kraken_start_session :: "BookSession \<Rightarrow> (KrakenBookSynchronizer, unit, KrakenBookSyncError) call" where
  "kraken_start_session session =
     and_do (kr_call (start_session session StreamSnapshot)) (\<lambda>_ s. (clear_exact s, Ok ()))"

definition kraken_disconnect :: "KrakenBookSynchronizer \<Rightarrow> KrakenBookSynchronizer" where
  "kraken_disconnect s = clear_exact (s\<lparr>kr_engine := disconnect (kr_engine s)\<rparr>)"

definition kraken_snapshot :: "KrakenBookSynchronizer \<Rightarrow> (BookSnapshotView, BookError) result" where
  "kraken_snapshot s = engine_snapshot (kr_engine s)"

subsection \<open>Level two\<close>

definition canonical_spot_symbol :: "string \<Rightarrow> string" where
  "canonical_spot_symbol symbol = filter (\<lambda>character. character \<noteq> CHR ''/'') symbol"

fun apply_levels :: "(Price, KrakenLevel) btree \<Rightarrow> KrakenLevel list \<Rightarrow> (Price, KrakenLevel) btree" where
  "apply_levels side [] = side"
| "apply_levels side (level # levels) =
     apply_levels (if is_zero (kl_quantity level) then bt_remove decimal_cmp (kl_price level) side
                   else bt_insert decimal_cmp (kl_price level) level side) levels"

text \<open>The loops have the shape of the engine's; a side has at most its length rounds.\<close>

definition kraken_truncate_bids :: "(Price, KrakenLevel) btree \<Rightarrow> nat \<Rightarrow> (Price, KrakenLevel) btree" where
  "kraken_truncate_bids side maximum = truncate_bids_loop (length side) decimal_cmp side maximum"

definition kraken_truncate_asks :: "(Price, KrakenLevel) btree \<Rightarrow> nat \<Rightarrow> (Price, KrakenLevel) btree" where
  "kraken_truncate_asks side maximum = truncate_asks_loop (length side) decimal_cmp side maximum"

definition exact_level :: "KrakenLevel \<Rightarrow> (ExactChecksumLevel, BookError) result" where
  "exact_level level = exact_level_new (kl_price_text level) (kl_quantity_text level)"

text \<open>\<open>collect::<Result<Vec<_>, _>>()\<close>\<close>

fun collect_results :: "('a \<Rightarrow> ('b, 'e) result) \<Rightarrow> 'a list \<Rightarrow> ('b list, 'e) result" where
  "collect_results f [] = Ok []"
| "collect_results f (x # xs) =
     and_then (f x) (\<lambda>y. and_then (collect_results f xs) (\<lambda>ys. Ok (y # ys)))"

definition checksum_for :: "32 word \<Rightarrow> (Price, KrakenLevel) btree \<Rightarrow> (Price, KrakenLevel) btree \<Rightarrow>
    (KrakenV2Checksum, BookError) result" where
  "checksum_for expected asks bids =
     and_then (collect_results exact_level (take 10 (map snd asks))) (\<lambda>asks1.
     and_then (collect_results exact_level (take 10 (rev (map snd bids)))) (\<lambda>bids1.
       k2_new expected asks1 bids1))"

definition book_level :: "KrakenLevel \<Rightarrow> BookLevel" where
  "book_level level = \<lparr>lvl_price = kl_price level, lvl_quantity = kl_quantity level, lvl_order_count = None\<rparr>"

definition collapsed_book_levels :: "KrakenLevel list \<Rightarrow> BookLevel list" where
  "collapsed_book_levels levels =
     map snd (bt_collect decimal_cmp [] (map (\<lambda>level. (kl_price level, book_level level)) levels))"

definition descending_levels :: "(Price, KrakenLevel) btree \<Rightarrow> BookLevel list" where
  "descending_levels levels = map book_level (rev (map snd levels))"

definition ascending_levels :: "(Price, KrakenLevel) btree \<Rightarrow> BookLevel list" where
  "ascending_levels levels = map book_level (map snd levels)"

definition candidate_bids :: "SpotBookMessage \<Rightarrow> KrakenBookSynchronizer \<Rightarrow> (Price, KrakenLevel) btree" where
  "candidate_bids message s =
     kraken_truncate_bids (apply_levels (case sm_kind message of Snapshot \<Rightarrow> [] | Update \<Rightarrow> kr_exact_bids s)
       (sm_bids message)) (kr_max_depth s)"

definition candidate_asks :: "SpotBookMessage \<Rightarrow> KrakenBookSynchronizer \<Rightarrow> (Price, KrakenLevel) btree" where
  "candidate_asks message s =
     kraken_truncate_asks (apply_levels (case sm_kind message of Snapshot \<Rightarrow> [] | Update \<Rightarrow> kr_exact_asks s)
       (sm_asks message)) (kr_max_depth s)"

definition spot_engine_call :: "SpotBookMessage \<Rightarrow> nat \<Rightarrow> nat \<Rightarrow> nat \<Rightarrow> BookSession \<Rightarrow> KrakenV2Checksum \<Rightarrow>
    KrakenBookSynchronizer \<Rightarrow> (OrderBookEngine, ApplyResult, BookError) call" where
  "spot_engine_call message now latency next_revision session checksum s =
     (case sm_kind message of
        Snapshot \<Rightarrow>
          apply_snapshot_checked
            \<lparr>snap_bids = descending_levels (candidate_bids message s),
             snap_asks = ascending_levels (candidate_asks message s), snap_last_sequence = next_revision\<rparr>
            session now latency checksum
      | Update \<Rightarrow>
          apply_delta_checked
            \<lparr>delta_bids = collapsed_book_levels (sm_bids message),
             delta_asks = collapsed_book_levels (sm_asks message),
             delta_first_sequence = next_revision, delta_last_sequence = next_revision\<rparr>
            session now latency checksum)"

definition kraken_apply_spot :: "SpotBookMessage \<Rightarrow> nat \<Rightarrow> nat \<Rightarrow>
    (KrakenBookSynchronizer, ApplyResult, KrakenBookSyncError) call" where
  "kraken_apply_spot message now latency s =
     (if canonical_spot_symbol (sm_symbol message) \<noteq> kr_symbol s then (s, Err WrongMessage)
      else case en_session (kr_engine s) of
             None \<Rightarrow> (s, Err SessionNotStarted)
           | Some session \<Rightarrow>
      (case checked_add u64_max (kr_local_revision s) 1 of
         None \<Rightarrow> (s, Err RevisionOverflow)
       | Some next_revision \<Rightarrow>
      if sm_kind message = Update \<and> kr_local_revision s = 0 then (s, Ok ApplyResult.SnapshotRequired)
      else case checksum_for (sm_checksum message) (candidate_asks message s) (candidate_bids message s) of
             Inl error \<Rightarrow> (s, Err (Book error))
           | Inr checksum \<Rightarrow>
               and_do (kr_call (spot_engine_call message now latency next_revision session checksum s))
                 (\<lambda>result s'.
                   if result = ApplyResult.Applied
                   then (s'\<lparr>kr_exact_bids := candidate_bids message s, kr_exact_asks := candidate_asks message s,
                            kr_local_revision := next_revision\<rparr>, Ok result)
                   else if result = ApplyResult.ChecksumMismatch then (clear_exact s', Ok result)
                   else (s', Ok result)) s))"

subsection \<open>Level three\<close>

definition new_l3_entry :: "NativeL3Order \<Rightarrow> L3Side \<Rightarrow> nat \<Rightarrow> (ExactL3Entry \<times> nat, KrakenBookSyncError) result" where
  "new_l3_entry source side next_queue_order =
     and_then (ok_or (checked_add u64_max next_queue_order 1) RevisionOverflow) (\<lambda>n.
     and_then (map_err (l3_order_id_new (no_order_id source)) Book) (\<lambda>oid.
     and_then (map_err (l3_order_new oid side (no_price source) (no_quantity source) n n) Book) (\<lambda>order.
       Ok (\<lparr>xe_order = order, xe_price_text = no_price_text source, xe_quantity_text = no_quantity_text source\<rparr>, n))))"

text \<open>The bids and then the asks of a message, each with its side.\<close>

definition message_orders :: "SpotL3Message \<Rightarrow> (L3Side \<times> NativeL3Order) list" where
  "message_orders message = map (Pair Bid) (s3_bids message) @ map (Pair Ask) (s3_asks message)"

fun l3_snapshot_loop :: "(L3OrderId, ExactL3Entry) btree \<Rightarrow> nat \<Rightarrow> (L3Side \<times> NativeL3Order) list \<Rightarrow>
    (L3Candidate, KrakenBookSyncError) result" where
  "l3_snapshot_loop entries next_queue_order [] =
     Ok \<lparr>lc_entries = entries, lc_events = [], lc_next_queue_order = next_queue_order\<rparr>"
| "l3_snapshot_loop entries next_queue_order ((side, source) # orders) =
     and_then (new_l3_entry source side next_queue_order) (\<lambda>(entry, n).
       if bt_contains str_cmp (o_id (xe_order entry)) entries then Err AmbiguousL3Order
       else l3_snapshot_loop (bt_insert str_cmp (o_id (xe_order entry)) entry entries) n orders)"

definition l3_snapshot_entries :: "SpotL3Message \<Rightarrow> (L3Candidate, KrakenBookSyncError) result" where
  "l3_snapshot_entries message = l3_snapshot_loop [] 0 (message_orders message)"

fun l3_update_loop :: "(L3OrderId, ExactL3Entry) btree \<Rightarrow> L3Event list \<Rightarrow> (L3OrderId, unit) btree \<Rightarrow> nat \<Rightarrow>
    (L3Side \<times> NativeL3Order) list \<Rightarrow> (L3Candidate, KrakenBookSyncError) result" where
  "l3_update_loop candidate events touched next_queue_order [] =
     Ok \<lparr>lc_entries = candidate, lc_events = events, lc_next_queue_order = next_queue_order\<rparr>"
| "l3_update_loop candidate events touched next_queue_order ((side, source) # orders) =
     and_then (map_err (l3_order_id_new (no_order_id source)) Book) (\<lambda>oid.
       if bt_contains str_cmp oid touched then Err AmbiguousL3Order
       else let touched1 = bt_insert str_cmp oid () touched
            in case no_event source of
                 Some Add \<Rightarrow>
                   if bt_contains str_cmp oid candidate then Err AmbiguousL3Order
                   else and_then (new_l3_entry source side next_queue_order) (\<lambda>(entry, n).
                          l3_update_loop (bt_insert str_cmp oid entry candidate)
                            (events @ [L3Event.Add (xe_order entry)]) touched1 n orders)
               | Some Modify \<Rightarrow>
                   and_then (ok_or (bt_get str_cmp oid candidate) UnknownL3Order) (\<lambda>entry.
                     if o_side (xe_order entry) \<noteq> side \<or> o_price (xe_order entry) \<noteq> no_price source
                     then Err AmbiguousL3Order
                     else and_then (map_err (l3_order_new (o_id (xe_order entry)) side (no_price source)
                                     (no_quantity source) (o_priority_ns (xe_order entry))
                                     (o_queue_order (xe_order entry))) Book) (\<lambda>order.
                            l3_update_loop
                              (bt_insert str_cmp oid
                                (entry\<lparr>xe_order := order, xe_quantity_text := no_quantity_text source\<rparr>) candidate)
                              (events @ [L3Event.Modify oid (no_quantity source)]) touched1 next_queue_order orders))
               | Some Delete \<Rightarrow>
                   if \<not> bt_contains str_cmp oid candidate then Err UnknownL3Order
                   else l3_update_loop (bt_remove str_cmp oid candidate) (events @ [L3Event.Delete oid]) touched1
                          next_queue_order orders
               | None \<Rightarrow> Err AmbiguousL3Order)"

definition l3_update_entries :: "SpotL3Message \<Rightarrow> KrakenBookSynchronizer \<Rightarrow>
    (L3Candidate, KrakenBookSyncError) result" where
  "l3_update_entries message s =
     (if kr_exact_l3 s = [] then Err L3SnapshotRequired
      else l3_update_loop (kr_exact_l3 s) [] [] (kr_next_queue_order s) (message_orders message))"

text \<open>\<open>slice::sort_by\<close>, which is stable.\<close>

fun insert_by :: "('a \<Rightarrow> 'a \<Rightarrow> Ordering) \<Rightarrow> 'a \<Rightarrow> 'a list \<Rightarrow> 'a list" where
  "insert_by cmp x [] = [x]"
| "insert_by cmp x (y # ys) = (if cmp x y = Greater then y # insert_by cmp x ys else x # y # ys)"

definition sort_by :: "('a \<Rightarrow> 'a \<Rightarrow> Ordering) \<Rightarrow> 'a list \<Rightarrow> 'a list" where
  "sort_by cmp xs = foldr (insert_by cmp) xs []"

definition l3_side_cmp :: "L3Side \<Rightarrow> ExactL3Entry \<Rightarrow> ExactL3Entry \<Rightarrow> Ordering" where
  "l3_side_cmp side left right =
     then_ordering
       (case side of
          Ask \<Rightarrow> decimal_cmp (o_price (xe_order left)) (o_price (xe_order right))
        | Bid \<Rightarrow> decimal_cmp (o_price (xe_order right)) (o_price (xe_order left)))
       (prio_cmp (o_priority (xe_order left)) (o_priority (xe_order right)))"

definition sorted_l3_side :: "(L3OrderId, ExactL3Entry) btree \<Rightarrow> L3Side \<Rightarrow> ExactL3Entry list" where
  "sorted_l3_side entries side =
     sort_by (l3_side_cmp side) (filter (\<lambda>entry. o_side (xe_order entry) = side) (map snd entries))"

text \<open>The closures of \<open>top_l3_levels\<close> and \<open>truncate_l3\<close> count the price levels they have seen.\<close>

definition count_level :: "nat \<Rightarrow> Price option \<Rightarrow> ExactL3Entry \<Rightarrow> nat" where
  "count_level levels last_price entry =
     (if last_price \<noteq> Some (o_price (xe_order entry)) then saturating_add u64_max levels 1 else levels)"

fun take_levels :: "nat \<Rightarrow> Price option \<Rightarrow> ExactL3Entry list \<Rightarrow> ExactL3Entry list" where
  "take_levels levels last_price [] = []"
| "take_levels levels last_price (entry # entries) =
     (let levels1 = count_level levels last_price entry
      in if levels1 \<le> 10 then entry # take_levels levels1 (Some (o_price (xe_order entry))) entries else [])"

definition top_l3_levels :: "ExactL3Entry list \<Rightarrow> ExactL3Entry list" where
  "top_l3_levels entries = take_levels 0 None entries"

fun ids_beyond :: "nat \<Rightarrow> nat \<Rightarrow> Price option \<Rightarrow> ExactL3Entry list \<Rightarrow> L3OrderId list" where
  "ids_beyond maximum levels last_price [] = []"
| "ids_beyond maximum levels last_price (entry # entries) =
     (let levels1 = count_level levels last_price entry;
          rest = ids_beyond maximum levels1 (Some (o_price (xe_order entry))) entries
      in if levels1 > maximum then o_id (xe_order entry) # rest else rest)"

definition truncate_l3_side :: "nat \<Rightarrow> L3Side \<Rightarrow> (L3OrderId, ExactL3Entry) btree \<Rightarrow> (L3OrderId, ExactL3Entry) btree" where
  "truncate_l3_side maximum side entries =
     foldl (\<lambda>m oid. bt_remove str_cmp oid m) entries (ids_beyond maximum 0 None (sorted_l3_side entries side))"

definition truncate_l3 :: "(L3OrderId, ExactL3Entry) btree \<Rightarrow> nat \<Rightarrow> (L3OrderId, ExactL3Entry) btree" where
  "truncate_l3 entries maximum = truncate_l3_side maximum Ask (truncate_l3_side maximum Bid entries)"

definition exact_l3_order :: "ExactL3Entry \<Rightarrow> (ExactL3ChecksumOrder, BookError) result" where
  "exact_l3_order entry = exact_l3_new (xe_order entry) (xe_price_text entry) (xe_quantity_text entry)"

definition l3_checksum_for :: "32 word \<Rightarrow> (L3OrderId, ExactL3Entry) btree \<Rightarrow> (KrakenV2L3Checksum, BookError) result" where
  "l3_checksum_for expected entries =
     and_then (collect_results exact_l3_order (top_l3_levels (sorted_l3_side entries Ask))) (\<lambda>asks.
     and_then (collect_results exact_l3_order (top_l3_levels (sorted_l3_side entries Bid))) (\<lambda>bids.
       k3_new expected asks bids))"

definition kraken_apply_level3 :: "SpotL3Message \<Rightarrow> nat \<Rightarrow> nat \<Rightarrow>
    (KrakenBookSynchronizer, ApplyResult, KrakenBookSyncError) call" where
  "kraken_apply_level3 message now latency s =
     (if canonical_spot_symbol (s3_symbol message) \<noteq> kr_symbol s \<or> \<not> is_enabled_for (kr_l3_policy s) (s3_symbol message)
      then (s, Err L3NotAllowed)
      else if en_state (kr_engine s) \<noteq> Synchronized then (s, Err L2NotSynchronized)
      else case en_session (kr_engine s) of
             None \<Rightarrow> (s, Err SessionNotStarted)
           | Some session \<Rightarrow>
      (case (case s3_kind message of Snapshot \<Rightarrow> l3_snapshot_entries message | Update \<Rightarrow> l3_update_entries message s) of
         Inl error \<Rightarrow> (s, Err error)
       | Inr candidate \<Rightarrow>
           let entries = truncate_l3 (lc_entries candidate) (kp_depth (kr_l3_policy s))
           in if length entries > kp_max_orders_per_symbol (kr_l3_policy s) then (s, Err L3Capacity)
              else case l3_checksum_for (s3_checksum message) entries of
                     Inl error \<Rightarrow> (s, Err (Book error))
                   | Inr checksum \<Rightarrow>
                       and_do (kr_call (case s3_kind message of
                           Snapshot \<Rightarrow> apply_l3_snapshot_checked (map (\<lambda>e. xe_order (snd e)) entries) session now latency checksum
                         | Update \<Rightarrow> apply_l3_events_checked (lc_events candidate) session now latency checksum))
                         (\<lambda>result s'.
                           if result = ApplyResult.Applied
                           then (s'\<lparr>kr_exact_l3 := entries, kr_next_queue_order := lc_next_queue_order candidate\<rparr>, Ok result)
                           else if result = ApplyResult.ChecksumMismatch
                           then (s'\<lparr>kr_exact_l3 := [], kr_next_queue_order := 0\<rparr>, Ok result)
                           else (s', Ok result)) s))"

subsection \<open>Runs\<close>

text \<open>
  What a parsed message guarantees: a level is one the level reader returns; the prices and
  quantities of orders have the ranges of their types.
\<close>

definition level_parsed :: "KrakenLevel \<Rightarrow> bool" where
  "level_parsed level \<longleftrightarrow> native_level True (kl_price_text level) (kl_quantity_text level) = Some level"

definition message_parsed :: "SpotBookMessage \<Rightarrow> bool" where
  "message_parsed message \<longleftrightarrow> list_all level_parsed (sm_bids message @ sm_asks message)"

definition l3_message_typed :: "SpotL3Message \<Rightarrow> bool" where
  "l3_message_typed message \<longleftrightarrow>
     (\<forall>source \<in> set (s3_bids message @ s3_asks message).
        decimal_wf (no_price source) \<and> is_positive (no_price source)
        \<and> decimal_wf (no_quantity source) \<and> \<not> is_negative (no_quantity source))"

inductive kraken_step :: "KrakenBookSynchronizer \<Rightarrow> KrakenBookSynchronizer \<Rightarrow> bool" where
  kraken_starts: "kraken_step s (fst (kraken_start_session session s))"
| kraken_disconnects: "kraken_step s (kraken_disconnect s)"
| kraken_spot: "message_parsed message \<Longrightarrow> kraken_step s (fst (kraken_apply_spot message now latency s))"
| kraken_level3: "l3_message_typed message3 \<Longrightarrow> kraken_step s (fst (kraken_apply_level3 message3 now latency s))"

definition kraken_opened :: "BookConfig \<Rightarrow> KrakenBookSynchronizer \<Rightarrow> bool" where
  "kraken_opened c s \<longleftrightarrow> (\<exists>policy. kraken_try_new_with_l3 c policy = Ok s)"

end
