(* ===== verification/Kraken_Mirror.thy ===== *)
theory Kraken_Mirror
  imports Sync_Kraken
begin

text \<open>
  The Kraken synchronizer keeps two copies of a book: its own exact levels, from which the checksum
  text is built, and the engine's. This theory shows that the copies are always equal while the
  engine is trusted, and that therefore the venue's checksum alone decides about a well-formed
  update.
\<close>

subsection \<open>Parsed levels\<close>

lemma exact_decimal_Some:
  assumes "exact_decimal chars = Some d"
  shows "decimal_parse chars = Ok d" "decimal_wf d" "chars \<noteq> []" "length chars \<le> 128" "trim chars = chars"
    "CHR ''e'' \<notin> set chars" "CHR ''E'' \<notin> set chars" "CHR ''+'' \<notin> set chars"
proof -
  show ok: "decimal_parse chars = Ok d" and "chars \<noteq> []" "length chars \<le> 128" "trim chars = chars"
    "CHR ''e'' \<notin> set chars" "CHR ''E'' \<notin> set chars" "CHR ''+'' \<notin> set chars"
    using assms by (auto simp: exact_decimal_def split: if_splits sum.splits)
  obtain m s where "decimal_new m s = Ok d" "in_i128 m"
    using ok by (auto simp: decimal_parse_def result_simps signed_magnitude_eq Let_def split: prod.splits if_splits)
  then show "decimal_wf d" using canonicalized_spec [of m s] by (auto simp: decimal_new_def split: if_splits)
qed

lemma native_level_Some:
  assumes "native_level z pt qt = Some l"
  shows "exact_decimal pt = Some (kl_price l)" "exact_decimal qt = Some (kl_quantity l)"
    "is_positive (kl_price l)" "\<not> is_negative (kl_quantity l)"
  using assms unfolding native_level_def quantity_new_def price_new_def decimal_wrapper_new_def
  by (auto simp: bind_eq_Some_conv split: if_splits)

lemmas level_parsedD = native_level_Some [OF level_parsed_def [THEN iffD1]]

lemma level_parsed_typed: "level_parsed l \<Longrightarrow> level_typed (book_level l)"
  using level_parsedD [of l] exact_decimal_Some(2) by (simp add: level_typed_def book_level_def)

text \<open>A text of a number that is not negative and not zero has no sign, and all its bytes are ASCII.\<close>

lemma parsed_sign:
  assumes "decimal_parse chars = Ok d" "\<not> is_negative d" "\<not> is_zero d"
  shows "\<not> starts_with chars (CHR ''-'')"
proof
  assume "starts_with chars (CHR ''-'')"
  then obtain body where chars: "chars = CHR ''-'' # body" by (cases chars) (auto simp: starts_with_def)
  obtain n s where d: "decimal_new (- int n) s = Ok d" and n: "in_i128 (- int n)"
    using assms(1)
    by (auto simp: chars decimal_parse_def strip_minus_def result_simps signed_magnitude_eq Let_def
        split: prod.splits if_splits)
  then have "decimal_value d = ratio (- int n) s"
    using canonicalized_spec [OF n, of s] by (auto simp: decimal_new_def split: if_splits)
  then have "mantissa d * 10 ^ s = - int n * 10 ^ scale d" by (simp only: decimal_value_def ratio_eq_iff)
  then have "mantissa d * 10 ^ s \<le> 0" by (simp add: mult_nonpos_nonneg)
  moreover have "(0 :: int) < 10 ^ s" by simp
  ultimately have "mantissa d \<le> 0" by (simp only: mult_le_0_iff) linarith
  then show False using assms(2,3) by (simp add: is_negative_def is_zero_def)
qed

lemma parsed_text_valid:
  assumes "exact_decimal chars = Some d" "\<not> is_negative d" "\<not> is_zero d"
  shows "valid_decimal_text chars"
proof -
  note chars = exact_decimal_Some [OF assms(1)]
  have sign: "\<not> starts_with chars (CHR ''-'')" by (rule parsed_sign [OF chars(1) assms(2,3)])
  have digits: "all_digits (filter (\<lambda>c. c \<noteq> CHR ''.'') chars)" by (rule parse_digits [OF chars(1) sign])
  have "is_ascii c" if "c \<in> set chars" for c
  proof (cases "c = CHR ''.''")
    case False
    then have "is_ascii_digit c" using digits that by (simp add: list_all_iff)
    then show ?thesis by (auto simp: is_ascii_digit_def is_ascii_def)
  qed (simp add: is_ascii_def)
  moreover have "\<not> starts_with chars (CHR ''+'')" using chars(8) by (cases chars) (auto simp: starts_with_def)
  ultimately show ?thesis using chars sign
    by (simp add: valid_decimal_text_def MAX_DECIMAL_TEXT_BYTES_def list_all_iff)
qed

lemma exact_level_parsed:
  assumes "level_parsed l" "\<not> is_zero (kl_quantity l)"
  shows "exact_level l = Ok \<lparr>xl_price_text = kl_price_text l, xl_quantity_text = kl_quantity_text l,
    xl_price = kl_price l, xl_quantity = kl_quantity l\<rparr>"
proof -
  note l = level_parsedD [OF assms(1)]
  have "\<not> is_negative (kl_price l)" "\<not> is_zero (kl_price l)"
    using l(3) by (simp_all add: is_positive_def is_negative_def is_zero_def)
  then have "valid_decimal_text (kl_price_text l)" "valid_decimal_text (kl_quantity_text l)"
    using parsed_text_valid l(1,2,4) assms(2) by blast+
  moreover have "parse_price_text (kl_price_text l) = Ok (kl_price l)"
    "parse_quantity_text (kl_quantity_text l) = Ok (kl_quantity l)"
    using exact_decimal_Some(1) [OF l(1)] exact_decimal_Some(1) [OF l(2)] l(3,4)
    by (simp_all add: parse_price_text_def parse_quantity_text_def price_new_def quantity_new_def decimal_wrapper_new_def)
  ultimately show ?thesis using assms(2) by (simp add: exact_level_def exact_level_new_def)
qed

subsection \<open>The two copies of a side\<close>

definition mirror :: "(Price, KrakenLevel) btree \<Rightarrow> book_side" where
  "mirror side = map_values (\<lambda>level. level_value (book_level level)) side"

definition exact_ok :: "(Price, KrakenLevel) btree \<Rightarrow> bool" where
  "exact_ok side \<longleftrightarrow> bt_wf decimal_cmp decimal_wf side
     \<and> (\<forall>(p, level) \<in> set side. p = kl_price level \<and> level_parsed level \<and> \<not> is_zero (kl_quantity level))"

lemma book_level_simps [simp]:
  "lvl_price (book_level l) = kl_price l" "lvl_quantity (book_level l) = kl_quantity l"
  by (simp_all add: book_level_def)

lemma mirror_simps [simp]:
  "mirror [] = []" "bt_wf cmp valid (mirror side) = bt_wf cmp valid side" "length (mirror side) = length side"
  by (simp_all add: mirror_def)

lemma parsed_price_wf: "level_parsed l \<Longrightarrow> decimal_wf (kl_price l)"
  using level_parsed_typed [of l] by (simp add: level_typed_def)

lemma exact_ok_Nil [simp]: "exact_ok []"
  by (simp add: exact_ok_def)

lemma exact_okD:
  "exact_ok side \<Longrightarrow> (p, l) \<in> set side \<Longrightarrow> p = kl_price l \<and> level_parsed l \<and> \<not> is_zero (kl_quantity l)"
  by (auto simp: exact_ok_def)

lemma apply_levels_ok: "exact_ok side \<Longrightarrow> list_all level_parsed levels \<Longrightarrow> exact_ok (apply_levels side levels)"
proof (induction levels arbitrary: side)
  case (Cons l levels)
  have wf: "bt_wf decimal_cmp decimal_wf side" and v: "decimal_wf (kl_price l)"
    using Cons.prems parsed_price_wf by (simp_all add: exact_ok_def)
  have "exact_ok (if is_zero (kl_quantity l) then bt_remove decimal_cmp (kl_price l) side
      else bt_insert decimal_cmp (kl_price l) l side)"
    using Cons.prems price.wf_insert [OF wf v] price.wf_remove [OF wf] price.set_insert [OF wf v] price.set_remove [OF wf v]
    by (auto simp: exact_ok_def)
  then show ?case using Cons by simp
qed simp

lemma mirror_apply_levels: "mirror (apply_levels side levels) = apply_side (mirror side) (map book_level levels)"
  by (induction levels arbitrary: side) (auto simp: mirror_def map_values_insert map_values_remove)

lemma exact_truncate:
  assumes "exact_ok side"
  shows "exact_ok (kraken_truncate_bids side n)" "exact_ok (kraken_truncate_asks side n)"
    "mirror (kraken_truncate_bids side n) = truncate_bids (mirror side) n"
    "mirror (kraken_truncate_asks side n) = truncate_asks (mirror side) n"
proof -
  have wf: "bt_wf decimal_cmp decimal_wf side" using assms by (simp add: exact_ok_def)
  then have eq: "kraken_truncate_bids side n = drop (length side - n) side" "kraken_truncate_asks side n = take n side"
    by (simp_all add: kraken_truncate_bids_def kraken_truncate_asks_def price.bids_loop_drop price.asks_loop_take)
  show "exact_ok (kraken_truncate_bids side n)" "exact_ok (kraken_truncate_asks side n)"
    using assms price.wf_take [OF wf] price.wf_drop [OF wf] set_take_subset [of n side] set_drop_subset [of "length side - n" side]
    unfolding eq exact_ok_def by blast+
  show "mirror (kraken_truncate_bids side n) = truncate_bids (mirror side) n"
    "mirror (kraken_truncate_asks side n) = truncate_asks (mirror side) n"
    using wf by (simp_all add: truncate_bids_eq truncate_asks_eq eq mirror_def)
qed

text \<open>Of several levels at one price the last counts, for the side as for the collapsed message.\<close>

definition keyed :: "BookLevel list \<Rightarrow> (Price \<times> BookLevel) list" where
  "keyed levels = map (\<lambda>level. (lvl_price level, level)) levels"

lemma get_apply_side:
  assumes "bt_wf decimal_cmp decimal_wf side" "list_all level_typed levels" "decimal_wf p"
  shows "bt_get decimal_cmp p (apply_side side levels) =
    (case map_of (rev (keyed levels)) p of None \<Rightarrow> bt_get decimal_cmp p side
     | Some level \<Rightarrow> if is_zero (lvl_quantity level) then None else Some (level_value level))"
  using assms(1,2)
proof (induction levels arbitrary: side)
  case (Cons l levels)
  have v: "decimal_wf (lvl_price l)" using Cons.prems(2) by (simp add: level_typed_def)
  let ?side = "if is_zero (lvl_quantity l) then bt_remove decimal_cmp (lvl_price l) side
      else bt_insert decimal_cmp (lvl_price l) (level_value l) side"
  have "bt_wf decimal_cmp decimal_wf ?side"
    using price.wf_insert [OF Cons.prems(1) v] price.wf_remove [OF Cons.prems(1)] by simp
  then show ?case
    using Cons.IH [of ?side] Cons.prems price.get_insert [OF Cons.prems(1) v assms(3)] price.get_remove [OF Cons.prems(1) v assms(3)]
    by (auto simp: keyed_def map_add_def split: option.splits)
qed (simp add: keyed_def)

lemma collapsed_eq: "collapsed_book_levels levels = map snd (bt_collect decimal_cmp [] (keyed (map book_level levels)))"
  by (simp add: collapsed_book_levels_def keyed_def comp_def)

lemma keyed_valid: "list_all level_typed levels \<Longrightarrow> list_all decimal_wf (map fst (keyed levels))"
  by (simp add: keyed_def list_all_iff level_typed_def)

lemma keyed_collapsed:
  assumes "list_all level_typed levels"
  defines "m \<equiv> bt_collect decimal_cmp [] (keyed levels)"
  shows "bt_wf decimal_cmp decimal_wf m" "keyed (map snd m) = m" "list_all level_typed (map snd m)"
proof -
  show "bt_wf decimal_cmp decimal_wf m" unfolding m_def by (rule price.wf_collect [OF bt_wf_Nil keyed_valid [OF assms(1)]])
  have sub: "set m \<subseteq> set (keyed levels)"
    unfolding m_def using price.set_collect [OF bt_wf_Nil keyed_valid [OF assms(1)]] by simp
  then show "keyed (map snd m) = m" by (intro nth_equalityI) (auto simp: keyed_def dest!: nth_mem)
  show "list_all level_typed (map snd m)" using sub assms(1) by (auto simp: keyed_def list_all_iff)
qed

lemma apply_side_collapsed:
  assumes "bt_wf decimal_cmp decimal_wf side" "list_all level_parsed levels"
  shows "apply_side side (collapsed_book_levels levels) = apply_side side (map book_level levels)"
proof (rule price.wf_get_ext)
  let ?l = "map book_level levels"
  let ?m = "bt_collect decimal_cmp [] (keyed ?l)"
  have typed: "list_all level_typed ?l" using assms(2) level_parsed_typed by (auto simp: list_all_iff)
  note m = keyed_collapsed [OF typed]
  show "bt_wf decimal_cmp decimal_wf (apply_side side (collapsed_book_levels levels))"
    "bt_wf decimal_cmp decimal_wf (apply_side side ?l)"
    using apply_side_wf [OF assms(1)] typed m(3) by (simp_all add: collapsed_eq)
  fix p assume p: "decimal_wf p"
  have d: "distinct (map fst ?m)" by (rule price.wf_distinct [OF m(1)])
  then have "distinct (map fst (rev ?m))" by (simp only: rev_map [symmetric] distinct_rev)
  then have "map_of (rev ?m) p = map_of ?m p"
    using map_of_eq_Some_iff [OF d] map_of_eq_Some_iff [of "rev ?m"] by (intro option_ext) simp
  then have "map_of (rev ?m) p = map_of (rev (keyed ?l)) p"
    using price.get_map_of [OF m(1) p] price.get_collect [OF bt_wf_Nil keyed_valid [OF typed] p] by (simp split: option.splits)
  then show "bt_get decimal_cmp p (apply_side side (collapsed_book_levels levels)) = bt_get decimal_cmp p (apply_side side ?l)"
    using get_apply_side [OF assms(1) typed p] get_apply_side [OF assms(1) m(3) p] by (simp add: collapsed_eq m(2))
qed

subsection \<open>Every operation is a run of the engine\<close>

lemma bt_insert_snd: "snd ` set (bt_insert cmp k v m) \<subseteq> insert v (snd ` set m)"
proof (induction m)
  case (Cons e m)
  then show ?case by (cases e; cases "cmp k (fst e)") auto
qed simp

lemma ball_subset_insert: "T \<subseteq> insert v S \<Longrightarrow> P v \<Longrightarrow> \<forall>x \<in> S. P x \<Longrightarrow> \<forall>x \<in> T. P x"
  by blast

lemmas bt_insert_values = ball_subset_insert [OF bt_insert_snd]

definition native_order_typed :: "NativeL3Order \<Rightarrow> bool" where
  "native_order_typed source \<longleftrightarrow> decimal_wf (no_price source) \<and> is_positive (no_price source)
     \<and> decimal_wf (no_quantity source) \<and> \<not> is_negative (no_quantity source)"

lemma new_l3_entry_typed:
  "new_l3_entry source side n = Ok (entry, n') \<Longrightarrow> native_order_typed source \<Longrightarrow> order_typed (xe_order entry)"
  by (auto simp: new_l3_entry_def result_simps l3_order_new_def order_typed_def native_order_typed_def map_err_def
      split: if_splits sum.splits)

definition entries_typed :: "(L3OrderId, ExactL3Entry) btree \<Rightarrow> bool" where
  "entries_typed entries \<longleftrightarrow> (\<forall>entry \<in> snd ` set entries. order_typed (xe_order entry))"

lemma entries_typed_insert:
  "order_typed (xe_order entry) \<Longrightarrow> entries_typed entries \<Longrightarrow> entries_typed (bt_insert cmp k entry entries)"
  unfolding entries_typed_def by (rule bt_insert_values [where P = "\<lambda>e. order_typed (xe_order e)"])

lemma l3_snapshot_typed:
  "l3_snapshot_loop entries n orders = Ok candidate \<Longrightarrow> \<forall>(side, source) \<in> set orders. native_order_typed source \<Longrightarrow>
   entries_typed entries \<Longrightarrow> entries_typed (lc_entries candidate)"
proof (induction orders arbitrary: entries n)
  case Nil
  then have "lc_entries candidate = entries" by auto
  then show ?case using Nil(3) by simp
next
  case (Cons x orders)
  obtain side source where x: "x = (side, source)" by force
  obtain entry n' where e: "new_l3_entry source side n = Ok (entry, n')"
    "l3_snapshot_loop (bt_insert str_cmp (o_id (xe_order entry)) entry entries) n' orders = Ok candidate"
    using Cons.prems(1) by (auto simp: x result_simps split: if_splits)
  have "order_typed (xe_order entry)" using new_l3_entry_typed [OF e(1)] Cons.prems(2) by (simp add: x)
  then have "entries_typed (bt_insert str_cmp (o_id (xe_order entry)) entry entries)"
    using Cons.prems(3) by (rule entries_typed_insert)
  then show ?case using Cons.IH [OF e(2)] Cons.prems(2) by simp
qed

lemma l3_update_Cons:
  assumes "l3_update_loop entries events touched n ((side, source) # orders) = Ok candidate" "native_order_typed source"
  obtains entries' event touched' n' where
    "l3_update_loop entries' (events @ [event]) touched' n' orders = Ok candidate" "event_typed event"
proof (cases "no_event source")
  case None
  then show ?thesis using assms(1) by (auto simp: result_simps Let_def split: if_splits)
next
  case (Some event)
  show ?thesis
  proof (cases event)
    case Add
    then obtain entry n' entries' touched' where "new_l3_entry source side n = Ok (entry, n')"
      "l3_update_loop entries' (events @ [L3Event.Add (xe_order entry)]) touched' n' orders = Ok candidate"
      using assms(1) Some by (auto simp: result_simps Let_def split: if_splits)
    then show ?thesis using that new_l3_entry_typed assms(2) by (fastforce simp: event_typed_def)
  next
    case Modify
    then obtain entries' touched' oid where
      "l3_update_loop entries' (events @ [L3Event.Modify oid (no_quantity source)]) touched' n orders = Ok candidate"
      using assms(1) Some by (auto simp: result_simps Let_def split: if_splits)
    then show ?thesis using that assms(2) by (fastforce simp: event_typed_def native_order_typed_def)
  next
    case Delete
    then obtain entries' touched' oid where
      "l3_update_loop entries' (events @ [L3Event.Delete oid]) touched' n orders = Ok candidate"
      using assms(1) Some by (auto simp: result_simps Let_def split: if_splits)
    then show ?thesis using that by (fastforce simp: event_typed_def)
  qed
qed

lemma l3_update_typed:
  "l3_update_loop entries events touched n orders = Ok candidate \<Longrightarrow> \<forall>(side, source) \<in> set orders. native_order_typed source \<Longrightarrow>
   list_all event_typed events \<Longrightarrow> list_all event_typed (lc_events candidate)"
proof (induction orders arbitrary: entries events touched n)
  case Nil
  then have "lc_events candidate = events" by auto
  then show ?case using Nil(3) by simp
next
  case (Cons x orders)
  obtain side source where x: "x = (side, source)" by force
  have "native_order_typed source" using Cons.prems(2) by (simp add: x)
  then obtain entries' event touched' n' where
    "l3_update_loop entries' (events @ [event]) touched' n' orders = Ok candidate" "event_typed event"
    by (rule l3_update_Cons [OF Cons.prems(1) [unfolded x]])
  then show ?case using Cons.IH Cons.prems(2,3) by simp
qed

lemma truncate_l3_subset: "set (truncate_l3 entries n) \<subseteq> set entries"
proof -
  have "set (foldl (\<lambda>m oid. bt_remove str_cmp oid m) m ids) \<subseteq> set m" for m :: "(L3OrderId, ExactL3Entry) btree" and ids
    using bt_remove_subset by (induction ids arbitrary: m) (simp, fastforce)
  then show ?thesis unfolding truncate_l3_def truncate_l3_side_def using order_trans by blast
qed

lemma message_orders_typed: "l3_message_typed message \<Longrightarrow> \<forall>(side, source) \<in> set (message_orders message). native_order_typed source"
  by (auto simp: l3_message_typed_def message_orders_def native_order_typed_def)

lemma kr_call_engine: "kr_engine (fst (and_do (kr_call m) k s)) = fst (m (kr_engine s))"
  if "\<And>r t. kr_engine (fst (k r t)) = kr_engine t"
  using that by (auto simp: and_do_def engine_call_def map_err_def split: prod.splits sum.splits)

lemma clear_exact_engine [simp]: "kr_engine (clear_exact s) = kr_engine s"
  by (simp add: clear_exact_def)

lemma level3_engine:
  assumes "l3_message_typed message"
  shows "kr_engine (fst (kraken_apply_level3 message now latency s)) = kr_engine s
    \<or> (\<exists>orders session checksum. list_all order_typed orders \<and> kr_engine (fst (kraken_apply_level3 message now latency s))
          = fst (apply_l3_snapshot_checked orders session now latency checksum (kr_engine s)))
    \<or> (\<exists>events session checksum. (\<forall>event \<in> set events. event_typed event)
          \<and> kr_engine (fst (kraken_apply_level3 message now latency s))
          = fst (apply_l3_events_checked events session now latency checksum (kr_engine s)))"
proof -
  let ?k = "\<lambda>entries candidate result s'. if result = ApplyResult.Applied
      then (s'\<lparr>kr_exact_l3 := entries, kr_next_queue_order := lc_next_queue_order candidate\<rparr>, Ok result)
      else if result = ApplyResult.ChecksumMismatch then (s'\<lparr>kr_exact_l3 := [], kr_next_queue_order := 0\<rparr>, Ok result)
      else (s', Ok result)"
  have k: "kr_engine (fst (?k entries candidate result t)) = kr_engine t" for entries candidate result t by simp
  note orders = message_orders_typed [OF assms]
  show ?thesis
  proof (cases "s3_kind message")
    case Snapshot
    have "list_all order_typed (map (\<lambda>e. xe_order (snd e)) (truncate_l3 (lc_entries candidate) n))"
      if "l3_snapshot_entries message = Ok candidate" for candidate n
      using l3_snapshot_typed [OF that [unfolded l3_snapshot_entries_def] orders, unfolded entries_typed_def] truncate_l3_subset [of "lc_entries candidate" n]
      by (auto simp: list_all_iff)
    then show ?thesis unfolding kraken_apply_level3_def Snapshot Let_def
      by (simp add: kr_call_engine [OF k] split: option.split sum.split) blast
  next
    case Update
    have "\<forall>event \<in> set (lc_events candidate). event_typed event" if "l3_update_entries message s = Ok candidate" for candidate
      using l3_update_typed [OF _ orders, of "kr_exact_l3 s" "[]" "[]" "kr_next_queue_order s" candidate] that
      by (simp add: l3_update_entries_def list_all_iff split: if_splits)
    then show ?thesis unfolding kraken_apply_level3_def Update Let_def
      by (simp add: kr_call_engine [OF k] split: option.split sum.split) blast
  qed
qed

text \<open>A spot message either stops before the engine or runs one engine call and then settles its outcome.\<close>

definition spot_settled :: "SpotBookMessage \<Rightarrow> nat \<Rightarrow> KrakenBookSynchronizer \<Rightarrow>
    OrderBookEngine \<times> (ApplyResult, BookError) result \<Rightarrow> KrakenBookSynchronizer" where
  "spot_settled message next_revision s out =
     (let s' = s\<lparr>kr_engine := fst out\<rparr>
      in if snd out = Ok ApplyResult.Applied
         then s'\<lparr>kr_exact_bids := candidate_bids message s, kr_exact_asks := candidate_asks message s,
                 kr_local_revision := next_revision\<rparr>
         else if snd out = Ok ApplyResult.ChecksumMismatch then clear_exact s' else s')"

definition spot_called :: "SpotBookMessage \<Rightarrow> BookSession \<Rightarrow> KrakenV2Checksum \<Rightarrow> KrakenBookSynchronizer \<Rightarrow> bool" where
  "spot_called message session checksum s \<longleftrightarrow>
     canonical_spot_symbol (sm_symbol message) = kr_symbol s \<and> en_session (kr_engine s) = Some session
     \<and> kr_local_revision s < u64_max \<and> (sm_kind message = Update \<longrightarrow> 0 < kr_local_revision s)
     \<and> checksum_for (sm_checksum message) (candidate_asks message s) (candidate_bids message s) = Ok checksum"

lemma spot_run:
  assumes "spot_called message session checksum s"
  shows "kraken_apply_spot message now latency s =
    (spot_settled message (Suc (kr_local_revision s)) s
       (spot_engine_call message now latency (Suc (kr_local_revision s)) session checksum s (kr_engine s)),
     map_err (snd (spot_engine_call message now latency (Suc (kr_local_revision s)) session checksum s (kr_engine s))) Book)"
proof -
  obtain e r where out: "spot_engine_call message now latency (Suc (kr_local_revision s)) session checksum s (kr_engine s) = (e, r)"
    by force
  have "checked_add u64_max (kr_local_revision s) 1 = Some (Suc (kr_local_revision s))"
    using assms by (simp add: spot_called_def checked_add_def)
  then show ?thesis using assms unfolding kraken_apply_spot_def spot_called_def
    by (cases r) (auto simp: and_do_def engine_call_def map_err_def spot_settled_def out)
qed

lemma spot_cases:
  obtains (stopped) r where "kraken_apply_spot message now latency s = (s, r)" "r \<noteq> Ok ApplyResult.Applied"
  | (called) session checksum where "spot_called message session checksum s"
proof (cases "\<exists>session checksum. spot_called message session checksum s")
  case False
  then have "\<exists>r. kraken_apply_spot message now latency s = (s, r) \<and> r \<noteq> Ok ApplyResult.Applied"
    unfolding kraken_apply_spot_def
    by (auto simp: spot_called_def checked_add_def not_less split: option.split sum.split)
  then show ?thesis using stopped by blast
qed (use called in blast)

lemma spot_settled_engine [simp]: "kr_engine (spot_settled message n s out) = fst out"
  by (simp add: spot_settled_def Let_def)

lemma candidates_ok:
  assumes "message_parsed message" "exact_ok (kr_exact_bids s)" "exact_ok (kr_exact_asks s)"
  shows "exact_ok (candidate_bids message s)" "exact_ok (candidate_asks message s)"
  using assms by (cases "sm_kind message";
      simp add: candidate_bids_def candidate_asks_def exact_truncate apply_levels_ok message_parsed_def)+

lemma exact_levels_typed:
  "exact_ok side \<Longrightarrow> list_all level_typed (descending_levels side)"
  "exact_ok side \<Longrightarrow> list_all level_typed (ascending_levels side)"
  by (auto simp: descending_levels_def ascending_levels_def list_all_iff dest!: exact_okD intro!: level_parsed_typed)

lemma collapsed_typed: "list_all level_parsed levels \<Longrightarrow> list_all level_typed (collapsed_book_levels levels)"
  unfolding collapsed_eq by (rule keyed_collapsed(3)) (auto simp: list_all_iff intro: level_parsed_typed)

definition spot_snapshot :: "SpotBookMessage \<Rightarrow> nat \<Rightarrow> KrakenBookSynchronizer \<Rightarrow> BookSnapshot" where
  "spot_snapshot message n s = \<lparr>snap_bids = descending_levels (candidate_bids message s),
     snap_asks = ascending_levels (candidate_asks message s), snap_last_sequence = n\<rparr>"

definition spot_delta :: "SpotBookMessage \<Rightarrow> nat \<Rightarrow> BookDelta" where
  "spot_delta message n = \<lparr>delta_bids = collapsed_book_levels (sm_bids message),
     delta_asks = collapsed_book_levels (sm_asks message), delta_first_sequence = n, delta_last_sequence = n\<rparr>"

lemma spot_values:
  assumes "message_parsed message" "n \<le> u64_max"
  shows "delta_value (spot_delta message n)" "sm_kind message = BookMessageKind.Snapshot \<Longrightarrow> snapshot_value (spot_snapshot message n s)"
proof -
  show "delta_value (spot_delta message n)"
    using assms collapsed_typed by (simp add: delta_value_def delta_typed_def spot_delta_def message_parsed_def)
  assume kind: "sm_kind message = BookMessageKind.Snapshot"
  have "exact_ok (candidate_bids message s)" "exact_ok (candidate_asks message s)"
    using assms(1) kind by (simp_all add: candidate_bids_def candidate_asks_def exact_truncate apply_levels_ok message_parsed_def)
  then show "snapshot_value (spot_snapshot message n s)"
    using assms(2) exact_levels_typed by (simp add: snapshot_value_def snapshot_typed_def spot_snapshot_def)
qed

lemma spot_engine_eq:
  "spot_engine_call message now latency n session checksum s =
     (case sm_kind message of
        Snapshot \<Rightarrow> apply_snapshot_candidate (spot_snapshot message n s) session now (Some checksum) (Some latency)
      | Update \<Rightarrow> apply_delta_candidate (spot_delta message n) session now (Some checksum) None (Some latency))"
  by (simp add: spot_engine_call_def apply_snapshot_checked_def apply_delta_checked_def spot_snapshot_def spot_delta_def
      fun_eq_iff split: BookMessageKind.split)

lemma spot_engine:
  assumes "message_parsed message"
  shows "engine_step\<^sup>*\<^sup>* (kr_engine s) (kr_engine (fst (kraken_apply_spot message now latency s)))"
proof (cases rule: spot_cases [of message now latency s])
  case (called session checksum)
  then have "Suc (kr_local_revision s) \<le> u64_max" by (simp add: spot_called_def)
  note vals = spot_values [OF assms this]
  show ?thesis unfolding spot_run [OF called] fst_conv spot_settled_engine spot_engine_eq
    using vals by (cases "sm_kind message") (auto intro!: r_into_rtranclp step_snapshot step_delta)
qed simp

lemma kraken_opened_fields:
  assumes "kraken_opened c s"
  shows "engine_new c = Ok (kr_engine s)" "kr_max_depth s = max_levels_per_side c" "kr_exact_bids s = []"
    "kr_exact_asks s = []" "sequence_policy c = ExactNext" "checksum_policy c = Required"
  using assms unfolding kraken_opened_def kraken_try_new_with_l3_def
  by (cases "engine_new c"; auto split: if_splits)+

lemma kraken_start_engine:
  "kr_engine (fst (kraken_start_session session s)) = fst (start_session session StreamSnapshot (kr_engine s))"
  by (simp add: kraken_start_session_def kr_call_engine)

lemma kraken_step_engine: "kraken_step s s' \<Longrightarrow> engine_step\<^sup>*\<^sup>* (kr_engine s) (kr_engine s')"
proof (induction rule: kraken_step.induct)
  case (kraken_level3 message s now latency)
  let ?e = "kr_engine (fst (kraken_apply_level3 message now latency s))"
  have "?e = kr_engine s \<or> engine_step (kr_engine s) ?e"
    using level3_engine [OF kraken_level3, of now latency s] step_l3_snapshot_checked step_l3_events_checked by metis
  then show ?case by auto
qed (auto simp: kraken_start_engine kraken_disconnect_def spot_engine intro: step_start step_disconnect)

interpretation kraken: book_synchronizer kr_engine kraken_opened kraken_step
  by unfold_locales (auto simp: kraken_opened_fields kraken_step_engine)

subsection \<open>The invariant\<close>

definition mirrors :: "KrakenBookSynchronizer \<Rightarrow> L2Book \<Rightarrow> bool" where
  "mirrors s b \<longleftrightarrow> l2_bids b = mirror (kr_exact_bids s) \<and> l2_asks b = mirror (kr_exact_asks s)
     \<and> l2_sequence b = kr_local_revision s"

definition mirrored :: "BookConfig \<Rightarrow> KrakenBookSynchronizer \<Rightarrow> bool" where
  "mirrored c s \<longleftrightarrow> exact_ok (kr_exact_bids s) \<and> exact_ok (kr_exact_asks s)
     \<and> kr_max_depth s = max_levels_per_side c \<and> en_strategy (kr_engine s) \<in> {None, Some StreamSnapshot}
     \<and> (en_state (kr_engine s) = Synchronized \<longrightarrow> (\<exists>b. en_book (kr_engine s) = Some b \<and> mirrors s b))"

lemma level_entries_mirror: "exact_ok side \<Longrightarrow> map level_entry (map book_level (map snd side)) = mirror side"
  by (auto simp: mirror_def map_values_def level_entry_def dest: exact_okD)

lemma snapshot_candidate:
  assumes "message_parsed message" "sm_kind message = BookMessageKind.Snapshot"
    and "l2_from_snapshot (spot_snapshot message n s) c = Ok b" "n \<le> u64_max"
  shows "l2_bids b = mirror (candidate_bids message s)" "l2_asks b = mirror (candidate_asks message s)" "l2_sequence b = n"
proof -
  have ok: "exact_ok (candidate_bids message s)" "exact_ok (candidate_asks message s)"
    using assms(1,2) by (simp_all add: candidate_bids_def candidate_asks_def exact_truncate apply_levels_ok message_parsed_def)
  have "snapshot_typed (spot_snapshot message n s)" using spot_values(2) [OF assms(1,4,2)] by (simp add: snapshot_value_def)
  note b = l2_from_snapshot_Ok [OF assms(3) this]
  show "l2_bids b = mirror (candidate_bids message s)" "l2_asks b = mirror (candidate_asks message s)" "l2_sequence b = n"
    using b(2-4) level_entries_mirror [OF ok(1)] level_entries_mirror [OF ok(2)]
    by (simp_all add: spot_snapshot_def descending_levels_def ascending_levels_def rev_map [symmetric] del: map_map)
qed

lemma delta_candidate:
  assumes "message_parsed message" "sm_kind message = Update" "mirrored c s"
    and "mirrors s b" "l2_apply_delta b (spot_delta message n) c = Ok b'"
  shows "l2_bids b' = mirror (candidate_bids message s)" "l2_asks b' = mirror (candidate_asks message s)" "l2_sequence b' = n"
proof -
  have parsed: "list_all level_parsed (sm_bids message)" "list_all level_parsed (sm_asks message)"
    using assms(1) by (simp_all add: message_parsed_def)
  have ok: "exact_ok (kr_exact_bids s)" "exact_ok (kr_exact_asks s)" using assms(3) by (simp_all add: mirrored_def)
  then have wf: "bt_wf decimal_cmp decimal_wf (mirror (kr_exact_bids s))" "bt_wf decimal_cmp decimal_wf (mirror (kr_exact_asks s))"
    by (simp_all add: exact_ok_def)
  note trunc = exact_truncate [OF apply_levels_ok [OF ok(1) parsed(1)]] exact_truncate [OF apply_levels_ok [OF ok(2) parsed(2)]]
  show "l2_bids b' = mirror (candidate_bids message s)" "l2_asks b' = mirror (candidate_asks message s)" "l2_sequence b' = n"
    using assms(2-5) trunc apply_side_collapsed [OF wf(1) parsed(1)] apply_side_collapsed [OF wf(2) parsed(2)]
    by (simp_all add: l2_apply_delta_Ok_iff spot_delta_def mirrors_def mirrored_def candidate_bids_def candidate_asks_def
        mirror_apply_levels)
qed

lemma spot_book_left:
  assumes "engine_wf (kr_engine s)" "en_config (kr_engine s) = c" "mirrored c s" "message_parsed message"
    and "spot_called message session checksum s"
  shows "book_left (kr_engine s) (\<lambda>b. l2_bids b = mirror (candidate_bids message s) \<and> l2_asks b = mirror (candidate_asks message s)
      \<and> l2_sequence b = Suc (kr_local_revision s))
    (spot_engine_call message now latency (Suc (kr_local_revision s)) session checksum s (kr_engine s))"
proof -
  let ?n = "Suc (kr_local_revision s)"
  have n: "?n \<le> u64_max" using assms(5) by (simp add: spot_called_def)
  have mono: "book_left e P out \<Longrightarrow> (\<And>b. P b \<Longrightarrow> Q b) \<Longrightarrow> book_left e Q out" for e P Q out
    by (auto simp: book_left_def split: if_splits)
  show ?thesis
  proof (cases "sm_kind message")
    case Snapshot
    have "book_left (kr_engine s) (\<lambda>b. l2_from_snapshot (spot_snapshot message ?n s) c = Ok b)
        (apply_snapshot_candidate (spot_snapshot message ?n s) session now (Some checksum) (Some latency) (kr_engine s))"
      using snapshot_book_left [OF assms(1) spot_values(2) [OF assms(4) n Snapshot]] assms(2,3) by (simp add: mirrored_def)
    then show ?thesis unfolding spot_engine_eq Snapshot BookMessageKind.case
      by (rule mono) (use snapshot_candidate [OF assms(4) Snapshot _ n] in blast)
  next
    case Update
    have "l2_bids b' = mirror (candidate_bids message s) \<and> l2_asks b' = mirror (candidate_asks message s) \<and> l2_sequence b' = ?n"
      if applies: "delta_applies (kr_engine s) (spot_delta message ?n) (Some checksum) None b'" for b'
    proof -
      obtain b where "mirrors s b" "l2_apply_delta b (spot_delta message ?n) c = Ok b'"
        using applies assms(2,3) by (auto simp: delta_applies_def mirrored_def)
      then show ?thesis using delta_candidate [OF assms(4) Update assms(3)] by blast
    qed
    then show ?thesis unfolding spot_engine_eq Update BookMessageKind.case
      by (rule mono [OF delta_book_left [OF assms(1) spot_values(1) [OF assms(4) n]]])
  qed
qed

lemma settled_mirrored:
  assumes "mirrored c s" "exact_ok (candidate_bids message s)" "exact_ok (candidate_asks message s)"
    and left: "book_left (kr_engine s) (\<lambda>b. l2_bids b = mirror (candidate_bids message s)
      \<and> l2_asks b = mirror (candidate_asks message s) \<and> l2_sequence b = n) out"
  shows "mirrored c (spot_settled message n s out)"
proof -
  obtain e r where out: "out = (e, r)" by force
  have strategy: "en_strategy e \<in> {None, Some StreamSnapshot}" using left assms(1)
    by (simp add: book_left_def keeps_identity_def mirrored_def out)
  consider "r = Ok ApplyResult.Applied" | "r \<noteq> Ok ApplyResult.Applied" "en_state e \<noteq> Synchronized"
    | "r \<noteq> Ok ApplyResult.Applied" "r \<noteq> Ok ApplyResult.ChecksumMismatch"
      "en_state e = en_state (kr_engine s)" "en_book e = en_book (kr_engine s)"
    using left by (cases "r = Ok ApplyResult.Applied"; cases "en_state e = Synchronized") (auto simp: book_left_def out)
  then show ?thesis
  proof cases
    case 1
    then show ?thesis using left strategy assms(1-3)
      by (simp add: book_left_def out spot_settled_def Let_def mirrored_def mirrors_def)
  next
    case 2
    then show ?thesis using strategy assms(1)
      by (simp add: out spot_settled_def Let_def mirrored_def clear_exact_def)
  next
    case 3
    then show ?thesis using strategy assms(1)
      by (simp add: out spot_settled_def Let_def mirrored_def mirrors_def)
  qed
qed

lemma spot_mirrored:
  assumes "engine_wf (kr_engine s)" "en_config (kr_engine s) = c" "mirrored c s" "message_parsed message"
  shows "mirrored c (fst (kraken_apply_spot message now latency s))"
proof (cases rule: spot_cases [of message now latency s])
  case (called session checksum)
  have ok: "exact_ok (candidate_bids message s)" "exact_ok (candidate_asks message s)"
    using candidates_ok [OF assms(4)] assms(3) by (simp_all add: mirrored_def)
  show ?thesis unfolding spot_run [OF called] fst_conv
    by (rule settled_mirrored [OF assms(3) ok spot_book_left [OF assms called]])
qed (use assms(3) in simp)

lemma level3_mirrored:
  assumes "engine_wf (kr_engine s)" "mirrored c s" "l3_message_typed message"
  shows "mirrored c (fst (kraken_apply_level3 message now latency s))"
proof -
  let ?s = "fst (kraken_apply_level3 message now latency s)"
  have kept: "kr_exact_bids ?s = kr_exact_bids s" "kr_exact_asks ?s = kr_exact_asks s" "kr_max_depth ?s = kr_max_depth s"
    "kr_local_revision ?s = kr_local_revision s"
    unfolding kraken_apply_level3_def
    by (auto simp: and_do_def engine_call_def Let_def split: option.splits sum.splits prod.splits)
  have "l3_kept (kr_engine s) (kr_engine ?s)"
    using level3_engine [OF assms(3), of now latency s] l3_kept_refl [OF assms(1)] l3_snapshot_kept [OF assms(1)]
      l3_events_kept [OF assms(1)] by auto
  then show ?thesis using assms(2) kept
    by (auto simp: mirrored_def mirrors_def l3_kept_def keeps_book_def keeps_identity_def)
qed

lemma kraken_step_mirrored:
  assumes "engine_wf (kr_engine s)" "en_config (kr_engine s) = c" "mirrored c s" "kraken_step s s'"
  shows "mirrored c s'"
  using assms(4,1-3)
proof (induction rule: kraken_step.induct)
  case (kraken_starts s session)
  then show ?case
    by (auto simp: kraken_start_session_def and_do_def engine_call_def start_session_def reading_def Let_def
        mirrored_def clear_exact_def split: sum.splits)
next
  case (kraken_disconnects s)
  then show ?case by (simp add: kraken_disconnect_def disconnect_def mirrored_def clear_exact_def)
next
  case (kraken_spot message s now latency)
  then show ?case by (intro spot_mirrored)
next
  case (kraken_level3 message s now latency)
  then show ?case by (intro level3_mirrored)
qed

lemma kraken_run:
  assumes "kraken_opened c s0" "kraken_step\<^sup>*\<^sup>* s0 s"
  shows "engine_wf (kr_engine s)" "en_config (kr_engine s) = c" "mirrored c s"
proof -
  show "engine_wf (kr_engine s)" "en_config (kr_engine s) = c" by (rule kraken.run_wf [OF assms])+
  note opened = kraken_opened_fields [OF assms(1)]
  have "mirrored c s0" using opened engine_new_fields [OF opened(1)] by (simp add: mirrored_def)
  then show "mirrored c s" by (rule kraken.run_invariant [OF assms]) (rule kraken_step_mirrored)
qed

end
