(* ===== verification/Kraken_Checksum.thy ===== *)
theory Kraken_Checksum
  imports Kraken_Mirror
begin

text \<open>
  The checksum of the Kraken synchronizer: since its exact levels are the engine's book, the
  observation it builds always describes the book the engine computes, and only the venue's CRC-32
  can tell them apart. The theory ends with the properties of the synchronizer.
\<close>

subsection \<open>What the checksum decides\<close>

text \<open>The checksum of the texts a side shows: asks before bids, ten levels of each.\<close>

definition append_texts :: "string \<Rightarrow> KrakenLevel \<Rightarrow> string" where
  "append_texts out level = append_checksum_decimal (append_checksum_decimal out (kl_price_text level)) (kl_quantity_text level)"

definition text_checksum :: "(Price, KrakenLevel) btree \<Rightarrow> (Price, KrakenLevel) btree \<Rightarrow> 32 word" where
  "text_checksum asks bids = ieee_crc32 (foldl append_texts [] (take 10 (map snd asks) @ take 10 (rev (map snd bids))))"

definition observation :: "KrakenLevel \<Rightarrow> ExactChecksumLevel" where
  "observation level = \<lparr>xl_price_text = kl_price_text level, xl_quantity_text = kl_quantity_text level,
     xl_price = kl_price level, xl_quantity = kl_quantity level\<rparr>"

lemma observation_simps [simp]:
  "xl_price (observation l) = kl_price l" "xl_quantity (observation l) = kl_quantity l"
  "append_level out (observation l) = append_texts out l"
  by (simp_all add: observation_def append_level_def append_texts_def)

lemma collect_observations:
  "\<forall>l \<in> set levels. level_parsed l \<and> \<not> is_zero (kl_quantity l) \<Longrightarrow>
   collect_results exact_level levels = Ok (map observation levels)"
  by (induction levels) (simp_all add: exact_level_parsed observation_def)

lemma foldl_observations: "foldl append_level out (map observation levels) = foldl append_texts out levels"
  by (induction levels arbitrary: out) simp_all

lemma windows_all_sorted: "sorted_wrt R xs \<Longrightarrow> windows_all R xs"
proof (induction xs)
  case (Cons x xs)
  then show ?case by (cases xs) simp_all
qed simp

lemma exact_sorted:
  assumes "exact_ok side"
  shows "sorted_wrt (\<lambda>a b. decimal_cmp (kl_price a) (kl_price b) = Less) (map snd side)"
    "sorted_wrt (\<lambda>a b. decimal_cmp (kl_price a) (kl_price b) = Greater) (rev (map snd side))"
proof -
  have eq: "map fst side = map kl_price (map snd side)" using exact_okD [OF assms] by auto
  have wf: "list_all decimal_wf (map kl_price (map snd side))"
    "sorted_wrt (\<lambda>a b. decimal_cmp a b = Less) (map kl_price (map snd side))"
    using assms unfolding exact_ok_def bt_wf_def eq by blast+
  then show less: "sorted_wrt (\<lambda>a b. decimal_cmp (kl_price a) (kl_price b) = Less) (map snd side)"
    by (simp only: sorted_wrt_map)
  have "sorted_wrt (\<lambda>a b. decimal_cmp (kl_price b) (kl_price a) = Greater) (map snd side)"
    by (rule sorted_wrt_mono_rel [OF _ less]) (use wf(1) price.cmp_Greater_iff in \<open>auto simp: list_all_iff\<close>)
  then show "sorted_wrt (\<lambda>a b. decimal_cmp (kl_price a) (kl_price b) = Greater) (rev (map snd side))"
    by (simp add: sorted_wrt_rev)
qed

lemma checksum_of_exact:
  assumes "exact_ok asks" "exact_ok bids" "asks \<noteq> [] \<or> bids \<noteq> []"
  shows "checksum_for expected asks bids = Ok \<lparr>k2_expected = expected, k2_asks = map observation (take 10 (map snd asks)),
    k2_bids = map observation (take 10 (rev (map snd bids)))\<rparr>"
proof -
  have "collect_results exact_level (take 10 (map snd asks)) = Ok (map observation (take 10 (map snd asks)))"
    "collect_results exact_level (take 10 (rev (map snd bids))) = Ok (map observation (take 10 (rev (map snd bids))))"
    using exact_okD [OF assms(1)] exact_okD [OF assms(2)]
    by (intro collect_observations; fastforce dest!: in_set_takeD)+
  moreover have "windows_all (\<lambda>a b. decimal_cmp (xl_price a) (xl_price b) = Less) (map observation (take 10 (map snd asks)))"
    "windows_all (\<lambda>a b. decimal_cmp (xl_price a) (xl_price b) = Greater) (map observation (take 10 (rev (map snd bids))))"
    using exact_sorted(1) [OF assms(1)] exact_sorted(2) [OF assms(2)]
    by (auto intro!: windows_all_sorted simp: sorted_wrt_map intro: sorted_wrt_take)
  ultimately show ?thesis using assms(3) by (simp add: checksum_for_def k2_new_def KRAKEN_CHECKSUM_DEPTH_def)
qed

lemma verify_exact:
  assumes "exact_ok asks" "exact_ok bids" "l2_bids b = mirror bids" "l2_asks b = mirror asks"
  shows "k2_verify_book \<lparr>k2_expected = expected, k2_asks = map observation (take 10 (map snd asks)),
    k2_bids = map observation (take 10 (rev (map snd bids)))\<rparr> b = Ok (text_checksum asks bids = expected)"
proof -
  have match: "levels_match (map observation ls) (map (\<lambda>l. (kl_price l, kl_quantity l)) ls)" for ls
    by (induction ls) (simp_all add: levels_match_def)
  have entries: "map (\<lambda>(p, v). (p, lv_quantity v)) (mirror side) = map (\<lambda>l. (kl_price l, kl_quantity l)) (map snd side)"
    if "exact_ok side" for side
    using exact_okD [OF that] by (auto simp: mirror_def map_values_def level_value_def)
  have "top_asks b 10 = map (\<lambda>l. (kl_price l, kl_quantity l)) (take 10 (map snd asks))"
    "top_bids b 10 = map (\<lambda>l. (kl_price l, kl_quantity l)) (take 10 (rev (map snd bids)))"
    unfolding top_asks_def top_bids_def assms(3,4) take_map [symmetric] rev_map [symmetric] entries [OF assms(1)] entries [OF assms(2)]
    by simp_all
  then show ?thesis using match assms(3,4)
    by (simp add: k2_verify_book_def k2_matches_expected_def k2_computed_def text_checksum_def foldl_observations
        KRAKEN_CHECKSUM_DEPTH_def)
qed

text \<open>The view of a mirrored book shows the exact levels.\<close>

lemma mirror_view:
  assumes "exact_ok side"
  shows "map entry_level (mirror side) = ascending_levels side" "map entry_level (rev (mirror side)) = descending_levels side"
proof -
  have "entry_level (fst e, level_value (book_level (snd e))) = book_level (snd e)" if "e \<in> set side" for e
    using exact_okD [OF assms, of "fst e" "snd e"] that by (simp add: entry_level_def level_value_def book_level_def)
  then show asc: "map entry_level (mirror side) = ascending_levels side"
    by (simp add: mirror_def map_values_def ascending_levels_def case_prod_beta)
  show "map entry_level (rev (mirror side)) = descending_levels side"
    unfolding rev_map [symmetric] asc by (simp add: ascending_levels_def descending_levels_def rev_map)
qed

text \<open>An update of a synchronized, mirrored engine that is in time and in form.\<close>

lemma update_run:
  fixes latency :: nat
  assumes wf: "engine_wf (kr_engine s)" and c: "en_config (kr_engine s) = c" "sequence_policy c = ExactNext" "mirrored c s"
    and st: "en_state (kr_engine s) = Synchronized" "en_session (kr_engine s) = Some session"
    and m: "message_parsed message" "sm_kind message = Update" "kr_local_revision s < u64_max"
    and time: "en_last_observed_monotonic_ns (kr_engine s) \<le> now"
    and form: "l2_validate_delta (spot_delta message (Suc (kr_local_revision s))) c = Ok ()"
    and k: "checksum_for (sm_checksum message) (candidate_asks message s) (candidate_bids message s) = Ok k"
    and nonempty: "candidate_asks message s \<noteq> [] \<or> candidate_bids message s \<noteq> []"
  defines "out \<equiv> spot_engine_call message now latency (Suc (kr_local_revision s)) session k s (kr_engine s)"
  shows "snd out = Ok (if text_checksum (candidate_asks message s) (candidate_bids message s) = sm_checksum message
      then ApplyResult.Applied else ApplyResult.ChecksumMismatch)"
    and "snd out = Ok ApplyResult.ChecksumMismatch \<Longrightarrow> en_state (fst out) = BookState.Untrusted"
proof -
  let ?n = "Suc (kr_local_revision s)"
  let ?d = "spot_delta message ?n"
  let ?e = "observed now (Some latency) (kr_engine s)"
  obtain b where b: "en_book (kr_engine s) = Some b" "mirrors s b" using c(3) st(1) by (auto simp: mirrored_def)
  have session: "session_ok c session" using wf st(2) c(1) by (auto simp: engine_wf_def core_wf_def)
  then have ad: "admitted session now (kr_engine s)"
    using st(2) c(1) time by (simp add: admitted_def validate_current_session_def session_ok_def)
  have valid: "delta_valid (en_config (kr_engine s)) ?d (Some k)"
    using form c(1) by (simp add: delta_valid_def spot_delta_def)
  have seq: "sequenced ?d" using m(3) by (simp add: sequenced_def spot_delta_def)
  obtain b' where b': "l2_apply_delta b ?d c = Ok b'" using l2_validate_delta_apply [OF form] by blast
  have ok: "exact_ok (candidate_bids message s)" "exact_ok (candidate_asks message s)"
    using candidates_ok [OF m(1)] c(3) by (simp_all add: mirrored_def)
  have verify: "k2_verify_book k b' = Ok (text_checksum (candidate_asks message s) (candidate_bids message s) = sm_checksum message)"
    using verify_exact [OF ok(2,1) delta_candidate(1,2) [OF m(1,2) c(3) b(2) b']]
      k checksum_of_exact [OF ok(2,1) nonempty, of "sm_checksum message"] by auto
  have less: "l2_sequence b < delta_last_sequence ?d" "continues ExactNext ?d (l2_sequence b) False None"
    using b(2) by (simp_all add: mirrors_def spot_delta_def continues_def)
  have "out = and_do (validate_checksum b' (Some k) now) (\<lambda>valid e.
      if \<not> valid then (e\<lparr>en_book := Some b'\<rparr>, Ok ApplyResult.ChecksumMismatch)
      else (install_trusted b' now e, Ok ApplyResult.Applied)) (?e\<lparr>en_book := None\<rparr>)"
    unfolding out_def spot_engine_eq m(2) BookMessageKind.case delta_dispatch [OF ad valid]
    using st(1) b(1) b' less c by (simp add: advance_book_def and_do_def sequence_applies_eq [OF less(1) seq])
  then show "snd out = Ok (if text_checksum (candidate_asks message s) (candidate_bids message s) = sm_checksum message
      then ApplyResult.Applied else ApplyResult.ChecksumMismatch)"
    "snd out = Ok ApplyResult.ChecksumMismatch \<Longrightarrow> en_state (fst out) = BookState.Untrusted"
    using verify
    by (auto simp: and_do_def validate_checksum_def checksum_failed_def split: if_splits bool.splits)
qed

text \<open>A snapshot of a started session is accepted on the same condition.\<close>

lemma spot_snapshot_applied:
  assumes wf: "engine_wf (kr_engine s)" and c: "en_config (kr_engine s) = c" "mirrored c s"
    and st: "en_strategy (kr_engine s) = Some StreamSnapshot" "en_state (kr_engine s) \<noteq> Disconnected"
      "en_session (kr_engine s) = Some session"
    and m: "message_parsed message" "sm_kind message = BookMessageKind.Snapshot"
      "canonical_spot_symbol (sm_symbol message) = kr_symbol s" "kr_local_revision s < u64_max"
    and time: "en_last_observed_monotonic_ns (kr_engine s) \<le> now"
    and book: "l2_from_snapshot (spot_snapshot message (Suc (kr_local_revision s)) s) c = Ok b"
    and crc: "text_checksum (candidate_asks message s) (candidate_bids message s) = sm_checksum message"
  shows "snd (kraken_apply_spot message now latency s) = Ok ApplyResult.Applied"
    "en_state (kr_engine (fst (kraken_apply_spot message now latency s))) = Synchronized"
    "en_last_observed_monotonic_ns (kr_engine (fst (kraken_apply_spot message now latency s))) = now"
    "kr_exact_bids (fst (kraken_apply_spot message now latency s)) = candidate_bids message s"
    "kr_exact_asks (fst (kraken_apply_spot message now latency s)) = candidate_asks message s"
    "kr_local_revision (fst (kraken_apply_spot message now latency s)) = Suc (kr_local_revision s)"
    "kr_symbol (fst (kraken_apply_spot message now latency s)) = kr_symbol s"
    "kr_max_depth (fst (kraken_apply_spot message now latency s)) = kr_max_depth s"
proof -
  let ?n = "Suc (kr_local_revision s)"
  have n: "?n \<le> u64_max" using m(4) by simp
  have ok: "exact_ok (candidate_asks message s)" "exact_ok (candidate_bids message s)"
    using candidates_ok [OF m(1)] c(2) by (simp_all add: mirrored_def)
  have "candidate_asks message s \<noteq> [] \<or> candidate_bids message s \<noteq> []"
    using book by (auto simp: l2_from_snapshot_def spot_snapshot_def descending_levels_def ascending_levels_def split: if_splits)
  note k = checksum_of_exact [OF ok this, of "sm_checksum message"]
  define checksum where "checksum = \<lparr>k2_expected = sm_checksum message,
    k2_asks = map observation (take 10 (map snd (candidate_asks message s))),
    k2_bids = map observation (take 10 (rev (map snd (candidate_bids message s))))\<rparr>"
  have called: "spot_called message session checksum s" using m st k by (simp add: spot_called_def checksum_def)
  have "session_ok c session" using wf st(3) c(1) by (auto simp: engine_wf_def core_wf_def)
  then have ad: "admitted session now (kr_engine s)"
    using st(3) c(1) time by (simp add: admitted_def validate_current_session_def session_ok_def)
  have op: "snapshot_open (kr_engine s)" using st by (simp add: snapshot_open_def)
  have "k2_verify_book checksum b = Ok True"
    using verify_exact [OF ok snapshot_candidate(1,2) [OF m(1,2) book n], of "sm_checksum message"] crc by (simp add: checksum_def)
  then have "synchronizes (kr_engine s) (spot_snapshot message ?n s) (Some checksum) b"
    using book c(1) st(1) by (simp add: synchronizes_def pending_def checksum_accepts_def)
  moreover define out where "out = spot_engine_call message now latency ?n session checksum s (kr_engine s)"
  ultimately have "snd out = Ok ApplyResult.Applied \<and> en_state (fst out) = Synchronized \<and> en_last_observed_monotonic_ns (fst out) = now"
    using snapshot_open_correct [OF wf ad op, of "spot_snapshot message ?n s" "Some checksum" "Some latency"]
      spot_values(2) [OF m(1) n m(2), of s]
    unfolding out_def spot_engine_eq m(2) BookMessageKind.case by (auto simp: snapshot_value_def snapshot_outcome_def split: if_splits)
  then show "snd (kraken_apply_spot message now latency s) = Ok ApplyResult.Applied"
    "en_state (kr_engine (fst (kraken_apply_spot message now latency s))) = Synchronized"
    "en_last_observed_monotonic_ns (kr_engine (fst (kraken_apply_spot message now latency s))) = now"
    "kr_exact_bids (fst (kraken_apply_spot message now latency s)) = candidate_bids message s"
    "kr_exact_asks (fst (kraken_apply_spot message now latency s)) = candidate_asks message s"
    "kr_local_revision (fst (kraken_apply_spot message now latency s)) = ?n"
    "kr_symbol (fst (kraken_apply_spot message now latency s)) = kr_symbol s"
    "kr_max_depth (fst (kraken_apply_spot message now latency s)) = kr_max_depth s"
    unfolding spot_run [OF called] out_def [symmetric] by (simp_all add: spot_settled_def Let_def)
qed

subsection \<open>A run to evaluate\<close>

definition example_kraken :: BookConfig where
  "example_kraken = example_config\<lparr>checksum_policy := Required, max_l3_orders := None, max_l3_levels_per_side := None\<rparr>"

definition example_native :: "int \<Rightarrow> string \<Rightarrow> int \<Rightarrow> string \<Rightarrow> KrakenLevel" where
  "example_native p pt q qt = \<lparr>kl_price = \<lparr>mantissa = p, scale = 0\<rparr>, kl_quantity = \<lparr>mantissa = q, scale = 0\<rparr>,
     kl_price_text = pt, kl_quantity_text = qt\<rparr>"

abbreviation example_bid :: KrakenLevel where "example_bid \<equiv> example_native 100 ''100.0'' 1 ''1''"
abbreviation example_ask :: KrakenLevel where "example_ask \<equiv> example_native 102 ''102'' 3 ''3.0''"
abbreviation example_next_ask :: KrakenLevel where "example_next_ask \<equiv> example_native 103 ''103'' 4 ''4''"

definition example_spot :: "BookMessageKind \<Rightarrow> KrakenLevel list \<Rightarrow> KrakenLevel list \<Rightarrow> 32 word \<Rightarrow> SpotBookMessage" where
  "example_spot kind bids asks crc = \<lparr>sm_symbol = ''BTC-USD'', sm_kind = kind, sm_timestamp = [], sm_checksum = crc,
     sm_bids = bids, sm_asks = asks\<rparr>"

definition example_spot_snapshot :: SpotBookMessage where
  "example_spot_snapshot = example_spot BookMessageKind.Snapshot [example_bid] [example_ask]
     (text_checksum [(kl_price example_ask, example_ask)] [(kl_price example_bid, example_bid)])"

definition example_spot_update :: SpotBookMessage where
  "example_spot_update = example_spot Update [] [example_next_ask]
     (text_checksum [(kl_price example_ask, example_ask), (kl_price example_next_ask, example_next_ask)]
        [(kl_price example_bid, example_bid)])"

definition example_kraken_new :: KrakenBookSynchronizer where
  "example_kraken_new = \<lparr>kr_engine = example_new\<lparr>en_config := example_kraken, en_checksum_status := Pending,
       en_l3_checksum_status := NotSupported\<rparr>,
     kr_symbol = ''BTC-USD'', kr_exact_bids = [], kr_exact_asks = [], kr_local_revision = 0, kr_max_depth = 2,
     kr_l3_policy = policy_disabled, kr_exact_l3 = [], kr_next_queue_order = 0\<rparr>"

definition example_kraken_started :: KrakenBookSynchronizer where
  "example_kraken_started = fst (kraken_start_session example_session example_kraken_new)"

definition example_kraken_live :: KrakenBookSynchronizer where
  "example_kraken_live = fst (kraken_apply_spot example_spot_snapshot 5 0 example_kraken_started)"

lemma example_native_parsed: "level_parsed example_bid" "level_parsed example_ask" "level_parsed example_next_ask"
  by (simp_all add: level_parsed_def example_native_def native_level_def exact_decimal_def exact_level_eval Let_def)

lemma example_messages_parsed: "message_parsed example_spot_snapshot" "message_parsed example_spot_update"
  by (simp_all add: message_parsed_def example_spot_snapshot_def example_spot_update_def example_spot_def example_native_parsed)

lemma example_kraken_opened: "kraken_try_new_with_l3 example_kraken policy_disabled = Ok example_kraken_new"
proof -
  have "config_validate example_kraken"
    using example_engine_new by (auto simp: engine_new_def example_kraken_def config_validate_def split: if_splits)
  then have "engine_new example_kraken = Ok (kr_engine example_kraken_new)"
    by (simp add: engine_new_def example_new_def fresh_checksum_status_def fresh_l3_checksum_status_def
        example_kraken_new_def example_kraken_def example_config_def)
  then show ?thesis
    by (simp add: kraken_try_new_with_l3_def example_kraken_new_def example_kraken_def example_config_def policy_disabled_def)
qed

lemma example_started_run: "kraken_step\<^sup>*\<^sup>* example_kraken_new example_kraken_started"
  unfolding example_kraken_started_def by (rule r_into_rtranclp) (rule kraken_starts)

lemma example_live_run: "kraken_step\<^sup>*\<^sup>* example_kraken_new example_kraken_live"
  unfolding example_kraken_live_def
  by (rule rtranclp.rtrancl_into_rtrancl [OF example_started_run]) (rule kraken_spot [OF example_messages_parsed(1)])

lemma example_kraken_started_fields:
  "kr_symbol example_kraken_started = ''BTC-USD''" "kr_exact_bids example_kraken_started = []"
  "kr_exact_asks example_kraken_started = []" "kr_local_revision example_kraken_started = 0"
  "kr_max_depth example_kraken_started = 2" "en_session (kr_engine example_kraken_started) = Some example_session"
  "en_strategy (kr_engine example_kraken_started) = Some StreamSnapshot"
  "en_state (kr_engine example_kraken_started) = AwaitingSnapshot"
  "en_last_observed_monotonic_ns (kr_engine example_kraken_started) = 0"
  by (simp_all add: example_kraken_started_def kraken_start_session_def start_session_def and_do_def reading_def engine_call_def
      validate_new_session_def session_is_valid_def example_session_def example_kraken_new_def example_new_def
      example_kraken_def example_config_def clear_exact_def Let_def)

lemma example_snapshot_candidates:
  "candidate_bids example_spot_snapshot example_kraken_started = [(kl_price example_bid, example_bid)]"
  "candidate_asks example_spot_snapshot example_kraken_started = [(kl_price example_ask, example_ask)]"
  by (simp_all add: candidate_bids_def candidate_asks_def example_spot_snapshot_def example_spot_def
      example_kraken_started_fields kraken_truncate_bids_def kraken_truncate_asks_def example_native_def is_zero_def)

lemma example_kraken_live_fields:
  "en_state (kr_engine example_kraken_live) = Synchronized" "en_last_observed_monotonic_ns (kr_engine example_kraken_live) = 5"
  "kr_exact_bids example_kraken_live = [(kl_price example_bid, example_bid)]"
  "kr_exact_asks example_kraken_live = [(kl_price example_ask, example_ask)]"
  "kr_local_revision example_kraken_live = 1" "kr_symbol example_kraken_live = ''BTC-USD''" "kr_max_depth example_kraken_live = 2"
proof -
  have opened: "kraken_opened example_kraken example_kraken_new" using example_kraken_opened by (auto simp: kraken_opened_def)
  note run = kraken_run [OF opened example_started_run]
  note fields = example_kraken_started_fields
  have snapshot: "spot_snapshot example_spot_snapshot 1 example_kraken_started =
      \<lparr>snap_bids = [example_level 100 1], snap_asks = [example_level 102 3], snap_last_sequence = 1\<rparr>"
    by (simp add: spot_snapshot_def example_snapshot_candidates descending_levels_def ascending_levels_def book_level_def
        example_native_def example_level_def)
  have "is_ok (l2_from_snapshot \<lparr>snap_bids = [example_level 100 1], snap_asks = [example_level 102 3],
      snap_last_sequence = 1\<rparr> example_kraken)"
    by code_simp
  then obtain b where b: "l2_from_snapshot (spot_snapshot example_spot_snapshot (Suc (kr_local_revision example_kraken_started))
      example_kraken_started) example_kraken = Ok b"
    by (auto simp: fields snapshot [simplified One_nat_def] is_ok_def split: sum.splits)
  have m: "sm_kind example_spot_snapshot = BookMessageKind.Snapshot"
    "canonical_spot_symbol (sm_symbol example_spot_snapshot) = kr_symbol example_kraken_started"
    "kr_local_revision example_kraken_started < u64_max"
    "text_checksum (candidate_asks example_spot_snapshot example_kraken_started)
       (candidate_bids example_spot_snapshot example_kraken_started) = sm_checksum example_spot_snapshot"
    unfolding example_snapshot_candidates
    by (simp_all add: fields example_spot_snapshot_def example_spot_def canonical_spot_symbol_def u64_max_def)
  have state: "en_state (kr_engine example_kraken_started) \<noteq> Disconnected"
    "en_last_observed_monotonic_ns (kr_engine example_kraken_started) \<le> 5" by (simp_all add: fields)
  note applied = spot_snapshot_applied [OF run fields(7) state(1) fields(6) example_messages_parsed(1) m(1-3) state(2) b m(4),
      of 0, folded example_kraken_live_def]
  show "en_state (kr_engine example_kraken_live) = Synchronized" "en_last_observed_monotonic_ns (kr_engine example_kraken_live) = 5"
    "kr_exact_bids example_kraken_live = [(kl_price example_bid, example_bid)]"
    "kr_exact_asks example_kraken_live = [(kl_price example_ask, example_ask)]"
    "kr_local_revision example_kraken_live = 1" "kr_symbol example_kraken_live = ''BTC-USD''" "kr_max_depth example_kraken_live = 2"
    using applied by (simp_all add: fields example_snapshot_candidates)
qed

lemma example_update_candidates:
  "candidate_bids example_spot_update example_kraken_live = [(kl_price example_bid, example_bid)]"
  "candidate_asks example_spot_update example_kraken_live =
     [(kl_price example_ask, example_ask), (kl_price example_next_ask, example_next_ask)]"
proof -
  have "decimal_cmp (kl_price example_next_ask) (kl_price example_ask) = Greater"
    unfolding example_native_def KrakenLevel.simps by code_simp
  then show "candidate_bids example_spot_update example_kraken_live = [(kl_price example_bid, example_bid)]"
    "candidate_asks example_spot_update example_kraken_live =
     [(kl_price example_ask, example_ask), (kl_price example_next_ask, example_next_ask)]"
    unfolding candidate_bids_def candidate_asks_def example_kraken_live_fields
    by (simp_all add: example_spot_update_def example_spot_def kraken_truncate_bids_def kraken_truncate_asks_def is_zero_def
        numeral_2_eq_2) (simp add: example_native_def)
qed

subsection \<open>Properties\<close>

text \<open>
  C10. The two books of a Kraken synchronizer are one. Whatever messages it was given, a view of its
  engine shows exactly the levels the synchronizer keeps with their source texts, in order, and its
  sequence number is the synchronizer's own message count; no side is deeper than configured.
\<close>

theorem kraken_mirrors_engine:
  assumes "kraken_try_new_with_l3 c policy = Ok s0" "kraken_step\<^sup>*\<^sup>* s0 s" "kraken_snapshot s = Ok v"
  shows "vw_bids v = descending_levels (kr_exact_bids s) \<and> vw_asks v = ascending_levels (kr_exact_asks s)
    \<and> vw_last_source_sequence v = kr_local_revision s
    \<and> length (kr_exact_bids s) \<le> max_levels_per_side c \<and> length (kr_exact_asks s) \<le> max_levels_per_side c"
proof -
  have opened: "kraken_opened c s0" using assms(1) by (auto simp: kraken_opened_def)
  note run = kraken_run [OF opened assms(2)]
  note view = kraken.run_view [OF opened assms(2) assms(3) [unfolded kraken_snapshot_def]]
  then have "en_state (kr_engine s) = Synchronized" by blast
  then obtain v' b where b: "engine_snapshot (kr_engine s) = Ok v'" "en_book (kr_engine s) = Some b"
    "vw_bids v' = bids_descending b" "vw_asks v' = asks_ascending b" "vw_last_source_sequence v' = l2_sequence b"
    by (rule engine_readable [OF run(1)])
  have "mirrors s b" "exact_ok (kr_exact_bids s)" "exact_ok (kr_exact_asks s)"
    using run(3) b(2) view by (auto simp: mirrored_def)
  then show ?thesis using b assms(3) view mirror_view
    by (simp add: kraken_snapshot_def mirrors_def bids_descending_def asks_ascending_def descending_levels_def ascending_levels_def)
qed

theorem kraken_mirrors_engine_witness:
  "\<exists>v. kraken_snapshot example_kraken_live = Ok v \<and> vw_bids v = [book_level example_bid]"
proof -
  have opened: "kraken_opened example_kraken example_kraken_new" using example_kraken_opened by (auto simp: kraken_opened_def)
  obtain v where v: "kraken_snapshot example_kraken_live = Ok v"
    unfolding kraken_snapshot_def
    by (rule engine_readable [OF kraken_run(1) [OF opened example_live_run] example_kraken_live_fields(1)])
  then show ?thesis
    using kraken_mirrors_engine [OF example_kraken_opened example_live_run v]
    by (simp add: example_kraken_live_fields descending_levels_def)
qed

text \<open>
  C8. The venue's checksum decides. Take a synchronized Kraken synchronizer and an update that was
  parsed from the wire, names the instrument, does not go back in time and has levels the engine
  accepts. If the message counter is exhausted, the update is refused and nothing changes. If it
  empties both sides of the book, it is refused as well, as no checksum can be formed: the engine
  stays synchronized and readable on the levels from before the update. Otherwise it is applied
  exactly when the CRC-32 of the source texts of the resulting best ten levels is the checksum in
  the message, and its levels then are the synchronizer's; when it is not, the outcome is a checksum
  mismatch, the engine is untrusted and the exact levels are gone, so that only a snapshot can follow.
\<close>

theorem kraken_checksum_decides:
  assumes "kraken_try_new_with_l3 c policy = Ok s0" "kraken_step\<^sup>*\<^sup>* s0 s" "en_state (kr_engine s) = Synchronized"
    and "message_parsed message" "sm_kind message = Update" "canonical_spot_symbol (sm_symbol message) = kr_symbol s"
    and "en_last_observed_monotonic_ns (kr_engine s) \<le> now"
    and "l2_validate_delta (spot_delta message (Suc (kr_local_revision s))) c = Ok ()"
    and "kraken_apply_spot message now latency s = (s', r)"
  shows "if u64_max \<le> kr_local_revision s then r = Err RevisionOverflow \<and> s' = s
    else if candidate_asks message s = [] \<and> candidate_bids message s = []
    then r = Err (Book InvalidChecksumInput) \<and> s' = s \<and> is_ok (kraken_snapshot s')
    else if text_checksum (candidate_asks message s) (candidate_bids message s) = sm_checksum message
    then r = Ok ApplyResult.Applied \<and> kr_exact_bids s' = candidate_bids message s
      \<and> kr_exact_asks s' = candidate_asks message s \<and> kr_local_revision s' = Suc (kr_local_revision s)
    else r = Ok ApplyResult.ChecksumMismatch \<and> en_state (kr_engine s') = BookState.Untrusted
      \<and> kr_exact_bids s' = [] \<and> kr_exact_asks s' = [] \<and> kr_local_revision s' = 0"
proof -
  have opened: "kraken_opened c s0" using assms(1) by (auto simp: kraken_opened_def)
  note run = kraken_run [OF opened assms(2)]
  obtain session b where session: "en_session (kr_engine s) = Some session" and b: "en_book (kr_engine s) = Some b" "mirrors s b"
    "0 < l2_sequence b"
    using run assms(3) by (auto simp: mirrored_def engine_wf_defs book_ok_def)
  have live: "0 < kr_local_revision s" using b(2,3) by (simp add: mirrors_def)
  consider (exhausted) "u64_max \<le> kr_local_revision s"
    | (emptied) "kr_local_revision s < u64_max" "candidate_asks message s = []" "candidate_bids message s = []"
    | (called) "kr_local_revision s < u64_max" "candidate_asks message s \<noteq> [] \<or> candidate_bids message s \<noteq> []"
    by fastforce
  then show ?thesis
  proof cases
    case exhausted
    then show ?thesis using assms(6,9) session by (simp add: kraken_apply_spot_def checked_add_def)
  next
    case emptied
    obtain v where "engine_snapshot (kr_engine s) = Ok v" by (rule engine_readable [OF run(1) assms(3)])
    then show ?thesis
      using emptied assms(5,6,9) session live
      by (simp add: kraken_apply_spot_def checked_add_def checksum_for_def k2_new_def kraken_snapshot_def)
  next
    case called
    have ok: "exact_ok (candidate_asks message s)" "exact_ok (candidate_bids message s)"
      using candidates_ok [OF assms(4)] run(3) by (simp_all add: mirrored_def)
    obtain k where k: "checksum_for (sm_checksum message) (candidate_asks message s) (candidate_bids message s) = Ok k"
      using checksum_of_exact [OF ok called(2)] by simp
    have made: "spot_called message session k s"
      using assms(6) called(1) session k live by (simp add: spot_called_def)
    note out = update_run [OF run(1,2) kraken_opened_fields(5) [OF opened] run(3) assms(3) session assms(4,5) called(1)
        assms(7,8) k called(2), of latency]
    have eq: "s' = spot_settled message (Suc (kr_local_revision s)) s
        (spot_engine_call message now latency (Suc (kr_local_revision s)) session k s (kr_engine s))"
      "r = map_err (snd (spot_engine_call message now latency (Suc (kr_local_revision s)) session k s (kr_engine s))) Book"
      using assms(9) unfolding spot_run [OF made] by simp_all
    show ?thesis unfolding eq
      using out called by (auto simp: spot_settled_def Let_def clear_exact_def map_err_def)
  qed
qed

theorem kraken_checksum_decides_witness:
  "snd (kraken_apply_spot example_spot_update 6 0 example_kraken_live) = Ok ApplyResult.Applied"
proof -
  let ?out = "kraken_apply_spot example_spot_update 6 0 example_kraken_live"
  have delta: "spot_delta example_spot_update (Suc (kr_local_revision example_kraken_live)) =
      \<lparr>delta_bids = [], delta_asks = [example_level 103 4], delta_first_sequence = 2, delta_last_sequence = 2\<rparr>"
    by (simp add: spot_delta_def collapsed_book_levels_def example_kraken_live_fields example_spot_update_def example_spot_def
        book_level_def example_level_def example_native_def)
  have "l2_validate_delta \<lparr>delta_bids = [], delta_asks = [example_level 103 4], delta_first_sequence = 2,
      delta_last_sequence = 2\<rparr> example_kraken = Ok ()"
    by code_simp
  then have form: "l2_validate_delta (spot_delta example_spot_update (Suc (kr_local_revision example_kraken_live))) example_kraken = Ok ()"
    by (simp only: delta)
  have m: "sm_kind example_spot_update = Update"
    "canonical_spot_symbol (sm_symbol example_spot_update) = kr_symbol example_kraken_live"
    "kr_local_revision example_kraken_live < u64_max" "en_last_observed_monotonic_ns (kr_engine example_kraken_live) \<le> 6"
    "candidate_asks example_spot_update example_kraken_live \<noteq> [] \<or> candidate_bids example_spot_update example_kraken_live \<noteq> []"
    "text_checksum (candidate_asks example_spot_update example_kraken_live)
       (candidate_bids example_spot_update example_kraken_live) = sm_checksum example_spot_update"
    unfolding example_update_candidates
    by (simp_all add: example_kraken_live_fields example_spot_update_def example_spot_def canonical_spot_symbol_def u64_max_def)
  show ?thesis
    using kraken_checksum_decides [OF example_kraken_opened example_live_run example_kraken_live_fields(1)
        example_messages_parsed(2) m(1,2,4) form, of 0 "fst ?out" "snd ?out"] m(3,5,6) by auto
qed

end
