(* ===== verification/Sync_Deribit.thy ===== *)
theory Sync_Deribit
  imports Book_Sync
begin

text \<open>
  \<open>connector-deribit/src/book_sync.rs\<close> with the level reader of \<open>parser.rs\<close>: the order-book
  synchronizer of the Deribit connector. A Deribit message names for every level the action it
  takes; the synchronizer keeps its own map of prices and quantities against which the actions are
  checked before the engine sees the message.
\<close>

subsection \<open>Messages\<close>

datatype DeribitMessageKind = Snapshot | Change

datatype BookAction = New | Change | Delete

record ExactDecimal =
  xd_text :: string
  xd_value :: FixedDecimal

record DeribitLevel =
  dl_action :: BookAction
  dl_price :: Price
  dl_quantity :: Quantity
  dl_price_text :: string
  dl_quantity_text :: string

record DeribitBookMessage =
  dm_instrument_name :: string
  dm_kind :: DeribitMessageKind
  dm_timestamp :: int
  dm_change_id :: nat
  dm_previous_change_id :: "nat option"
  dm_bids :: "DeribitLevel list"
  dm_asks :: "DeribitLevel list"

datatype DeribitParseError =
    EmptyPayload
  | PayloadTooLarge
  | MalformedJson
  | SchemaDrift
  | UnsupportedMessage
  | ParseCapacity
  | InvalidDecimal
  | InvalidValue
  | RawPayloadMismatch

definition exact_positive_price :: "ExactDecimal \<Rightarrow> (Price, DeribitParseError) result" where
  "exact_positive_price d =
     (case price_new (xd_value d) of
        Inl _ \<Rightarrow> Err InvalidDecimal
      | Inr v \<Rightarrow> if is_positive v then Ok v else Err InvalidValue)"

definition exact_quantity :: "ExactDecimal \<Rightarrow> (Quantity, DeribitParseError) result" where
  "exact_quantity d = (case quantity_new (xd_value d) of Inl _ \<Rightarrow> Err InvalidDecimal | Inr v \<Rightarrow> Ok v)"

definition parse_action :: "string \<Rightarrow> (BookAction, DeribitParseError) result" where
  "parse_action action =
     (if action = ''new'' then Ok New
      else if action = ''change'' then Ok BookAction.Change
      else if action = ''delete'' then Ok Delete
      else Err InvalidValue)"

text \<open>The loop of \<open>parse_levels\<close>; \<open>prices\<close> is the set of prices seen before.\<close>

fun parse_levels_loop :: "(Price, unit) btree \<Rightarrow> (string \<times> ExactDecimal \<times> ExactDecimal) list \<Rightarrow>
    (DeribitLevel list, DeribitParseError) result" where
  "parse_levels_loop prices [] = Ok []"
| "parse_levels_loop prices ((action, price, quantity) # levels) =
     and_then (parse_action action) (\<lambda>a.
     and_then (exact_positive_price price) (\<lambda>p.
     and_then (exact_quantity quantity) (\<lambda>q.
       if bt_contains decimal_cmp p prices
          \<or> (case a of Delete \<Rightarrow> \<not> is_zero q | _ \<Rightarrow> \<not> is_positive q)
       then Err InvalidValue
       else and_then (parse_levels_loop (bt_insert decimal_cmp p () prices) levels) (\<lambda>rest.
              Ok (\<lparr>dl_action = a, dl_price = p, dl_quantity = q, dl_price_text = xd_text price,
                   dl_quantity_text = xd_text quantity\<rparr> # rest)))))"

definition parse_levels :: "(string \<times> ExactDecimal \<times> ExactDecimal) list \<Rightarrow>
    (DeribitLevel list, DeribitParseError) result" where
  "parse_levels levels = parse_levels_loop [] levels"

subsection \<open>State\<close>

record DeribitBookSynchronizer =
  db_engine :: OrderBookEngine
  db_instrument_name :: string
  db_bids :: "(Price, Quantity) btree"
  db_asks :: "(Price, Quantity) btree"

datatype DeribitBookSyncError =
    InvalidConfig
  | WrongInstrument
  | SessionNotStarted
  | InvalidTransition
  | Book BookError

definition deribit_try_new :: "BookConfig \<Rightarrow> (DeribitBookSynchronizer, DeribitBookSyncError) result" where
  "deribit_try_new config =
     (if iid_venue (instrument config) \<noteq> ''deribit''
         \<or> sequence_policy config \<noteq> PreviousFinal
         \<or> checksum_policy config \<noteq> Disabled
         \<or> max_l3_orders config \<noteq> None
         \<or> max_l3_levels_per_side config \<noteq> None
      then Err InvalidConfig
      else and_then (map_err (engine_new config) Book) (\<lambda>engine.
             Ok \<lparr>db_engine = engine, db_instrument_name = iid_venue_symbol (instrument config),
                 db_bids = [], db_asks = []\<rparr>))"

abbreviation db_call :: "(OrderBookEngine, 'a, BookError) call \<Rightarrow>
    (DeribitBookSynchronizer, 'a, DeribitBookSyncError) call" where
  "db_call \<equiv> engine_call db_engine (\<lambda>e s. s\<lparr>db_engine := e\<rparr>) Book"

definition clear_local :: "DeribitBookSynchronizer \<Rightarrow> DeribitBookSynchronizer" where
  "clear_local s = s\<lparr>db_bids := [], db_asks := []\<rparr>"

definition deribit_start_session :: "BookSession \<Rightarrow>
    (DeribitBookSynchronizer, unit, DeribitBookSyncError) call" where
  "deribit_start_session session =
     and_do (db_call (start_session session StreamSnapshot)) (\<lambda>_ s. (clear_local s, Ok ()))"

definition deribit_disconnect :: "DeribitBookSynchronizer \<Rightarrow> DeribitBookSynchronizer" where
  "deribit_disconnect s = clear_local (s\<lparr>db_engine := disconnect (db_engine s)\<rparr>)"

definition deribit_snapshot :: "DeribitBookSynchronizer \<Rightarrow> (BookSnapshotView, BookError) result" where
  "deribit_snapshot s = engine_snapshot (db_engine s)"

subsection \<open>Levels\<close>

text \<open>The loop of \<open>snapshot_map\<close> from the map built so far.\<close>

fun snapshot_map_from :: "(Price, Quantity) btree \<Rightarrow> DeribitLevel list \<Rightarrow>
    ((Price, Quantity) btree, DeribitBookSyncError) result" where
  "snapshot_map_from result [] = Ok result"
| "snapshot_map_from result (level # levels) =
     (if dl_action level \<noteq> New \<or> bt_contains decimal_cmp (dl_price level) result then Err InvalidTransition
      else snapshot_map_from (bt_insert decimal_cmp (dl_price level) (dl_quantity level) result) levels)"

definition snapshot_map :: "DeribitLevel list \<Rightarrow> ((Price, Quantity) btree, DeribitBookSyncError) result" where
  "snapshot_map levels = snapshot_map_from [] levels"

fun apply_actions :: "(Price, Quantity) btree \<Rightarrow> DeribitLevel list \<Rightarrow>
    ((Price, Quantity) btree, DeribitBookSyncError) result" where
  "apply_actions side [] = Ok side"
| "apply_actions side (update # updates) =
     (let present = bt_contains decimal_cmp (dl_price update) side;
          written = bt_insert decimal_cmp (dl_price update) (dl_quantity update) side
      in case dl_action update of
           New \<Rightarrow> if \<not> present then apply_actions written updates else Err InvalidTransition
         | BookAction.Change \<Rightarrow> if present then apply_actions written updates else Err InvalidTransition
         | Delete \<Rightarrow>
             if present then apply_actions (bt_remove decimal_cmp (dl_price update) side) updates
             else Err InvalidTransition)"

definition event_level :: "DeribitLevel \<Rightarrow> BookLevel" where
  "event_level level = \<lparr>lvl_price = dl_price level, lvl_quantity = dl_quantity level, lvl_order_count = None\<rparr>"

definition event_levels :: "DeribitLevel list \<Rightarrow> BookLevel list" where
  "event_levels levels = map event_level levels"

subsection \<open>Applying a message\<close>

definition message_snapshot :: "DeribitBookMessage \<Rightarrow> BookSnapshot" where
  "message_snapshot message = \<lparr>snap_bids = event_levels (dm_bids message),
     snap_asks = event_levels (dm_asks message), snap_last_sequence = dm_change_id message\<rparr>"

definition message_delta :: "DeribitBookMessage \<Rightarrow> BookDelta" where
  "message_delta message = \<lparr>delta_bids = event_levels (dm_bids message),
     delta_asks = event_levels (dm_asks message), delta_first_sequence = dm_change_id message,
     delta_last_sequence = dm_change_id message\<rparr>"

definition deribit_apply_snapshot :: "DeribitBookMessage \<Rightarrow> BookSession \<Rightarrow> nat \<Rightarrow>
    (DeribitBookSynchronizer, ApplyResult, DeribitBookSyncError) call" where
  "deribit_apply_snapshot message session now s =
     (if dm_previous_change_id message \<noteq> None
         \<or> list_ex (\<lambda>level. dl_action level \<noteq> New) (dm_bids message @ dm_asks message)
      then (s, Err InvalidTransition)
      else case snapshot_map (dm_bids message) of
             Inl error \<Rightarrow> (s, Err error)
           | Inr candidate_bids \<Rightarrow>
      (case snapshot_map (dm_asks message) of
         Inl error \<Rightarrow> (s, Err error)
       | Inr candidate_asks \<Rightarrow>
           and_do (db_call (apply_snapshot (message_snapshot message) session now)) (\<lambda>result s.
             (if result = ApplyResult.Applied then s\<lparr>db_bids := candidate_bids, db_asks := candidate_asks\<rparr> else s,
              Ok result)) s))"

definition deribit_apply_change :: "DeribitBookMessage \<Rightarrow> BookSession \<Rightarrow> nat \<Rightarrow>
    (DeribitBookSynchronizer, ApplyResult, DeribitBookSyncError) call" where
  "deribit_apply_change message session now s =
     (case dm_previous_change_id message of
        None \<Rightarrow> (s, Err InvalidTransition)
      | Some previous \<Rightarrow>
      if en_state (db_engine s) \<noteq> Synchronized then (s, Ok ApplyResult.SnapshotRequired)
      else case engine_snapshot (db_engine s) of
             Inl error \<Rightarrow> (s, Err (Book error))
           | Inr view \<Rightarrow>
      if dm_change_id message \<le> vw_last_source_sequence view \<or> previous \<noteq> vw_last_source_sequence view
      then and_do (db_call (apply_delta_with_previous (message_delta message) session now previous)) (\<lambda>result s.
             (if result = GapDetected then clear_local s else s, Ok result)) s
      else case apply_actions (db_bids s) (dm_bids message) of
             Inl error \<Rightarrow> (s, Err error)
           | Inr candidate_bids \<Rightarrow>
      (case apply_actions (db_asks s) (dm_asks message) of
         Inl error \<Rightarrow> (s, Err error)
       | Inr candidate_asks \<Rightarrow>
           and_do (db_call (apply_delta_with_previous (message_delta message) session now previous)) (\<lambda>result s.
             (if result = ApplyResult.Applied then s\<lparr>db_bids := candidate_bids, db_asks := candidate_asks\<rparr>
              else if result = GapDetected then clear_local s else s, Ok result)) s))"

definition deribit_apply :: "DeribitBookMessage \<Rightarrow> nat \<Rightarrow>
    (DeribitBookSynchronizer, ApplyResult, DeribitBookSyncError) call" where
  "deribit_apply message now s =
     (if dm_instrument_name message \<noteq> db_instrument_name s then (s, Err WrongInstrument)
      else case en_session (db_engine s) of
             None \<Rightarrow> (s, Err SessionNotStarted)
           | Some session \<Rightarrow>
               (case dm_kind message of
                  Snapshot \<Rightarrow> deribit_apply_snapshot message session now s
                | DeribitMessageKind.Change \<Rightarrow> deribit_apply_change message session now s))"

text \<open>What the parser hands over: the levels of each side were read by \<open>parse_levels\<close> from decimals.\<close>

definition levels_parsed :: "DeribitLevel list \<Rightarrow> bool" where
  "levels_parsed levels \<longleftrightarrow>
     (\<exists>wire. list_all (\<lambda>(_, p, q). decimal_wf (xd_value p) \<and> decimal_wf (xd_value q)) wire
        \<and> parse_levels wire = Ok levels)"

definition deribit_parsed :: "DeribitBookMessage \<Rightarrow> bool" where
  "deribit_parsed message \<longleftrightarrow>
     levels_parsed (dm_bids message) \<and> levels_parsed (dm_asks message) \<and> dm_change_id message \<le> u64_max"

inductive deribit_step :: "DeribitBookSynchronizer \<Rightarrow> DeribitBookSynchronizer \<Rightarrow> bool" where
  deribit_starts: "deribit_step s (fst (deribit_start_session session s))"
| deribit_disconnects: "deribit_step s (deribit_disconnect s)"
| deribit_applies: "deribit_parsed message \<Longrightarrow> deribit_step s (fst (deribit_apply message now s))"

definition deribit_opened :: "BookConfig \<Rightarrow> DeribitBookSynchronizer \<Rightarrow> bool" where
  "deribit_opened c s \<longleftrightarrow> deribit_try_new c = Ok s"

subsection \<open>Parsed levels\<close>

definition level_ok :: "DeribitLevel \<Rightarrow> bool" where
  "level_ok level \<longleftrightarrow> level_typed (event_level level) \<and> (is_zero (dl_quantity level) \<longleftrightarrow> dl_action level = Delete)"

lemma parse_loop_ok:
  assumes "parse_levels_loop prices wire = Ok levels" "bt_wf decimal_cmp decimal_wf prices"
    and "list_all (\<lambda>(_, p, q). decimal_wf (xd_value p) \<and> decimal_wf (xd_value q)) wire"
  shows "list_all level_ok levels \<and> distinct (map dl_price levels)
    \<and> (\<forall>l \<in> set levels. bt_get decimal_cmp (dl_price l) prices = None)"
  using assms
proof (induction wire arbitrary: prices levels)
  case (Cons w wire)
  obtain action p q where w: "w = (action, p, q)" by (cases w)
  have unit: "x \<noteq> Some () \<longleftrightarrow> x = None" for x by (cases x) simp_all
  obtain a rest where a: "parse_action action = Ok a"
    and p: "price_new (xd_value p) = Ok (xd_value p)" "is_positive (xd_value p)"
    and q: "quantity_new (xd_value q) = Ok (xd_value q)" "\<not> is_negative (xd_value q)"
    and new: "bt_get decimal_cmp (xd_value p) prices = None"
    and fits: "is_zero (xd_value q) \<longleftrightarrow> a = Delete"
    and rest: "parse_levels_loop (bt_insert decimal_cmp (xd_value p) () prices) wire = Ok rest"
    and levels: "levels = \<lparr>dl_action = a, dl_price = xd_value p, dl_quantity = xd_value q,
      dl_price_text = xd_text p, dl_quantity_text = xd_text q\<rparr> # rest"
    using Cons.prems(1)
    by (auto simp: w result_simps exact_positive_price_def exact_quantity_def price_new_def quantity_new_def
        decimal_wrapper_new_def bt_contains_def unit is_zero_def is_positive_def
        split: if_splits BookAction.splits)
  have wf: "decimal_wf (xd_value p)" "decimal_wf (xd_value q)" using Cons.prems(3) by (simp_all add: w)
  note IH = Cons.IH [OF rest price.wf_insert [OF Cons.prems(2) wf(1)]]
  have IH': "list_all level_ok rest" "distinct (map dl_price rest)"
    "\<forall>l \<in> set rest. bt_get decimal_cmp (dl_price l) (bt_insert decimal_cmp (xd_value p) () prices) = None"
    using IH Cons.prems(3) by (simp_all add: w)
  have typed: "decimal_wf (dl_price l)" if "l \<in> set rest" for l
    using IH'(1) that by (simp add: list_all_iff level_ok_def level_typed_def event_level_def)
  have other: "dl_price l \<noteq> xd_value p \<and> bt_get decimal_cmp (dl_price l) prices = None" if "l \<in> set rest" for l
    using IH'(3) that price.get_insert [OF Cons.prems(2) wf(1) typed [OF that], of "()"] by (auto split: if_splits)
  have "level_ok (hd levels)" using fits wf p q by (simp add: levels level_ok_def level_typed_def event_level_def)
  moreover have "xd_value p \<notin> dl_price ` set rest" using other by (metis imageE)
  ultimately show ?case using IH'(1,2) other new by (simp add: levels)
qed simp

lemma levels_parsed_ok:
  assumes "levels_parsed levels"
  shows "list_all level_ok levels" "distinct (map dl_price levels)" "list_all level_typed (event_levels levels)"
proof -
  show ok: "list_all level_ok levels" and "distinct (map dl_price levels)"
    using assms parse_loop_ok [of "[]"] by (auto simp: levels_parsed_def parse_levels_def)
  show "list_all level_typed (event_levels levels)"
    using ok by (auto simp: list_all_iff level_ok_def event_levels_def)
qed

lemma deribit_values:
  assumes "deribit_parsed message"
  shows "snapshot_value (message_snapshot message)" "delta_value (message_delta message)"
  using assms levels_parsed_ok(3)
  by (simp_all add: deribit_parsed_def snapshot_value_def snapshot_typed_def message_snapshot_def
      delta_value_def delta_typed_def message_delta_def)

subsection \<open>The quantities of a side\<close>

abbreviation quantities :: "book_side \<Rightarrow> (Price, Quantity) btree" where
  "quantities side \<equiv> map_values lv_quantity side"

abbreviation side_sorted :: "(Price, 'v) btree \<Rightarrow> bool" where
  "side_sorted side \<equiv> bt_wf decimal_cmp decimal_wf side"

text \<open>What a list of levels does to a side whatever the actions say.\<close>

fun set_quantities :: "(Price, Quantity) btree \<Rightarrow> DeribitLevel list \<Rightarrow> (Price, Quantity) btree" where
  "set_quantities side [] = side"
| "set_quantities side (level # levels) =
     set_quantities (if is_zero (dl_quantity level) then bt_remove decimal_cmp (dl_price level) side
                     else bt_insert decimal_cmp (dl_price level) (dl_quantity level) side) levels"

lemma quantities_apply_side:
  "quantities (apply_side side (event_levels levels)) = set_quantities (quantities side) levels"
  by (induction levels arbitrary: side)
    (simp_all add: event_levels_def event_level_def level_value_def map_values_insert map_values_remove)

lemma apply_actions_Ok:
  "list_all level_ok levels \<Longrightarrow> apply_actions side levels = Ok side' \<Longrightarrow> side' = set_quantities side levels"
  by (induction levels arbitrary: side)
    (auto simp: level_ok_def Let_def split: BookAction.splits if_splits)

lemma set_quantities_sorted: "list_all level_ok levels \<Longrightarrow> side_sorted side \<Longrightarrow> side_sorted (set_quantities side levels)"
  by (induction levels arbitrary: side)
    (auto simp: level_ok_def level_typed_def event_level_def price.wf_insert price.wf_remove)

lemma set_quantities_mono:
  "list_all level_ok levels \<Longrightarrow> side_sorted m \<Longrightarrow> side_sorted n \<Longrightarrow> set n \<subseteq> set m \<Longrightarrow>
     set (set_quantities n levels) \<subseteq> set (set_quantities m levels)"
proof (induction levels arbitrary: m n)
  case (Cons level levels)
  let ?f = "\<lambda>side. if is_zero (dl_quantity level) then bt_remove decimal_cmp (dl_price level) side
    else bt_insert decimal_cmp (dl_price level) (dl_quantity level) side"
  have v: "decimal_wf (dl_price level)" using Cons.prems(1) by (simp add: level_ok_def level_typed_def event_level_def)
  have "set (?f n) \<subseteq> set (?f m)"
    using Cons.prems(4) price.set_insert [OF Cons.prems(2) v] price.set_insert [OF Cons.prems(3) v]
      price.set_remove [OF Cons.prems(2) v] price.set_remove [OF Cons.prems(3) v] by auto
  moreover have "side_sorted (?f m)" "side_sorted (?f n)" using Cons.prems v by (simp_all add: price.wf_insert price.wf_remove)
  ultimately show ?case using Cons.IH [of "?f m" "?f n"] Cons.prems(1) by simp
qed simp

lemma snapshot_map_from_Ok:
  "list_all level_ok levels \<Longrightarrow> side_sorted side \<Longrightarrow> snapshot_map_from side levels = Ok side' \<Longrightarrow>
     side_sorted side' \<and> set side' = set side \<union> (\<lambda>l. (dl_price l, dl_quantity l)) ` set levels"
proof (induction levels arbitrary: side)
  case (Cons level levels)
  have v: "decimal_wf (dl_price level)" using Cons.prems(1) by (simp add: level_ok_def level_typed_def event_level_def)
  have new: "bt_get decimal_cmp (dl_price level) side = None"
    and rest: "snapshot_map_from (bt_insert decimal_cmp (dl_price level) (dl_quantity level) side) levels = Ok side'"
    using Cons.prems(3) by (auto simp: bt_contains_def split: if_splits)
  have "{e \<in> set side. fst e \<noteq> dl_price level} = set side"
    using new price.get_Some_iff [OF Cons.prems(2) v] by force
  then have "set (bt_insert decimal_cmp (dl_price level) (dl_quantity level) side) = insert (dl_price level, dl_quantity level) (set side)"
    using price.set_insert [OF Cons.prems(2) v] by simp
  then show ?case
    using Cons.IH [OF _ price.wf_insert [OF Cons.prems(2) v] rest] Cons.prems(1) by auto
qed simp

lemma quantities_entries: "quantities (map level_entry (event_levels levels)) = map (\<lambda>l. (dl_price l, dl_quantity l)) levels"
  by (simp add: map_values_def level_entry_def level_value_def event_levels_def event_level_def)

lemma snapshot_map_exact:
  assumes "levels_parsed levels" "snapshot_map levels = Ok side" "side_sorted side0"
    and "set side0 = set (map level_entry (event_levels levels))"
  shows "side = quantities side0"
proof (rule price.wf_ext)
  have out: "side_sorted side" "set side = (\<lambda>l. (dl_price l, dl_quantity l)) ` set levels"
    using snapshot_map_from_Ok [OF levels_parsed_ok(1) [OF assms(1)], of "[]" side] assms(2) by (simp_all add: snapshot_map_def)
  show "side_sorted side" by (rule out)
  show "side_sorted (quantities side0)" using assms(3) by simp
  have "set (quantities side0) = (\<lambda>(k, v). (k, lv_quantity v)) ` set side0" by (simp add: map_values_def)
  then show "set side = set (quantities side0)"
    using out(2) assms(4) by (auto simp: level_entry_def level_value_def event_levels_def event_level_def image_image)
qed

end
