(* ===== verification/Deribit_Mirror.thy ===== *)
theory Deribit_Mirror
  imports Sync_Deribit
begin

text \<open>
  The Deribit synchronizer beside its engine: every level the engine shows is in the synchronizer's
  own map with the same quantity, the two are equal as long as no side outgrows the configured
  depth, and an applied change continues the change identifiers and agrees with the map in every
  action.
\<close>

subsection \<open>What a message leads to\<close>

definition db_settled :: "DeribitBookSynchronizer \<Rightarrow> (Price, Quantity) btree \<Rightarrow> (Price, Quantity) btree \<Rightarrow>
    OrderBookEngine \<times> (ApplyResult, BookError) result \<Rightarrow> DeribitBookSynchronizer" where
  "db_settled s bids asks out =
     (let s' = s\<lparr>db_engine := fst out\<rparr>
      in if snd out = Ok ApplyResult.Applied then s'\<lparr>db_bids := bids, db_asks := asks\<rparr>
         else if snd out = Ok GapDetected then clear_local s' else s')"

lemma db_settled_engine [simp]: "db_engine (db_settled s bids asks out) = fst out"
  by (simp add: db_settled_def Let_def clear_local_def)

abbreviation deribit_snapshot_call where
  "deribit_snapshot_call message session now s \<equiv>
     apply_snapshot_candidate (message_snapshot message) session now None None (db_engine s)"

abbreviation deribit_delta_call where
  "deribit_delta_call message session now previous s \<equiv>
     apply_delta_candidate (message_delta message) session now None (Some previous) None (db_engine s)"

text \<open>A stream snapshot never reports a gap.\<close>

lemma stream_snapshot_no_gap:
  assumes "en_strategy e \<in> {None, Some StreamSnapshot}"
  shows "snd (apply_snapshot_candidate s session now checksum latency e) \<noteq> Ok GapDetected"
  using assms unfolding apply_snapshot_candidate_def
  by (auto simp: and_do_def reading_def observe_update_time_def validate_checksum_def Let_def record_latency_def
      split: sum.splits option.splits if_splits bool.splits)

lemma deribit_apply_cases [consumes 1, case_names stopped snapshot change stale]:
  assumes "en_strategy (db_engine s) \<in> {None, Some StreamSnapshot}"
  obtains (stopped) r where "deribit_apply message now s = (s, r)" "r \<noteq> Ok ApplyResult.Applied"
  | (snapshot) session bids asks where "dm_kind message = DeribitMessageKind.Snapshot"
      "snapshot_map (dm_bids message) = Ok bids" "snapshot_map (dm_asks message) = Ok asks"
      "deribit_apply message now s = (db_settled s bids asks (deribit_snapshot_call message session now s),
         map_err (snd (deribit_snapshot_call message session now s)) Book)"
  | (change) session v bids asks where "dm_kind message = DeribitMessageKind.Change"
      "en_state (db_engine s) = Synchronized" "engine_snapshot (db_engine s) = Ok v"
      "dm_previous_change_id message = Some (vw_last_source_sequence v)"
      "vw_last_source_sequence v < dm_change_id message"
      "apply_actions (db_bids s) (dm_bids message) = Ok bids" "apply_actions (db_asks s) (dm_asks message) = Ok asks"
      "deribit_apply message now s =
        (db_settled s bids asks (deribit_delta_call message session now (vw_last_source_sequence v) s),
         map_err (snd (deribit_delta_call message session now (vw_last_source_sequence v) s)) Book)"
  | (stale) session v previous where "dm_kind message = DeribitMessageKind.Change"
      "en_state (db_engine s) = Synchronized" "engine_snapshot (db_engine s) = Ok v"
      "dm_change_id message \<le> vw_last_source_sequence v \<or> previous \<noteq> vw_last_source_sequence v"
      "deribit_apply message now s =
        (if snd (deribit_delta_call message session now previous s) = Ok GapDetected
         then clear_local (s\<lparr>db_engine := fst (deribit_delta_call message session now previous s)\<rparr>)
         else s\<lparr>db_engine := fst (deribit_delta_call message session now previous s)\<rparr>,
         map_err (snd (deribit_delta_call message session now previous s)) Book)"
proof (cases "dm_instrument_name message \<noteq> db_instrument_name s \<or> en_session (db_engine s) = None")
  case True
  then have "\<exists>r. deribit_apply message now s = (s, r) \<and> r \<noteq> Ok ApplyResult.Applied" by (auto simp: deribit_apply_def)
  then show thesis using stopped by blast
next
  case False
  then obtain session where session: "dm_instrument_name message = db_instrument_name s" "en_session (db_engine s) = Some session"
    by auto
  show thesis
  proof (cases "dm_kind message")
    case Snapshot
    let ?out = "deribit_snapshot_call message session now s"
    have run: "deribit_apply message now s = deribit_apply_snapshot message session now s"
      by (simp add: deribit_apply_def session Snapshot)
    have gap: "snd ?out \<noteq> Ok GapDetected" by (rule stream_snapshot_no_gap [OF assms])
    show thesis
    proof (cases "\<exists>bids asks. snapshot_map (dm_bids message) = Ok bids \<and> snapshot_map (dm_asks message) = Ok asks
        \<and> dm_previous_change_id message = None \<and> \<not> list_ex (\<lambda>level. dl_action level \<noteq> New) (dm_bids message @ dm_asks message)")
      case True
      then obtain bids asks where maps: "snapshot_map (dm_bids message) = Ok bids" "snapshot_map (dm_asks message) = Ok asks"
        and valid: "dm_previous_change_id message = None" "\<not> list_ex (\<lambda>level. dl_action level \<noteq> New) (dm_bids message @ dm_asks message)"
        by blast
      have "deribit_apply_snapshot message session now s = (db_settled s bids asks ?out, map_err (snd ?out) Book)"
        unfolding deribit_apply_snapshot_def using maps valid gap
        by (cases "snd ?out") (simp_all add: engine_call_then apply_snapshot_def db_settled_def)
      then show thesis using snapshot [OF Snapshot maps] run by simp
    next
      case False
      then have "\<exists>r. deribit_apply_snapshot message session now s = (s, r) \<and> r \<noteq> Ok ApplyResult.Applied"
        unfolding deribit_apply_snapshot_def by (auto split: sum.splits)
      then show thesis using stopped run by auto
    qed
  next
    case Change
    have run: "deribit_apply message now s = deribit_apply_change message session now s"
      by (simp add: deribit_apply_def session Change)
    show thesis
    proof (cases "\<exists>previous v. dm_previous_change_id message = Some previous \<and> en_state (db_engine s) = Synchronized
        \<and> engine_snapshot (db_engine s) = Ok v")
      case False
      then have "\<exists>r. deribit_apply_change message session now s = (s, r) \<and> r \<noteq> Ok ApplyResult.Applied"
        unfolding deribit_apply_change_def by (auto split: sum.splits option.splits)
      then show thesis using stopped run by auto
    next
      case True
      then obtain previous v where prev: "dm_previous_change_id message = Some previous"
        and live: "en_state (db_engine s) = Synchronized" "engine_snapshot (db_engine s) = Ok v" by blast
      let ?out = "deribit_delta_call message session now previous s"
      show thesis
      proof (cases "dm_change_id message \<le> vw_last_source_sequence v \<or> previous \<noteq> vw_last_source_sequence v")
        case True
        then have "deribit_apply_change message session now s =
          (if snd ?out = Ok GapDetected then clear_local (s\<lparr>db_engine := fst ?out\<rparr>) else s\<lparr>db_engine := fst ?out\<rparr>,
           map_err (snd ?out) Book)"
          unfolding deribit_apply_change_def using prev live
          by (cases "snd ?out") (simp_all add: engine_call_then apply_delta_with_previous_def)
        then show thesis using stale [OF Change live True] run by simp
      next
        case fits: False
        show thesis
        proof (cases "\<exists>bids asks. apply_actions (db_bids s) (dm_bids message) = Ok bids
            \<and> apply_actions (db_asks s) (dm_asks message) = Ok asks")
          case True
          then obtain bids asks where acts: "apply_actions (db_bids s) (dm_bids message) = Ok bids"
            "apply_actions (db_asks s) (dm_asks message) = Ok asks" by blast
          have "deribit_apply_change message session now s = (db_settled s bids asks ?out, map_err (snd ?out) Book)"
            unfolding deribit_apply_change_def using prev live fits acts
            by (cases "snd ?out") (simp_all add: engine_call_then apply_delta_with_previous_def db_settled_def)
          then show thesis using change [OF Change live _ _ acts] prev fits run by simp
        next
          case False
          then have "\<exists>r. deribit_apply_change message session now s = (s, r) \<and> r \<noteq> Ok ApplyResult.Applied"
            unfolding deribit_apply_change_def using prev live fits by (auto split: sum.splits)
          then show thesis using stopped run by auto
        qed
      qed
    qed
  qed
qed

subsection \<open>The engine inside\<close>

lemma deribit_opened_fields:
  assumes "deribit_opened c s"
  shows "engine_new c = Ok (db_engine s)" "db_bids s = []" "db_asks s = []" "sequence_policy c = PreviousFinal"
    "checksum_policy c = Disabled"
  using assms unfolding deribit_opened_def deribit_try_new_def by (cases "engine_new c"; auto split: if_splits)+

lemma deribit_start_eq:
  "deribit_start_session session s =
     (case snd (start_session session StreamSnapshot (db_engine s)) of
        Inl _ \<Rightarrow> s\<lparr>db_engine := fst (start_session session StreamSnapshot (db_engine s))\<rparr>
      | Inr _ \<Rightarrow> clear_local (s\<lparr>db_engine := fst (start_session session StreamSnapshot (db_engine s))\<rparr>),
      map_err (snd (start_session session StreamSnapshot (db_engine s))) Book)"
  by (simp add: deribit_start_session_def and_do_def engine_call_def split: prod.split sum.split)

lemma settled_engine:
  assumes "\<And>r t. db_engine (f r t) = db_engine t"
  shows "db_engine (fst (and_do (db_call m) (\<lambda>r t. (f r t, Ok r)) s)) = fst (m (db_engine s))"
  unfolding engine_call_then using assms by (cases "snd (m (db_engine s))") simp_all

lemma apply_snapshot_engine:
  "db_engine (fst (deribit_apply_snapshot message session now s)) \<in>
     {db_engine s, fst (deribit_snapshot_call message session now s)}"
  unfolding deribit_apply_snapshot_def apply_snapshot_def
  by (cases "snapshot_map (dm_bids message)"; cases "snapshot_map (dm_asks message)") (simp_all add: settled_engine)

lemma apply_change_engine:
  "db_engine (fst (deribit_apply_change message session now s)) \<in>
     {db_engine s, fst (deribit_delta_call message session now (the (dm_previous_change_id message)) s)}"
proof (cases "dm_previous_change_id message")
  case (Some previous)
  let ?m = "apply_delta_candidate (message_delta message) session now None (Some previous) None"
  have stale: "db_engine (fst (and_do (db_call ?m)
      (\<lambda>result s. (if result = GapDetected then clear_local s else s, Ok result)) s)) = fst (?m (db_engine s))"
    by (rule settled_engine) (simp add: clear_local_def)
  have fresh: "db_engine (fst (and_do (db_call ?m)
      (\<lambda>result s. (if result = ApplyResult.Applied then s\<lparr>db_bids := bids, db_asks := asks\<rparr>
                 else if result = GapDetected then clear_local s else s, Ok result)) s)) = fst (?m (db_engine s))" for bids asks
    by (rule settled_engine) (simp add: clear_local_def)
  show ?thesis unfolding deribit_apply_change_def apply_delta_with_previous_def Some
    using stale fresh by (auto split: sum.split)
qed (simp add: deribit_apply_change_def)

lemma deribit_apply_engine:
  assumes "deribit_parsed message"
  shows "engine_step\<^sup>*\<^sup>* (db_engine s) (db_engine (fst (deribit_apply message now s)))"
proof (cases "dm_instrument_name message \<noteq> db_instrument_name s \<or> en_session (db_engine s) = None")
  case False
  note steps = step_snapshot [OF deribit_values(1) [OF assms]] step_delta [OF deribit_values(2) [OF assms]]
  obtain session where "dm_instrument_name message = db_instrument_name s" "en_session (db_engine s) = Some session"
    using False by auto
  then have "deribit_apply message now s \<in>
      {deribit_apply_snapshot message session now s, deribit_apply_change message session now s}"
    by (simp add: deribit_apply_def split: DeribitMessageKind.split)
  then have "db_engine (fst (deribit_apply message now s)) = db_engine s
    \<or> engine_step (db_engine s) (db_engine (fst (deribit_apply message now s)))"
    using apply_snapshot_engine [of message session now s] apply_change_engine [of message session now s] steps
    by (metis insertE singletonD)
  then show ?thesis by auto
qed (auto simp: deribit_apply_def)

lemma deribit_step_engine: "deribit_step s s' \<Longrightarrow> engine_step\<^sup>*\<^sup>* (db_engine s) (db_engine s')"
proof (induction rule: deribit_step.induct)
  case (deribit_starts s session)
  have "db_engine (fst (deribit_start_session session s)) = fst (start_session session StreamSnapshot (db_engine s))"
    by (simp add: deribit_start_eq clear_local_def split: sum.split)
  then show ?case by (auto intro: step_start)
qed (auto simp: deribit_disconnect_def clear_local_def deribit_apply_engine intro: step_disconnect)

interpretation deribit: book_synchronizer db_engine deribit_opened deribit_step
  by unfold_locales (auto simp: deribit_opened_fields deribit_step_engine)

subsection \<open>The invariant\<close>

definition covers :: "(Price, Quantity) btree \<Rightarrow> (Price, Quantity) btree \<Rightarrow> L2Book \<Rightarrow> bool" where
  "covers bids asks b \<longleftrightarrow> set (quantities (l2_bids b)) \<subseteq> set bids \<and> set (quantities (l2_asks b)) \<subseteq> set asks"

definition tracked :: "BookConfig \<Rightarrow> DeribitBookSynchronizer \<Rightarrow> bool" where
  "tracked c s \<longleftrightarrow> side_sorted (db_bids s) \<and> side_sorted (db_asks s)
     \<and> en_strategy (db_engine s) \<in> {None, Some StreamSnapshot}
     \<and> (en_state (db_engine s) = Synchronized \<longrightarrow>
          (\<exists>b. en_book (db_engine s) = Some b \<and> covers (db_bids s) (db_asks s) b))"

lemma book_sides:
  assumes "engine_wf e" "en_book e = Some b" "en_config e = c"
  shows "side_sorted (l2_bids b)" "side_sorted (l2_asks b)" "length (l2_bids b) \<le> max_levels_per_side c"
    "length (l2_asks b) \<le> max_levels_per_side c"
  using assms by (auto simp: engine_wf_defs book_ok_def l2_wf_def side_wf_def)

text \<open>The book of a snapshot is the synchronizer's two maps.\<close>

lemma snapshot_covers:
  assumes "deribit_parsed message" "l2_from_snapshot (message_snapshot message) c = Ok b"
    and "snapshot_map (dm_bids message) = Ok bids" "snapshot_map (dm_asks message) = Ok asks"
  shows "bids = quantities (l2_bids b)" "asks = quantities (l2_asks b)" "side_sorted (l2_bids b)" "side_sorted (l2_asks b)"
proof -
  note b = l2_from_snapshot_Ok [OF assms(2)]
  have typed: "snapshot_typed (message_snapshot message)"
    using deribit_values(1) [OF assms(1)] by (simp add: snapshot_value_def)
  show wf: "side_sorted (l2_bids b)" "side_sorted (l2_asks b)"
    using b(1) [OF typed] by (simp_all add: l2_wf_def side_wf_def)
  have parsed: "levels_parsed (dm_bids message)" "levels_parsed (dm_asks message)"
    using assms(1) by (simp_all add: deribit_parsed_def)
  show "bids = quantities (l2_bids b)"
    by (rule snapshot_map_exact [OF parsed(1) assms(3) wf(1)]) (simp add: b(2) [OF typed] message_snapshot_def)
  show "asks = quantities (l2_asks b)"
    by (rule snapshot_map_exact [OF parsed(2) assms(4) wf(2)]) (simp add: b(3) [OF typed] message_snapshot_def)
qed

lemma delta_covers:
  assumes "deribit_parsed message" "covers (db_bids s) (db_asks s) b" "side_sorted (l2_bids b)" "side_sorted (l2_asks b)"
    and "side_sorted (db_bids s)" "side_sorted (db_asks s)" "l2_apply_delta b (message_delta message) c = Ok b'"
    and "apply_actions (db_bids s) (dm_bids message) = Ok bids" "apply_actions (db_asks s) (dm_asks message) = Ok asks"
  shows "covers bids asks b'" "side_sorted bids" "side_sorted asks"
    "quantities (l2_bids b) = db_bids s \<Longrightarrow> length bids \<le> max_levels_per_side c \<Longrightarrow> quantities (l2_bids b') = bids"
    "quantities (l2_asks b) = db_asks s \<Longrightarrow> length asks \<le> max_levels_per_side c \<Longrightarrow> quantities (l2_asks b') = asks"
proof -
  have ok: "list_all level_ok (dm_bids message)" "list_all level_ok (dm_asks message)"
    and typed: "list_all level_typed (event_levels (dm_bids message))" "list_all level_typed (event_levels (dm_asks message))"
    using levels_parsed_ok assms(1) by (simp_all add: deribit_parsed_def)
  have eq: "bids = set_quantities (db_bids s) (dm_bids message)" "asks = set_quantities (db_asks s) (dm_asks message)"
    using apply_actions_Ok ok assms(8,9) by blast+
  let ?bids = "apply_side (l2_bids b) (event_levels (dm_bids message))"
  let ?asks = "apply_side (l2_asks b) (event_levels (dm_asks message))"
  have wf: "side_sorted ?bids" "side_sorted ?asks" using assms(3,4) typed by (simp_all add: apply_side_wf)
  have b': "l2_bids b' = drop (length ?bids - max_levels_per_side c) ?bids" "l2_asks b' = take (max_levels_per_side c) ?asks"
    using assms(7) wf by (simp_all add: l2_apply_delta_Ok_iff message_delta_def truncate_bids_eq truncate_asks_eq)
  show sorted: "side_sorted bids" "side_sorted asks" using assms(5,6) ok by (simp_all add: eq set_quantities_sorted)
  have "set (quantities ?bids) \<subseteq> set bids" "set (quantities ?asks) \<subseteq> set asks"
    using assms(2-6) ok by (simp_all add: quantities_apply_side eq covers_def set_quantities_mono)
  then show "covers bids asks b'"
    unfolding covers_def b' map_values_simps using set_drop_subset set_take_subset by fast
  show "quantities (l2_bids b') = bids" if "quantities (l2_bids b) = db_bids s" "length bids \<le> max_levels_per_side c"
  proof -
    have "quantities ?bids = bids" using that by (simp add: quantities_apply_side eq)
    moreover from this have "length ?bids = length bids" by (metis map_values_simps(3))
    ultimately show ?thesis using that(2) by (simp add: b')
  qed
  show "quantities (l2_asks b') = asks" if "quantities (l2_asks b) = db_asks s" "length asks \<le> max_levels_per_side c"
  proof -
    have "quantities ?asks = asks" using that by (simp add: quantities_apply_side eq)
    moreover from this have "length ?asks = length asks" by (metis map_values_simps(3))
    ultimately show ?thesis using that(2) by (simp add: b')
  qed
qed

lemma settled_tracked:
  assumes "tracked c s" and left: "book_left (db_engine s) P out" and eng: "db_engine s' = fst out"
    and applied: "snd out = Ok ApplyResult.Applied \<Longrightarrow>
      side_sorted (db_bids s') \<and> side_sorted (db_asks s') \<and> (\<forall>b. P b \<longrightarrow> covers (db_bids s') (db_asks s') b)"
    and other: "snd out \<noteq> Ok ApplyResult.Applied \<Longrightarrow>
      db_bids s' = db_bids s \<and> db_asks s' = db_asks s \<or> db_bids s' = [] \<and> db_asks s' = [] \<and> snd out = Ok GapDetected"
  shows "tracked c s'"
proof (cases "snd out = Ok ApplyResult.Applied")
  case True
  then show ?thesis using assms(1) left applied by (auto simp: tracked_def book_left_def keeps_identity_def eng)
next
  case False
  then show ?thesis using assms(1) left other by (auto simp: tracked_def book_left_def keeps_identity_def eng)
qed

lemma delta_call_book:
  assumes "engine_wf (db_engine s)" "deribit_parsed message"
  shows "book_left (db_engine s) (delta_applies (db_engine s) (message_delta message) None (Some previous))
    (deribit_delta_call message session now previous s)"
  by (rule delta_book_left [OF assms(1) deribit_values(2) [OF assms(2)]])

text \<open>A change that does not continue the book is never applied.\<close>

lemma stale_not_applied:
  assumes "engine_wf (db_engine s)" "en_config (db_engine s) = c" "sequence_policy c = PreviousFinal" "deribit_parsed message"
    and "engine_snapshot (db_engine s) = Ok v" "en_state (db_engine s) = Synchronized"
    and "dm_change_id message \<le> vw_last_source_sequence v \<or> previous \<noteq> vw_last_source_sequence v"
  shows "snd (deribit_delta_call message session now previous s) \<noteq> Ok ApplyResult.Applied"
proof
  assume "snd (deribit_delta_call message session now previous s) = Ok ApplyResult.Applied"
  then obtain b' where "delta_applies (db_engine s) (message_delta message) None (Some previous) b'"
    using delta_call_book [OF assms(1,4), of previous session now] by (auto simp: book_left_def)
  then obtain b where b: "en_book (db_engine s) = Some b" "l2_sequence b < dm_change_id message" "previous = l2_sequence b"
    using assms(2,3) by (auto simp: delta_applies_def continues_def message_delta_def)
  obtain v' where "engine_snapshot (db_engine s) = Ok v'" "vw_last_source_sequence v' = l2_sequence b"
    by (rule engine_readable [OF assms(1,6)]) (use b(1) in auto)
  then show False using assms(5,7) b by simp
qed

lemma change_applies:
  assumes "engine_wf (db_engine s)" "en_config (db_engine s) = c" "tracked c s" "deribit_parsed message"
    and "apply_actions (db_bids s) (dm_bids message) = Ok bids" "apply_actions (db_asks s) (dm_asks message) = Ok asks"
    and "delta_applies (db_engine s) (message_delta message) None previous b'"
  obtains b where "en_book (db_engine s) = Some b" "covers bids asks b'" "side_sorted bids" "side_sorted asks"
    "l2_sequence b' = dm_change_id message"
    "quantities (l2_bids b) = db_bids s \<and> length bids \<le> max_levels_per_side c \<longrightarrow> quantities (l2_bids b') = bids"
    "quantities (l2_asks b) = db_asks s \<and> length asks \<le> max_levels_per_side c \<longrightarrow> quantities (l2_asks b') = asks"
proof -
  obtain b where b: "en_book (db_engine s) = Some b" "en_state (db_engine s) = Synchronized"
    "l2_apply_delta b (message_delta message) c = Ok b'"
    using assms(2,7) by (auto simp: delta_applies_def)
  have cov: "covers (db_bids s) (db_asks s) b" "side_sorted (db_bids s)" "side_sorted (db_asks s)"
    using assms(3) b(1,2) by (auto simp: tracked_def)
  have "l2_sequence b' = dm_change_id message" using b(3) by (auto simp: l2_apply_delta_Ok_iff message_delta_def)
  then show thesis
    using that [OF b(1)] delta_covers [OF assms(4) cov(1) book_sides(1,2) [OF assms(1) b(1) assms(2)] cov(2,3) b(3) assms(5,6)]
    by blast
qed

lemma deribit_apply_tracked:
  assumes "engine_wf (db_engine s)" "en_config (db_engine s) = c" "sequence_policy c = PreviousFinal" "tracked c s"
    and "deribit_parsed message"
  shows "tracked c (fst (deribit_apply message now s))"
proof -
  have strategy: "en_strategy (db_engine s) \<in> {None, Some StreamSnapshot}" using assms(4) by (simp add: tracked_def)
  from strategy show ?thesis
  proof (cases rule: deribit_apply_cases [where message = message and now = now])
    case (stopped r)
    then show ?thesis using assms(4) by simp
  next
    case (snapshot session bids asks)
    let ?out = "deribit_snapshot_call message session now s"
    have left: "book_left (db_engine s) (\<lambda>b. l2_from_snapshot (message_snapshot message) c = Ok b) ?out"
      using snapshot_book_left [OF assms(1) deribit_values(1) [OF assms(5)] strategy] assms(2) by simp
    have exact: "bids = quantities (l2_bids b) \<and> asks = quantities (l2_asks b) \<and> side_sorted bids \<and> side_sorted asks"
      if "l2_from_snapshot (message_snapshot message) c = Ok b" for b
      using snapshot_covers [OF assms(5) that snapshot(2,3)] by simp
    have "\<exists>b. l2_from_snapshot (message_snapshot message) c = Ok b" if "snd ?out = Ok ApplyResult.Applied"
      using left that by (auto simp: book_left_def)
    then show ?thesis unfolding snapshot(4) fst_conv using exact
      by (intro settled_tracked [OF assms(4) left])
        (auto simp: db_settled_def Let_def clear_local_def covers_def)
  next
    case (change session v bids asks)
    let ?out = "deribit_delta_call message session now (vw_last_source_sequence v) s"
    note left = delta_call_book [OF assms(1,5), of "vw_last_source_sequence v" session now]
    note cov = change_applies [OF assms(1,2,4,5) change(6,7)]
    have "side_sorted bids \<and> side_sorted asks" if "snd ?out = Ok ApplyResult.Applied"
      using left that cov by (auto simp: book_left_def)
    then show ?thesis unfolding change(8) fst_conv using cov
      by (intro settled_tracked [OF assms(4) left])
        (auto simp: db_settled_def Let_def clear_local_def)
  next
    case (stale session v previous)
    note left = delta_call_book [OF assms(1,5), of previous session now]
    have "snd (deribit_delta_call message session now previous s) \<noteq> Ok ApplyResult.Applied"
      by (rule stale_not_applied [OF assms(1-3,5) stale(3,2,4)])
    then show ?thesis unfolding stale(5) fst_conv
      by (intro settled_tracked [OF assms(4) left])
        (auto simp: clear_local_def)
  qed
qed

lemma deribit_step_tracked:
  assumes "engine_wf (db_engine s)" "en_config (db_engine s) = c" "sequence_policy c = PreviousFinal" "tracked c s"
    and "deribit_step s s'"
  shows "tracked c s'"
  using assms(5,1-4)
proof (induction rule: deribit_step.induct)
  case (deribit_starts s session)
  then show ?case
    by (auto simp: deribit_start_eq start_session_def reading_def and_do_def Let_def tracked_def clear_local_def
        split: sum.splits)
next
  case (deribit_disconnects s)
  then show ?case by (simp add: deribit_disconnect_def disconnect_def tracked_def clear_local_def)
next
  case (deribit_applies message s now)
  then show ?case by (intro deribit_apply_tracked)
qed

lemma deribit_run:
  assumes "deribit_opened c s0" "deribit_step\<^sup>*\<^sup>* s0 s"
  shows "engine_wf (db_engine s)" "en_config (db_engine s) = c" "tracked c s" "sequence_policy c = PreviousFinal"
proof -
  note opened = deribit_opened_fields [OF assms(1)]
  show "engine_wf (db_engine s)" "en_config (db_engine s) = c" by (rule deribit.run_wf [OF assms])+
  show "sequence_policy c = PreviousFinal" by (rule opened)
  have "tracked c s0" using opened engine_new_fields [OF opened(1)] by (simp add: tracked_def)
  then show "tracked c s"
    by (rule deribit.run_invariant [OF assms]) (rule deribit_step_tracked [OF _ _ opened(4)])
qed

subsection \<open>Views and actions\<close>

definition quote_of :: "BookLevel \<Rightarrow> Price \<times> Quantity" where
  "quote_of level = (lvl_price level, lvl_quantity level)"

definition deribit_exact :: "DeribitBookSynchronizer \<Rightarrow> bool" where
  "deribit_exact s \<longleftrightarrow> (case deribit_snapshot s of
     Inl _ \<Rightarrow> False
   | Inr v \<Rightarrow> map quote_of (vw_bids v) = rev (db_bids s) \<and> map quote_of (vw_asks v) = db_asks s)"

definition agrees :: "(Price, Quantity) btree \<Rightarrow> DeribitLevel \<Rightarrow> bool" where
  "agrees side level \<longleftrightarrow> (dl_action level = New \<longleftrightarrow> \<not> bt_contains decimal_cmp (dl_price level) side)"

lemma quotes_of_book:
  "map quote_of (bids_descending b) = rev (quantities (l2_bids b))" "map quote_of (asks_ascending b) = quantities (l2_asks b)"
  by (simp_all add: quote_of_def bids_descending_def asks_ascending_def entry_level_def map_values_def rev_map comp_def case_prod_unfold)

lemma deribit_view:
  assumes "engine_wf (db_engine s)" "en_state (db_engine s) = Synchronized" "en_book (db_engine s) = Some b"
  obtains v where "deribit_snapshot s = Ok v" "map quote_of (vw_bids v) = rev (quantities (l2_bids b))"
    "map quote_of (vw_asks v) = quantities (l2_asks b)" "vw_last_source_sequence v = l2_sequence b"
proof -
  obtain v b1 where v: "engine_snapshot (db_engine s) = Ok v" "en_book (db_engine s) = Some b1"
    "vw_bids v = bids_descending b1" "vw_asks v = asks_ascending b1" "vw_last_source_sequence v = l2_sequence b1"
    by (rule engine_readable [OF assms(1,2)])
  then have "b1 = b" using assms(3) by simp
  then show thesis using that [of v] v by (simp add: deribit_snapshot_def quotes_of_book)
qed

lemma exact_iff:
  assumes "engine_wf (db_engine s)" "en_state (db_engine s) = Synchronized" "en_book (db_engine s) = Some b"
  shows "deribit_exact s \<longleftrightarrow> quantities (l2_bids b) = db_bids s \<and> quantities (l2_asks b) = db_asks s"
  by (rule deribit_view [OF assms]) (simp add: deribit_exact_def)

lemma actions_agree:
  assumes "list_all level_ok levels" "distinct (map dl_price levels)" "side_sorted side" "apply_actions side levels = Ok side'"
  shows "list_all (agrees side) levels"
  using assms
proof (induction levels arbitrary: side)
  case (Cons level levels)
  let ?p = "dl_price level"
  have v: "decimal_wf ?p" using Cons.prems(1) by (simp add: level_ok_def level_typed_def event_level_def)
  have vs: "decimal_wf (dl_price l)" if "l \<in> set levels" for l
    using Cons.prems(1) that by (simp add: list_all_iff level_ok_def level_typed_def event_level_def)
  have other: "dl_price l \<noteq> ?p" if "l \<in> set levels" for l using Cons.prems(2) that by (force simp: image_iff)
  obtain next_side where rest: "apply_actions next_side levels = Ok side'" and here: "agrees side level"
    and next_side: "next_side \<in> {bt_insert decimal_cmp ?p (dl_quantity level) side, bt_remove decimal_cmp ?p side}"
    using Cons.prems(4) by (auto simp: Let_def agrees_def split: BookAction.splits if_splits)
  have sorted: "side_sorted next_side" using next_side Cons.prems(3) v by (auto simp: price.wf_insert price.wf_remove)
  have "list_all (agrees next_side) levels" using Cons.IH [OF _ _ sorted rest] Cons.prems(1,2) by simp
  moreover have "agrees next_side l \<longleftrightarrow> agrees side l" if "l \<in> set levels" for l
    using that next_side other [OF that] price.get_insert [OF Cons.prems(3) v vs [OF that], of "dl_quantity level"]
      price.get_remove [OF Cons.prems(3) v vs [OF that]]
    by (auto simp: agrees_def bt_contains_def split: if_splits)
  ultimately show ?case using here by (simp add: list_all_iff)
qed simp

lemma Ok_map_err_iff: "Inr v = map_err r f \<longleftrightarrow> r = Inr v"
  by (cases r) auto

lemma applied_snapshot:
  assumes run: "engine_wf (db_engine s)" "en_config (db_engine s) = c" "tracked c s" "sequence_policy c = PreviousFinal"
    and "deribit_parsed message" "deribit_apply message now s = (s', Ok ApplyResult.Applied)"
    and "dm_kind message = DeribitMessageKind.Snapshot" "engine_wf (db_engine s')"
  shows "deribit_exact s'"
proof -
  have strategy: "en_strategy (db_engine s) \<in> {None, Some StreamSnapshot}" using run(3) by (simp add: tracked_def)
  then show ?thesis
  proof (cases rule: deribit_apply_cases [where message = message and now = now])
    case (snapshot session bids asks)
    let ?out = "deribit_snapshot_call message session now s"
    have out: "snd ?out = Ok ApplyResult.Applied" "s' = db_settled s bids asks ?out"
      using assms(6) snapshot(4) by (simp_all add: Ok_map_err_iff map_err_Ok_iff)
    have "book_left (db_engine s) (\<lambda>b. l2_from_snapshot (message_snapshot message) c = Ok b) ?out"
      using snapshot_book_left [OF run(1) deribit_values(1) [OF assms(5)] strategy] run(2) by simp
    then obtain b where b: "en_state (db_engine s') = Synchronized" "en_book (db_engine s') = Some b"
      "l2_from_snapshot (message_snapshot message) c = Ok b"
      using out by (auto simp: book_left_def)
    have "db_bids s' = bids" "db_asks s' = asks" using out by (simp_all add: db_settled_def)
    then show ?thesis
      using exact_iff [OF assms(8) b(1,2)] snapshot_covers [OF assms(5) b(3) snapshot(2,3)] by simp
  qed (use assms(6,7) in auto)
qed

lemma applied_change:
  assumes run: "engine_wf (db_engine s)" "en_config (db_engine s) = c" "tracked c s" "sequence_policy c = PreviousFinal"
    and "deribit_parsed message" "deribit_apply message now s = (s', Ok ApplyResult.Applied)"
    and "dm_kind message = DeribitMessageKind.Change" "engine_wf (db_engine s')"
  shows "\<exists>v v'. deribit_snapshot s = Ok v \<and> dm_previous_change_id message = Some (vw_last_source_sequence v)
      \<and> deribit_snapshot s' = Ok v' \<and> vw_last_source_sequence v' = dm_change_id message"
    "list_all (agrees (db_bids s)) (dm_bids message)" "list_all (agrees (db_asks s)) (dm_asks message)"
    "deribit_exact s \<Longrightarrow> length (db_bids s') \<le> max_levels_per_side c \<Longrightarrow> length (db_asks s') \<le> max_levels_per_side c \<Longrightarrow>
       deribit_exact s'"
proof -
  have strategy: "en_strategy (db_engine s) \<in> {None, Some StreamSnapshot}" using run(3) by (simp add: tracked_def)
  obtain session v bids asks where live: "en_state (db_engine s) = Synchronized" "engine_snapshot (db_engine s) = Ok v"
    and prev: "dm_previous_change_id message = Some (vw_last_source_sequence v)"
    and acts: "apply_actions (db_bids s) (dm_bids message) = Ok bids" "apply_actions (db_asks s) (dm_asks message) = Ok asks"
    and out: "snd (deribit_delta_call message session now (vw_last_source_sequence v) s) = Ok ApplyResult.Applied"
      "s' = db_settled s bids asks (deribit_delta_call message session now (vw_last_source_sequence v) s)"
    using strategy
  proof (cases rule: deribit_apply_cases [where message = message and now = now])
    case (change session v bids asks)
    then show thesis using that [of v bids asks session] assms(6) by (simp add: Ok_map_err_iff map_err_Ok_iff)
  next
    case (stale session v previous)
    then show thesis using stale_not_applied [OF run(1,2,4) assms(5) stale(3,2,4)] assms(6) by (simp add: Ok_map_err_iff map_err_Ok_iff)
  qed (use assms(6,7) in auto)
  let ?out = "deribit_delta_call message session now (vw_last_source_sequence v) s"
  have sides: "db_bids s' = bids" "db_asks s' = asks" using out by (simp_all add: db_settled_def)
  obtain b' where b': "en_state (db_engine s') = Synchronized" "en_book (db_engine s') = Some b'"
    "delta_applies (db_engine s) (message_delta message) None (Some (vw_last_source_sequence v)) b'"
    using delta_call_book [OF run(1) assms(5), of "vw_last_source_sequence v" session now] out by (auto simp: book_left_def)
  obtain b where b: "en_book (db_engine s) = Some b" "covers bids asks b'" "side_sorted bids" "side_sorted asks"
    "l2_sequence b' = dm_change_id message"
    "quantities (l2_bids b) = db_bids s \<and> length bids \<le> max_levels_per_side c \<longrightarrow> quantities (l2_bids b') = bids"
    "quantities (l2_asks b) = db_asks s \<and> length asks \<le> max_levels_per_side c \<longrightarrow> quantities (l2_asks b') = asks"
    by (rule change_applies [OF run(1-3) assms(5) acts b'(3)])
  obtain v' where "deribit_snapshot s' = Ok v'" "vw_last_source_sequence v' = l2_sequence b'"
    by (rule deribit_view [OF assms(8) b'(1,2)])
  then show "\<exists>v v'. deribit_snapshot s = Ok v \<and> dm_previous_change_id message = Some (vw_last_source_sequence v)
      \<and> deribit_snapshot s' = Ok v' \<and> vw_last_source_sequence v' = dm_change_id message"
    using live(2) prev b(5) by (simp add: deribit_snapshot_def)
  have sorted: "side_sorted (db_bids s)" "side_sorted (db_asks s)" using run(3) by (simp_all add: tracked_def)
  have parsed: "levels_parsed (dm_bids message)" "levels_parsed (dm_asks message)" using assms(5) by (simp_all add: deribit_parsed_def)
  show "list_all (agrees (db_bids s)) (dm_bids message)" "list_all (agrees (db_asks s)) (dm_asks message)"
    using actions_agree [OF levels_parsed_ok(1,2) [OF parsed(1)] sorted(1) acts(1)]
      actions_agree [OF levels_parsed_ok(1,2) [OF parsed(2)] sorted(2) acts(2)] by simp_all
  show "deribit_exact s'" if "deribit_exact s" "length (db_bids s') \<le> max_levels_per_side c" "length (db_asks s') \<le> max_levels_per_side c"
    using that exact_iff [OF run(1) live(1) b(1)] exact_iff [OF assms(8) b'(1,2)] b(6,7) by (simp add: sides)
qed

lemma refused_unchanged:
  assumes "tracked c s" "deribit_apply message now s = (s', Err DeribitBookSyncError.InvalidTransition)"
  shows "s' = s"
proof -
  have other: "map_err r Book \<noteq> Err DeribitBookSyncError.InvalidTransition" for r :: "(ApplyResult, BookError) result"
    by (cases r) simp_all
  have strategy: "en_strategy (db_engine s) \<in> {None, Some StreamSnapshot}" using assms(1) by (simp add: tracked_def)
  then show ?thesis
    by (cases rule: deribit_apply_cases [where message = message and now = now]) (use assms(2) other in auto)
qed

subsection \<open>Properties\<close>

text \<open>
  C11. The Deribit synchronizer and its engine never disagree. Whatever was received before, every
  level the engine shows after a message is in the synchronizer's own map with the same quantity.
  After an applied snapshot the two are equal; they stay equal under applied changes as long as
  neither side outgrows the configured depth. A change is applied only if it continues the last
  change identifier and every one of its actions agrees with the map: new prices are new, changed
  and deleted prices are present. A message refused for its actions changes nothing.
\<close>

theorem deribit_tracks_engine:
  assumes "deribit_try_new c = Ok s0" "deribit_step\<^sup>*\<^sup>* s0 s" "deribit_parsed message"
    and "deribit_apply message now s = (s', r)"
  shows "(\<forall>v. deribit_snapshot s' = Ok v \<longrightarrow>
        set (map quote_of (vw_bids v)) \<subseteq> set (db_bids s') \<and> set (map quote_of (vw_asks v)) \<subseteq> set (db_asks s'))
    \<and> (r = Ok ApplyResult.Applied \<and> dm_kind message = DeribitMessageKind.Snapshot \<longrightarrow> deribit_exact s')
    \<and> (r = Ok ApplyResult.Applied \<and> dm_kind message = DeribitMessageKind.Change \<longrightarrow>
        (\<exists>v v'. deribit_snapshot s = Ok v \<and> dm_previous_change_id message = Some (vw_last_source_sequence v)
           \<and> deribit_snapshot s' = Ok v' \<and> vw_last_source_sequence v' = dm_change_id message)
        \<and> list_all (agrees (db_bids s)) (dm_bids message) \<and> list_all (agrees (db_asks s)) (dm_asks message)
        \<and> (deribit_exact s \<and> length (db_bids s') \<le> max_levels_per_side c \<and> length (db_asks s') \<le> max_levels_per_side c
             \<longrightarrow> deribit_exact s'))
    \<and> (r = Err DeribitBookSyncError.InvalidTransition \<longrightarrow> s' = s)"
proof -
  have opened: "deribit_opened c s0" using assms(1) by (simp add: deribit_opened_def)
  note run = deribit_run [OF opened assms(2)]
  have s': "s' = fst (deribit_apply message now s)" using assms(4) by simp
  have run': "deribit_step\<^sup>*\<^sup>* s0 s'" unfolding s' by (rule rtranclp.rtrancl_into_rtrancl [OF assms(2) deribit_applies [OF assms(3)]])
  note after = deribit_run [OF opened run']
  have included: "set (map quote_of (vw_bids v)) \<subseteq> set (db_bids s') \<and> set (map quote_of (vw_asks v)) \<subseteq> set (db_asks s')"
    if v: "deribit_snapshot s' = Ok v" for v
  proof -
    have sync: "en_state (db_engine s') = Synchronized"
      using deribit.run_view [OF opened run'] v by (simp add: deribit_snapshot_def)
    then obtain b where b: "en_book (db_engine s') = Some b" "covers (db_bids s') (db_asks s') b"
      using after(3) by (auto simp: tracked_def)
    obtain v' where "deribit_snapshot s' = Ok v'" "map quote_of (vw_bids v') = rev (quantities (l2_bids b))"
      "map quote_of (vw_asks v') = quantities (l2_asks b)"
      by (rule deribit_view [OF after(1) sync b(1)])
    then show ?thesis using v b(2) by (simp add: covers_def)
  qed
  show ?thesis
    using included applied_snapshot [OF run assms(3) _ _ after(1), of now] applied_change [OF run assms(3) _ _ after(1), of now]
      refused_unchanged [OF run(3)] assms(4) by blast
qed

text \<open>An example: the first snapshot of a session.\<close>

definition example_deribit :: BookConfig where
  "example_deribit = example_config\<lparr>instrument := (instrument example_config)\<lparr>iid_venue := ''deribit''\<rparr>,
     sequence_policy := PreviousFinal, max_l3_orders := None, max_l3_levels_per_side := None\<rparr>"

definition example_deribit_new :: DeribitBookSynchronizer where
  "example_deribit_new = \<lparr>db_engine = example_new\<lparr>en_config := example_deribit, en_l3_checksum_status := NotSupported\<rparr>,
     db_instrument_name = ''BTC-USD'', db_bids = [], db_asks = []\<rparr>"

definition example_deribit_started :: DeribitBookSynchronizer where
  "example_deribit_started = fst (deribit_start_session example_session example_deribit_new)"

definition example_exact :: "int \<Rightarrow> ExactDecimal" where
  "example_exact m = \<lparr>xd_text = [], xd_value = \<lparr>mantissa = m, scale = 0\<rparr>\<rparr>"

definition example_deribit_level :: "int \<Rightarrow> int \<Rightarrow> DeribitLevel" where
  "example_deribit_level p q = \<lparr>dl_action = New, dl_price = xd_value (example_exact p), dl_quantity = xd_value (example_exact q),
     dl_price_text = [], dl_quantity_text = []\<rparr>"

definition example_deribit_message :: DeribitBookMessage where
  "example_deribit_message = \<lparr>dm_instrument_name = ''BTC-USD'', dm_kind = DeribitMessageKind.Snapshot, dm_timestamp = 1,
     dm_change_id = 7, dm_previous_change_id = None, dm_bids = [example_deribit_level 100 1],
     dm_asks = [example_deribit_level 102 3]\<rparr>"

lemma example_deribit_opened: "deribit_try_new example_deribit = Ok example_deribit_new"
proof -
  have "config_validate example_deribit"
    using example_engine_new by (auto simp: engine_new_def example_deribit_def config_validate_def split: if_splits)
  then have "engine_new example_deribit = Ok (db_engine example_deribit_new)"
    by (simp add: engine_new_def example_new_def fresh_checksum_status_def fresh_l3_checksum_status_def
        example_deribit_new_def example_deribit_def example_config_def)
  then show ?thesis
    by (simp add: deribit_try_new_def example_deribit_new_def example_deribit_def example_config_def)
qed

lemma example_levels_parsed: "levels_parsed [example_deribit_level 100 1]" "levels_parsed [example_deribit_level 102 3]"
proof -
  have wf: "decimal_wf (xd_value (example_exact 100))" "decimal_wf (xd_value (example_exact 102))"
    "decimal_wf (xd_value (example_exact 1))" "decimal_wf (xd_value (example_exact 3))"
    by code_simp+
  have parsed: "parse_levels [(''new'', example_exact 100, example_exact 1)] = Ok [example_deribit_level 100 1]"
    "parse_levels [(''new'', example_exact 102, example_exact 3)] = Ok [example_deribit_level 102 3]"
    by code_simp+
  show "levels_parsed [example_deribit_level 100 1]" unfolding levels_parsed_def
    by (rule exI [of _ "[(''new'', example_exact 100, example_exact 1)]"]) (simp add: wf parsed)
  show "levels_parsed [example_deribit_level 102 3]" unfolding levels_parsed_def
    by (rule exI [of _ "[(''new'', example_exact 102, example_exact 3)]"]) (simp add: wf parsed)
qed

lemma example_deribit_parsed: "deribit_parsed example_deribit_message"
  by (simp add: deribit_parsed_def example_deribit_message_def example_levels_parsed u64_max_def)

lemma example_deribit_run: "deribit_step\<^sup>*\<^sup>* example_deribit_new example_deribit_started"
  unfolding example_deribit_started_def by (rule r_into_rtranclp) (rule deribit_starts)

lemma example_deribit_fields:
  "db_instrument_name example_deribit_started = ''BTC-USD''" "en_session (db_engine example_deribit_started) = Some example_session"
  "en_strategy (db_engine example_deribit_started) = Some StreamSnapshot"
  "en_state (db_engine example_deribit_started) = AwaitingSnapshot"
  "en_last_observed_monotonic_ns (db_engine example_deribit_started) = 0"
  by (simp_all add: example_deribit_started_def deribit_start_eq start_session_def and_do_def reading_def
      validate_new_session_def session_is_valid_def example_session_def example_deribit_new_def example_new_def
      example_deribit_def example_config_def clear_local_def Let_def)

lemma example_deribit_applied:
  "snd (deribit_apply example_deribit_message 5 example_deribit_started) = Ok ApplyResult.Applied"
proof -
  have opened: "deribit_opened example_deribit example_deribit_new" using example_deribit_opened by (simp add: deribit_opened_def)
  note run = deribit_run [OF opened example_deribit_run]
  have "is_ok (l2_from_snapshot (message_snapshot example_deribit_message) example_deribit)" by code_simp
  then obtain b where b: "l2_from_snapshot (message_snapshot example_deribit_message) example_deribit = Ok b"
    by (auto simp: is_ok_def split: sum.splits)
  have "snd (deribit_snapshot_call example_deribit_message example_session 5 example_deribit_started) = Ok ApplyResult.Applied"
    by (rule stream_snapshot_applied(1) [OF run(1) deribit_values(1) [OF example_deribit_parsed] example_deribit_fields(3)])
      (use b in \<open>simp_all add: example_deribit_fields run(2)\<close>, simp add: example_deribit_def example_config_def)
  moreover have "is_ok (snapshot_map (dm_bids example_deribit_message))" "is_ok (snapshot_map (dm_asks example_deribit_message))"
    "dm_previous_change_id example_deribit_message = None"
    "\<not> list_ex (\<lambda>level. dl_action level \<noteq> New) (dm_bids example_deribit_message @ dm_asks example_deribit_message)"
    by code_simp+
  ultimately have "snd (deribit_apply_snapshot example_deribit_message example_session 5 example_deribit_started) = Ok ApplyResult.Applied"
    by (auto simp: deribit_apply_snapshot_def engine_call_then apply_snapshot_def is_ok_def split: sum.splits)
  then show ?thesis
    by (simp add: deribit_apply_def example_deribit_fields) (simp add: example_deribit_message_def)
qed

theorem deribit_tracks_engine_witness:
  "deribit_exact (fst (deribit_apply example_deribit_message 5 example_deribit_started))"
  using deribit_tracks_engine [OF example_deribit_opened example_deribit_run example_deribit_parsed,
      of 5 "fst (deribit_apply example_deribit_message 5 example_deribit_started)" "Ok ApplyResult.Applied"]
    example_deribit_applied
  by (simp add: prod_eq_iff) (simp add: example_deribit_message_def)

text \<open>
  The condition on the depth is needed: a level beyond the configured depth is dropped by the engine
  for good. In a book of depth two a third bid is lost, and when a better one is deleted the book
  shows one bid while the venue, and the synchronizer's map, have two.
\<close>

lemma level_beyond_depth_is_lost:
  "(case l2_apply_delta example_book
       \<lparr>delta_bids = [example_level 99 5], delta_asks = [], delta_first_sequence = 8, delta_last_sequence = 8\<rparr> example_config of
      Inl _ \<Rightarrow> False
    | Inr b \<Rightarrow>
       (case l2_apply_delta b
            \<lparr>delta_bids = [example_level 101 0], delta_asks = [], delta_first_sequence = 9, delta_last_sequence = 9\<rparr> example_config of
          Inl _ \<Rightarrow> False
        | Inr b' \<Rightarrow> bids_descending b' = [example_level 100 1]))"
  by code_simp

end
