(* ===== verification/Sync_Bybit.thy ===== *)
theory Sync_Bybit
  imports Book_Sync
begin

text \<open>
  \<open>connector-bybit/src/book_sync.rs\<close>: the order-book synchronizer of the Bybit connector. It applies
  the snapshots and deltas of one stream, and additionally refuses a message whose cross sequence is
  older than the last one applied, by ending the session.
\<close>

subsection \<open>Messages and state\<close>

datatype BybitMarket = Spot | LinearPerpetual

datatype BybitMessageKind = Snapshot | Delta

record BybitLevel =
  yl_price :: Price
  yl_quantity :: Quantity

record OrderBookMessage =
  om_market :: BybitMarket
  om_symbol :: string
  om_depth :: nat
  om_kind :: BybitMessageKind
  om_update_id :: nat
  om_cross_sequence :: nat
  om_event_time :: int
  om_matching_engine_time :: int
  om_bids :: "BybitLevel list"
  om_asks :: "BybitLevel list"

record BybitBookSynchronizer =
  bb_engine :: OrderBookEngine
  bb_market :: BybitMarket
  bb_symbol :: string
  bb_snapshot_reset_count :: nat
  bb_last_cross_sequence :: "nat option"

datatype BybitBookSyncError =
    InvalidConfig
  | WrongMessage
  | CrossSequenceRegression
  | SessionNotStarted
  | Book BookError

definition bybit_try_new :: "BybitMarket \<Rightarrow> BookConfig \<Rightarrow> (BybitBookSynchronizer, BybitBookSyncError) result" where
  "bybit_try_new market config =
     (let expected_product = (case market of Spot \<Rightarrow> ProductType.Spot | LinearPerpetual \<Rightarrow> Perpetual)
      in if iid_product_type (instrument config) \<noteq> expected_product
            \<or> iid_venue (instrument config) \<noteq> ''bybit''
            \<or> sequence_policy config \<noteq> ExactNext
            \<or> checksum_policy config \<noteq> Disabled
         then Err InvalidConfig
         else and_then (map_err (engine_new config) Book) (\<lambda>engine.
                Ok \<lparr>bb_engine = engine, bb_market = market, bb_symbol = iid_venue_symbol (instrument config),
                    bb_snapshot_reset_count = 0, bb_last_cross_sequence = None\<rparr>))"

abbreviation bb_call :: "(OrderBookEngine, 'a, BookError) call \<Rightarrow>
    (BybitBookSynchronizer, 'a, BybitBookSyncError) call" where
  "bb_call \<equiv> engine_call bb_engine (\<lambda>e s. s\<lparr>bb_engine := e\<rparr>) Book"

definition bybit_start_session :: "BookSession \<Rightarrow> (BybitBookSynchronizer, unit, BybitBookSyncError) call" where
  "bybit_start_session session =
     and_do (bb_call (start_session session StreamSnapshot))
       (\<lambda>_ s. (s\<lparr>bb_last_cross_sequence := None\<rparr>, Ok ()))"

definition bybit_disconnect :: "BybitBookSynchronizer \<Rightarrow> BybitBookSynchronizer" where
  "bybit_disconnect s = s\<lparr>bb_engine := disconnect (bb_engine s), bb_last_cross_sequence := None\<rparr>"

definition bybit_heartbeat_timeout :: "BybitBookSynchronizer \<Rightarrow> BybitBookSynchronizer" where
  "bybit_heartbeat_timeout s = bybit_disconnect s"

definition bybit_snapshot :: "BybitBookSynchronizer \<Rightarrow> (BookSnapshotView, BookError) result" where
  "bybit_snapshot s = engine_snapshot (bb_engine s)"

definition bybit_levels :: "BybitLevel list \<Rightarrow> BookLevel list" where
  "bybit_levels levels =
     map (\<lambda>level. \<lparr>lvl_price = yl_price level, lvl_quantity = yl_quantity level, lvl_order_count = None\<rparr>) levels"

definition bybit_engine_call :: "OrderBookMessage \<Rightarrow> BookSession \<Rightarrow> nat \<Rightarrow>
    (OrderBookEngine, ApplyResult, BookError) call" where
  "bybit_engine_call message session now =
     (case om_kind message of
        Snapshot \<Rightarrow>
          apply_snapshot \<lparr>snap_bids = bybit_levels (om_bids message), snap_asks = bybit_levels (om_asks message),
            snap_last_sequence = om_update_id message\<rparr> session now
      | Delta \<Rightarrow>
          apply_delta \<lparr>delta_bids = bybit_levels (om_bids message), delta_asks = bybit_levels (om_asks message),
            delta_first_sequence = om_update_id message, delta_last_sequence = om_update_id message\<rparr> session now)"

definition bybit_apply_message :: "OrderBookMessage \<Rightarrow> nat \<Rightarrow>
    (BybitBookSynchronizer, ApplyResult, BybitBookSyncError) call" where
  "bybit_apply_message message now s =
     (if om_market message \<noteq> bb_market s \<or> om_symbol message \<noteq> bb_symbol s then (s, Err WrongMessage)
      else if (case bb_last_cross_sequence s of None \<Rightarrow> False | Some previous \<Rightarrow> om_cross_sequence message < previous)
      then (bybit_disconnect s, Err CrossSequenceRegression)
      else case en_session (bb_engine s) of
             None \<Rightarrow> (s, Err SessionNotStarted)
           | Some session \<Rightarrow>
               and_do (bb_call (bybit_engine_call message session now)) (\<lambda>result s.
                 (if result = ApplyResult.Applied
                  then let s = s\<lparr>bb_last_cross_sequence := Some (om_cross_sequence message)\<rparr>
                       in if om_kind message = Snapshot
                          then s\<lparr>bb_snapshot_reset_count := saturating_add u64_max (bb_snapshot_reset_count s) 1\<rparr>
                          else s
                  else s, Ok result)) s)"

text \<open>What the types of a message guarantee.\<close>

definition bybit_typed :: "OrderBookMessage \<Rightarrow> bool" where
  "bybit_typed message \<longleftrightarrow>
     list_all level_typed (bybit_levels (om_bids message)) \<and> list_all level_typed (bybit_levels (om_asks message))
     \<and> om_update_id message \<le> u64_max"

inductive bybit_step :: "BybitBookSynchronizer \<Rightarrow> BybitBookSynchronizer \<Rightarrow> bool" where
  bybit_starts: "bybit_step s (fst (bybit_start_session session s))"
| bybit_disconnects: "bybit_step s (bybit_disconnect s)"
| bybit_times_out: "bybit_step s (bybit_heartbeat_timeout s)"
| bybit_applies: "bybit_typed message \<Longrightarrow> bybit_step s (fst (bybit_apply_message message now s))"

definition bybit_opened :: "BookConfig \<Rightarrow> BybitBookSynchronizer \<Rightarrow> bool" where
  "bybit_opened c s \<longleftrightarrow> (\<exists>market. bybit_try_new market c = Ok s)"

subsection \<open>The engine inside\<close>

abbreviation bybit_snap :: "OrderBookMessage \<Rightarrow> BookSnapshot" where
  "bybit_snap message \<equiv> \<lparr>snap_bids = bybit_levels (om_bids message), snap_asks = bybit_levels (om_asks message),
     snap_last_sequence = om_update_id message\<rparr>"

abbreviation bybit_delta :: "OrderBookMessage \<Rightarrow> BookDelta" where
  "bybit_delta message \<equiv> \<lparr>delta_bids = bybit_levels (om_bids message), delta_asks = bybit_levels (om_asks message),
     delta_first_sequence = om_update_id message, delta_last_sequence = om_update_id message\<rparr>"

lemma bybit_call_eq:
  "bybit_engine_call message session now e =
     (case om_kind message of
        Snapshot \<Rightarrow> apply_snapshot_candidate (bybit_snap message) session now None None e
      | Delta \<Rightarrow> apply_delta_candidate (bybit_delta message) session now None None None e)"
  by (simp add: bybit_engine_call_def apply_snapshot_def apply_delta_def split: BybitMessageKind.split)

lemma bybit_values:
  "bybit_typed message \<Longrightarrow> snapshot_value (bybit_snap message)" "bybit_typed message \<Longrightarrow> delta_value (bybit_delta message)"
  by (simp_all add: bybit_typed_def snapshot_value_def snapshot_typed_def delta_value_def delta_typed_def)

lemma bybit_opened_fields:
  assumes "bybit_opened c s"
  shows "engine_new c = Ok (bb_engine s)" "bb_last_cross_sequence s = None" "sequence_policy c = ExactNext"
    "checksum_policy c = Disabled"
  using assms unfolding bybit_opened_def bybit_try_new_def by (cases "engine_new c"; auto simp: Let_def split: if_splits)+

lemma bybit_start_eq:
  "bybit_start_session session s =
     (case snd (start_session session StreamSnapshot (bb_engine s)) of
        Inl _ \<Rightarrow> s\<lparr>bb_engine := fst (start_session session StreamSnapshot (bb_engine s))\<rparr>
      | Inr _ \<Rightarrow> s\<lparr>bb_engine := fst (start_session session StreamSnapshot (bb_engine s)), bb_last_cross_sequence := None\<rparr>,
      map_err (snd (start_session session StreamSnapshot (bb_engine s))) Book)"
  by (simp add: bybit_start_session_def and_do_def engine_call_def split: prod.split sum.split)

definition bb_settled :: "OrderBookMessage \<Rightarrow> BybitBookSynchronizer \<Rightarrow>
    OrderBookEngine \<times> (ApplyResult, BookError) result \<Rightarrow> BybitBookSynchronizer" where
  "bb_settled message s out =
     (let s' = s\<lparr>bb_engine := fst out\<rparr>
      in if snd out = Ok ApplyResult.Applied
         then s'\<lparr>bb_last_cross_sequence := Some (om_cross_sequence message), bb_snapshot_reset_count :=
                (if om_kind message = Snapshot then saturating_add u64_max (bb_snapshot_reset_count s) 1
                 else bb_snapshot_reset_count s)\<rparr>
         else s')"

lemma bb_settled_fields [simp]:
  "bb_engine (bb_settled message s out) = fst out"
  "bb_last_cross_sequence (bb_settled message s out) =
     (if snd out = Ok ApplyResult.Applied then Some (om_cross_sequence message) else bb_last_cross_sequence s)"
  by (simp_all add: bb_settled_def Let_def)

lemma bybit_apply_cases [case_names stopped regressed called]:
  obtains (stopped) r where "bybit_apply_message message now s = (s, Err r)" "r \<noteq> CrossSequenceRegression"
  | (regressed) previous where "bb_last_cross_sequence s = Some previous" "om_cross_sequence message < previous"
      "bybit_apply_message message now s = (bybit_disconnect s, Err CrossSequenceRegression)"
  | (called) session where "en_session (bb_engine s) = Some session"
      "\<forall>previous. bb_last_cross_sequence s = Some previous \<longrightarrow> previous \<le> om_cross_sequence message"
      "bybit_apply_message message now s = (bb_settled message s (bybit_engine_call message session now (bb_engine s)),
         map_err (snd (bybit_engine_call message session now (bb_engine s))) Book)"
proof (cases "om_market message \<noteq> bb_market s \<or> om_symbol message \<noteq> bb_symbol s")
  case True
  then show thesis using stopped [of WrongMessage] by (simp add: bybit_apply_message_def)
next
  case here: False
  show thesis
  proof (cases "\<exists>previous. bb_last_cross_sequence s = Some previous \<and> om_cross_sequence message < previous")
    case True
    then show thesis using regressed here by (auto simp: bybit_apply_message_def)
  next
    case False
    then have order: "\<forall>previous. bb_last_cross_sequence s = Some previous \<longrightarrow> previous \<le> om_cross_sequence message" by auto
    then have older: "\<not> (case bb_last_cross_sequence s of None \<Rightarrow> False | Some previous \<Rightarrow> om_cross_sequence message < previous)"
      by (auto split: option.splits)
    show thesis
    proof (cases "en_session (bb_engine s)")
      case None
      then show thesis using stopped [of SessionNotStarted] here older by (simp add: bybit_apply_message_def)
    next
      case (Some session)
      let ?out = "bybit_engine_call message session now (bb_engine s)"
      have "bybit_apply_message message now s = (bb_settled message s ?out, map_err (snd ?out) Book)"
        unfolding bybit_apply_message_def using here older Some
        by (cases "snd ?out") (simp_all add: engine_call_then bb_settled_def Let_def)
      then show thesis by (rule called [OF Some order])
    qed
  qed
qed

lemma bybit_call_step:
  "bybit_typed message \<Longrightarrow> engine_step e (fst (bybit_engine_call message session now e))"
  unfolding bybit_call_eq using step_snapshot [OF bybit_values(1)] step_delta [OF bybit_values(2)]
  by (simp split: BybitMessageKind.split)

lemma bybit_step_engine: "bybit_step s s' \<Longrightarrow> engine_step\<^sup>*\<^sup>* (bb_engine s) (bb_engine s')"
proof (induction rule: bybit_step.induct)
  case (bybit_starts s session)
  have "bb_engine (fst (bybit_start_session session s)) = fst (start_session session StreamSnapshot (bb_engine s))"
    by (simp add: bybit_start_eq split: sum.split)
  then show ?case by (auto intro: step_start)
next
  case (bybit_applies message s now)
  show ?case
    by (cases rule: bybit_apply_cases [of message now s])
      (use bybit_call_step [OF bybit_applies] in \<open>auto simp: bybit_disconnect_def intro: step_disconnect\<close>)
qed (auto simp: bybit_disconnect_def bybit_heartbeat_timeout_def intro: step_disconnect)

interpretation bybit: book_synchronizer bb_engine bybit_opened bybit_step
  by unfold_locales (auto simp: bybit_opened_fields bybit_step_engine)

subsection \<open>What a message leaves\<close>

definition message_book :: "OrderBookMessage \<Rightarrow> OrderBookEngine \<Rightarrow> L2Book \<Rightarrow> bool" where
  "message_book message e b \<longleftrightarrow>
     (case om_kind message of
        Snapshot \<Rightarrow> l2_from_snapshot (bybit_snap message) (en_config e) = Ok b
      | Delta \<Rightarrow> delta_applies e (bybit_delta message) None None b)"

lemma bybit_call_left:
  assumes "engine_wf e" "en_strategy e \<in> {None, Some StreamSnapshot}" "bybit_typed message"
  shows "book_left e (message_book message e) (bybit_engine_call message session now e)"
proof (cases "om_kind message")
  case Snapshot
  then show ?thesis unfolding bybit_call_eq message_book_def BybitMessageKind.case
    using snapshot_book_left [OF assms(1) bybit_values(1) [OF assms(3)] assms(2)] by simp
next
  case Delta
  then show ?thesis unfolding bybit_call_eq message_book_def BybitMessageKind.case
    using delta_book_left [OF assms(1) bybit_values(2) [OF assms(3)]] by simp
qed

definition ordered :: "BookConfig \<Rightarrow> BybitBookSynchronizer \<Rightarrow> bool" where
  "ordered c s \<longleftrightarrow> en_strategy (bb_engine s) \<in> {None, Some StreamSnapshot}
     \<and> (en_state (bb_engine s) = Synchronized \<longrightarrow> bb_last_cross_sequence s \<noteq> None)"

lemma bybit_step_ordered:
  assumes "engine_wf (bb_engine s)" "en_config (bb_engine s) = c" "ordered c s" "bybit_step s s'"
  shows "ordered c s'"
  using assms(4,1-3)
proof (induction rule: bybit_step.induct)
  case (bybit_starts s session)
  then show ?case
    by (auto simp: bybit_start_eq start_session_def reading_def and_do_def Let_def ordered_def split: sum.splits)
next
  case (bybit_applies message s now)
  have strategy: "en_strategy (bb_engine s) \<in> {None, Some StreamSnapshot}" using bybit_applies(4) by (simp add: ordered_def)
  show ?case
  proof (cases rule: bybit_apply_cases [of message now s])
    case (called session)
    note left = bybit_call_left [OF bybit_applies(2) strategy bybit_applies(1), of session now]
    show ?thesis unfolding called(3) using left bybit_applies(4)
      by (auto simp: ordered_def book_left_def keeps_identity_def split: if_splits)
  qed (use bybit_applies(4) in \<open>simp_all add: ordered_def bybit_disconnect_def disconnect_def\<close>)
qed (simp_all add: ordered_def bybit_disconnect_def bybit_heartbeat_timeout_def disconnect_def)

lemma bybit_run:
  assumes "bybit_opened c s0" "bybit_step\<^sup>*\<^sup>* s0 s"
  shows "engine_wf (bb_engine s)" "en_config (bb_engine s) = c" "ordered c s" "sequence_policy c = ExactNext"
proof -
  note opened = bybit_opened_fields [OF assms(1)]
  show "engine_wf (bb_engine s)" "en_config (bb_engine s) = c" by (rule bybit.run_wf [OF assms])+
  show "sequence_policy c = ExactNext" by (rule opened)
  have "ordered c s0" using opened engine_new_fields [OF opened(1)] by (simp add: ordered_def)
  then show "ordered c s" by (rule bybit.run_invariant [OF assms]) (rule bybit_step_ordered)
qed

text \<open>An applied message is the next of its stream.\<close>

lemma bybit_applied:
  assumes run: "engine_wf (bb_engine s)" "en_config (bb_engine s) = c" "ordered c s" "sequence_policy c = ExactNext"
    and typed: "bybit_typed message" and out: "bybit_apply_message message now s = (s', Ok ApplyResult.Applied)"
    and wf': "engine_wf (bb_engine s')"
  shows "bb_last_cross_sequence s' = Some (om_cross_sequence message)"
    "\<forall>previous. bb_last_cross_sequence s = Some previous \<longrightarrow> previous \<le> om_cross_sequence message"
    "\<exists>v'. bybit_snapshot s' = Ok v' \<and> vw_last_source_sequence v' = om_update_id message
       \<and> (case om_kind message of
            Snapshot \<Rightarrow> vw_bids v' = bybit_levels (om_bids message) \<and> vw_asks v' = bybit_levels (om_asks message)
          | Delta \<Rightarrow> \<exists>v. bybit_snapshot s = Ok v \<and> om_update_id message = vw_last_source_sequence v + 1)"
proof -
  have strategy: "en_strategy (bb_engine s) \<in> {None, Some StreamSnapshot}" using run(3) by (simp add: ordered_def)
  obtain session where order: "\<forall>previous. bb_last_cross_sequence s = Some previous \<longrightarrow> previous \<le> om_cross_sequence message"
    and applied: "snd (bybit_engine_call message session now (bb_engine s)) = Ok ApplyResult.Applied"
    and s': "s' = bb_settled message s (bybit_engine_call message session now (bb_engine s))"
  proof (cases rule: bybit_apply_cases [of message now s])
    case (called session)
    then have "map_err (snd (bybit_engine_call message session now (bb_engine s))) Book = Ok ApplyResult.Applied" using out by simp
    then show thesis using that [of session] called out by (simp add: map_err_Ok_iff)
  qed (use out in auto)
  show "bb_last_cross_sequence s' = Some (om_cross_sequence message)" by (simp add: s' applied)
  show "\<forall>previous. bb_last_cross_sequence s = Some previous \<longrightarrow> previous \<le> om_cross_sequence message" by (rule order)
  have "\<exists>b. en_state (bb_engine s') = Synchronized \<and> en_book (bb_engine s') = Some b \<and> message_book message (bb_engine s) b"
    using bybit_call_left [OF run(1) strategy typed, of session now] applied by (auto simp: book_left_def s')
  then obtain b where b: "en_state (bb_engine s') = Synchronized" "en_book (bb_engine s') = Some b"
    "message_book message (bb_engine s) b" by blast
  obtain v' b1 where "engine_snapshot (bb_engine s') = Ok v'" "en_book (bb_engine s') = Some b1"
    "vw_bids v' = bids_descending b1" "vw_asks v' = asks_ascending b1" "vw_last_source_sequence v' = l2_sequence b1"
    by (rule engine_readable [OF wf' b(1)])
  then have v': "bybit_snapshot s' = Ok v'" "vw_bids v' = bids_descending b" "vw_asks v' = asks_ascending b"
    "vw_last_source_sequence v' = l2_sequence b"
    using b(2) by (simp_all add: bybit_snapshot_def)
  show "\<exists>v'. bybit_snapshot s' = Ok v' \<and> vw_last_source_sequence v' = om_update_id message
       \<and> (case om_kind message of
            Snapshot \<Rightarrow> vw_bids v' = bybit_levels (om_bids message) \<and> vw_asks v' = bybit_levels (om_asks message)
          | Delta \<Rightarrow> \<exists>v. bybit_snapshot s = Ok v \<and> om_update_id message = vw_last_source_sequence v + 1)"
  proof (cases "om_kind message")
    case Snapshot
    then have new: "l2_from_snapshot (bybit_snap message) c = Ok b" using b(3) run(2) by (simp add: message_book_def)
    have snap: "snapshot_typed (bybit_snap message)" using bybit_values(1) [OF typed] by (simp add: snapshot_value_def)
    note eq = l2_from_snapshot_Ok [OF new snap]
    have "map entry_level (map level_entry levels) = levels" for levels
      by (induction levels) (simp_all add: entry_level_def level_entry_def level_value_def)
    then show ?thesis using v' eq(2-4) Snapshot by (simp add: bids_descending_def asks_ascending_def del: map_map)
  next
    case Delta
    then have new: "delta_applies (bb_engine s) (bybit_delta message) None None b" using b(3) by (simp add: message_book_def)
    then obtain b0 where b0: "en_state (bb_engine s) = Synchronized" "en_book (bb_engine s) = Some b0"
      "om_update_id message = l2_sequence b0 + 1" "l2_sequence b = om_update_id message"
      using run(2,4) by (auto simp: delta_applies_def continues_def l2_apply_delta_Ok_iff)
    obtain v where "engine_snapshot (bb_engine s) = Ok v" "vw_last_source_sequence v = l2_sequence b0"
      by (rule engine_readable [OF run(1) b0(1)]) (use b0(2) in auto)
    then show ?thesis using v' b0 Delta by (simp add: bybit_snapshot_def)
  qed
qed

text \<open>Without a strategy no message makes a view readable.\<close>

lemma bybit_closed:
  assumes "list_all (\<lambda>(m, _). bybit_typed m) messages" "engine_wf (bb_engine s)" "en_strategy (bb_engine s) = None"
  shows "bybit_snapshot (foldl (\<lambda>t (m, n). fst (bybit_apply_message m n t)) s messages) = Err Untrusted"
  using assms
proof (induction messages arbitrary: s)
  case Nil
  then have "en_state (bb_engine s) \<noteq> Synchronized" by (auto simp: engine_wf_def state_wf_def)
  then show ?case by (simp add: bybit_snapshot_def engine_snapshot_def snapshot_at_def)
next
  case (Cons mn messages)
  obtain m n where mn: "mn = (m, n)" by force
  let ?s = "fst (bybit_apply_message m n s)"
  have typed: "bybit_typed m" using Cons.prems(1) by (simp add: mn)
  have "engine_step\<^sup>*\<^sup>* (bb_engine s) (bb_engine ?s)" by (rule bybit_step_engine [OF bybit_applies [OF typed]])
  then have "engine_wf (bb_engine ?s)"
    using Cons.prems(2) by (induction rule: rtranclp_induct) (auto dest: engine_step_wf)
  moreover have "en_strategy (bb_engine ?s) = None"
  proof (cases rule: bybit_apply_cases [of m n s])
    case (called session)
    have "keeps_identity (bb_engine s) (fst (bybit_engine_call m session n (bb_engine s)))"
      using bybit_call_left [OF Cons.prems(2) _ typed, of session n] Cons.prems(3) by (simp add: book_left_def)
    then show ?thesis using Cons.prems(3) by (simp add: called(3) keeps_identity_def)
  qed (use Cons.prems(3) in \<open>simp_all add: bybit_disconnect_def disconnect_def\<close>)
  ultimately show ?case using Cons.IH Cons.prems(1) by (simp add: mn)
qed

subsection \<open>Properties\<close>

text \<open>
  C12. Bybit messages are applied in order. A view can be read only while the cross sequence of the
  last applied message is known. An applied message is not older than that one; an applied delta
  carries the next update number of the view it was applied to, and an applied snapshot is shown as
  it was sent. A message with an older cross sequence ends the session: no view can be read again,
  whatever messages follow, until a new session is started.
\<close>

theorem bybit_applies_in_order:
  assumes "bybit_try_new market c = Ok s0" "bybit_step\<^sup>*\<^sup>* s0 s" "bybit_typed message"
    and "bybit_apply_message message now s = (s', r)"
  shows "(\<forall>v. bybit_snapshot s' = Ok v \<longrightarrow> bb_last_cross_sequence s' \<noteq> None)
    \<and> (r = Ok ApplyResult.Applied \<longrightarrow>
        bb_last_cross_sequence s' = Some (om_cross_sequence message)
        \<and> (\<forall>previous. bb_last_cross_sequence s = Some previous \<longrightarrow> previous \<le> om_cross_sequence message)
        \<and> (\<exists>v'. bybit_snapshot s' = Ok v' \<and> vw_last_source_sequence v' = om_update_id message
             \<and> (case om_kind message of
                  Snapshot \<Rightarrow> vw_bids v' = bybit_levels (om_bids message) \<and> vw_asks v' = bybit_levels (om_asks message)
                | Delta \<Rightarrow> \<exists>v. bybit_snapshot s = Ok v \<and> om_update_id message = vw_last_source_sequence v + 1)))
    \<and> (r = Err CrossSequenceRegression \<longrightarrow> (\<forall>messages. list_all (\<lambda>(m, _). bybit_typed m) messages \<longrightarrow>
         bybit_snapshot (foldl (\<lambda>t (m, n). fst (bybit_apply_message m n t)) s' messages) = Err Untrusted))"
proof -
  have opened: "bybit_opened c s0" using assms(1) by (auto simp: bybit_opened_def)
  note run = bybit_run [OF opened assms(2)]
  have s': "s' = fst (bybit_apply_message message now s)" using assms(4) by simp
  have run': "bybit_step\<^sup>*\<^sup>* s0 s'" unfolding s' by (rule rtranclp.rtrancl_into_rtrancl [OF assms(2) bybit_applies [OF assms(3)]])
  note after = bybit_run [OF opened run']
  have "bb_last_cross_sequence s' \<noteq> None" if "bybit_snapshot s' = Ok v" for v
    using bybit.run_view [OF opened run'] that after(3) by (simp add: bybit_snapshot_def ordered_def)
  moreover have "en_strategy (bb_engine s') = None" if "r = Err CrossSequenceRegression"
  proof (cases rule: bybit_apply_cases [of message now s])
    case (called session)
    then show ?thesis using that assms(4) by (cases "snd (bybit_engine_call message session now (bb_engine s))") simp_all
  qed (use that assms(4) in \<open>auto simp: bybit_disconnect_def disconnect_def\<close>)
  ultimately show ?thesis
    using bybit_applied [OF run assms(3) _ after(1)] bybit_closed [OF _ after(1)] assms(4) by blast
qed

text \<open>An example: the first snapshot of a session.\<close>

definition example_bybit :: BookConfig where
  "example_bybit = example_config\<lparr>instrument := (instrument example_config)\<lparr>iid_venue := ''bybit''\<rparr>\<rparr>"

definition example_bybit_new :: BybitBookSynchronizer where
  "example_bybit_new = \<lparr>bb_engine = example_new\<lparr>en_config := example_bybit\<rparr>, bb_market = BybitMarket.Spot,
     bb_symbol = ''BTC-USD'', bb_snapshot_reset_count = 0, bb_last_cross_sequence = None\<rparr>"

definition example_bybit_started :: BybitBookSynchronizer where
  "example_bybit_started = fst (bybit_start_session example_session example_bybit_new)"

definition example_bybit_message :: OrderBookMessage where
  "example_bybit_message = \<lparr>om_market = BybitMarket.Spot, om_symbol = ''BTC-USD'', om_depth = 50, om_kind = Snapshot,
     om_update_id = 7, om_cross_sequence = 30, om_event_time = 1, om_matching_engine_time = 1,
     om_bids = [\<lparr>yl_price = \<lparr>mantissa = 100, scale = 0\<rparr>, yl_quantity = \<lparr>mantissa = 1, scale = 0\<rparr>\<rparr>],
     om_asks = [\<lparr>yl_price = \<lparr>mantissa = 102, scale = 0\<rparr>, yl_quantity = \<lparr>mantissa = 3, scale = 0\<rparr>\<rparr>]\<rparr>"

lemma example_bybit_opened: "bybit_try_new BybitMarket.Spot example_bybit = Ok example_bybit_new"
proof -
  have "config_validate example_bybit"
    using example_engine_new by (simp add: engine_new_def example_bybit_def config_validate_def split: if_splits)
  then have "engine_new example_bybit = Ok (bb_engine example_bybit_new)"
    by (simp add: engine_new_def example_new_def fresh_checksum_status_def fresh_l3_checksum_status_def
        example_bybit_new_def example_bybit_def example_config_def)
  then show ?thesis
    by (simp add: bybit_try_new_def example_bybit_new_def example_bybit_def example_config_def)
qed

lemma example_bybit_typed: "bybit_typed example_bybit_message"
proof -
  have "list_all level_typed (bybit_levels (om_bids example_bybit_message))"
    "list_all level_typed (bybit_levels (om_asks example_bybit_message))"
    by code_simp+
  then show ?thesis by (simp add: bybit_typed_def) (simp add: example_bybit_message_def u64_max_def)
qed

lemma example_bybit_run: "bybit_step\<^sup>*\<^sup>* example_bybit_new example_bybit_started"
  unfolding example_bybit_started_def by (rule r_into_rtranclp) (rule bybit_starts)

lemma example_bybit_fields:
  "bb_market example_bybit_started = BybitMarket.Spot" "bb_symbol example_bybit_started = ''BTC-USD''"
  "bb_last_cross_sequence example_bybit_started = None"
  "en_session (bb_engine example_bybit_started) = Some example_session"
  "en_strategy (bb_engine example_bybit_started) = Some StreamSnapshot"
  "en_state (bb_engine example_bybit_started) = AwaitingSnapshot"
  "en_last_observed_monotonic_ns (bb_engine example_bybit_started) = 0"
  by (simp_all add: example_bybit_started_def bybit_start_eq start_session_def and_do_def reading_def
      validate_new_session_def session_is_valid_def example_session_def example_bybit_new_def example_new_def
      example_bybit_def example_config_def Let_def)

lemma example_bybit_applied:
  "snd (bybit_apply_message example_bybit_message 5 example_bybit_started) = Ok ApplyResult.Applied"
proof -
  have opened: "bybit_opened example_bybit example_bybit_new" using example_bybit_opened by (auto simp: bybit_opened_def)
  note run = bybit_run [OF opened example_bybit_run]
  have kind: "om_kind example_bybit_message = Snapshot" by (simp add: example_bybit_message_def)
  have "is_ok (l2_from_snapshot (bybit_snap example_bybit_message) example_bybit)" by code_simp
  then obtain b where b: "l2_from_snapshot (bybit_snap example_bybit_message) example_bybit = Ok b"
    by (auto simp: is_ok_def split: sum.splits)
  have "snd (apply_snapshot_candidate (bybit_snap example_bybit_message) example_session 5 None None (bb_engine example_bybit_started))
      = Ok ApplyResult.Applied"
    by (rule stream_snapshot_applied(1) [OF run(1) bybit_values(1) [OF example_bybit_typed] example_bybit_fields(5)])
      (use b in \<open>simp_all add: example_bybit_fields run(2)\<close>, simp add: example_bybit_def example_config_def)
  then have applied: "snd (bybit_engine_call example_bybit_message example_session 5 (bb_engine example_bybit_started)) = Ok ApplyResult.Applied"
    by (simp add: bybit_call_eq kind)
  have "om_market example_bybit_message = BybitMarket.Spot" "om_symbol example_bybit_message = ''BTC-USD''"
    by (simp_all add: example_bybit_message_def)
  then show ?thesis using applied
    by (simp add: bybit_apply_message_def example_bybit_fields engine_call_then)
qed

theorem bybit_applies_in_order_witness:
  "bb_last_cross_sequence (fst (bybit_apply_message example_bybit_message 5 example_bybit_started)) = Some 30
   \<and> (\<exists>v. bybit_snapshot (fst (bybit_apply_message example_bybit_message 5 example_bybit_started)) = Ok v
        \<and> vw_last_source_sequence v = 7)"
proof -
  let ?s = "fst (bybit_apply_message example_bybit_message 5 example_bybit_started)"
  have run: "bybit_apply_message example_bybit_message 5 example_bybit_started = (?s, Ok ApplyResult.Applied)"
    using example_bybit_applied by (simp add: prod_eq_iff)
  have m: "om_cross_sequence example_bybit_message = 30" "om_update_id example_bybit_message = 7"
    by (simp_all add: example_bybit_message_def)
  show ?thesis
    using bybit_applies_in_order [OF example_bybit_opened example_bybit_run example_bybit_typed run] unfolding m by auto
qed

end
