(* ===== verification/Two_Phase.thy ===== *)
theory Two_Phase
  imports Prelude
begin

text \<open>
  State machines that change in two phases, as the source-health and the connector-lifecycle tracker
  do: \<open>prepare\<close> computes a transition without changing anything, so that the caller can make it
  durable first, and \<open>commit\<close> installs a prepared transition if the tracker has not moved since. The
  locale states the contract of both methods and shows that the committed events form one gapless
  history, even if transitions are prepared on any tracker, kept for any time and committed in any
  order.
\<close>

text \<open>
  A tracker and the events committed to it. The prepared transition may come from any tracker that
  was ever reached.
\<close>

inductive lineage :: "('t \<Rightarrow> 'r \<Rightarrow> ('p, 'e) result) \<Rightarrow> ('p \<Rightarrow> 't \<Rightarrow> 't \<times> (unit, 'e) result) \<Rightarrow> ('p \<Rightarrow> 'ev) \<Rightarrow>
    ('t \<Rightarrow> bool) \<Rightarrow> 't \<Rightarrow> 'ev list \<Rightarrow> bool"
  for prepare commit event initial where
  lineage_new: "initial t \<Longrightarrow> lineage prepare commit event initial t []"
| lineage_commit: "lineage prepare commit event initial t events \<Longrightarrow> lineage prepare commit event initial t0 events0 \<Longrightarrow>
    prepare t0 r = Ok p \<Longrightarrow> commit p t = (t', Ok u) \<Longrightarrow> lineage prepare commit event initial t' (events @ [event p])"

text \<open>Events numbered from one, each starting where the one before ended.\<close>

definition consecutive :: "('ev \<Rightarrow> nat) \<Rightarrow> ('ev \<Rightarrow> 's) \<Rightarrow> ('ev \<Rightarrow> 's) \<Rightarrow> 's \<Rightarrow> 'ev list \<Rightarrow> bool" where
  "consecutive number source target start events \<longleftrightarrow>
     (\<forall>i < length events. number (events ! i) = Suc i
        \<and> source (events ! i) = (if i = 0 then start else target (events ! (i - 1))))"

lemma consecutive_snoc:
  "consecutive number source target start (events @ [e]) \<longleftrightarrow>
     consecutive number source target start events \<and> number e = Suc (length events)
     \<and> source e = (if events = [] then start else target (last events))"
proof -
  let ?ok = "\<lambda>es i. number (es ! i) = Suc i \<and> source (es ! i) = (if i = 0 then start else target (es ! (i - 1)))"
  have old: "?ok (events @ [e]) i \<longleftrightarrow> ?ok events i" if "i < length events" for i
    using that by (simp add: nth_append less_imp_diff_less)
  have new: "?ok (events @ [e]) (length events) \<longleftrightarrow>
      number e = Suc (length events) \<and> source e = (if events = [] then start else target (last events))"
    by (simp add: nth_append last_conv_nth)
  have "consecutive number source target start (events @ [e]) \<longleftrightarrow>
      ?ok (events @ [e]) (length events) \<and> (\<forall>i < length events. ?ok (events @ [e]) i)"
    unfolding consecutive_def length_append_singleton All_less_Suc by blast
  also have "(\<forall>i < length events. ?ok (events @ [e]) i) \<longleftrightarrow> consecutive number source target start events"
    unfolding consecutive_def using old by blast
  finally show ?thesis using new by blast
qed

locale two_phase_tracker =
  fixes prepare :: "'t \<Rightarrow> 'r \<Rightarrow> ('p, 'e) result"
    and commit :: "'p \<Rightarrow> 't \<Rightarrow> 't \<times> (unit, 'e) result"
    and event :: "'p \<Rightarrow> 'ev"
    and initial :: "'t \<Rightarrow> bool"
    and start :: 's
    and owner :: "'t \<Rightarrow> 'k"
    and owner_of :: "'ev \<Rightarrow> 'k"
    and state :: "'t \<Rightarrow> 's"
    and source :: "'ev \<Rightarrow> 's"
    and target :: "'ev \<Rightarrow> 's"
    and next_number :: "'t \<Rightarrow> nat"
    and number :: "'ev \<Rightarrow> nat"
    and allowed :: "'ev \<Rightarrow> bool"
  assumes initial_state: "initial t \<Longrightarrow> state t = start \<and> next_number t = 1"
    and prepare_allowed: "prepare t r = Ok p \<Longrightarrow> allowed (event p)"
    and prepare_commits: "prepare t r = Ok p \<Longrightarrow> snd (commit p t) = Ok ()"
    and commit_refused: "commit p t = (t', Err e) \<Longrightarrow> t' = t"
    and commit_matches: "prepare t0 r = Ok p \<Longrightarrow> commit p t = (t', Ok u) \<Longrightarrow>
      owner_of (event p) = owner t \<and> source (event p) = state t \<and> number (event p) = next_number t"
    and commit_moves: "prepare t0 r = Ok p \<Longrightarrow> commit p t = (t', Ok u) \<Longrightarrow>
      owner t' = owner t \<and> state t' = target (event p) \<and> next_number t' = Suc (number (event p)) \<and> next_number t' \<le> u64_max"
begin

lemma lineage_gapless:
  assumes "lineage prepare commit event initial t events"
  shows "consecutive number source target start events" "list_all allowed events"
    "list_all (\<lambda>e. owner_of e = owner t) events" "next_number t = Suc (length events)"
    "state t = (if events = [] then start else target (last events))"
proof -
  have "consecutive number source target start events \<and> list_all allowed events
    \<and> list_all (\<lambda>e. owner_of e = owner t) events \<and> next_number t = Suc (length events)
    \<and> state t = (if events = [] then start else target (last events))"
    using assms
  proof (induction rule: lineage.induct)
    case (lineage_new t)
    then show ?case using initial_state by (simp add: consecutive_def)
  next
    case (lineage_commit t events t0 events0 r p t' u)
    note moved = commit_matches [OF lineage_commit(3,4)] commit_moves [OF lineage_commit(3,4)] prepare_allowed [OF lineage_commit(3)]
    show ?case using lineage_commit(5) moved by (simp add: consecutive_snoc)
  qed
  then show "consecutive number source target start events" "list_all allowed events"
    "list_all (\<lambda>e. owner_of e = owner t) events" "next_number t = Suc (length events)"
    "state t = (if events = [] then start else target (last events))"
    by blast+
qed

text \<open>A prepared transition can be committed once: afterwards its number is taken.\<close>

lemma commit_once:
  assumes "prepare t0 r = Ok p" "commit p t = (t', Ok u)"
  shows "\<exists>e. commit p t' = (t', Err e)"
proof -
  obtain t2 res where second: "commit p t' = (t2, res)" by force
  show ?thesis
  proof (cases res)
    case (Inl e)
    then show ?thesis using second commit_refused by blast
  next
    case (Inr u')
    then have "number (event p) = next_number t'" using commit_matches [OF assms(1)] second by blast
    then show ?thesis using commit_moves [OF assms] by (metis n_not_Suc_n)
  qed
qed

end

text \<open>Trackers that also order their events by time.\<close>

locale timed_tracker =
  two_phase_tracker prepare commit event initial start owner owner_of state source target next_number number allowed
  for prepare :: "'t \<Rightarrow> 'r \<Rightarrow> ('p, 'e) result"
    and commit :: "'p \<Rightarrow> 't \<Rightarrow> 't \<times> (unit, 'e) result"
    and event :: "'p \<Rightarrow> 'ev"
    and initial :: "'t \<Rightarrow> bool"
    and start :: 's
    and owner :: "'t \<Rightarrow> 'k"
    and owner_of :: "'ev \<Rightarrow> 'k"
    and state :: "'t \<Rightarrow> 's"
    and source :: "'ev \<Rightarrow> 's"
    and target :: "'ev \<Rightarrow> 's"
    and next_number :: "'t \<Rightarrow> nat"
    and number :: "'ev \<Rightarrow> nat"
    and allowed :: "'ev \<Rightarrow> bool" +
  fixes last_time :: "'t \<Rightarrow> int option"
    and time :: "'ev \<Rightarrow> int"
  assumes initial_time: "initial t \<Longrightarrow> last_time t = None"
    and commit_time: "prepare t0 r = Ok p \<Longrightarrow> commit p t = (t', Ok u) \<Longrightarrow>
      last_time t' = Some (time (event p)) \<and> (\<forall>previous. last_time t = Some previous \<longrightarrow> previous < time (event p))"
begin

lemma lineage_times:
  assumes "lineage prepare commit event initial t events"
  shows "sorted_wrt (<) (map time events)" "last_time t = (if events = [] then None else Some (time (last events)))"
proof -
  have "sorted_wrt (<) (map time events) \<and> last_time t = (if events = [] then None else Some (time (last events)))"
    using assms
  proof (induction rule: lineage.induct)
    case (lineage_commit t events t0 events0 r p t' u)
    note moved = commit_time [OF lineage_commit(3,4)]
    have "\<forall>x \<in> set events. time x < time (event p)" if ne: "events \<noteq> []"
    proof -
      obtain xs y where events: "events = xs @ [y]" using ne by (cases events rule: rev_cases) auto
      have "time y < time (event p)" using lineage_commit(5) moved by (simp add: events)
      moreover have "\<forall>x \<in> set xs. time x < time y" using lineage_commit(5) by (auto simp: events sorted_wrt_append)
      ultimately show ?thesis by (auto simp: events)
    qed
    then show ?case using lineage_commit(5) moved by (cases "events = []") (simp_all add: sorted_wrt_append)
  qed (simp add: initial_time)
  then show "sorted_wrt (<) (map time events)" "last_time t = (if events = [] then None else Some (time (last events)))"
    by blast+
qed

end

end
