(* ===== verification/Connector_Lifecycle.thy ===== *)
theory Connector_Lifecycle
  imports Domain Two_Phase
begin

text \<open>
  \<open>connector-core/src/lifecycle.rs\<close>: the lifecycle of one connector. It has the two phases of the
  source-health tracker with other states and causes; the properties say which path a connector takes
  to the healthy state.
\<close>

subsection \<open>States, causes and events\<close>

datatype ConnectorState =
    Stopped
  | Connecting
  | AuthenticatingOrSubscribing
  | Synchronizing
  | Healthy
  | Degraded
  | BackingOff
  | Recovering
  | Quarantined

datatype LifecycleCause =
    Startup
  | SubscriptionAccepted
  | SynchronizationNotRequired
  | ResynchronizationStarted
  | SnapshotApplied
  | SourceRecovered
  | SourceStale
  | SequenceGap
  | CapacityRejected
  | RecoverableDisconnect
  | BackoffElapsed
  | SupervisorCommand
  | SchemaViolation
  | Shutdown

datatype LifecycleError =
    InvalidTransition ConnectorState ConnectorState
  | IncompatibleCause
  | SequenceExhausted

record LifecycleEvent =
  le_source :: SourceId
  le_connection_epoch :: nat
  le_sequence :: nat
  le_observed_at :: UnixNanos
  le_from :: ConnectorState
  le_to :: ConnectorState
  le_cause :: LifecycleCause

record LifecycleTracker =
  lt_source :: SourceId
  lt_connection_epoch :: nat
  lt_state :: ConnectorState
  lt_next_sequence :: nat

record PreparedLifecycleTransition =
  pl_event :: LifecycleEvent
  pl_next_sequence :: nat

definition connector_valid_transition :: "ConnectorState \<Rightarrow> ConnectorState \<Rightarrow> bool" where
  "connector_valid_transition from to =
     (if from = to \<or> from = Stopped \<and> to \<noteq> Connecting then False
      else if to = Stopped then from \<noteq> Stopped
      else if to = Quarantined then from \<noteq> Stopped \<and> from \<noteq> Quarantined
      else case from of
             Stopped \<Rightarrow> to = Connecting
           | Connecting \<Rightarrow> to \<in> {AuthenticatingOrSubscribing, BackingOff}
           | AuthenticatingOrSubscribing \<Rightarrow> to \<in> {Synchronizing, BackingOff}
           | Synchronizing \<Rightarrow> to \<in> {Healthy, Degraded, BackingOff, Recovering}
           | Healthy \<Rightarrow> to \<in> {Degraded, Recovering, BackingOff}
           | Degraded \<Rightarrow> to \<in> {Healthy, Recovering, BackingOff}
           | BackingOff \<Rightarrow> to = Connecting
           | Recovering \<Rightarrow> to \<in> {Synchronizing, BackingOff}
           | Quarantined \<Rightarrow> to = Recovering)"

definition connector_valid_cause :: "ConnectorState \<Rightarrow> ConnectorState \<Rightarrow> LifecycleCause \<Rightarrow> bool" where
  "connector_valid_cause from to cause =
     (case cause of
        Startup \<Rightarrow> from = Stopped \<and> to = Connecting
      | SubscriptionAccepted \<Rightarrow>
          (from, to) \<in> {(Connecting, AuthenticatingOrSubscribing), (AuthenticatingOrSubscribing, Synchronizing)}
      | SynchronizationNotRequired \<Rightarrow> from = Synchronizing \<and> to = Healthy
      | ResynchronizationStarted \<Rightarrow> from = Recovering \<and> to = Synchronizing
      | SnapshotApplied \<Rightarrow> from = Synchronizing \<and> to = Healthy
      | SourceRecovered \<Rightarrow> from = Degraded \<and> to = Healthy
      | SourceStale \<Rightarrow> to = Degraded
      | SequenceGap \<Rightarrow> to = Recovering
      | CapacityRejected \<Rightarrow> to \<in> {BackingOff, Recovering}
      | RecoverableDisconnect \<Rightarrow> to = BackingOff
      | BackoffElapsed \<Rightarrow> from = BackingOff \<and> to = Connecting
      | SupervisorCommand \<Rightarrow> to \<in> {Connecting, Recovering, Quarantined}
      | SchemaViolation \<Rightarrow> to \<in> {Degraded, BackingOff, Quarantined}
      | Shutdown \<Rightarrow> to = Stopped)"

definition connector_transition_to :: "ConnectorState \<Rightarrow> ConnectorState \<Rightarrow> (ConnectorState, LifecycleError) result" where
  "connector_transition_to from to =
     (if connector_valid_transition from to then Ok to else Err (InvalidTransition from to))"

subsection \<open>The tracker\<close>

definition lifecycle_new :: "SourceId \<Rightarrow> nat \<Rightarrow> LifecycleTracker" where
  "lifecycle_new source connection_epoch =
     \<lparr>lt_source = source, lt_connection_epoch = connection_epoch, lt_state = Stopped, lt_next_sequence = 1\<rparr>"

definition lifecycle_prepare :: "ConnectorState \<Rightarrow> LifecycleCause \<Rightarrow> UnixNanos \<Rightarrow> LifecycleTracker \<Rightarrow>
    (PreparedLifecycleTransition, LifecycleError) result" where
  "lifecycle_prepare to cause observed_at t =
     and_then (connector_transition_to (lt_state t) to) (\<lambda>_.
       if \<not> connector_valid_cause (lt_state t) to cause then Err IncompatibleCause
       else and_then (ok_or (checked_add u64_max (lt_next_sequence t) 1) SequenceExhausted) (\<lambda>next_sequence.
         Ok \<lparr>pl_event = \<lparr>le_source = lt_source t, le_connection_epoch = lt_connection_epoch t,
               le_sequence = lt_next_sequence t, le_observed_at = observed_at, le_from = lt_state t, le_to = to,
               le_cause = cause\<rparr>,
             pl_next_sequence = next_sequence\<rparr>))"

definition lifecycle_commit :: "PreparedLifecycleTransition \<Rightarrow> LifecycleTracker \<Rightarrow>
    LifecycleTracker \<times> (unit, LifecycleError) result" where
  "lifecycle_commit prepared t =
     (let event = pl_event prepared
      in if le_source event \<noteq> lt_source t
            \<or> le_connection_epoch event \<noteq> lt_connection_epoch t
            \<or> le_from event \<noteq> lt_state t
            \<or> le_sequence event \<noteq> lt_next_sequence t
         then (t, Err (InvalidTransition (lt_state t) (le_to event)))
         else (t\<lparr>lt_state := le_to event, lt_next_sequence := pl_next_sequence prepared\<rparr>, Ok ()))"

subsection \<open>The contract\<close>

abbreviation lifecycle_request :: "LifecycleTracker \<Rightarrow> ConnectorState \<times> LifecycleCause \<times> UnixNanos \<Rightarrow>
    (PreparedLifecycleTransition, LifecycleError) result" where
  "lifecycle_request t request \<equiv> (case request of (to, cause, moment) \<Rightarrow> lifecycle_prepare to cause moment t)"

definition lifecycle_initial :: "LifecycleTracker \<Rightarrow> bool" where
  "lifecycle_initial t \<longleftrightarrow> (\<exists>source epoch. t = lifecycle_new source epoch)"

definition lifecycle_legal :: "LifecycleEvent \<Rightarrow> bool" where
  "lifecycle_legal e \<longleftrightarrow> connector_valid_transition (le_from e) (le_to e) \<and> connector_valid_cause (le_from e) (le_to e) (le_cause e)"

lemma lifecycle_prepare_Ok_iff:
  "lifecycle_prepare to cause moment t = Ok p \<longleftrightarrow>
     connector_valid_transition (lt_state t) to \<and> connector_valid_cause (lt_state t) to cause \<and> lt_next_sequence t < u64_max
     \<and> p = \<lparr>pl_event = \<lparr>le_source = lt_source t, le_connection_epoch = lt_connection_epoch t,
              le_sequence = lt_next_sequence t, le_observed_at = moment, le_from = lt_state t, le_to = to, le_cause = cause\<rparr>,
            pl_next_sequence = Suc (lt_next_sequence t)\<rparr>"
  by (auto simp: lifecycle_prepare_def connector_transition_to_def ok_or_def checked_add_def result_simps
      split: option.splits if_splits)

lemma lifecycle_commit_Ok_iff:
  "lifecycle_commit p t = (t', Ok u) \<longleftrightarrow>
     le_source (pl_event p) = lt_source t \<and> le_connection_epoch (pl_event p) = lt_connection_epoch t
     \<and> le_from (pl_event p) = lt_state t \<and> le_sequence (pl_event p) = lt_next_sequence t
     \<and> t' = t\<lparr>lt_state := le_to (pl_event p), lt_next_sequence := pl_next_sequence p\<rparr>"
  by (auto simp: lifecycle_commit_def Let_def split: if_splits)

interpretation lifecycle: two_phase_tracker lifecycle_request lifecycle_commit pl_event lifecycle_initial Stopped
  "\<lambda>t. (lt_source t, lt_connection_epoch t)" "\<lambda>e. (le_source e, le_connection_epoch e)" lt_state le_from le_to
  lt_next_sequence le_sequence lifecycle_legal
proof unfold_locales
  fix t r p assume "lifecycle_request t r = Ok p"
  then show "lifecycle_legal (pl_event p)" and "snd (lifecycle_commit p t) = Ok ()"
    by (auto simp: lifecycle_prepare_Ok_iff lifecycle_legal_def lifecycle_commit_def Let_def split: prod.splits)
next
  fix t0 r p t t' u assume "lifecycle_request t0 r = Ok p" "lifecycle_commit p t = (t', Ok u)"
  then show "(lt_source t', lt_connection_epoch t') = (lt_source t, lt_connection_epoch t) \<and> lt_state t' = le_to (pl_event p)
      \<and> lt_next_sequence t' = Suc (le_sequence (pl_event p)) \<and> lt_next_sequence t' \<le> u64_max"
    by (auto simp: lifecycle_prepare_Ok_iff lifecycle_commit_Ok_iff split: prod.splits)
qed (auto simp: lifecycle_initial_def lifecycle_new_def lifecycle_commit_Ok_iff lifecycle_commit_def Let_def split: if_splits)

subsection \<open>The way to the healthy state\<close>

text \<open>States in which the connector does not deliver data it has synchronized.\<close>

definition offline :: "ConnectorState \<Rightarrow> bool" where
  "offline state \<longleftrightarrow> state \<notin> {Healthy, Degraded, Synchronizing}"

lemma legal_facts:
  assumes "lifecycle_legal e"
  shows "offline (le_from e) \<Longrightarrow> offline (le_to e) \<or> le_to e = Synchronizing"
    "le_to e = Healthy \<Longrightarrow> le_from e = Synchronizing \<and> le_cause e \<in> {SnapshotApplied, SynchronizationNotRequired}
       \<or> le_from e = Degraded \<and> le_cause e = SourceRecovered"
    "le_from e = Stopped \<Longrightarrow> le_to e = Connecting \<and> le_cause e \<in> {Startup, SupervisorCommand}"
  using assms unfolding lifecycle_legal_def
  by (cases "le_from e"; cases "le_cause e";
      auto simp: connector_valid_transition_def connector_valid_cause_def offline_def split: if_splits)+

lemma synchronizing_between:
  assumes chain: "consecutive le_sequence le_from le_to start events" and legal: "list_all lifecycle_legal events"
    and "i < j" "j < length events" "offline (le_to (events ! i))" "\<not> offline (le_to (events ! j))"
  shows "\<exists>k. i < k \<and> k \<le> j \<and> le_to (events ! k) = Synchronizing"
  using assms(3-6)
proof (induction j)
  case (Suc j)
  have step: "le_from (events ! Suc j) = le_to (events ! j)" using chain Suc.prems(2) by (simp add: consecutive_def)
  have ok: "lifecycle_legal (events ! Suc j)" using legal Suc.prems(2) by (simp add: list_all_length)
  show ?case
  proof (cases "offline (le_to (events ! j))")
    case True
    then have "le_to (events ! Suc j) = Synchronizing" using legal_facts(1) [OF ok] step Suc.prems(4) by simp
    then show ?thesis using Suc.prems(1) by blast
  next
    case False
    then have "i < j" using Suc.prems(1,3) by (cases "i = j") simp_all
    then obtain k where "i < k \<and> k \<le> j \<and> le_to (events ! k) = Synchronizing"
      using Suc.IH Suc.prems(2,3) False by auto
    then show ?thesis by (intro exI [of _ k]) simp
  qed
qed simp

subsection \<open>Properties\<close>

text \<open>
  C17. The lifecycle events of a connector form one gapless history from the stopped state, whatever
  transitions were prepared and in whatever order they were committed. A stopped connector only
  starts connecting; a connector becomes healthy only from synchronizing, after a snapshot or where
  none is needed, or from degraded when its source recovered; and after it was stopped, backing off,
  recovering or quarantined it is not healthy or degraded again before it synchronized.
\<close>

theorem connector_lineage:
  assumes "lineage lifecycle_request lifecycle_commit pl_event lifecycle_initial t events"
  shows "consecutive le_sequence le_from le_to Stopped events
    \<and> (\<forall>e \<in> set events. le_source e = lt_source t \<and> le_connection_epoch e = lt_connection_epoch t)
    \<and> lt_state t = (if events = [] then Stopped else le_to (last events))
    \<and> (\<forall>e \<in> set events.
         (le_from e = Stopped \<longrightarrow> le_to e = Connecting)
         \<and> (le_to e = Healthy \<longrightarrow> le_from e = Synchronizing \<and> le_cause e \<in> {SnapshotApplied, SynchronizationNotRequired}
              \<or> le_from e = Degraded \<and> le_cause e = SourceRecovered))
    \<and> (\<forall>i j. i < j \<and> j < length events \<and> offline (le_to (events ! i)) \<and> le_to (events ! j) \<in> {Healthy, Degraded} \<longrightarrow>
         (\<exists>k. i < k \<and> k < j \<and> le_to (events ! k) = Synchronizing))"
proof -
  note facts = lifecycle.lineage_gapless [OF assms]
  have owned: "\<forall>e \<in> set events. le_source e = lt_source t \<and> le_connection_epoch e = lt_connection_epoch t"
    using facts(3) by (simp add: list_all_iff)
  have causes: "(le_from e = Stopped \<longrightarrow> le_to e = Connecting)
      \<and> (le_to e = Healthy \<longrightarrow> le_from e = Synchronizing \<and> le_cause e \<in> {SnapshotApplied, SynchronizationNotRequired}
           \<or> le_from e = Degraded \<and> le_cause e = SourceRecovered)" if "e \<in> set events" for e
    using legal_facts(2,3) [of e] facts(2) that unfolding list_all_iff by blast
  have between: "\<exists>k. i < k \<and> k < j \<and> le_to (events ! k) = Synchronizing"
    if h: "i < j \<and> j < length events \<and> offline (le_to (events ! i)) \<and> le_to (events ! j) \<in> {Healthy, Degraded}" for i j
  proof -
    have "\<exists>k. i < k \<and> k \<le> j \<and> le_to (events ! k) = Synchronizing"
      by (rule synchronizing_between [OF facts(1,2)]) (use h in \<open>auto simp: offline_def\<close>)
    then obtain k where k: "i < k" "k \<le> j" "le_to (events ! k) = Synchronizing" by blast
    moreover have "k \<noteq> j" using k(3) h by auto
    ultimately show ?thesis using le_neq_implies_less by blast
  qed
  show ?thesis using facts(1,5) owned causes between by blast
qed

text \<open>An example: a connector starts, synchronizes and finds a gap.\<close>

definition example_connector :: SourceId where
  "example_connector = \<lparr>sid_kind = Exchange, sid_name = ''kraken'', sid_generation = 1\<rparr>"

lemma example_starts:
  "\<exists>p t'. lifecycle_prepare Connecting Startup 5 (lifecycle_new example_connector 1) = Ok p
     \<and> lifecycle_commit p (lifecycle_new example_connector 1) = (t', Ok ()) \<and> lt_state t' = Connecting \<and> le_sequence (pl_event p) = 1"
  by (simp add: lifecycle_prepare_Ok_iff lifecycle_commit_Ok_iff lifecycle_new_def connector_valid_transition_def
      connector_valid_cause_def u64_max_def)

theorem connector_lineage_witness:
  "\<exists>t events. lineage lifecycle_request lifecycle_commit pl_event lifecycle_initial t events \<and> lt_state t = Connecting
     \<and> length events = 1 \<and> consecutive le_sequence le_from le_to Stopped events"
proof -
  let ?t = "lifecycle_new example_connector 1"
  obtain p t' where p: "lifecycle_prepare Connecting Startup 5 ?t = Ok p" "lifecycle_commit p ?t = (t', Ok ())" "lt_state t' = Connecting"
    using example_starts by blast
  have new: "lineage lifecycle_request lifecycle_commit pl_event lifecycle_initial ?t []"
    by (rule lineage_new) (auto simp: lifecycle_initial_def)
  have run: "lineage lifecycle_request lifecycle_commit pl_event lifecycle_initial t' ([] @ [pl_event p])"
    by (rule lineage_commit [OF new new _ p(2), of "(Connecting, Startup, 5)"]) (use p(1) in simp)
  show ?thesis
    using connector_lineage [OF run] run p(3) by (intro exI [of _ t'] exI [of _ "[] @ [pl_event p]"]) simp
qed

end
