(* ===== verification/Source_Health.thy ===== *)
theory Source_Health
  imports Domain Two_Phase
begin

text \<open>
  \<open>quality/src/source_health.rs\<close>: the health of one source connection. A transition is prepared with
  its cause and observation time and committed later; the events of a tracker form one history in
  which trust is regained only through a recovery.
\<close>

subsection \<open>States, causes and events\<close>

datatype SourceHealthState = Healthy | Degraded | Unhealthy | Quarantined | Recovering

datatype QualityCause =
    RecoveryVerified
  | FreshnessRestored
  | SourceStale
  | CapacityPressure
  | SequenceIntegrityFailed
  | ChecksumIntegrityFailed
  | SchemaValidityFailed
  | NormalizationFailed
  | RecoveryStarted
  | RetryBudgetExhausted
  | PolicyQuarantine
  | PolicyReleased

datatype QualityError =
    InvalidTransition SourceHealthState SourceHealthState
  | IncompatibleCause
  | InvalidObservationTime
  | NonMonotonicObservationTime
  | StaleTransition
  | SequenceExhausted

record QualityEvent =
  qe_source :: SourceId
  qe_connection_epoch :: nat
  qe_sequence :: nat
  qe_observed_at :: UnixNanos
  qe_from :: SourceHealthState
  qe_to :: SourceHealthState
  qe_cause :: QualityCause

record SourceHealthTracker =
  ht_source :: SourceId
  ht_connection_epoch :: nat
  ht_state :: SourceHealthState
  ht_next_sequence :: nat
  ht_last_observed_at :: "UnixNanos option"

record PreparedQualityTransition =
  pq_event :: QualityEvent
  pq_next_sequence :: nat

definition valid_transition :: "SourceHealthState \<Rightarrow> SourceHealthState \<Rightarrow> bool" where
  "valid_transition from to =
     (case from of
        Recovering \<Rightarrow> to \<in> {Healthy, Degraded, Unhealthy, Quarantined}
      | Healthy \<Rightarrow> to \<in> {Degraded, Unhealthy, Quarantined}
      | Degraded \<Rightarrow> to \<in> {Healthy, Unhealthy, Recovering, Quarantined}
      | Unhealthy \<Rightarrow> to \<in> {Recovering, Quarantined}
      | Quarantined \<Rightarrow> to = Recovering)"

definition valid_cause :: "SourceHealthState \<Rightarrow> SourceHealthState \<Rightarrow> QualityCause \<Rightarrow> bool" where
  "valid_cause from to cause =
     (case cause of
        RecoveryVerified \<Rightarrow> from = Recovering \<and> to = Healthy
      | FreshnessRestored \<Rightarrow> from = Degraded \<and> to = Healthy
      | SourceStale \<Rightarrow> (from, to) \<in> {(Healthy, Degraded), (Recovering, Degraded)}
      | CapacityPressure \<Rightarrow> (from, to) \<in> {(Healthy, Degraded), (Recovering, Degraded)} \<or> to = Unhealthy
      | SequenceIntegrityFailed \<Rightarrow> to = Unhealthy
      | ChecksumIntegrityFailed \<Rightarrow> to = Unhealthy
      | SchemaValidityFailed \<Rightarrow> to = Unhealthy
      | NormalizationFailed \<Rightarrow> to = Unhealthy
      | RecoveryStarted \<Rightarrow> (from, to) \<in> {(Degraded, Recovering), (Unhealthy, Recovering)}
      | RetryBudgetExhausted \<Rightarrow> from \<in> {Degraded, Unhealthy, Recovering} \<and> to = Quarantined
      | PolicyQuarantine \<Rightarrow> to = Quarantined
      | PolicyReleased \<Rightarrow> from = Quarantined \<and> to = Recovering)"

definition is_compatible :: "QualityCause \<Rightarrow> SourceHealthState \<Rightarrow> SourceHealthState \<Rightarrow> bool" where
  "is_compatible cause from to \<longleftrightarrow> valid_transition from to \<and> valid_cause from to cause"

definition transition_to :: "SourceHealthState \<Rightarrow> SourceHealthState \<Rightarrow> (SourceHealthState, QualityError) result" where
  "transition_to from to = (if valid_transition from to then Ok to else Err (InvalidTransition from to))"

subsection \<open>The tracker\<close>

definition health_new :: "SourceId \<Rightarrow> nat \<Rightarrow> SourceHealthTracker" where
  "health_new source connection_epoch =
     \<lparr>ht_source = source, ht_connection_epoch = connection_epoch, ht_state = Recovering, ht_next_sequence = 1,
      ht_last_observed_at = None\<rparr>"

definition ensure_sequence_capacity :: "nat \<Rightarrow> SourceHealthTracker \<Rightarrow> (unit, QualityError) result" where
  "ensure_sequence_capacity additional_events t =
     (if additional_events > u64_max then Err SequenceExhausted
      else and_then (ok_or (checked_add u64_max (ht_next_sequence t) additional_events) SequenceExhausted) (\<lambda>_. Ok ()))"

definition health_prepare :: "SourceHealthState \<Rightarrow> QualityCause \<Rightarrow> UnixNanos \<Rightarrow> SourceHealthTracker \<Rightarrow>
    (PreparedQualityTransition, QualityError) result" where
  "health_prepare to cause observed_at t =
     and_then (transition_to (ht_state t) to) (\<lambda>_.
       if \<not> valid_cause (ht_state t) to cause then Err IncompatibleCause
       else if observed_at \<le> 0 then Err InvalidObservationTime
       else if (case ht_last_observed_at t of None \<Rightarrow> False | Some previous \<Rightarrow> observed_at \<le> previous)
       then Err NonMonotonicObservationTime
       else and_then (ok_or (checked_add u64_max (ht_next_sequence t) 1) SequenceExhausted) (\<lambda>next_sequence.
         Ok \<lparr>pq_event = \<lparr>qe_source = ht_source t, qe_connection_epoch = ht_connection_epoch t,
               qe_sequence = ht_next_sequence t, qe_observed_at = observed_at, qe_from = ht_state t, qe_to = to,
               qe_cause = cause\<rparr>,
             pq_next_sequence = next_sequence\<rparr>))"

definition health_commit :: "PreparedQualityTransition \<Rightarrow> SourceHealthTracker \<Rightarrow>
    SourceHealthTracker \<times> (unit, QualityError) result" where
  "health_commit prepared t =
     (let event = pq_event prepared
      in if qe_source event \<noteq> ht_source t
            \<or> qe_connection_epoch event \<noteq> ht_connection_epoch t
            \<or> qe_from event \<noteq> ht_state t
            \<or> qe_sequence event \<noteq> ht_next_sequence t
            \<or> (case ht_last_observed_at t of None \<Rightarrow> False | Some previous \<Rightarrow> qe_observed_at event \<le> previous)
         then (t, Err StaleTransition)
         else (t\<lparr>ht_state := qe_to event, ht_next_sequence := pq_next_sequence prepared,
                 ht_last_observed_at := Some (qe_observed_at event)\<rparr>, Ok ()))"

subsection \<open>The contract\<close>

abbreviation health_request :: "SourceHealthTracker \<Rightarrow> SourceHealthState \<times> QualityCause \<times> UnixNanos \<Rightarrow>
    (PreparedQualityTransition, QualityError) result" where
  "health_request t request \<equiv> (case request of (to, cause, moment) \<Rightarrow> health_prepare to cause moment t)"

definition health_initial :: "SourceHealthTracker \<Rightarrow> bool" where
  "health_initial t \<longleftrightarrow> (\<exists>source epoch. t = health_new source epoch)"

lemma health_prepare_Ok_iff:
  "health_prepare to cause moment t = Ok p \<longleftrightarrow>
     is_compatible cause (ht_state t) to \<and> 0 < moment \<and> ht_next_sequence t < u64_max
     \<and> (\<forall>previous. ht_last_observed_at t = Some previous \<longrightarrow> previous < moment)
     \<and> p = \<lparr>pq_event = \<lparr>qe_source = ht_source t, qe_connection_epoch = ht_connection_epoch t,
              qe_sequence = ht_next_sequence t, qe_observed_at = moment, qe_from = ht_state t, qe_to = to, qe_cause = cause\<rparr>,
            pq_next_sequence = Suc (ht_next_sequence t)\<rparr>"
  by (auto simp: health_prepare_def transition_to_def is_compatible_def ok_or_def checked_add_def result_simps
      split: option.splits if_splits)

lemma health_commit_Ok_iff:
  "health_commit p t = (t', Ok u) \<longleftrightarrow>
     qe_source (pq_event p) = ht_source t \<and> qe_connection_epoch (pq_event p) = ht_connection_epoch t
     \<and> qe_from (pq_event p) = ht_state t \<and> qe_sequence (pq_event p) = ht_next_sequence t
     \<and> (\<forall>previous. ht_last_observed_at t = Some previous \<longrightarrow> previous < qe_observed_at (pq_event p))
     \<and> t' = t\<lparr>ht_state := qe_to (pq_event p), ht_next_sequence := pq_next_sequence p,
             ht_last_observed_at := Some (qe_observed_at (pq_event p))\<rparr>"
  by (auto simp: health_commit_def Let_def not_le split: option.splits if_splits)

interpretation health: timed_tracker health_request health_commit pq_event health_initial Recovering
  "\<lambda>t. (ht_source t, ht_connection_epoch t)" "\<lambda>e. (qe_source e, qe_connection_epoch e)" ht_state qe_from qe_to
  ht_next_sequence qe_sequence "\<lambda>e. is_compatible (qe_cause e) (qe_from e) (qe_to e) \<and> 0 < qe_observed_at e"
  ht_last_observed_at qe_observed_at
proof unfold_locales
  fix t r p assume "health_request t r = Ok p"
  then show "is_compatible (qe_cause (pq_event p)) (qe_from (pq_event p)) (qe_to (pq_event p)) \<and> 0 < qe_observed_at (pq_event p)"
    and "snd (health_commit p t) = Ok ()"
    by (auto simp: health_prepare_Ok_iff health_commit_def Let_def not_le split: prod.splits option.splits)
next
  fix t0 r p t t' u assume "health_request t0 r = Ok p" "health_commit p t = (t', Ok u)"
  then show "(ht_source t', ht_connection_epoch t') = (ht_source t, ht_connection_epoch t) \<and> ht_state t' = qe_to (pq_event p)
      \<and> ht_next_sequence t' = Suc (qe_sequence (pq_event p)) \<and> ht_next_sequence t' \<le> u64_max"
    by (auto simp: health_prepare_Ok_iff health_commit_Ok_iff split: prod.splits)
qed (auto simp: health_initial_def health_new_def health_commit_Ok_iff health_commit_def Let_def split: if_splits)

subsection \<open>Recovery\<close>

definition untrusted :: "SourceHealthState \<Rightarrow> bool" where
  "untrusted state \<longleftrightarrow> state \<in> {Unhealthy, Quarantined}"

lemma compatible_facts:
  assumes "is_compatible cause a b"
  shows "untrusted a \<Longrightarrow> untrusted b \<or> b = Recovering"
    "a = Quarantined \<Longrightarrow> b = Recovering \<and> cause = PolicyReleased"
    "b = Healthy \<Longrightarrow> a = Recovering \<and> cause = RecoveryVerified \<or> a = Degraded \<and> cause = FreshnessRestored"
  using assms
  by (cases a; cases cause; auto simp: is_compatible_def valid_transition_def valid_cause_def untrusted_def)+

text \<open>In a history, an untrusted state is left only into a recovery.\<close>

lemma recovery_between:
  assumes chain: "consecutive number source target start events" and legal: "\<forall>e \<in> set events. is_compatible (cause e) (source e) (target e)"
    and "i < j" "j < length events" "untrusted (target (events ! i))" "\<not> untrusted (target (events ! j))"
  shows "\<exists>k. i < k \<and> k \<le> j \<and> target (events ! k) = Recovering"
  using assms(3-6)
proof (induction j)
  case (Suc j)
  have step: "source (events ! Suc j) = target (events ! j)" using chain Suc.prems(2) by (simp add: consecutive_def)
  have ok: "is_compatible (cause (events ! Suc j)) (source (events ! Suc j)) (target (events ! Suc j))"
    using legal Suc.prems(2) by simp
  show ?case
  proof (cases "untrusted (target (events ! j))")
    case True
    then have "target (events ! Suc j) = Recovering" using compatible_facts(1) [OF ok] step Suc.prems(4) by simp
    then show ?thesis using Suc.prems(1) by blast
  next
    case False
    then have "i < j" using Suc.prems(1,3) by (cases "i = j") simp_all
    then obtain k where "i < k \<and> k \<le> j \<and> target (events ! k) = Recovering"
      using Suc.IH Suc.prems(2,3) False by auto
    then show ?thesis by (intro exI [of _ k]) simp
  qed
qed simp

subsection \<open>Properties\<close>

text \<open>
  C16. The health events of a source connection form one gapless history. Whatever transitions were
  prepared, on this or other trackers, and in whatever order they were committed, the committed
  events are numbered from one, start from recovering, continue each other, move strictly forward in
  time, belong to the tracker's source and connection, and end in its state. A source becomes healthy
  only by a verified recovery or, from degraded, by restored freshness; quarantine ends only by a
  release; and between losing trust and being healthy again there is always a recovery. A transition
  prepared on the tracker can be committed exactly once.
\<close>

theorem quality_lineage:
  assumes "lineage health_request health_commit pq_event health_initial t events"
  shows "consecutive qe_sequence qe_from qe_to Recovering events
    \<and> (\<forall>e \<in> set events. qe_source e = ht_source t \<and> qe_connection_epoch e = ht_connection_epoch t \<and> 0 < qe_observed_at e)
    \<and> sorted_wrt (<) (map qe_observed_at events)
    \<and> ht_state t = (if events = [] then Recovering else qe_to (last events))
    \<and> (\<forall>e \<in> set events.
         (qe_to e = Healthy \<longrightarrow> qe_from e = Recovering \<and> qe_cause e = RecoveryVerified
                              \<or> qe_from e = Degraded \<and> qe_cause e = FreshnessRestored)
         \<and> (qe_from e = Quarantined \<longrightarrow> qe_to e = Recovering \<and> qe_cause e = PolicyReleased))
    \<and> (\<forall>i j. i < j \<and> j < length events \<and> untrusted (qe_to (events ! i)) \<and> qe_to (events ! j) = Healthy \<longrightarrow>
         (\<exists>k. i < k \<and> k < j \<and> qe_to (events ! k) = Recovering))
    \<and> (\<forall>to cause moment p. health_prepare to cause moment t = Ok p \<longrightarrow>
         (\<exists>t' e. health_commit p t = (t', Ok ()) \<and> health_commit p t' = (t', Err e)))"
proof -
  note facts = health.lineage_gapless [OF assms] health.lineage_times [OF assms]
  have legal: "\<forall>e \<in> set events. is_compatible (qe_cause e) (qe_from e) (qe_to e)"
    using facts(2) by (simp add: list_all_iff)
  have between: "\<exists>k. i < k \<and> k < j \<and> qe_to (events ! k) = Recovering"
    if "i < j \<and> j < length events \<and> untrusted (qe_to (events ! i)) \<and> qe_to (events ! j) = Healthy" for i j
  proof -
    have "\<exists>k. i < k \<and> k \<le> j \<and> qe_to (events ! k) = Recovering"
      by (rule recovery_between [OF facts(1) legal]) (use that in \<open>simp_all add: untrusted_def\<close>)
    then show ?thesis using that by (metis SourceHealthState.distinct(7) le_neq_implies_less)
  qed
  have once: "\<exists>t' e. health_commit p t = (t', Ok ()) \<and> health_commit p t' = (t', Err e)"
    if p: "health_prepare to cause moment t = Ok p" for to cause moment p
  proof -
    have req: "health_request t (to, cause, moment) = Ok p" using p by simp
    obtain t' where t': "health_commit p t = (t', Ok ())"
      using health.prepare_commits [OF req] by (metis prod.collapse)
    then show ?thesis using health.commit_once [OF req t'] by blast
  qed
  have causes: "(qe_to e = Healthy \<longrightarrow> qe_from e = Recovering \<and> qe_cause e = RecoveryVerified
                              \<or> qe_from e = Degraded \<and> qe_cause e = FreshnessRestored)
         \<and> (qe_from e = Quarantined \<longrightarrow> qe_to e = Recovering \<and> qe_cause e = PolicyReleased)" if "e \<in> set events" for e
    using compatible_facts(2,3) [of "qe_cause e" "qe_from e" "qe_to e"] legal that by blast
  have owned: "\<forall>e \<in> set events. qe_source e = ht_source t \<and> qe_connection_epoch e = ht_connection_epoch t \<and> 0 < qe_observed_at e"
    using facts(2,3) by (simp add: list_all_iff)
  show ?thesis using facts(1,5,6) owned causes between once by blast
qed

definition example_source :: SourceId where
  "example_source = \<lparr>sid_kind = Exchange, sid_name = ''kraken'', sid_generation = 1\<rparr>"

text \<open>An example: a source is verified, found corrupt and recovers.\<close>

definition example_transitions :: "(SourceHealthState \<times> QualityCause \<times> UnixNanos) list" where
  "example_transitions = [(Healthy, RecoveryVerified, 10), (Unhealthy, ChecksumIntegrityFailed, 20),
     (Recovering, RecoveryStarted, 30), (Healthy, RecoveryVerified, 40)]"

fun commit_all :: "(SourceHealthState \<times> QualityCause \<times> UnixNanos) list \<Rightarrow> SourceHealthTracker \<Rightarrow> QualityEvent list \<Rightarrow>
    (SourceHealthTracker \<times> QualityEvent list) option" where
  "commit_all [] t events = Some (t, events)"
| "commit_all (r # rs) t events =
     (case health_request t r of
        Inl _ \<Rightarrow> None
      | Inr p \<Rightarrow> (case health_commit p t of (_, Inl _) \<Rightarrow> None | (t', Inr _) \<Rightarrow> commit_all rs t' (events @ [pq_event p])))"

lemma commit_all_lineage:
  "lineage health_request health_commit pq_event health_initial t events \<Longrightarrow> commit_all rs t events = Some (t', events') \<Longrightarrow>
     lineage health_request health_commit pq_event health_initial t' events'"
proof (induction rs arbitrary: t events)
  case (Cons r rs)
  obtain p t1 u where step: "health_request t r = Ok p" "health_commit p t = (t1, Ok u)"
    and rest: "commit_all rs t1 (events @ [pq_event p]) = Some (t', events')"
    using Cons.prems(2) by (auto split: sum.splits prod.splits)
  show ?case by (rule Cons.IH [OF lineage_commit [OF Cons.prems(1,1) step] rest])
qed simp

theorem quality_lineage_witness:
  "\<exists>t events. commit_all example_transitions (health_new example_source 1) [] = Some (t, events)
     \<and> ht_state t = Healthy \<and> map qe_sequence events = [1, 2, 3, 4] \<and> sorted_wrt (<) (map qe_observed_at events)"
proof -
  have "\<exists>t events. commit_all example_transitions (health_new example_source 1) [] = Some (t, events)
      \<and> map qe_sequence events = [1, 2, 3, 4] \<and> map qe_to events = [Healthy, Unhealthy, Recovering, Healthy]"
    by (simp add: example_transitions_def health_prepare_def health_commit_def health_new_def transition_to_def
        valid_transition_def valid_cause_def ok_or_def checked_add_def u64_max_def Let_def)
  then obtain t events where run: "commit_all example_transitions (health_new example_source 1) [] = Some (t, events)"
    and events: "map qe_sequence events = [1, 2, 3, 4]" "map qe_to events = [Healthy, Unhealthy, Recovering, Healthy]"
    by (elim exE conjE)
  have "lineage health_request health_commit pq_event health_initial (health_new example_source 1) []"
    by (rule lineage_new) (auto simp: health_initial_def)
  from quality_lineage [OF commit_all_lineage [OF this run]]
  have facts: "sorted_wrt (<) (map qe_observed_at events)" "ht_state t = (if events = [] then Recovering else qe_to (last events))"
    by blast+
  have "events \<noteq> []" "qe_to (last events) = last (map qe_to events)"
    using events(2) by (auto simp: last_map)
  then show ?thesis using run facts events by auto
qed

end
