(* ===== verification/Watermark.thy ===== *)
theory Watermark
  imports Event_Envelope Source_Health
begin

text \<open>
  \<open>feature-engine/src/watermark.rs\<close>: event-time watermarks per source partition and the decision
  whether a time window is final. BLAKE3, which names the policy of a tracker, is a parameter. The
  lemmas show when a window is final, that this is what the frontier says, and that a final window
  never becomes provisional again.
\<close>

subsection \<open>Partitions and windows\<close>

type_synonym PartitionId = string

datatype WatermarkError =
    InvalidPartitionId
  | InvalidTracker
  | DuplicatePartition
  | UnknownPartition
  | InvalidWatermark
  | ArithmeticOverflow
  | InvalidCorrectionTime
  | InvalidCorrectionState
  | Regression UnixNanos UnixNanos

definition partition_byte :: "char \<Rightarrow> bool" where
  "partition_byte byte \<longleftrightarrow>
     is_ascii_lowercase byte \<or> is_ascii_digit byte \<or> byte \<in> {CHR ''.'', CHR ''_'', CHR ''-''}"

definition partition_id_new :: "string \<Rightarrow> (PartitionId, WatermarkError) result" where
  "partition_id_new name =
     (if name \<noteq> [] \<and> length name \<le> 96 \<and> list_all partition_byte name then Ok name else Err InvalidPartitionId)"

record WatermarkKey =
  wk_source :: SourceId
  wk_partition :: PartitionId

definition key_tuple :: "WatermarkKey \<Rightarrow> nat \<times> string \<times> nat \<times> string" where
  "key_tuple k = (source_kind_u8 (sid_kind (wk_source k)), sid_name (wk_source k), sid_generation (wk_source k),
     wk_partition k)"

definition watermark_cmp :: "WatermarkKey \<Rightarrow> WatermarkKey \<Rightarrow> Ordering" where
  "watermark_cmp a b =
     pair_cmp cmp_of (pair_cmp str_cmp (pair_cmp cmp_of str_cmp)) (key_tuple a) (key_tuple b)"

datatype PartitionRole = Required | Optional

record PartitionConfig =
  pc_key :: WatermarkKey
  pc_role :: PartitionRole

record WatermarkUpdate =
  wu_event_time :: UnixNanos
  wu_as_known_at :: UnixNanos
  wu_health :: SourceHealthState

datatype Finalization = Provisional | Final | Invalid

record TimeWindow =
  tw_start :: UnixNanos
  tw_end :: UnixNanos

text \<open>The only error of the constructor is an invalid time window.\<close>

definition time_window_try_new :: "UnixNanos \<Rightarrow> UnixNanos \<Rightarrow> TimeWindow option" where
  "time_window_try_new start finish =
     (if start < 0 \<or> finish \<le> start then None else Some \<lparr>tw_start = start, tw_end = finish\<rparr>)"

record FinalizationDecision =
  fd_window :: TimeWindow
  fd_state :: Finalization
  fd_watermark :: "UnixNanos option"
  fd_as_known_at :: UnixNanos
  fd_entity_digest :: "string option"
  fd_required_source_count :: nat
  fd_required_source_digest :: string
  fd_evaluation_sequence :: nat
  fd_policy_id :: string

record CorrectionDecision =
  cd_window :: TimeWindow
  cd_source :: WatermarkKey
  cd_corrected_event_time :: UnixNanos
  cd_evaluation_sequence :: nat
  cd_policy_id :: string

record PartitionState =
  ps_role :: PartitionRole
  ps_watermark :: "UnixNanos option"
  ps_as_known_at :: "UnixNanos option"
  ps_health :: "SourceHealthState option"

type_synonym partitions = "(WatermarkKey, PartitionState) btree"

record WatermarkTracker =
  wt_partitions :: partitions
  wt_allowed_lateness :: nat
  wt_allowed_health :: "SourceHealthState list"
  wt_update_sequence :: nat
  wt_policy_id :: string
  wt_entity_digest :: "string option"
  wt_required_source_count :: nat
  wt_required_source_digest :: string

subsection \<open>Fingerprints\<close>

text \<open>The bytes written to the hasher; the digest is taken of all of them.\<close>

definition hash_bounded_bytes :: "string \<Rightarrow> string" where
  "hash_bounded_bytes b = to_be_bytes 8 (length b) @ b"

definition hash_source :: "SourceId \<Rightarrow> string" where
  "hash_source source =
     to_be_bytes 1 (source_kind_u8 (sid_kind source)) @ hash_bounded_bytes (sid_name source)
     @ to_be_bytes 4 (sid_generation source)"

definition hash_asset :: "AssetId \<Rightarrow> string" where
  "hash_asset asset =
     to_be_bytes 1 (namespace_u8 (aid_namespace asset)) @ hash_bounded_bytes (aid_chain_id asset)
     @ hash_bounded_bytes (aid_contract_or_mint asset) @ hash_bounded_bytes (aid_canonical_symbol asset)
     @ to_be_bytes 4 (aid_generation asset)"

datatype FeatureEntity =
    Instrument InstrumentId
  | Asset AssetId
  | AssetPair AssetId AssetId
  | AssetSource AssetId SourceId
  | AssetSourcePair AssetId SourceId SourceId
  | Venue VenueId
  | Source SourceId
  | Global

primrec hash_entity :: "FeatureEntity \<Rightarrow> string" where
  "hash_entity (Instrument i) =
     to_be_bytes 1 1 @ hash_bounded_bytes (iid_venue i) @ hash_bounded_bytes (iid_venue_symbol i)
     @ to_be_bytes 1 (product_u8 (iid_product_type i)) @ to_be_bytes 4 (iid_generation i)"
| "hash_entity (Asset asset) = to_be_bytes 1 2 @ hash_asset asset"
| "hash_entity (AssetPair left right) = to_be_bytes 1 6 @ hash_asset left @ hash_asset right"
| "hash_entity (AssetSource asset source) = to_be_bytes 1 7 @ hash_asset asset @ hash_source source"
| "hash_entity (AssetSourcePair asset left right) =
     to_be_bytes 1 8 @ hash_asset asset @ hash_source left @ hash_source right"
| "hash_entity (Venue venue) = to_be_bytes 1 3 @ hash_bounded_bytes venue"
| "hash_entity (Source source) = to_be_bytes 1 4 @ hash_source source"
| "hash_entity Global = to_be_bytes 1 5"

definition fingerprint_entity :: "(string \<Rightarrow> string) \<Rightarrow> FeatureEntity \<Rightarrow> string" where
  "fingerprint_entity blake3 entity = blake3 (''crypto-intelligence/watermark-entity/v1'' @ hash_entity entity)"

definition fingerprint_sources :: "(string \<Rightarrow> string) \<Rightarrow> SourceId list \<Rightarrow> string" where
  "fingerprint_sources blake3 sources =
     blake3 (''crypto-intelligence/watermark-required-sources/v1'' @ concat (map hash_source sources))"

primrec health_rank :: "SourceHealthState \<Rightarrow> nat" where
  "health_rank Healthy = 0" | "health_rank Degraded = 1" | "health_rank Unhealthy = 2"
| "health_rank Quarantined = 3" | "health_rank Recovering = 4"

definition hash_partition :: "WatermarkKey \<times> PartitionState \<Rightarrow> string" where
  "hash_partition entry = (case entry of (key, state) \<Rightarrow>
     hash_source (wk_source key) @ hash_bounded_bytes (wk_partition key)
     @ to_be_bytes 1 (case ps_role state of Required \<Rightarrow> 1 | Optional \<Rightarrow> 2))"

definition fingerprint_policy :: "(string \<Rightarrow> string) \<Rightarrow> partitions \<Rightarrow> nat \<Rightarrow> SourceHealthState list \<Rightarrow>
    FeatureEntity option \<Rightarrow> string" where
  "fingerprint_policy blake3 partitions allowed_lateness allowed_health entity =
     blake3 (''crypto-intelligence/watermark-policy/v1'' @ to_be_bytes 8 allowed_lateness
       @ concat (map hash_partition partitions)
       @ concat (map (\<lambda>health. to_be_bytes 1 (health_rank health)) allowed_health)
       @ (case entity of
            Some e \<Rightarrow> to_be_bytes 1 1 @ fingerprint_entity blake3 e
          | None \<Rightarrow> to_be_bytes 1 0))"

text \<open>The loop of \<open>canonical_required_sources\<close> pushes a source unless it is the last one pushed.\<close>

fun push_required :: "SourceId list \<Rightarrow> partitions \<Rightarrow> SourceId list" where
  "push_required sources [] = sources"
| "push_required sources ((key, state) # rest) =
     push_required (if ps_role state = Required \<and> (sources = [] \<or> last sources \<noteq> wk_source key)
                    then sources @ [wk_source key] else sources) rest"

definition canonical_required_sources :: "partitions \<Rightarrow> SourceId list" where
  "canonical_required_sources partitions = push_required [] partitions"

subsection \<open>The tracker\<close>

fun collect_health :: "SourceHealthState list \<Rightarrow> SourceHealthState list \<Rightarrow> (SourceHealthState list, WatermarkError) result" where
  "collect_health unique [] = Ok unique"
| "collect_health unique (state # states) =
     (if state \<in> set unique then Err InvalidTracker else collect_health (unique @ [state]) states)"

fun collect_partitions :: "partitions \<Rightarrow> PartitionConfig list \<Rightarrow> (partitions, WatermarkError) result" where
  "collect_partitions partitions [] = Ok partitions"
| "collect_partitions partitions (config # configs) =
     (if bt_contains watermark_cmp (pc_key config) partitions then Err DuplicatePartition
      else collect_partitions (bt_insert watermark_cmp (pc_key config)
             \<lparr>ps_role = pc_role config, ps_watermark = None, ps_as_known_at = None, ps_health = None\<rparr> partitions) configs)"

definition watermark_try_new :: "(string \<Rightarrow> string) \<Rightarrow> PartitionConfig list \<Rightarrow> nat \<Rightarrow> SourceHealthState list \<Rightarrow>
    (WatermarkTracker, WatermarkError) result" where
  "watermark_try_new blake3 configs allowed_lateness allowed_health =
     (if configs = [] \<or> length configs > 128 \<or> allowed_health = [] \<or> length allowed_health > 5
         \<or> int allowed_lateness > i64_max
      then Err InvalidTracker
      else if \<not> list_ex (\<lambda>config. pc_role config = Required) configs then Err InvalidTracker
      else and_then (collect_health [] allowed_health) (\<lambda>unique.
           and_then (collect_partitions [] configs) (\<lambda>partitions.
             let unique_health = sort_key health_rank unique;
                 required_sources = canonical_required_sources partitions
             in Ok \<lparr>wt_partitions = partitions, wt_allowed_lateness = allowed_lateness,
                    wt_allowed_health = unique_health, wt_update_sequence = 0,
                    wt_policy_id = fingerprint_policy blake3 partitions allowed_lateness unique_health None,
                    wt_entity_digest = None, wt_required_source_count = length required_sources,
                    wt_required_source_digest = fingerprint_sources blake3 required_sources\<rparr>)))"

definition watermark_try_new_for_entity :: "(string \<Rightarrow> string) \<Rightarrow> PartitionConfig list \<Rightarrow> nat \<Rightarrow> SourceHealthState list \<Rightarrow>
    FeatureEntity \<Rightarrow> (WatermarkTracker, WatermarkError) result" where
  "watermark_try_new_for_entity blake3 configs allowed_lateness allowed_health entity =
     and_then (watermark_try_new blake3 configs allowed_lateness allowed_health) (\<lambda>tracker.
       Ok (tracker\<lparr>wt_entity_digest := Some (fingerprint_entity blake3 entity),
             wt_policy_id := fingerprint_policy blake3 (wt_partitions tracker) (wt_allowed_lateness tracker)
               (wt_allowed_health tracker) (Some entity)\<rparr>))"

definition advance :: "WatermarkKey \<Rightarrow> WatermarkUpdate \<Rightarrow> WatermarkTracker \<Rightarrow>
    WatermarkTracker \<times> (unit, WatermarkError) result" where
  "advance key update t =
     (if wu_event_time update \<le> 0 \<or> wu_as_known_at update < wu_event_time update then (t, Err InvalidWatermark)
      else case bt_get watermark_cmp key (wt_partitions t) of
             None \<Rightarrow> (t, Err UnknownPartition)
           | Some state \<Rightarrow>
      if (case ps_watermark state of Some current \<Rightarrow> wu_event_time update < current | None \<Rightarrow> False)
      then (t, Err (Regression (the (ps_watermark state)) (wu_event_time update)))
      else if (case ps_as_known_at state of Some current \<Rightarrow> wu_as_known_at update < current | None \<Rightarrow> False)
      then (t, Err InvalidWatermark)
      else case checked_add u64_max (wt_update_sequence t) 1 of
             None \<Rightarrow> (t, Err ArithmeticOverflow)
           | Some next_sequence \<Rightarrow>
               (t\<lparr>wt_partitions := bt_insert watermark_cmp key
                    (state\<lparr>ps_watermark := Some (wu_event_time update), ps_as_known_at := Some (wu_as_known_at update),
                           ps_health := Some (wu_health update)\<rparr>) (wt_partitions t),
                  wt_update_sequence := next_sequence\<rparr>, Ok ()))"

definition watermark_of :: "WatermarkKey \<Rightarrow> WatermarkTracker \<Rightarrow> UnixNanos option" where
  "watermark_of key t = Option.bind (bt_get watermark_cmp key (wt_partitions t)) ps_watermark"

definition required_states :: "WatermarkTracker \<Rightarrow> PartitionState list" where
  "required_states t = filter (\<lambda>state. ps_role state = Required) (map snd (wt_partitions t))"

fun evaluate_states :: "SourceHealthState list \<Rightarrow> int \<Rightarrow> bool \<Rightarrow> PartitionState list \<Rightarrow> Finalization" where
  "evaluate_states allowed threshold reached [] = (if reached then Final else Provisional)"
| "evaluate_states allowed threshold reached (state # states) =
     (case (ps_watermark state, ps_health state) of
        (watermark, Some health) \<Rightarrow>
          if health \<notin> set allowed then Invalid
          else (case watermark of
                  Some w \<Rightarrow> evaluate_states allowed threshold (if w \<ge> threshold then reached else False) states
                | None \<Rightarrow> evaluate_states allowed threshold False states)
      | (_, None) \<Rightarrow> evaluate_states allowed threshold False states)"

definition evaluate :: "TimeWindow \<Rightarrow> WatermarkTracker \<Rightarrow> Finalization" where
  "evaluate window t =
     (if int (wt_allowed_lateness t) > i64_max then Invalid
      else let threshold = tw_end window + int (wt_allowed_lateness t)
           in if threshold > i64_max then Invalid
              else evaluate_states (wt_allowed_health t) threshold True (required_states t))"

text \<open>The loop of \<open>effective_frontier\<close>; \<open>None\<close> is its early return.\<close>

fun frontier_states :: "SourceHealthState list \<Rightarrow> int option \<Rightarrow> PartitionState list \<Rightarrow> int option option" where
  "frontier_states allowed minimum [] = Some minimum"
| "frontier_states allowed minimum (state # states) =
     (case (ps_watermark state, ps_health state) of
        (Some watermark, Some health) \<Rightarrow>
          if health \<notin> set allowed then None
          else frontier_states allowed
                 (Some (case minimum of None \<Rightarrow> watermark | Some current \<Rightarrow> min current watermark)) states
      | _ \<Rightarrow> None)"

definition effective_frontier :: "WatermarkTracker \<Rightarrow> UnixNanos option" where
  "effective_frontier t =
     (if int (wt_allowed_lateness t) > i64_max then None
      else case frontier_states (wt_allowed_health t) None (required_states t) of
             Some (Some minimum) \<Rightarrow>
               let frontier = minimum - int (wt_allowed_lateness t)
               in if frontier < i64_min then None else Some (max frontier 0)
           | _ \<Rightarrow> None)"

fun minimum_states :: "int option \<Rightarrow> PartitionState list \<Rightarrow> int option option" where
  "minimum_states minimum [] = Some minimum"
| "minimum_states minimum (state # states) =
     (case ps_watermark state of
        None \<Rightarrow> None
      | Some watermark \<Rightarrow>
          minimum_states (Some (case minimum of None \<Rightarrow> watermark | Some current \<Rightarrow> min current watermark)) states)"

definition minimum_required_watermark :: "WatermarkTracker \<Rightarrow> UnixNanos option" where
  "minimum_required_watermark t = Option.bind (minimum_states None (required_states t)) (\<lambda>minimum. minimum)"

definition latest_as_known_at :: "WatermarkTracker \<Rightarrow> UnixNanos option" where
  "latest_as_known_at t =
     (case List.map_filter ps_as_known_at (map snd (wt_partitions t)) of
        [] \<Rightarrow> None
      | moment # moments \<Rightarrow> Some (fold max moments moment))"

definition decision :: "TimeWindow \<Rightarrow> WatermarkTracker \<Rightarrow> FinalizationDecision" where
  "decision window t =
     \<lparr>fd_window = window, fd_state = evaluate window t, fd_watermark = minimum_required_watermark t,
      fd_as_known_at = (case latest_as_known_at t of None \<Rightarrow> tw_end window | Some latest \<Rightarrow> max latest (tw_end window)),
      fd_entity_digest = wt_entity_digest t, fd_required_source_count = wt_required_source_count t,
      fd_required_source_digest = wt_required_source_digest t, fd_evaluation_sequence = wt_update_sequence t,
      fd_policy_id = wt_policy_id t\<rparr>"

definition matches_entity :: "(string \<Rightarrow> string) \<Rightarrow> FeatureEntity \<Rightarrow> FinalizationDecision \<Rightarrow> bool" where
  "matches_entity blake3 entity d \<longleftrightarrow> fd_entity_digest d = Some (fingerprint_entity blake3 entity)"

definition matches_required_sources :: "(string \<Rightarrow> string) \<Rightarrow> SourceId list \<Rightarrow> FinalizationDecision \<Rightarrow> bool" where
  "matches_required_sources blake3 sources d \<longleftrightarrow>
     fd_required_source_count d = length sources \<and> fd_required_source_digest d = fingerprint_sources blake3 sources"

definition validates_decision :: "(string \<Rightarrow> string) \<Rightarrow> FinalizationDecision \<Rightarrow> FeatureEntity \<Rightarrow> WatermarkTracker \<Rightarrow> bool" where
  "validates_decision blake3 d entity t \<longleftrightarrow>
     fd_policy_id d = wt_policy_id t \<and> fd_evaluation_sequence d = wt_update_sequence t \<and> matches_entity blake3 entity d"

definition correction :: "WatermarkKey \<Rightarrow> TimeWindow \<Rightarrow> UnixNanos \<Rightarrow> WatermarkTracker \<Rightarrow>
    WatermarkTracker \<times> (CorrectionDecision, WatermarkError) result" where
  "correction source window corrected_event_time t =
     (if corrected_event_time < tw_start window \<or> corrected_event_time \<ge> tw_end window then (t, Err InvalidCorrectionTime)
      else case bt_get watermark_cmp source (wt_partitions t) of
             None \<Rightarrow> (t, Err UnknownPartition)
           | Some state \<Rightarrow>
      if (case ps_health state of None \<Rightarrow> True | Some health \<Rightarrow> health \<notin> set (wt_allowed_health t))
         \<or> evaluate window t \<noteq> Final
      then (t, Err InvalidCorrectionState)
      else case checked_add u64_max (wt_update_sequence t) 1 of
             None \<Rightarrow> (t, Err ArithmeticOverflow)
           | Some evaluation_sequence \<Rightarrow>
               (t\<lparr>wt_update_sequence := evaluation_sequence\<rparr>,
                Ok \<lparr>cd_window = window, cd_source = source, cd_corrected_event_time = corrected_event_time,
                    cd_evaluation_sequence = evaluation_sequence, cd_policy_id = wt_policy_id t\<rparr>))"

subsection \<open>Runs of a tracker\<close>

definition update_typed :: "WatermarkUpdate \<Rightarrow> bool" where
  "update_typed update \<longleftrightarrow> wu_event_time update \<le> i64_max \<and> wu_as_known_at update \<le> i64_max"

definition watermark_opened :: "WatermarkTracker \<Rightarrow> bool" where
  "watermark_opened t \<longleftrightarrow> (\<exists>blake3 configs lateness health entity.
     watermark_try_new blake3 configs lateness health = Ok t
     \<or> watermark_try_new_for_entity blake3 configs lateness health entity = Ok t)"

inductive watermark_step :: "WatermarkTracker \<Rightarrow> WatermarkTracker \<Rightarrow> bool" where
  watermark_advances: "update_typed update \<Longrightarrow> watermark_step t (fst (advance key update t))"
| watermark_corrects: "watermark_step t (fst (correction source window corrected t))"

subsection \<open>Keys\<close>

lemma rust_ord_inj:
  assumes "rust_ord c v" "inj f" "\<And>a. v (f a)"
  shows "rust_ord (\<lambda>a b. c (f a) (f b)) (\<lambda>_. True)"
proof
  fix a b
  show "c (f a) (f b) = Equal \<longleftrightarrow> a = b"
    using rust_ord.cmp_Equal_iff [OF assms(1,3,3)] inj_eq [OF assms(2)] by simp
  show "c (f b) (f a) = reverse_ordering (c (f a) (f b))" by (rule rust_ord.cmp_reverse [OF assms(1,3,3)])
  show "c (f a) (f b) = Less \<Longrightarrow> c (f b) (f e) = Less \<Longrightarrow> c (f a) (f e) = Less" for e
    by (rule rust_ord.cmp_Less_trans [OF assms(1,3,3,3)])
qed

lemma key_tuple_inj: "inj key_tuple"
proof (rule injI)
  fix a b :: WatermarkKey assume eq: "key_tuple a = key_tuple b"
  have "x = y" if "source_kind_u8 x = source_kind_u8 y" for x y using that by (cases x; cases y) simp_all
  then show "a = b" using eq by (auto simp: key_tuple_def intro!: WatermarkKey.equality SourceId.equality)
qed

interpretation wkey: rust_ord watermark_cmp "\<lambda>_. True"
proof -
  have lin: "rust_ord (cmp_of :: nat \<Rightarrow> nat \<Rightarrow> Ordering) (\<lambda>_. True)" by (rule lin.rust_ord_axioms)
  have str: "rust_ord str_cmp (list_all (\<lambda>_. True))" by (rule str.rust_ord_axioms)
  have "rust_ord (\<lambda>a b. pair_cmp cmp_of (pair_cmp str_cmp (pair_cmp cmp_of str_cmp)) (key_tuple a) (key_tuple b)) (\<lambda>_. True)"
    by (rule rust_ord_inj [OF rust_ord_pair [OF lin rust_ord_pair [OF str rust_ord_pair [OF lin str]]] key_tuple_inj])
      (simp add: list_all_iff)
  then show "rust_ord watermark_cmp (\<lambda>_. True)" unfolding watermark_cmp_def .
qed

subsection \<open>When a window is final\<close>

definition reported :: "SourceHealthState list \<Rightarrow> PartitionState \<Rightarrow> bool" where
  "reported allowed s \<longleftrightarrow> ps_watermark s \<noteq> None \<and> (\<exists>h. ps_health s = Some h \<and> h \<in> set allowed)"

definition refused :: "SourceHealthState list \<Rightarrow> PartitionState \<Rightarrow> bool" where
  "refused allowed s \<longleftrightarrow> (\<exists>h. ps_health s = Some h \<and> h \<notin> set allowed)"

definition passed :: "int \<Rightarrow> PartitionState \<Rightarrow> bool" where
  "passed threshold s \<longleftrightarrow> ps_health s \<noteq> None \<and> (\<exists>w. ps_watermark s = Some w \<and> threshold \<le> w)"

lemma evaluate_states_eq:
  "evaluate_states allowed threshold reached states =
     (if \<exists>s \<in> set states. refused allowed s then Invalid
      else if reached \<and> (\<forall>s \<in> set states. passed threshold s) then Final else Provisional)"
  by (induction states arbitrary: reached)
    (auto simp: refused_def passed_def split: option.splits)

lemma frontier_states_None:
  "frontier_states allowed minimum states = None \<longleftrightarrow> (\<exists>s \<in> set states. \<not> reported allowed s)"
  by (induction states arbitrary: minimum) (auto simp: reported_def split: option.splits)

lemma frontier_states_bound:
  assumes "frontier_states allowed minimum states = Some r"
  shows "(\<forall>m. r = Some m \<longrightarrow> f \<le> m) \<longleftrightarrow>
      (\<forall>m. minimum = Some m \<longrightarrow> f \<le> m) \<and> (\<forall>s \<in> set states. \<forall>w. ps_watermark s = Some w \<longrightarrow> f \<le> w)"
    "r = None \<longleftrightarrow> minimum = None \<and> states = []"
proof -
  have "((\<forall>m. r = Some m \<longrightarrow> f \<le> m) \<longleftrightarrow>
      (\<forall>m. minimum = Some m \<longrightarrow> f \<le> m) \<and> (\<forall>s \<in> set states. \<forall>w. ps_watermark s = Some w \<longrightarrow> f \<le> w))
      \<and> (r = None \<longleftrightarrow> minimum = None \<and> states = [])"
    using assms
  proof (induction states arbitrary: minimum)
    case (Cons s states)
    obtain w h where s: "ps_watermark s = Some w" "ps_health s = Some h" "h \<in> set allowed"
      and rest: "frontier_states allowed (Some (case minimum of None \<Rightarrow> w | Some current \<Rightarrow> min current w)) states = Some r"
      using Cons.prems by (auto split: option.splits if_splits)
    show ?case using Cons.IH [OF rest] s(1) by (cases minimum) auto
  qed simp
  then show "(\<forall>m. r = Some m \<longrightarrow> f \<le> m) \<longleftrightarrow>
      (\<forall>m. minimum = Some m \<longrightarrow> f \<le> m) \<and> (\<forall>s \<in> set states. \<forall>w. ps_watermark s = Some w \<longrightarrow> f \<le> w)"
    "r = None \<longleftrightarrow> minimum = None \<and> states = []" by blast+
qed

definition partition_ok :: "PartitionState \<Rightarrow> bool" where
  "partition_ok s \<longleftrightarrow>
     (case ps_watermark s of
        None \<Rightarrow> ps_health s = None \<and> ps_as_known_at s = None
      | Some w \<Rightarrow> 0 < w \<and> w \<le> i64_max \<and> ps_health s \<noteq> None \<and> (\<exists>k. ps_as_known_at s = Some k \<and> w \<le> k))"

definition watermark_wf :: "WatermarkTracker \<Rightarrow> bool" where
  "watermark_wf t \<longleftrightarrow> bt_wf watermark_cmp (\<lambda>_. True) (wt_partitions t)
     \<and> (\<forall>(k, s) \<in> set (wt_partitions t). partition_ok s) \<and> int (wt_allowed_lateness t) \<le> i64_max
     \<and> required_states t \<noteq> []"

lemma required_states_ok: "watermark_wf t \<Longrightarrow> s \<in> set (required_states t) \<Longrightarrow> partition_ok s"
  by (auto simp: watermark_wf_def required_states_def)

lemma evaluate_Final_iff:
  assumes "watermark_wf t"
  shows "evaluate window t = Final \<longleftrightarrow>
    (\<forall>s \<in> set (required_states t). \<not> refused (wt_allowed_health t) s
       \<and> passed (tw_end window + int (wt_allowed_lateness t)) s)"
proof -
  have late: "int (wt_allowed_lateness t) \<le> i64_max" and some: "required_states t \<noteq> []"
    using assms by (simp_all add: watermark_wf_def)
  have "tw_end window + int (wt_allowed_lateness t) \<le> i64_max"
    if "\<forall>s \<in> set (required_states t). passed (tw_end window + int (wt_allowed_lateness t)) s"
  proof -
    obtain s where s: "s \<in> set (required_states t)" using some by (cases "required_states t") auto
    then show ?thesis using that required_states_ok [OF assms s] by (auto simp: passed_def partition_ok_def)
  qed
  then show ?thesis using late by (auto simp: evaluate_def Let_def evaluate_states_eq)
qed

lemma final_frontier:
  assumes wf: "watermark_wf t" and "0 < tw_end window"
  shows "evaluate window t = Final \<longleftrightarrow> (\<exists>f. effective_frontier t = Some f \<and> tw_end window \<le> f)"
proof -
  let ?late = "int (wt_allowed_lateness t)" and ?states = "required_states t"
  have late: "?late \<le> i64_max" and some: "?states \<noteq> []" using wf by (simp_all add: watermark_wf_def)
  show ?thesis
  proof (cases "frontier_states (wt_allowed_health t) None ?states")
    case None
    then obtain s where s: "s \<in> set ?states" "\<not> reported (wt_allowed_health t) s" by (auto simp: frontier_states_None)
    then have "\<not> (\<not> refused (wt_allowed_health t) s \<and> passed (tw_end window + ?late) s)"
      by (auto simp: reported_def refused_def passed_def)
    then show ?thesis using None s(1) by (auto simp: effective_frontier_def evaluate_Final_iff [OF wf])
  next
    case (Some r)
    then have all: "\<forall>s \<in> set ?states. reported (wt_allowed_health t) s"
      using frontier_states_None [of "wt_allowed_health t" None ?states] by auto
    obtain m where m: "r = Some m" using frontier_states_bound(2) [OF Some] some by auto
    have bound: "f \<le> m \<longleftrightarrow> (\<forall>s \<in> set ?states. \<forall>w. ps_watermark s = Some w \<longrightarrow> f \<le> w)" for f
      using frontier_states_bound(1) [OF Some, of f] m by simp
    have pos: "0 \<le> m" using bound [of 0] required_states_ok [OF wf] by (force simp: partition_ok_def)
    then have "\<not> m - ?late < i64_min" using late by (simp add: i64_min_def i64_max_def)
    then have frontier: "effective_frontier t = Some (max (m - ?late) 0)"
      using Some late m by (simp add: effective_frontier_def Let_def)
    have "evaluate window t = Final \<longleftrightarrow> (\<forall>s \<in> set ?states. \<forall>w. ps_watermark s = Some w \<longrightarrow> tw_end window + ?late \<le> w)"
      unfolding evaluate_Final_iff [OF wf] using all by (fastforce simp: reported_def refused_def passed_def)
    also have "\<dots> \<longleftrightarrow> tw_end window + ?late \<le> m" using bound by simp
    finally show ?thesis using frontier assms(2) by auto
  qed
qed

subsection \<open>What an operation changes\<close>

definition state_progress :: "PartitionState \<Rightarrow> PartitionState \<Rightarrow> bool" where
  "state_progress s s' \<longleftrightarrow> ps_role s' = ps_role s \<and> (ps_health s \<noteq> None \<longrightarrow> ps_health s' \<noteq> None)
     \<and> (\<forall>w. ps_watermark s = Some w \<longrightarrow> (\<exists>w'. ps_watermark s' = Some w' \<and> w \<le> w'))"

definition progresses :: "WatermarkTracker \<Rightarrow> WatermarkTracker \<Rightarrow> bool" where
  "progresses t t' \<longleftrightarrow> wt_allowed_lateness t' = wt_allowed_lateness t \<and> wt_allowed_health t' = wt_allowed_health t
     \<and> wt_policy_id t' = wt_policy_id t \<and> (t' = t \<or> wt_update_sequence t < wt_update_sequence t')
     \<and> (\<forall>k. rel_option state_progress (bt_get watermark_cmp k (wt_partitions t)) (bt_get watermark_cmp k (wt_partitions t')))"

lemma state_progress_refl [simp]: "state_progress s s"
  by (simp add: state_progress_def)

lemma state_progress_trans: "state_progress s s' \<Longrightarrow> state_progress s' s'' \<Longrightarrow> state_progress s s''"
  by (fastforce simp: state_progress_def)

lemma progresses_refl: "progresses t t"
  by (simp add: progresses_def option.rel_refl)

lemma progresses_trans:
  assumes "progresses t t'" "progresses t' t''"
  shows "progresses t t''"
proof -
  have "rel_option state_progress (bt_get watermark_cmp k (wt_partitions t)) (bt_get watermark_cmp k (wt_partitions t''))" for k
  proof -
    have "transp state_progress" by (rule transpI) (rule state_progress_trans)
    from transpD [OF option.rel_transp [OF this]] show ?thesis using assms unfolding progresses_def by blast
  qed
  then show ?thesis using assms by (auto simp: progresses_def)
qed

lemma advance_changes:
  obtains "fst (advance key update t) = t"
  | s where "bt_get watermark_cmp key (wt_partitions t) = Some s" "0 < wu_event_time update"
      "wu_event_time update \<le> wu_as_known_at update"
      "\<forall>w. ps_watermark s = Some w \<longrightarrow> w \<le> wu_event_time update"
      "fst (advance key update t) = t\<lparr>wt_partitions := bt_insert watermark_cmp key
         (s\<lparr>ps_watermark := Some (wu_event_time update), ps_as_known_at := Some (wu_as_known_at update),
            ps_health := Some (wu_health update)\<rparr>) (wt_partitions t),
         wt_update_sequence := Suc (wt_update_sequence t)\<rparr>"
proof (cases "bt_get watermark_cmp key (wt_partitions t)")
  case (Some s)
  show ?thesis
  proof (cases "fst (advance key update t) = t")
    case False
    show ?thesis
      by (rule that(2) [OF Some]; use False Some in
        \<open>auto simp: advance_def checked_add_def split: if_splits option.splits\<close>)
  qed (rule that(1))
qed (auto simp: advance_def intro: that(1))

lemma correction_changes:
  "fst (correction source window corrected t) = t
   \<or> fst (correction source window corrected t) = t\<lparr>wt_update_sequence := Suc (wt_update_sequence t)\<rparr>"
  by (auto simp: correction_def checked_add_def split: if_splits option.splits)

lemma required_states_get:
  assumes "bt_wf watermark_cmp (\<lambda>_. True) (wt_partitions t)"
  shows "s \<in> set (required_states t) \<longleftrightarrow>
    ps_role s = Required \<and> (\<exists>k. bt_get watermark_cmp k (wt_partitions t) = Some s)"
  using wkey.get_Some_iff [OF assms] by (force simp: required_states_def)

lemma progresses_required:
  assumes "progresses t t'" "watermark_wf t" "bt_wf watermark_cmp (\<lambda>_. True) (wt_partitions t')"
  shows "required_states t' \<noteq> []"
    and "s' \<in> set (required_states t') \<Longrightarrow> \<exists>s \<in> set (required_states t). state_progress s s'"
proof -
  have rel: "rel_option state_progress (bt_get watermark_cmp k (wt_partitions t)) (bt_get watermark_cmp k (wt_partitions t'))" for k
    using assms(1) by (simp add: progresses_def)
  note get = required_states_get [OF assms(3)] required_states_get [of t]
  have wf: "bt_wf watermark_cmp (\<lambda>_. True) (wt_partitions t)" and "required_states t \<noteq> []"
    using assms(2) by (simp_all add: watermark_wf_def)
  then obtain s where "s \<in> set (required_states t)" by (cases "required_states t") auto
  then obtain k where "ps_role s = Required" "bt_get watermark_cmp k (wt_partitions t) = Some s" using get(2) [OF wf] by blast
  then obtain s' where "s' \<in> set (required_states t')"
    using rel [of k] by (auto simp: get(1) option_rel_Some1 state_progress_def)
  then show "required_states t' \<noteq> []" by auto
  show "\<exists>s \<in> set (required_states t). state_progress s s'" if new: "s' \<in> set (required_states t')" for s'
  proof -
    obtain k where "ps_role s' = Required" "bt_get watermark_cmp k (wt_partitions t') = Some s'" using new get(1) by blast
    then obtain s where "bt_get watermark_cmp k (wt_partitions t) = Some s" "state_progress s s'"
      using rel [of k] by (auto simp: option_rel_Some2)
    then show ?thesis using \<open>ps_role s' = Required\<close> get(2) [OF wf] by (metis state_progress_def)
  qed
qed

lemma advance_progresses:
  assumes "watermark_wf t" "update_typed update"
  shows "progresses t (fst (advance key update t))" "watermark_wf (fst (advance key update t))"
proof -
  have wf: "bt_wf watermark_cmp (\<lambda>_. True) (wt_partitions t)" using assms(1) by (simp add: watermark_wf_def)
  have "progresses t (fst (advance key update t)) \<and> watermark_wf (fst (advance key update t))"
  proof (cases rule: advance_changes [of key update t])
    case 1
    then show ?thesis using assms(1) by (simp add: progresses_refl)
  next
    case (2 s)
    let ?s = "s\<lparr>ps_watermark := Some (wu_event_time update), ps_as_known_at := Some (wu_as_known_at update),
      ps_health := Some (wu_health update)\<rparr>"
    have s: "state_progress s ?s" using 2(4) by (auto simp: state_progress_def)
    have prog: "progresses t (fst (advance key update t))"
      unfolding 2(5) progresses_def using s 2(1) by (auto simp: wkey.get_insert [OF wf] option.rel_refl)
    have new: "bt_wf watermark_cmp (\<lambda>_. True) (wt_partitions (fst (advance key update t)))"
      unfolding 2(5) by (simp add: wkey.wf_insert [OF wf])
    have "partition_ok ?s" using 2(2,3) assms(2) by (simp add: partition_ok_def update_typed_def)
    then have "\<forall>(k, s) \<in> set (wt_partitions (fst (advance key update t))). partition_ok s"
      unfolding 2(5) using assms(1) by (auto simp: wkey.set_insert [OF wf] watermark_wf_def)
    moreover have "wt_allowed_lateness (fst (advance key update t)) = wt_allowed_lateness t" unfolding 2(5) by simp
    ultimately have "watermark_wf (fst (advance key update t))"
      using assms(1) new progresses_required(1) [OF prog assms(1) new] unfolding watermark_wf_def by simp
    then show ?thesis using prog by simp
  qed
  then show "progresses t (fst (advance key update t))" "watermark_wf (fst (advance key update t))" by simp_all
qed

lemma watermark_step_progresses:
  assumes "watermark_step t t'" "watermark_wf t"
  shows "progresses t t' \<and> watermark_wf t'"
  using assms
proof cases
  case (watermark_advances update key)
  then show ?thesis using advance_progresses assms(2) by simp
next
  case (watermark_corrects source window corrected)
  then show ?thesis using correction_changes [of source window corrected t] assms(2)
    by (auto simp: progresses_def option.rel_refl watermark_wf_def required_states_def)
qed

lemma watermark_run:
  assumes "watermark_step\<^sup>*\<^sup>* t t'" "watermark_wf t"
  shows "progresses t t' \<and> watermark_wf t'"
  using assms(1)
proof (induction rule: rtranclp_induct)
  case base
  then show ?case using assms(2) by (simp add: progresses_refl)
next
  case (step u v)
  then show ?case using watermark_step_progresses progresses_trans by blast
qed

lemma collect_partitions_ok:
  assumes "collect_partitions ps configs = Ok qs" "bt_wf watermark_cmp (\<lambda>_. True) ps"
    "\<forall>(k, s) \<in> set ps. partition_ok s"
  shows "bt_wf watermark_cmp (\<lambda>_. True) qs \<and> (\<forall>(k, s) \<in> set qs. partition_ok s) \<and> set ps \<subseteq> set qs
    \<and> (\<forall>config \<in> set configs. \<exists>s. (pc_key config, s) \<in> set qs \<and> ps_role s = pc_role config)"
  using assms
proof (induction configs arbitrary: ps)
  case (Cons config configs)
  let ?s = "\<lparr>ps_role = pc_role config, ps_watermark = None, ps_as_known_at = None, ps_health = None\<rparr>"
  let ?ps = "bt_insert watermark_cmp (pc_key config) ?s ps"
  have none: "bt_get watermark_cmp (pc_key config) ps = None" and rest: "collect_partitions ?ps configs = Ok qs"
    using Cons.prems(1) by (auto simp: bt_contains_def split: if_splits)
  have eq: "set ?ps = insert (pc_key config, ?s) (set ps)"
    using none wkey.get_Some_iff [OF Cons.prems(2)] by (force simp: wkey.set_insert [OF Cons.prems(2)])
  have "\<forall>(k, s) \<in> set ?ps. partition_ok s" using Cons.prems(3) unfolding eq by (auto simp: partition_ok_def)
  from Cons.IH [OF rest wkey.wf_insert [OF Cons.prems(2)] this] show ?case unfolding eq by auto
qed simp

lemma watermark_opened_wf:
  assumes "watermark_opened t"
  shows "watermark_wf t"
proof -
  have new: "watermark_wf u" if opened: "watermark_try_new blake3 configs lateness health = Ok u" for blake3 configs lateness health u
  proof -
    have parts: "collect_partitions [] configs = Ok (wt_partitions u)" and late: "int (wt_allowed_lateness u) \<le> i64_max"
      and req: "list_ex (\<lambda>config. pc_role config = Required) configs"
      using opened by (auto simp: watermark_try_new_def Let_def result_simps split: if_splits)
    obtain config where config: "config \<in> set configs" "pc_role config = Required" using req by (auto simp: list_ex_iff)
    note ok = collect_partitions_ok [OF parts bt_wf_Nil, simplified]
    obtain s where s: "(pc_key config, s) \<in> set (wt_partitions u)" "ps_role s = Required" using ok config by force
    then have "s \<in> set (required_states u)" by (force simp: required_states_def)
    then show ?thesis using ok late by (auto simp: watermark_wf_def)
  qed
  show ?thesis using assms new
    by (fastforce simp: watermark_opened_def watermark_try_new_for_entity_def watermark_wf_def required_states_def result_simps)
qed

lemma final_not_provisional:
  assumes "progresses t t'" "watermark_wf t" "watermark_wf t'" "evaluate window t = Final"
  shows "evaluate window t' \<noteq> Provisional"
proof -
  let ?threshold = "tw_end window + int (wt_allowed_lateness t)"
  have wf: "bt_wf watermark_cmp (\<lambda>_. True) (wt_partitions t')" using assms(3) by (simp add: watermark_wf_def)
  have "passed ?threshold s'" if "s' \<in> set (required_states t')" for s'
  proof -
    obtain s where s: "s \<in> set (required_states t)" "state_progress s s'"
      using progresses_required(2) [OF assms(1,2) wf \<open>s' \<in> _\<close>] by blast
    then have "passed ?threshold s" using assms(4) by (simp add: evaluate_Final_iff [OF assms(2)])
    then show ?thesis using s(2) by (fastforce simp: passed_def state_progress_def)
  qed
  moreover have "wt_allowed_lateness t' = wt_allowed_lateness t" using assms(1) by (simp add: progresses_def)
  ultimately show ?thesis by (simp add: evaluate_def Let_def evaluate_states_eq)
qed

subsection \<open>A concrete run\<close>

definition spot_key :: WatermarkKey where
  "spot_key = \<lparr>wk_source = \<lparr>sid_kind = Exchange, sid_name = ''binance'', sid_generation = 1\<rparr>, wk_partition = ''spot''\<rparr>"

definition perp_key :: WatermarkKey where
  "perp_key = \<lparr>wk_source = \<lparr>sid_kind = Exchange, sid_name = ''bybit'', sid_generation = 1\<rparr>, wk_partition = ''linear''\<rparr>"

definition partition_at :: "PartitionRole \<Rightarrow> int option \<Rightarrow> PartitionState" where
  "partition_at role moment = \<lparr>ps_role = role, ps_watermark = moment, ps_as_known_at = moment,
     ps_health = map_option (\<lambda>_. Healthy) moment\<rparr>"

definition example_tracker :: "nat \<Rightarrow> int option \<Rightarrow> int option \<Rightarrow> WatermarkTracker" where
  "example_tracker sequence spot perp =
     \<lparr>wt_partitions = [(spot_key, partition_at Required spot), (perp_key, partition_at Required perp)],
      wt_allowed_lateness = 5, wt_allowed_health = [Healthy], wt_update_sequence = sequence, wt_policy_id = [],
      wt_entity_digest = None, wt_required_source_count = 2, wt_required_source_digest = []\<rparr>"

definition healthy_at :: "int \<Rightarrow> WatermarkUpdate" where
  "healthy_at moment = \<lparr>wu_event_time = moment, wu_as_known_at = moment, wu_health = Healthy\<rparr>"

lemma example_keys:
  "watermark_cmp spot_key perp_key = Less" "watermark_cmp perp_key spot_key = Greater"
  "watermark_cmp spot_key spot_key = Equal" "watermark_cmp perp_key perp_key = Equal" "wk_source spot_key \<noteq> wk_source perp_key"
  by code_simp+

lemma example_opened: "watermark_opened (example_tracker 0 None None)"
proof -
  have "watermark_try_new (\<lambda>_. []) [\<lparr>pc_key = perp_key, pc_role = Required\<rparr>, \<lparr>pc_key = spot_key, pc_role = Required\<rparr>] 5 [Healthy]
      = Ok (example_tracker 0 None None)"
    by (simp add: watermark_try_new_def example_keys bt_contains_def canonical_required_sources_def example_tracker_def
        partition_at_def fingerprint_policy_def fingerprint_sources_def i64_max_def result_simps)
  then show ?thesis unfolding watermark_opened_def by blast
qed

lemma example_sequence:
  "checked_add u64_max 0 1 = Some 1" "checked_add u64_max 1 1 = Some 2" "checked_add u64_max 2 1 = Some 3"
  by (simp_all add: checked_add_def u64_max_def)

lemma example_step:
  "watermark_step (example_tracker 0 None None) (example_tracker 1 (Some 110) None)"
  "watermark_step (example_tracker 1 (Some 110) None) (example_tracker 2 (Some 110) (Some 120))"
  "watermark_step (example_tracker 2 (Some 110) (Some 120)) (example_tracker 3 (Some 130) (Some 120))"
  using watermark_advances [of "healthy_at 110" "example_tracker 0 None None" spot_key]
    watermark_advances [of "healthy_at 120" "example_tracker 1 (Some 110) None" perp_key]
    watermark_advances [of "healthy_at 130" "example_tracker 2 (Some 110) (Some 120)" spot_key]
  by (simp_all add: advance_def healthy_at_def example_tracker_def partition_at_def update_typed_def example_keys
      example_sequence i64_max_def del: One_nat_def)

lemma example_runs:
  "watermark_step\<^sup>*\<^sup>* (example_tracker 0 None None) (example_tracker 2 (Some 110) (Some 120))"
  "watermark_step\<^sup>*\<^sup>* (example_tracker 2 (Some 110) (Some 120)) (example_tracker 3 (Some 130) (Some 120))"
  using example_step by (meson rtranclp.rtrancl_refl rtranclp.rtrancl_into_rtrancl)+

lemma example_final: "evaluate \<lparr>tw_start = 50, tw_end = 100\<rparr> (example_tracker 2 (Some 110) (Some 120)) = Final"
  by (simp add: evaluate_def example_tracker_def partition_at_def required_states_def i64_max_def)

subsection \<open>The properties\<close>

text \<open>
  C15. In every tracker that was opened and then advanced and corrected in any order, a window that
  \<open>TimeWindow::try_new\<close> accepts is final exactly when the effective frontier is known and has reached the
  end of the window, although \<open>evaluate\<close> and \<open>effective_frontier\<close> are two separate loops over the
  partitions; and it is final exactly when every required partition has reported, with an allowed health,
  a watermark of at least the end of the window plus the allowed lateness.
\<close>

theorem window_final_iff_frontier:
  assumes "watermark_opened t\<^sub>0" "watermark_step\<^sup>*\<^sup>* t\<^sub>0 t" "time_window_try_new start stop = Some window"
  shows "(evaluate window t = Final \<longleftrightarrow> (\<exists>f. effective_frontier t = Some f \<and> stop \<le> f))
    \<and> (evaluate window t = Final \<longleftrightarrow>
        (\<forall>s \<in> set (required_states t). \<exists>w h. ps_watermark s = Some w \<and> ps_health s = Some h
           \<and> h \<in> set (wt_allowed_health t) \<and> stop + int (wt_allowed_lateness t) \<le> w))"
proof -
  have wf: "watermark_wf t" using watermark_run [OF assms(2)] watermark_opened_wf [OF assms(1)] by simp
  have window: "tw_end window = stop" "0 < stop" using assms(3) by (auto simp: time_window_try_new_def split: if_splits)
  have "evaluate window t = Final \<longleftrightarrow> (\<exists>f. effective_frontier t = Some f \<and> stop \<le> f)"
    using final_frontier [OF wf, of window] window by simp
  moreover have "\<not> refused allowed s \<and> passed bound s \<longleftrightarrow>
      (\<exists>w h. ps_watermark s = Some w \<and> ps_health s = Some h \<and> h \<in> set allowed \<and> bound \<le> w)" for allowed bound s
    by (auto simp: refused_def passed_def)
  ultimately show ?thesis by (simp add: evaluate_Final_iff [OF wf] window(1))
qed

theorem window_final_iff_frontier_witness:
  "\<exists>f. effective_frontier (example_tracker 2 (Some 110) (Some 120)) = Some f \<and> 100 \<le> f"
proof -
  have "time_window_try_new 50 100 = Some \<lparr>tw_start = 50, tw_end = 100\<rparr>" by (simp add: time_window_try_new_def)
  from window_final_iff_frontier [OF example_opened example_runs(1) this] show ?thesis using example_final by simp
qed

text \<open>
  C14. Finality is stable. Between any two moments of a run of a watermark tracker, whatever updates and
  corrections are accepted or refused in between, no partition's watermark goes back, a window that was
  final is never provisional again (it stays final, or becomes invalid by a forbidden health), and unless
  the tracker is unchanged a decision taken at the first moment no longer validates at the second.
\<close>

theorem finality_is_stable:
  assumes "watermark_opened t\<^sub>0" "watermark_step\<^sup>*\<^sup>* t\<^sub>0 t" "watermark_step\<^sup>*\<^sup>* t t'"
  shows "(evaluate window t = Final \<longrightarrow> evaluate window t' \<in> {Final, Invalid})
    \<and> (\<forall>w. watermark_of key t = Some w \<longrightarrow> (\<exists>w'. watermark_of key t' = Some w' \<and> w \<le> w'))
    \<and> (validates_decision blake3 (decision window t) entity t' \<longrightarrow> t' = t)"
proof -
  have wf: "watermark_wf t" using watermark_run [OF assms(2)] watermark_opened_wf [OF assms(1)] by simp
  then have prog: "progresses t t'" and wf': "watermark_wf t'" using watermark_run [OF assms(3)] by simp_all
  have "evaluate window t = Final \<longrightarrow> evaluate window t' \<in> {Final, Invalid}"
    using final_not_provisional [OF prog wf wf'] by (cases "evaluate window t'") auto
  moreover have "\<exists>w'. watermark_of key t' = Some w' \<and> w \<le> w'" if now: "watermark_of key t = Some w" for w
  proof -
    have rel: "rel_option state_progress (bt_get watermark_cmp key (wt_partitions t)) (bt_get watermark_cmp key (wt_partitions t'))"
      using prog by (simp add: progresses_def)
    obtain s where "bt_get watermark_cmp key (wt_partitions t) = Some s" "ps_watermark s = Some w"
      using now by (auto simp: watermark_of_def bind_eq_Some_conv)
    then show ?thesis using rel by (auto simp: watermark_of_def option_rel_Some1 state_progress_def)
  qed
  moreover have "validates_decision blake3 (decision window t) entity t' \<longrightarrow> t' = t"
    using prog by (auto simp: validates_decision_def decision_def progresses_def)
  ultimately show ?thesis by blast
qed

theorem finality_is_stable_witness:
  "evaluate \<lparr>tw_start = 50, tw_end = 100\<rparr> (example_tracker 2 (Some 110) (Some 120)) = Final
   \<and> evaluate \<lparr>tw_start = 50, tw_end = 100\<rparr> (example_tracker 3 (Some 130) (Some 120)) \<in> {Final, Invalid}"
  using finality_is_stable [OF example_opened example_runs, of "\<lparr>tw_start = 50, tw_end = 100\<rparr>"] example_final by blast

end
