(* ===== verification/Wal_Frame.thy ===== *)
theory Wal_Frame
  imports Bytes "HOL-Library.Word"
begin

text \<open>
  \<open>raw-wal/src/frame.rs\<close>: the frames of the write-ahead log. A frame is a fixed header, a payload and
  a CRC-32C. The checksum comes from the \<open>crc32c\<close> package and is the parameter \<open>crc\<close> of the
  definitions that use it; nothing is assumed of it. Slices are byte lists.
\<close>

subsection \<open>Constants and data\<close>

definition MAGIC :: string where "MAGIC = ''CMTIWAL1''"
definition LEGACY_SCHEMA_VERSION :: nat where "LEGACY_SCHEMA_VERSION = 1"
definition SCHEMA_VERSION :: nat where "SCHEMA_VERSION = 2"
definition LEGACY_HEADER_LENGTH :: nat where "LEGACY_HEADER_LENGTH = 8 + 2 + 4"
definition HEADER_LENGTH :: nat where "HEADER_LENGTH = 8 + 2 + 2 + 4 + 4 + 8 + 8 + 8 + 8 + 4 + 4"
definition CHECKSUM_LENGTH :: nat where "CHECKSUM_LENGTH = 4"
definition MAX_PAYLOAD_LENGTH :: nat where "MAX_PAYLOAD_LENGTH = 16 * 1024 * 1024"
definition SUPPORTED_FLAGS :: nat where "SUPPORTED_FLAGS = 0"

definition VERSION_OFFSET :: nat where "VERSION_OFFSET = 8"
definition HEADER_LENGTH_OFFSET :: nat where "HEADER_LENGTH_OFFSET = VERSION_OFFSET + 2"
definition FLAGS_OFFSET :: nat where "FLAGS_OFFSET = HEADER_LENGTH_OFFSET + 2"
definition STREAM_ID_OFFSET :: nat where "STREAM_ID_OFFSET = FLAGS_OFFSET + 4"
definition CONNECTION_EPOCH_OFFSET :: nat where "CONNECTION_EPOCH_OFFSET = STREAM_ID_OFFSET + 4"
definition RECORD_SEQUENCE_OFFSET :: nat where "RECORD_SEQUENCE_OFFSET = CONNECTION_EPOCH_OFFSET + 8"
definition RECEIVE_WALL_TIME_OFFSET :: nat where "RECEIVE_WALL_TIME_OFFSET = RECORD_SEQUENCE_OFFSET + 8"
definition RECEIVE_MONOTONIC_TIME_OFFSET :: nat where
  "RECEIVE_MONOTONIC_TIME_OFFSET = RECEIVE_WALL_TIME_OFFSET + 8"
definition PAYLOAD_LENGTH_OFFSET :: nat where "PAYLOAD_LENGTH_OFFSET = RECEIVE_MONOTONIC_TIME_OFFSET + 8"
definition HEADER_CHECKSUM_OFFSET :: nat where "HEADER_CHECKSUM_OFFSET = PAYLOAD_LENGTH_OFFSET + 4"

lemmas frame_constants =
  LEGACY_SCHEMA_VERSION_def SCHEMA_VERSION_def LEGACY_HEADER_LENGTH_def HEADER_LENGTH_def CHECKSUM_LENGTH_def
  SUPPORTED_FLAGS_def VERSION_OFFSET_def HEADER_LENGTH_OFFSET_def FLAGS_OFFSET_def STREAM_ID_OFFSET_def
  CONNECTION_EPOCH_OFFSET_def RECORD_SEQUENCE_OFFSET_def RECEIVE_WALL_TIME_OFFSET_def
  RECEIVE_MONOTONIC_TIME_OFFSET_def PAYLOAD_LENGTH_OFFSET_def HEADER_CHECKSUM_OFFSET_def

datatype WalFormat = LegacyV1 | V2

record RecordMetadata =
  rm_flags :: nat
  rm_stream_id :: nat
  rm_connection_epoch :: nat
  rm_record_sequence :: nat
  rm_receive_wall_time_ns :: int
  rm_receive_monotonic_time_ns :: nat

datatype FrameError =
    PayloadTooLarge
  | Incomplete
  | InvalidMagic
  | UnsupportedSchema nat
  | InvalidHeaderLength nat
  | UnsupportedFlags nat
  | HeaderChecksumMismatch
  | FrameChecksumMismatch

record DecodedFrame =
  df_format :: WalFormat
  df_metadata :: "RecordMetadata option"
  df_payload :: string
  df_encoded_length :: nat

text \<open>The ranges of the metadata's integer types.\<close>

definition record_metadata_typed :: "RecordMetadata \<Rightarrow> bool" where
  "record_metadata_typed m \<longleftrightarrow>
     rm_flags m \<le> u32_max \<and> rm_stream_id m \<le> u32_max \<and> rm_connection_epoch m \<le> u64_max
     \<and> rm_record_sequence m \<le> u64_max
     \<and> i64_min \<le> rm_receive_wall_time_ns m \<and> rm_receive_wall_time_ns m \<le> i64_max
     \<and> rm_receive_monotonic_time_ns m \<le> u64_max"

text \<open>The big-endian bytes of a checksum.\<close>

definition crc_bytes :: "(string \<Rightarrow> 32 word) \<Rightarrow> string \<Rightarrow> string" where
  "crc_bytes crc bs = to_be_bytes 4 (unat (crc bs))"

subsection \<open>Writing\<close>

definition checked_encoded_length :: "nat \<Rightarrow> nat \<Rightarrow> (nat, FrameError) result" where
  "checked_encoded_length header_length payload_length =
     (if payload_length > MAX_PAYLOAD_LENGTH then Err PayloadTooLarge
      else ok_or (case checked_add u64_max header_length payload_length of
                    None \<Rightarrow> None
                  | Some n \<Rightarrow> checked_add u64_max n CHECKSUM_LENGTH) PayloadTooLarge)"

text \<open>The header up to its own checksum.\<close>

definition header_fields :: "RecordMetadata \<Rightarrow> nat \<Rightarrow> string" where
  "header_fields m payload_length =
     MAGIC @ to_be_bytes 2 SCHEMA_VERSION @ to_be_bytes 2 HEADER_LENGTH @ to_be_bytes 4 (rm_flags m)
     @ to_be_bytes 4 (rm_stream_id m) @ to_be_bytes 8 (rm_connection_epoch m)
     @ to_be_bytes 8 (rm_record_sequence m) @ i64_to_be_bytes (rm_receive_wall_time_ns m)
     @ to_be_bytes 8 (rm_receive_monotonic_time_ns m) @ to_be_bytes 4 payload_length"

definition frame_encode :: "(string \<Rightarrow> 32 word) \<Rightarrow> RecordMetadata \<Rightarrow> string \<Rightarrow> (string, FrameError) result" where
  "frame_encode crc m payload =
     (if rm_flags m \<noteq> SUPPORTED_FLAGS then Err (UnsupportedFlags (rm_flags m))
      else if length payload > MAX_PAYLOAD_LENGTH then Err PayloadTooLarge
      else if length payload > u32_max then Err PayloadTooLarge
      else let fields = header_fields m (length payload);
               header = fields @ crc_bytes crc fields;
               body = header @ payload
           in Ok (body @ crc_bytes crc body))"

definition frame_encoded_length :: "RecordMetadata \<Rightarrow> nat \<Rightarrow> (nat, FrameError) result" where
  "frame_encoded_length m payload_length =
     (if rm_flags m \<noteq> SUPPORTED_FLAGS then Err (UnsupportedFlags (rm_flags m))
      else checked_encoded_length HEADER_LENGTH payload_length)"

definition encode_legacy :: "(string \<Rightarrow> 32 word) \<Rightarrow> string \<Rightarrow> (string, FrameError) result" where
  "encode_legacy crc payload =
     (if length payload > MAX_PAYLOAD_LENGTH then Err PayloadTooLarge
      else if length payload > u32_max then Err PayloadTooLarge
      else Ok (MAGIC @ to_be_bytes 2 LEGACY_SCHEMA_VERSION @ to_be_bytes 4 (length payload) @ payload
               @ crc_bytes crc payload))"

subsection \<open>Reading\<close>

definition read_u16 :: "string \<Rightarrow> nat \<Rightarrow> nat" where
  "read_u16 bytes offset = from_be_bytes (slice_at offset 2 bytes)"

definition decode_legacy :: "(string \<Rightarrow> 32 word) \<Rightarrow> string \<Rightarrow> (DecodedFrame, FrameError) result" where
  "decode_legacy crc bytes =
     (if length bytes < LEGACY_HEADER_LENGTH then Err Incomplete
      else let payload_length = from_be_bytes (slice_at (8 + 2) 4 bytes)
           in and_then (checked_encoded_length LEGACY_HEADER_LENGTH payload_length) (\<lambda>encoded_length.
                if length bytes < encoded_length then Err Incomplete
                else let payload = slice_at LEGACY_HEADER_LENGTH payload_length bytes;
                         expected = slice_at (LEGACY_HEADER_LENGTH + payload_length) 4 bytes
                     in if unat (crc payload) \<noteq> from_be_bytes expected then Err FrameChecksumMismatch
                        else Ok \<lparr> df_format = LegacyV1, df_metadata = None, df_payload = payload,
                                  df_encoded_length = encoded_length \<rparr>))"

definition decode_v2_header ::
  "(string \<Rightarrow> 32 word) \<Rightarrow> string \<Rightarrow> (RecordMetadata \<times> nat, FrameError) result" where
  "decode_v2_header crc bytes =
     (if length bytes < HEADER_LENGTH then Err Incomplete
      else if take 8 bytes \<noteq> MAGIC then Err InvalidMagic
      else if read_u16 bytes VERSION_OFFSET \<noteq> SCHEMA_VERSION
      then Err (UnsupportedSchema (read_u16 bytes VERSION_OFFSET))
      else if read_u16 bytes HEADER_LENGTH_OFFSET \<noteq> HEADER_LENGTH
      then Err (InvalidHeaderLength (read_u16 bytes HEADER_LENGTH_OFFSET))
      else if from_be_bytes (slice_at FLAGS_OFFSET 4 bytes) \<noteq> SUPPORTED_FLAGS
      then Err (UnsupportedFlags (from_be_bytes (slice_at FLAGS_OFFSET 4 bytes)))
      else if from_be_bytes (slice_at PAYLOAD_LENGTH_OFFSET 4 bytes) > MAX_PAYLOAD_LENGTH
      then Err PayloadTooLarge
      else if unat (crc (take HEADER_CHECKSUM_OFFSET bytes))
              \<noteq> from_be_bytes (slice_at HEADER_CHECKSUM_OFFSET 4 bytes)
      then Err HeaderChecksumMismatch
      else Ok (\<lparr> rm_flags = from_be_bytes (slice_at FLAGS_OFFSET 4 bytes),
                 rm_stream_id = from_be_bytes (slice_at STREAM_ID_OFFSET 4 bytes),
                 rm_connection_epoch = from_be_bytes (slice_at CONNECTION_EPOCH_OFFSET 8 bytes),
                 rm_record_sequence = from_be_bytes (slice_at RECORD_SEQUENCE_OFFSET 8 bytes),
                 rm_receive_wall_time_ns = i64_from_be_bytes (slice_at RECEIVE_WALL_TIME_OFFSET 8 bytes),
                 rm_receive_monotonic_time_ns =
                   from_be_bytes (slice_at RECEIVE_MONOTONIC_TIME_OFFSET 8 bytes) \<rparr>,
               from_be_bytes (slice_at PAYLOAD_LENGTH_OFFSET 4 bytes)))"

definition decode_v2 :: "(string \<Rightarrow> 32 word) \<Rightarrow> string \<Rightarrow> (DecodedFrame, FrameError) result" where
  "decode_v2 crc bytes =
     and_then (decode_v2_header crc bytes) (\<lambda>(m, payload_length).
     and_then (checked_encoded_length HEADER_LENGTH payload_length) (\<lambda>encoded_length.
       if length bytes < encoded_length then Err Incomplete
       else let payload = slice_at HEADER_LENGTH payload_length bytes;
                expected = slice_at (HEADER_LENGTH + payload_length) 4 bytes
            in if unat (crc (take (HEADER_LENGTH + payload_length) bytes)) \<noteq> from_be_bytes expected
               then Err FrameChecksumMismatch
               else Ok \<lparr> df_format = V2, df_metadata = Some m, df_payload = payload,
                         df_encoded_length = encoded_length \<rparr>))"

definition frame_decode :: "(string \<Rightarrow> 32 word) \<Rightarrow> string \<Rightarrow> (DecodedFrame, FrameError) result" where
  "frame_decode crc bytes =
     (if length bytes < 8 + 2 then Err Incomplete
      else if take 8 bytes \<noteq> MAGIC then Err InvalidMagic
      else let version = read_u16 bytes VERSION_OFFSET
           in if version = LEGACY_SCHEMA_VERSION then decode_legacy crc bytes
              else if version = SCHEMA_VERSION then decode_v2 crc bytes
              else Err (UnsupportedSchema version))"

definition decode_legacy_header :: "string \<Rightarrow> (nat, FrameError) result" where
  "decode_legacy_header bytes =
     (if length bytes < LEGACY_HEADER_LENGTH then Err Incomplete
      else if take 8 bytes \<noteq> MAGIC then Err InvalidMagic
      else if read_u16 bytes VERSION_OFFSET \<noteq> LEGACY_SCHEMA_VERSION
      then Err (UnsupportedSchema (read_u16 bytes VERSION_OFFSET))
      else if from_be_bytes (slice_at (8 + 2) 4 bytes) > MAX_PAYLOAD_LENGTH then Err PayloadTooLarge
      else Ok (from_be_bytes (slice_at (8 + 2) 4 bytes)))"

definition is_valid_partial_header_prefix :: "string \<Rightarrow> bool" where
  "is_valid_partial_header_prefix bytes \<longleftrightarrow>
     (if bytes = [] \<or> length bytes \<ge> HEADER_LENGTH then False
      else let immutable_prefix = MAGIC @ to_be_bytes 2 SCHEMA_VERSION @ to_be_bytes 2 HEADER_LENGTH
                                  @ to_be_bytes 4 SUPPORTED_FLAGS;
               validated_length = min (length bytes) (length immutable_prefix)
           in take validated_length bytes = take validated_length immutable_prefix)"

subsection \<open>Headers\<close>

lemma length_MAGIC [simp]: "length MAGIC = 8"
  by (simp add: MAGIC_def)

lemma length_crc_bytes [simp]: "length (crc_bytes crc bs) = 4"
  by (simp add: crc_bytes_def)

lemma length_header_fields [simp]: "length (header_fields m n) = 56"
  by (simp add: header_fields_def bei64.width)

lemma unat_u32 [simp]: "unat (w :: 32 word) \<le> u32_max"
  using unsigned_less [of w, where ?'a = nat] by (simp add: u32_max_def)

lemma crc_bytes_eq_iff:
  "length bs = 4 \<Longrightarrow> unat (crc fs) = from_be_bytes bs \<longleftrightarrow> crc_bytes crc fs = bs"
  unfolding crc_bytes_def by (metis be32.read_back be32.write_back unat_u32)

lemma header_constants_u16: "SCHEMA_VERSION \<le> u16_max" "LEGACY_SCHEMA_VERSION \<le> u16_max" "HEADER_LENGTH \<le> u16_max"
  by (simp_all add: frame_constants u16_max_def)

lemma max_payload_u32: "n \<le> MAX_PAYLOAD_LENGTH \<Longrightarrow> n \<le> u32_max"
  by (simp add: MAX_PAYLOAD_LENGTH_def u32_max_def)

text \<open>The header decoder accepts exactly the headers that the encoder writes.\<close>

lemma header_fields_read:
  assumes "record_metadata_typed m" "n \<le> u32_max"
  shows "take 8 (header_fields m n @ rest) = MAGIC"
    "read_u16 (header_fields m n @ rest) VERSION_OFFSET = SCHEMA_VERSION"
    "read_u16 (header_fields m n @ rest) HEADER_LENGTH_OFFSET = HEADER_LENGTH"
    "from_be_bytes (slice_at FLAGS_OFFSET 4 (header_fields m n @ rest)) = rm_flags m"
    "from_be_bytes (slice_at STREAM_ID_OFFSET 4 (header_fields m n @ rest)) = rm_stream_id m"
    "from_be_bytes (slice_at CONNECTION_EPOCH_OFFSET 8 (header_fields m n @ rest)) = rm_connection_epoch m"
    "from_be_bytes (slice_at RECORD_SEQUENCE_OFFSET 8 (header_fields m n @ rest)) = rm_record_sequence m"
    "i64_from_be_bytes (slice_at RECEIVE_WALL_TIME_OFFSET 8 (header_fields m n @ rest)) = rm_receive_wall_time_ns m"
    "from_be_bytes (slice_at RECEIVE_MONOTONIC_TIME_OFFSET 8 (header_fields m n @ rest))
       = rm_receive_monotonic_time_ns m"
    "from_be_bytes (slice_at PAYLOAD_LENGTH_OFFSET 4 (header_fields m n @ rest)) = n"
  using assms header_constants_u16
  by (simp_all add: header_fields_def read_u16_def VERSION_OFFSET_def HEADER_LENGTH_OFFSET_def FLAGS_OFFSET_def
      STREAM_ID_OFFSET_def CONNECTION_EPOCH_OFFSET_def RECORD_SEQUENCE_OFFSET_def RECEIVE_WALL_TIME_OFFSET_def
      RECEIVE_MONOTONIC_TIME_OFFSET_def PAYLOAD_LENGTH_OFFSET_def slice_at_skip slice_at_front bei64.width
      be16.read_back be32.read_back be64.read_back bei64.read_back record_metadata_typed_def)

lemma header_fields_write:
  assumes n: "56 \<le> length bs" and magic: "take 8 bs = MAGIC"
    and version: "read_u16 bs VERSION_OFFSET = SCHEMA_VERSION"
    and header: "read_u16 bs HEADER_LENGTH_OFFSET = HEADER_LENGTH"
  shows "header_fields
     \<lparr> rm_flags = from_be_bytes (slice_at FLAGS_OFFSET 4 bs),
       rm_stream_id = from_be_bytes (slice_at STREAM_ID_OFFSET 4 bs),
       rm_connection_epoch = from_be_bytes (slice_at CONNECTION_EPOCH_OFFSET 8 bs),
       rm_record_sequence = from_be_bytes (slice_at RECORD_SEQUENCE_OFFSET 8 bs),
       rm_receive_wall_time_ns = i64_from_be_bytes (slice_at RECEIVE_WALL_TIME_OFFSET 8 bs),
       rm_receive_monotonic_time_ns = from_be_bytes (slice_at RECEIVE_MONOTONIC_TIME_OFFSET 8 bs) \<rparr>
     (from_be_bytes (slice_at PAYLOAD_LENGTH_OFFSET 4 bs)) = take 56 bs"
proof -
  have "MAGIC = slice_at 0 8 bs" using magic by (simp add: slice_at_0)
  moreover have "to_be_bytes 2 SCHEMA_VERSION = slice_at 8 2 bs"
    using be16.write_slice [of 8 bs] n version by (simp add: read_u16_def VERSION_OFFSET_def)
  moreover have "to_be_bytes 2 HEADER_LENGTH = slice_at 10 2 bs"
    using be16.write_slice [of 10 bs] n header by (simp add: read_u16_def VERSION_OFFSET_def HEADER_LENGTH_OFFSET_def)
  moreover have "slice_at 0 8 bs @ slice_at 8 2 bs @ slice_at 10 2 bs @ slice_at 12 4 bs @ slice_at 16 4 bs
      @ slice_at 20 8 bs @ slice_at 28 8 bs @ slice_at 36 8 bs @ slice_at 44 8 bs @ slice_at 52 4 bs = take 56 bs"
    using slice_at_append [of 44 8 bs 4] slice_at_append [of 36 8 bs 12] slice_at_append [of 28 8 bs 20]
      slice_at_append [of 20 8 bs 28] slice_at_append [of 16 4 bs 36] slice_at_append [of 12 4 bs 40]
      slice_at_append [of 10 2 bs 44] slice_at_append [of 8 2 bs 46] slice_at_append [of 0 8 bs 48]
    by (simp add: slice_at_0)
  ultimately show ?thesis
    using n by (simp add: header_fields_def VERSION_OFFSET_def HEADER_LENGTH_OFFSET_def FLAGS_OFFSET_def
      STREAM_ID_OFFSET_def CONNECTION_EPOCH_OFFSET_def RECORD_SEQUENCE_OFFSET_def RECEIVE_WALL_TIME_OFFSET_def
      RECEIVE_MONOTONIC_TIME_OFFSET_def PAYLOAD_LENGTH_OFFSET_def
      be32.write_slice be64.write_slice bei64.write_slice)
qed

definition frame_header :: "(string \<Rightarrow> 32 word) \<Rightarrow> RecordMetadata \<Rightarrow> nat \<Rightarrow> string" where
  "frame_header crc m n = header_fields m n @ crc_bytes crc (header_fields m n)"

lemma length_frame_header [simp]: "length (frame_header crc m n) = HEADER_LENGTH"
  by (simp add: frame_header_def HEADER_LENGTH_def)

lemma decode_v2_header_written:
  assumes m: "record_metadata_typed m" "rm_flags m = SUPPORTED_FLAGS" "n \<le> MAX_PAYLOAD_LENGTH"
  shows "decode_v2_header crc (frame_header crc m n @ rest) = Ok (m, n)"
proof -
  note fields = header_fields_read [OF m(1) max_payload_u32 [OF m(3)], of "crc_bytes crc (header_fields m n) @ rest"]
  have offset: "HEADER_CHECKSUM_OFFSET = 56" by (simp add: frame_constants)
  have "slice_at 56 4 (header_fields m n @ crc_bytes crc (header_fields m n) @ rest) = crc_bytes crc (header_fields m n)"
    by (simp add: slice_at_skip slice_at_front)
  moreover have "unat (crc (header_fields m n)) = from_be_bytes (crc_bytes crc (header_fields m n))"
    by (simp add: crc_bytes_eq_iff)
  ultimately show ?thesis
    using m fields by (simp add: decode_v2_header_def frame_header_def HEADER_LENGTH_def offset)
qed

lemma decode_v2_header_read:
  assumes "decode_v2_header crc bs = Ok (m, n)"
  shows "record_metadata_typed m" "rm_flags m = SUPPORTED_FLAGS" "n \<le> MAX_PAYLOAD_LENGTH"
    "HEADER_LENGTH \<le> length bs" "take HEADER_LENGTH bs = frame_header crc m n"
proof -
  note decoded = assms [unfolded decode_v2_header_def]
  have len: "60 \<le> length bs" using decoded by (simp add: HEADER_LENGTH_def split: if_splits)
  have m: "m = \<lparr> rm_flags = from_be_bytes (slice_at FLAGS_OFFSET 4 bs),
       rm_stream_id = from_be_bytes (slice_at STREAM_ID_OFFSET 4 bs),
       rm_connection_epoch = from_be_bytes (slice_at CONNECTION_EPOCH_OFFSET 8 bs),
       rm_record_sequence = from_be_bytes (slice_at RECORD_SEQUENCE_OFFSET 8 bs),
       rm_receive_wall_time_ns = i64_from_be_bytes (slice_at RECEIVE_WALL_TIME_OFFSET 8 bs),
       rm_receive_monotonic_time_ns = from_be_bytes (slice_at RECEIVE_MONOTONIC_TIME_OFFSET 8 bs) \<rparr>"
    and n: "n = from_be_bytes (slice_at PAYLOAD_LENGTH_OFFSET 4 bs)"
    using decoded by (simp_all split: if_splits)
  have fields: "header_fields m n = take 56 bs"
    unfolding m n using decoded len by (intro header_fields_write) (simp_all split: if_splits)
  have "unat (crc (take 56 bs)) = from_be_bytes (slice_at 56 4 bs)"
    using decoded by (simp add: frame_constants split: if_splits)
  then have "crc_bytes crc (take 56 bs) = slice_at 56 4 bs" using len by (simp add: crc_bytes_eq_iff)
  then show "take HEADER_LENGTH bs = frame_header crc m n"
    using slice_at_append [of 0 56 bs 4] by (simp add: frame_header_def fields slice_at_0 HEADER_LENGTH_def)
  show "record_metadata_typed m"
    using len unfolding m
    by (simp add: record_metadata_typed_def frame_constants be32.slice_valid be64.slice_valid
        conjunct1 [OF bei64.slice_valid] conjunct2 [OF bei64.slice_valid])
  show "rm_flags m = SUPPORTED_FLAGS" "n \<le> MAX_PAYLOAD_LENGTH" "HEADER_LENGTH \<le> length bs"
    using decoded len by (auto simp: m n HEADER_LENGTH_def split: if_splits)
qed

subsection \<open>Frames\<close>

lemma checked_encoded_length_Ok_iff:
  "checked_encoded_length h n = Ok k \<longleftrightarrow> n \<le> MAX_PAYLOAD_LENGTH \<and> k = h + n + 4 \<and> h + n + 4 \<le> u64_max"
  by (auto simp: checked_encoded_length_def CHECKSUM_LENGTH_def result_simps machine_simps split: option.splits)
    (auto simp: checked_add_def split: if_splits)

lemma frame_encode_Ok_iff:
  "frame_encode crc m p = Ok enc \<longleftrightarrow>
     rm_flags m = SUPPORTED_FLAGS \<and> length p \<le> MAX_PAYLOAD_LENGTH
     \<and> enc = frame_header crc m (length p) @ p @ crc_bytes crc (frame_header crc m (length p) @ p)"
  using max_payload_u32 [of "length p"]
  by (auto simp: frame_encode_def frame_header_def Let_def split: if_splits)

lemma encode_legacy_Ok_iff:
  "encode_legacy crc p = Ok enc \<longleftrightarrow> length p \<le> MAX_PAYLOAD_LENGTH
     \<and> enc = (MAGIC @ to_be_bytes 2 LEGACY_SCHEMA_VERSION @ to_be_bytes 4 (length p)) @ p @ crc_bytes crc p"
  using max_payload_u32 [of "length p"] by (auto simp: encode_legacy_def split: if_splits)

lemma frame_encode_length:
  "frame_encode crc m p = Ok enc \<Longrightarrow> frame_encoded_length m (length p) = Ok (length enc)"
  by (auto simp: frame_encode_Ok_iff frame_encoded_length_def checked_encoded_length_Ok_iff HEADER_LENGTH_def
      MAX_PAYLOAD_LENGTH_def u64_max_def)

text \<open>A decoded frame stands for the bytes that encoding its contents gives.\<close>

definition frame_of :: "(string \<Rightarrow> 32 word) \<Rightarrow> DecodedFrame \<Rightarrow> string \<Rightarrow> bool" where
  "frame_of crc f enc \<longleftrightarrow> df_encoded_length f = length enc
     \<and> (case df_metadata f of
          None \<Rightarrow> df_format f = LegacyV1 \<and> encode_legacy crc (df_payload f) = Ok enc
        | Some m \<Rightarrow> df_format f = V2 \<and> record_metadata_typed m \<and> frame_encode crc m (df_payload f) = Ok enc)"

lemma encoded_length_fits:
  "n \<le> MAX_PAYLOAD_LENGTH \<Longrightarrow> HEADER_LENGTH + n + 4 \<le> u64_max"
  "n \<le> MAX_PAYLOAD_LENGTH \<Longrightarrow> LEGACY_HEADER_LENGTH + n + 4 \<le> u64_max"
  by (simp_all add: MAX_PAYLOAD_LENGTH_def u64_max_def frame_constants)

lemma slices_of_body:
  assumes "length header = h"
  shows "slice_at h (length p) (header @ p @ c @ rest) = p"
    "take (h + length p) (header @ p @ c @ rest) = header @ p"
    "length c = 4 \<Longrightarrow> slice_at (h + length p) 4 (header @ p @ c @ rest) = c"
  using assms by (simp_all add: slice_at_def)

lemma decode_v2_written:
  assumes "record_metadata_typed m" and enc: "frame_encode crc m p = Ok enc"
  shows "decode_v2 crc (enc @ rest) =
    Ok \<lparr> df_format = V2, df_metadata = Some m, df_payload = p, df_encoded_length = length enc \<rparr>"
proof -
  let ?h = "frame_header crc m (length p)"
  have p: "rm_flags m = SUPPORTED_FLAGS" "length p \<le> MAX_PAYLOAD_LENGTH"
    and enc_eq: "enc = ?h @ p @ crc_bytes crc (?h @ p)"
    using enc by (simp_all add: frame_encode_Ok_iff)
  have "decode_v2_header crc (enc @ rest) = Ok (m, length p)"
    unfolding enc_eq append_assoc by (rule decode_v2_header_written) fact+
  moreover have "checked_encoded_length HEADER_LENGTH (length p) = Ok (length enc)"
    using p encoded_length_fits(1) [of "length p"] by (simp add: checked_encoded_length_Ok_iff enc_eq)
  moreover have "unat (crc (?h @ p)) = from_be_bytes (crc_bytes crc (?h @ p))"
    by (simp add: crc_bytes_eq_iff)
  ultimately show ?thesis
    using slices_of_body [of ?h HEADER_LENGTH, where p = p and c = "crc_bytes crc (?h @ p)" and rest = rest]
    by (simp add: decode_v2_def enc_eq)
qed

lemma decode_v2_read:
  assumes "decode_v2 crc bs = Ok f"
  shows "\<exists>enc rest. bs = enc @ rest \<and> frame_of crc f enc"
proof -
  from assms obtain m n where hd: "decode_v2_header crc bs = Ok (m, n)"
    by (auto simp: decode_v2_def result_simps)
  note header = decode_v2_header_read [OF hd]
  have len: "HEADER_LENGTH + n + 4 \<le> length bs"
    and check: "unat (crc (take (HEADER_LENGTH + n) bs)) = from_be_bytes (slice_at (HEADER_LENGTH + n) 4 bs)"
    and f: "f = \<lparr> df_format = V2, df_metadata = Some m, df_payload = slice_at HEADER_LENGTH n bs,
       df_encoded_length = HEADER_LENGTH + n + 4 \<rparr>"
    using assms by (auto simp: decode_v2_def hd result_simps checked_encoded_length_Ok_iff Let_def split: if_splits)
  let ?p = "slice_at HEADER_LENGTH n bs"
  have body: "take (HEADER_LENGTH + n) bs = frame_header crc m n @ ?p"
    using slice_at_append [of 0 HEADER_LENGTH bs n] header(5) by (simp add: slice_at_0)
  have n: "length ?p = n" using len by simp
  let ?enc = "frame_header crc m n @ ?p @ crc_bytes crc (frame_header crc m n @ ?p)"
  have "crc_bytes crc (frame_header crc m n @ ?p) = slice_at (HEADER_LENGTH + n) 4 bs"
    using check len unfolding body by (subst (asm) crc_bytes_eq_iff) simp_all
  then have "bs = ?enc @ drop (HEADER_LENGTH + n + 4) bs"
    using split_at [of "HEADER_LENGTH + n" 4 bs] len body by simp
  moreover have "frame_of crc f ?enc"
    using header n by (simp add: frame_of_def f frame_encode_Ok_iff)
  ultimately show ?thesis by blast
qed

lemma legacy_header_read:
  assumes "n \<le> MAX_PAYLOAD_LENGTH"
  shows "take 8 (MAGIC @ to_be_bytes 2 LEGACY_SCHEMA_VERSION @ to_be_bytes 4 n @ rest) = MAGIC"
    "read_u16 (MAGIC @ to_be_bytes 2 LEGACY_SCHEMA_VERSION @ to_be_bytes 4 n @ rest) VERSION_OFFSET = LEGACY_SCHEMA_VERSION"
    "from_be_bytes (slice_at (8 + 2) 4 (MAGIC @ to_be_bytes 2 LEGACY_SCHEMA_VERSION @ to_be_bytes 4 n @ rest)) = n"
  using assms max_payload_u32 [of n] header_constants_u16
  by (simp_all add: read_u16_def VERSION_OFFSET_def slice_at_skip slice_at_front be16.read_back be32.read_back)

lemma decode_legacy_written:
  assumes enc: "encode_legacy crc p = Ok enc"
  shows "decode_legacy crc (enc @ rest) =
    Ok \<lparr> df_format = LegacyV1, df_metadata = None, df_payload = p, df_encoded_length = length enc \<rparr>"
proof -
  let ?h = "MAGIC @ to_be_bytes 2 LEGACY_SCHEMA_VERSION @ to_be_bytes 4 (length p)"
  have p: "length p \<le> MAX_PAYLOAD_LENGTH" and enc_eq: "enc = ?h @ p @ crc_bytes crc p"
    using enc by (simp_all add: encode_legacy_Ok_iff)
  have h: "length ?h = LEGACY_HEADER_LENGTH" by (simp add: LEGACY_HEADER_LENGTH_def)
  have "from_be_bytes (slice_at (8 + 2) 4 (enc @ rest)) = length p"
    using legacy_header_read(3) [OF p, of "p @ crc_bytes crc p @ rest"] by (simp add: enc_eq)
  moreover have "checked_encoded_length LEGACY_HEADER_LENGTH (length p) = Ok (length enc)"
    using p encoded_length_fits(2) [of "length p"] h by (simp add: checked_encoded_length_Ok_iff enc_eq)
  moreover have "unat (crc p) = from_be_bytes (crc_bytes crc p)"
    by (simp add: crc_bytes_eq_iff)
  ultimately show ?thesis
    using slices_of_body [OF h, where p = p and c = "crc_bytes crc p" and rest = rest] h
    by (simp add: decode_legacy_def enc_eq Let_def)
qed

lemma decode_legacy_read:
  assumes "decode_legacy crc bs = Ok f" and magic: "take 8 bs = MAGIC"
    and version: "read_u16 bs VERSION_OFFSET = LEGACY_SCHEMA_VERSION"
  shows "\<exists>enc rest. bs = enc @ rest \<and> frame_of crc f enc"
proof -
  define n where "n = from_be_bytes (slice_at 10 4 bs)"
  let ?p = "slice_at LEGACY_HEADER_LENGTH n bs"
  let ?h = "MAGIC @ to_be_bytes 2 LEGACY_SCHEMA_VERSION @ to_be_bytes 4 n"
  have len: "LEGACY_HEADER_LENGTH + n + 4 \<le> length bs" and n: "n \<le> MAX_PAYLOAD_LENGTH"
    and check: "unat (crc ?p) = from_be_bytes (slice_at (LEGACY_HEADER_LENGTH + n) 4 bs)"
    and f: "f = \<lparr> df_format = LegacyV1, df_metadata = None, df_payload = ?p,
       df_encoded_length = LEGACY_HEADER_LENGTH + n + 4 \<rparr>"
    using assms(1)
    by (auto simp: decode_legacy_def n_def [symmetric] result_simps checked_encoded_length_Ok_iff Let_def split: if_splits)
  have "to_be_bytes 2 LEGACY_SCHEMA_VERSION = slice_at 8 2 bs"
    using be16.write_slice [of 8 bs] version len by (simp add: read_u16_def VERSION_OFFSET_def LEGACY_HEADER_LENGTH_def)
  moreover have "to_be_bytes 4 n = slice_at 10 4 bs"
    using be32.write_slice [of 10 bs] len by (simp add: n_def LEGACY_HEADER_LENGTH_def)
  ultimately have "?h = take LEGACY_HEADER_LENGTH bs"
    using slice_at_append [of 8 2 bs 4] slice_at_append [of 0 8 bs 6] magic
    by (simp add: slice_at_0 LEGACY_HEADER_LENGTH_def)
  then have body: "take (LEGACY_HEADER_LENGTH + n) bs = ?h @ ?p"
    using slice_at_append [of 0 LEGACY_HEADER_LENGTH bs n] by (simp add: slice_at_0)
  have p: "length ?p = n" using len by simp
  have "crc_bytes crc ?p = slice_at (LEGACY_HEADER_LENGTH + n) 4 bs"
    using check len by (subst (asm) crc_bytes_eq_iff) simp_all
  then have "bs = (?h @ ?p @ crc_bytes crc ?p) @ drop (LEGACY_HEADER_LENGTH + n + 4) bs"
    using split_at [of "LEGACY_HEADER_LENGTH + n" 4 bs] len body by simp
  moreover have "frame_of crc f (?h @ ?p @ crc_bytes crc ?p)"
    using n p by (simp add: frame_of_def f encode_legacy_Ok_iff LEGACY_HEADER_LENGTH_def)
  ultimately show ?thesis by blast
qed

lemma frame_decode_written:
  assumes "frame_of crc f enc"
  shows "frame_decode crc (enc @ rest) = Ok f"
proof (cases "df_metadata f")
  case None
  then have enc: "encode_legacy crc (df_payload f) = Ok enc" and f: "df_format f = LegacyV1" "df_encoded_length f = length enc"
    using assms by (simp_all add: frame_of_def)
  then have n: "length (df_payload f) \<le> MAX_PAYLOAD_LENGTH" by (simp add: encode_legacy_Ok_iff)
  have "take 8 (enc @ rest) = MAGIC" "read_u16 (enc @ rest) VERSION_OFFSET = LEGACY_SCHEMA_VERSION" "10 \<le> length enc"
    using enc legacy_header_read [OF n, of "df_payload f @ crc_bytes crc (df_payload f) @ rest"]
    by (simp_all add: encode_legacy_Ok_iff)
  then show ?thesis
    using decode_legacy_written [OF enc, of rest] f None by (simp add: frame_decode_def)
next
  case (Some m)
  then have enc: "frame_encode crc m (df_payload f) = Ok enc" and m: "record_metadata_typed m"
    and f: "df_format f = V2" "df_encoded_length f = length enc"
    using assms by (simp_all add: frame_of_def)
  let ?n = "length (df_payload f)"
  have "?n \<le> u32_max" using enc by (simp add: frame_encode_Ok_iff max_payload_u32)
  note fields = header_fields_read(1,2) [OF m this, of "crc_bytes crc (header_fields m ?n) @ df_payload f
    @ crc_bytes crc (frame_header crc m ?n @ df_payload f) @ rest"]
  have "take 8 (enc @ rest) = MAGIC" "read_u16 (enc @ rest) VERSION_OFFSET = SCHEMA_VERSION" "10 \<le> length enc"
    using enc fields by (simp_all add: frame_encode_Ok_iff frame_header_def)
  then show ?thesis
    using decode_v2_written [OF m enc, of rest] f Some
    by (simp add: frame_decode_def LEGACY_SCHEMA_VERSION_def SCHEMA_VERSION_def)
qed

lemma frame_decode_read:
  assumes "frame_decode crc bs = Ok f"
  shows "\<exists>enc rest. bs = enc @ rest \<and> frame_of crc f enc"
  using assms decode_v2_read [of crc bs f] decode_legacy_read [of crc bs f]
  by (auto simp: frame_decode_def Let_def split: if_splits)

subsection \<open>Property\<close>

text \<open>
  C24. Frames decode exactly. Decoding accepts a byte slice exactly when the slice begins with the
  encoding of some contents, of the legacy or of the current schema, and it then returns those
  contents and the number of bytes they occupy; whatever follows the frame is not looked at.
\<close>

theorem frame_decode_exact:
  "frame_decode crc bs = Ok f \<longleftrightarrow> (\<exists>enc rest. bs = enc @ rest \<and> frame_of crc f enc)"
  using frame_decode_read [of crc bs f] frame_decode_written [of crc f] by blast

end
