(* ===== verification/Wal_Prologue.thy ===== *)
theory Wal_Prologue
  imports Wal_Frame
begin

text \<open>
  \<open>raw-wal/src/prologue.rs\<close>: the identity block at the head of a segment. It names the segment, its
  creator and the streams whose records the segment may hold, and ends in a CRC-32C, which is the
  parameter \<open>crc\<close> as in the frames.
\<close>

subsection \<open>Constants and data\<close>

definition PROLOGUE_MAGIC :: string where "PROLOGUE_MAGIC = ''CMTISEG2''"
definition FORMAT_VERSION :: nat where "FORMAT_VERSION = 2"
definition PROLOGUE_FLAGS :: nat where "PROLOGUE_FLAGS = 0"
definition FIXED_HEADER_LENGTH :: nat where "FIXED_HEADER_LENGTH = 8 + 2 + 2 + 4 + 16 + 8 + 2 + 2 + 2 + 2"
definition MAX_HEADER_LENGTH :: nat where "MAX_HEADER_LENGTH = u16_max"
definition MAX_IDENTIFIER_LENGTH :: nat where "MAX_IDENTIFIER_LENGTH = 1024"
definition MAX_STREAMS :: nat where "MAX_STREAMS = 4096"
definition STREAM_FIXED_LENGTH :: nat where "STREAM_FIXED_LENGTH = 4 + 2 + 2"

datatype PrologueError =
    Incomplete
  | InvalidMagic
  | UnsupportedVersion nat
  | InvalidHeaderLength nat
  | UnsupportedFlags nat
  | ChecksumMismatch
  | InvalidSegmentId
  | InvalidCreatedTime
  | InvalidStreamId
  | MissingStreams
  | DuplicateStreamId nat
  | NonCanonicalStreamOrder
  | TooManyStreams nat nat
  | InvalidIdentifier string
  | IdentifierTooLong string nat nat
  | HeaderTooLarge
  | InvalidUtf8

record StreamDescriptor =
  sd_stream_id :: nat
  sd_source_name :: string
  sd_stream_name :: string

record SegmentMetadata =
  sm_segment_id :: string
  sm_created_wall_time_ns :: int
  sm_schema_id :: string
  sm_installation_id :: string
  sm_build_id :: string
  sm_streams :: "StreamDescriptor list"

record DecodedPrologue =
  dp_metadata :: SegmentMetadata
  dp_encoded_length :: nat

subsection \<open>Construction\<close>

definition identifier_byte :: "char \<Rightarrow> bool" where
  "identifier_byte c \<longleftrightarrow>
     (let n = of_char c :: nat
      in (48 \<le> n \<and> n \<le> 57) \<or> (65 \<le> n \<and> n \<le> 90) \<or> (97 \<le> n \<and> n \<le> 122)
         \<or> c \<in> {CHR ''-'', CHR ''_'', CHR ''.'', CHR '':'', CHR ''/''})"

definition validate_identifier :: "string \<Rightarrow> string \<Rightarrow> (unit, PrologueError) result" where
  "validate_identifier field value =
     (if length value > MAX_IDENTIFIER_LENGTH
      then Err (IdentifierTooLong field (length value) MAX_IDENTIFIER_LENGTH)
      else if value = [] \<or> \<not> list_all identifier_byte value then Err (InvalidIdentifier field)
      else Ok ())"

definition stream_descriptor_new :: "nat \<Rightarrow> string \<Rightarrow> string \<Rightarrow> (StreamDescriptor, PrologueError) result" where
  "stream_descriptor_new stream_id source_name stream_name =
     (if stream_id = 0 then Err InvalidStreamId
      else and_then (validate_identifier ''source_name'' source_name) (\<lambda>_.
           and_then (validate_identifier ''stream_name'' stream_name) (\<lambda>_.
             Ok \<lparr> sd_stream_id = stream_id, sd_source_name = source_name, sd_stream_name = stream_name \<rparr>)))"

text \<open>A chain of \<open>checked_add\<close> on \<open>usize\<close>.\<close>

fun checked_total :: "nat \<Rightarrow> nat list \<Rightarrow> (nat, PrologueError) result" where
  "checked_total n [] = Ok n"
| "checked_total n (k # ks) = and_then (ok_or (checked_add u64_max n k) HeaderTooLarge) (\<lambda>n'. checked_total n' ks)"

fun stream_lengths :: "nat \<Rightarrow> StreamDescriptor list \<Rightarrow> (nat, PrologueError) result" where
  "stream_lengths n [] = Ok n"
| "stream_lengths n (s # ss) =
     and_then (checked_total n [STREAM_FIXED_LENGTH, length (sd_source_name s), length (sd_stream_name s)])
       (\<lambda>n'. stream_lengths n' ss)"

definition prologue_encoded_length :: "SegmentMetadata \<Rightarrow> (nat, PrologueError) result" where
  "prologue_encoded_length m =
     and_then (checked_total FIXED_HEADER_LENGTH
                 [length (sm_schema_id m), length (sm_installation_id m), length (sm_build_id m)]) (\<lambda>n.
     and_then (stream_lengths n (sm_streams m)) (\<lambda>n'.
     and_then (checked_total n' [CHECKSUM_LENGTH]) (\<lambda>total.
       if total > MAX_HEADER_LENGTH then Err HeaderTooLarge else Ok total)))"

fun check_duplicates :: "nat set \<Rightarrow> StreamDescriptor list \<Rightarrow> (unit, PrologueError) result" where
  "check_duplicates stream_ids [] = Ok ()"
| "check_duplicates stream_ids (s # ss) =
     (if sd_stream_id s \<in> stream_ids then Err (DuplicateStreamId (sd_stream_id s))
      else check_duplicates (insert (sd_stream_id s) stream_ids) ss)"

definition segment_metadata_new ::
  "string \<Rightarrow> int \<Rightarrow> string \<Rightarrow> string \<Rightarrow> string \<Rightarrow> StreamDescriptor list \<Rightarrow> (SegmentMetadata, PrologueError) result" where
  "segment_metadata_new segment_id created_wall_time_ns schema_id installation_id build_id streams =
     (if segment_id = replicate 16 (char_of (0 :: nat)) then Err InvalidSegmentId
      else if created_wall_time_ns \<le> 0 then Err InvalidCreatedTime
      else and_then (validate_identifier ''schema_id'' schema_id) (\<lambda>_.
           and_then (validate_identifier ''installation_id'' installation_id) (\<lambda>_.
           and_then (validate_identifier ''build_id'' build_id) (\<lambda>_.
             if streams = [] then Err MissingStreams
             else if length streams > MAX_STREAMS then Err (TooManyStreams (length streams) MAX_STREAMS)
             else and_then (check_duplicates {} streams) (\<lambda>_.
                  let m = \<lparr> sm_segment_id = segment_id, sm_created_wall_time_ns = created_wall_time_ns,
                            sm_schema_id = schema_id, sm_installation_id = installation_id,
                            sm_build_id = build_id, sm_streams = sort_key sd_stream_id streams \<rparr>
                  in and_then (prologue_encoded_length m) (\<lambda>_. Ok m))))))"

text \<open>
  The streams of a constructed value are sorted by distinct identifiers, where the binary search of
  the standard library finds a key exactly when it is present.
\<close>

definition contains_stream :: "SegmentMetadata \<Rightarrow> nat \<Rightarrow> bool" where
  "contains_stream m stream_id \<longleftrightarrow> list_ex (\<lambda>s. sd_stream_id s = stream_id) (sm_streams m)"

subsection \<open>Writing\<close>

definition push_length :: "nat \<Rightarrow> (string, PrologueError) result" where
  "push_length n = (if n > u16_max then Err HeaderTooLarge else Ok (to_be_bytes 2 n))"

fun push_lengths :: "nat list \<Rightarrow> (string, PrologueError) result" where
  "push_lengths [] = Ok []"
| "push_lengths (n # ns) = and_then (push_length n) (\<lambda>a. and_then (push_lengths ns) (\<lambda>b. Ok (a @ b)))"

fun encode_streams :: "StreamDescriptor list \<Rightarrow> (string, PrologueError) result" where
  "encode_streams [] = Ok []"
| "encode_streams (s # ss) =
     and_then (push_lengths [length (sd_source_name s), length (sd_stream_name s)]) (\<lambda>lengths.
     and_then (encode_streams ss) (\<lambda>rest.
       Ok (to_be_bytes 4 (sd_stream_id s) @ lengths @ sd_source_name s @ sd_stream_name s @ rest)))"

definition prologue_encode :: "(string \<Rightarrow> 32 word) \<Rightarrow> SegmentMetadata \<Rightarrow> (string, PrologueError) result" where
  "prologue_encode crc m =
     and_then (prologue_encoded_length m) (\<lambda>header_length.
       if header_length > u16_max then Err HeaderTooLarge
       else if length (sm_streams m) > u16_max then Err (TooManyStreams (length (sm_streams m)) MAX_STREAMS)
       else and_then (push_lengths [length (sm_schema_id m), length (sm_installation_id m), length (sm_build_id m)])
              (\<lambda>lengths.
            and_then (encode_streams (sm_streams m)) (\<lambda>streams.
              let encoded = PROLOGUE_MAGIC @ to_be_bytes 2 FORMAT_VERSION @ to_be_bytes 2 header_length
                    @ to_be_bytes 4 PROLOGUE_FLAGS @ sm_segment_id m @ i64_to_be_bytes (sm_created_wall_time_ns m)
                    @ lengths @ to_be_bytes 2 (length (sm_streams m))
                    @ sm_schema_id m @ sm_installation_id m @ sm_build_id m @ streams
              in Ok (encoded @ crc_bytes crc encoded))))"

subsection \<open>Reading\<close>

text \<open>What \<open>str::from_utf8\<close> accepts.\<close>

definition utf8_continuation :: "nat \<Rightarrow> nat \<Rightarrow> char \<Rightarrow> bool" where
  "utf8_continuation low high c \<longleftrightarrow> low \<le> of_char c \<and> of_char c \<le> high"

fun utf8_valid :: "string \<Rightarrow> bool" where
  "utf8_valid [] = True"
| "utf8_valid (a # bs) =
     (let n = of_char a :: nat; tail = utf8_continuation 0x80 0xBF
      in if n < 0x80 then utf8_valid bs
         else if 0xC2 \<le> n \<and> n \<le> 0xDF then
           (case bs of b # cs \<Rightarrow> tail b \<and> utf8_valid cs | _ \<Rightarrow> False)
         else if 0xE0 \<le> n \<and> n \<le> 0xEF then
           (case bs of b # c # cs \<Rightarrow>
              utf8_continuation (if n = 0xE0 then 0xA0 else 0x80) (if n = 0xED then 0x9F else 0xBF) b
              \<and> tail c \<and> utf8_valid cs
            | _ \<Rightarrow> False)
         else if 0xF0 \<le> n \<and> n \<le> 0xF4 then
           (case bs of b # c # d # cs \<Rightarrow>
              utf8_continuation (if n = 0xF0 then 0x90 else 0x80) (if n = 0xF4 then 0x8F else 0xBF) b
              \<and> tail c \<and> tail d \<and> utf8_valid cs
            | _ \<Rightarrow> False)
         else False)"

definition read_u32 :: "string \<Rightarrow> nat \<Rightarrow> nat" where
  "read_u32 bytes offset = from_be_bytes (slice_at offset 4 bytes)"

definition read_identifier :: "string \<Rightarrow> nat \<Rightarrow> nat \<Rightarrow> nat \<Rightarrow> (string \<times> nat, PrologueError) result" where
  "read_identifier bytes cursor limit len =
     (if len > MAX_IDENTIFIER_LENGTH
      then Err (IdentifierTooLong ''encoded_identifier'' len MAX_IDENTIFIER_LENGTH)
      else and_then (ok_or (checked_add u64_max cursor len) HeaderTooLarge) (\<lambda>finish.
        if finish > limit then Err (InvalidHeaderLength (min (limit + CHECKSUM_LENGTH) u16_max))
        else if \<not> utf8_valid (slice_at cursor len bytes) then Err InvalidUtf8
        else Ok (slice_at cursor len bytes, finish)))"

fun read_streams ::
  "string \<Rightarrow> nat \<Rightarrow> nat \<Rightarrow> nat \<Rightarrow> nat \<Rightarrow> nat set \<Rightarrow> (StreamDescriptor list \<times> nat, PrologueError) result" where
  "read_streams bytes limit header_length 0 cursor stream_ids = Ok ([], cursor)"
| "read_streams bytes limit header_length (Suc k) cursor stream_ids =
     and_then (ok_or (checked_add u64_max cursor STREAM_FIXED_LENGTH) HeaderTooLarge) (\<lambda>fixed_end.
       if fixed_end > limit then Err (InvalidHeaderLength header_length)
       else let stream_id = read_u32 bytes cursor;
                source_length = read_u16 bytes (cursor + 4);
                stream_length = read_u16 bytes (cursor + 4 + 2)
            in and_then (read_identifier bytes fixed_end limit source_length) (\<lambda>(source_name, c1).
               and_then (read_identifier bytes c1 limit stream_length) (\<lambda>(stream_name, c2).
                 if stream_id \<in> stream_ids then Err (DuplicateStreamId stream_id)
                 else and_then (stream_descriptor_new stream_id source_name stream_name) (\<lambda>s.
                      and_then (read_streams bytes limit header_length k c2 (insert stream_id stream_ids))
                        (\<lambda>(ss, c3). Ok (s # ss, c3))))))"

definition canonical_stream_order :: "StreamDescriptor list \<Rightarrow> bool" where
  "canonical_stream_order ss \<longleftrightarrow> sorted (map sd_stream_id ss)"

definition declared_header_length :: "string \<Rightarrow> (nat, PrologueError) result" where
  "declared_header_length bytes =
     (if length bytes < 12 then Err Incomplete
      else if take 8 bytes \<noteq> PROLOGUE_MAGIC then Err InvalidMagic
      else if read_u16 bytes 8 \<noteq> FORMAT_VERSION then Err (UnsupportedVersion (read_u16 bytes 8))
      else let header_length = read_u16 bytes 10
           in if \<not> (FIXED_HEADER_LENGTH + CHECKSUM_LENGTH \<le> header_length \<and> header_length \<le> MAX_HEADER_LENGTH)
              then Err (InvalidHeaderLength header_length)
              else Ok header_length)"

definition prologue_decode :: "(string \<Rightarrow> 32 word) \<Rightarrow> string \<Rightarrow> (DecodedPrologue, PrologueError) result" where
  "prologue_decode crc bytes =
     (let header_length = read_u16 bytes 10; flags = read_u32 bytes 12;
          limit = header_length - CHECKSUM_LENGTH; stream_count = read_u16 bytes 46
      in if length bytes < FIXED_HEADER_LENGTH then Err Incomplete
         else if take 8 bytes \<noteq> PROLOGUE_MAGIC then Err InvalidMagic
         else if read_u16 bytes 8 \<noteq> FORMAT_VERSION then Err (UnsupportedVersion (read_u16 bytes 8))
         else if \<not> (FIXED_HEADER_LENGTH + CHECKSUM_LENGTH \<le> header_length \<and> header_length \<le> MAX_HEADER_LENGTH)
         then Err (InvalidHeaderLength header_length)
         else if flags \<noteq> PROLOGUE_FLAGS then Err (UnsupportedFlags flags)
         else if length bytes < header_length then Err Incomplete
         else if unat (crc (take limit bytes)) \<noteq> read_u32 bytes limit then Err ChecksumMismatch
         else if stream_count > MAX_STREAMS then Err (TooManyStreams stream_count MAX_STREAMS)
         else and_then (read_identifier bytes FIXED_HEADER_LENGTH limit (read_u16 bytes 40)) (\<lambda>(schema_id, c1).
              and_then (read_identifier bytes c1 limit (read_u16 bytes 42)) (\<lambda>(installation_id, c2).
              and_then (read_identifier bytes c2 limit (read_u16 bytes 44)) (\<lambda>(build_id, c3).
              and_then (read_streams bytes limit header_length stream_count c3 {}) (\<lambda>(streams, c4).
                if \<not> canonical_stream_order streams then Err NonCanonicalStreamOrder
                else if c4 \<noteq> limit then Err (InvalidHeaderLength header_length)
                else and_then (segment_metadata_new (slice_at 16 16 bytes) (i64_from_be_bytes (slice_at 32 8 bytes))
                                 schema_id installation_id build_id streams) (\<lambda>m.
                     Ok \<lparr> dp_metadata = m, dp_encoded_length = header_length \<rparr>))))))"

subsection \<open>Lengths\<close>

abbreviation stream_size :: "StreamDescriptor \<Rightarrow> nat" where
  "stream_size s \<equiv> STREAM_FIXED_LENGTH + length (sd_source_name s) + length (sd_stream_name s)"

definition prologue_size :: "SegmentMetadata \<Rightarrow> nat" where
  "prologue_size m = FIXED_HEADER_LENGTH + length (sm_schema_id m) + length (sm_installation_id m)
     + length (sm_build_id m) + sum_list (map stream_size (sm_streams m)) + CHECKSUM_LENGTH"

lemma checked_total_sum: "checked_total n ks = Ok r \<Longrightarrow> r = n + sum_list ks"
proof (induction ks arbitrary: n)
  case (Cons k ks)
  then have "checked_total (n + k) ks = Ok r"
    by (simp add: checked_add_def split: if_splits)
  then show ?case using Cons.IH [of "n + k"] by simp
qed simp

lemma checked_total_Ok: "n + sum_list ks \<le> u64_max \<Longrightarrow> checked_total n ks = Ok (n + sum_list ks)"
proof (induction ks arbitrary: n)
  case (Cons k ks)
  then have "checked_total (n + k) ks = Ok (n + k + sum_list ks)" by (intro Cons.IH) simp
  then show ?case using Cons.prems by (simp add: checked_add_def)
qed simp

lemma stream_total:
  "checked_total n [STREAM_FIXED_LENGTH, length (sd_source_name s), length (sd_stream_name s)] = Ok k
     \<Longrightarrow> k = n + stream_size s"
  "n + stream_size s \<le> u64_max
     \<Longrightarrow> checked_total n [STREAM_FIXED_LENGTH, length (sd_source_name s), length (sd_stream_name s)]
         = Ok (n + stream_size s)"
  using checked_total_sum [of n "[STREAM_FIXED_LENGTH, length (sd_source_name s), length (sd_stream_name s)]" k]
    checked_total_Ok [of n "[STREAM_FIXED_LENGTH, length (sd_source_name s), length (sd_stream_name s)]"]
  by (simp_all add: add.assoc del: checked_total.simps)

lemma stream_lengths_sum: "stream_lengths n ss = Ok r \<Longrightarrow> r = n + sum_list (map stream_size ss)"
proof (induction ss arbitrary: n)
  case (Cons s ss)
  from Cons.prems obtain k where "checked_total n [STREAM_FIXED_LENGTH, length (sd_source_name s), length (sd_stream_name s)] = Ok k"
    and rest: "stream_lengths k ss = Ok r"
    unfolding stream_lengths.simps and_then_Ok_iff by blast
  from this(1) have "k = n + stream_size s" by (rule stream_total(1))
  then show ?case using Cons.IH [OF rest] by simp
qed simp

lemma stream_lengths_Ok:
  "n + sum_list (map stream_size ss) \<le> u64_max \<Longrightarrow> stream_lengths n ss = Ok (n + sum_list (map stream_size ss))"
proof (induction ss arbitrary: n)
  case (Cons s ss)
  have "stream_lengths (n + stream_size s) ss = Ok (n + stream_size s + sum_list (map stream_size ss))"
    using Cons.prems by (intro Cons.IH) simp
  moreover have "checked_total n [STREAM_FIXED_LENGTH, length (sd_source_name s), length (sd_stream_name s)]
      = Ok (n + stream_size s)"
    using Cons.prems by (intro stream_total(2)) simp
  ultimately show ?case unfolding stream_lengths.simps by (simp add: add.assoc del: checked_total.simps)
qed simp

lemma prologue_encoded_length_Ok_iff:
  "prologue_encoded_length m = Ok n \<longleftrightarrow> n = prologue_size m \<and> prologue_size m \<le> u16_max"
proof
  assume "prologue_encoded_length m = Ok n"
  then show "n = prologue_size m \<and> prologue_size m \<le> u16_max"
    by (auto simp: prologue_encoded_length_def prologue_size_def MAX_HEADER_LENGTH_def result_simps
        simp del: checked_total.simps dest!: checked_total_sum stream_lengths_sum split: if_splits)
next
  assume r: "n = prologue_size m \<and> prologue_size m \<le> u16_max"
  let ?a = "FIXED_HEADER_LENGTH + length (sm_schema_id m) + length (sm_installation_id m) + length (sm_build_id m)"
  let ?s = "sum_list (map stream_size (sm_streams m))"
  have "?a + ?s + CHECKSUM_LENGTH \<le> u64_max"
    using r by (simp add: prologue_size_def u16_max_def u64_max_def)
  then have "checked_total FIXED_HEADER_LENGTH [length (sm_schema_id m), length (sm_installation_id m), length (sm_build_id m)]
      = Ok ?a" "stream_lengths ?a (sm_streams m) = Ok (?a + ?s)"
    "checked_total (?a + ?s) [CHECKSUM_LENGTH] = Ok (prologue_size m)"
    using checked_total_Ok [of FIXED_HEADER_LENGTH "[length (sm_schema_id m), length (sm_installation_id m), length (sm_build_id m)]"]
      stream_lengths_Ok [of ?a "sm_streams m"] checked_total_Ok [of "?a + ?s" "[CHECKSUM_LENGTH]"]
    by (simp_all add: add.assoc prologue_size_def del: checked_total.simps)
  then show "prologue_encoded_length m = Ok n"
    using r by (simp add: prologue_encoded_length_def MAX_HEADER_LENGTH_def del: checked_total.simps)
qed

subsection \<open>Valid identities\<close>

abbreviation wal_identifier :: "string \<Rightarrow> bool" where
  "wal_identifier v \<equiv> v \<noteq> [] \<and> length v \<le> MAX_IDENTIFIER_LENGTH \<and> list_all identifier_byte v"

lemma validate_identifier_Ok_iff: "validate_identifier field v = Ok u \<longleftrightarrow> wal_identifier v"
  by (auto simp: validate_identifier_def)

lemma stream_descriptor_new_Ok_iff:
  "stream_descriptor_new i a b = Ok s \<longleftrightarrow>
     i \<noteq> 0 \<and> wal_identifier a \<and> wal_identifier b \<and> s = \<lparr> sd_stream_id = i, sd_source_name = a, sd_stream_name = b \<rparr>"
  by (auto simp: stream_descriptor_new_def result_simps validate_identifier_Ok_iff)

lemma check_duplicates_Ok_iff:
  "check_duplicates seen ss = Ok u \<longleftrightarrow> distinct (map sd_stream_id ss) \<and> seen \<inter> sd_stream_id ` set ss = {}"
  by (induction ss arbitrary: seen) auto

text \<open>What every value of the type \<open>SegmentMetadata\<close> satisfies: its fields are private and \<open>new\<close> sets them.\<close>

definition segment_metadata_built :: "SegmentMetadata \<Rightarrow> bool" where
  "segment_metadata_built m \<longleftrightarrow>
     length (sm_segment_id m) = 16 \<and> sm_created_wall_time_ns m \<le> i64_max
     \<and> list_all (\<lambda>s. sd_stream_id s \<le> u32_max
          \<and> stream_descriptor_new (sd_stream_id s) (sd_source_name s) (sd_stream_name s) = Ok s) (sm_streams m)
     \<and> segment_metadata_new (sm_segment_id m) (sm_created_wall_time_ns m) (sm_schema_id m)
          (sm_installation_id m) (sm_build_id m) (sm_streams m) = Ok m"

lemma segment_metadata_new_Ok_iff:
  "segment_metadata_new i t a b c ss = Ok m \<longleftrightarrow>
     i \<noteq> replicate 16 (char_of (0 :: nat)) \<and> 0 < t \<and> wal_identifier a \<and> wal_identifier b \<and> wal_identifier c
     \<and> ss \<noteq> [] \<and> length ss \<le> MAX_STREAMS \<and> distinct (map sd_stream_id ss)
     \<and> m = \<lparr> sm_segment_id = i, sm_created_wall_time_ns = t, sm_schema_id = a, sm_installation_id = b,
            sm_build_id = c, sm_streams = sort_key sd_stream_id ss \<rparr>
     \<and> prologue_size m \<le> u16_max"
  by (auto simp: segment_metadata_new_def result_simps validate_identifier_Ok_iff check_duplicates_Ok_iff
      prologue_encoded_length_Ok_iff Let_def)

lemma new_is_built:
  assumes "segment_metadata_new i t a b c ss = Ok m" "length i = 16" "t \<le> i64_max"
    and "list_all (\<lambda>s. sd_stream_id s \<le> u32_max
          \<and> stream_descriptor_new (sd_stream_id s) (sd_source_name s) (sd_stream_name s) = Ok s) ss"
  shows "segment_metadata_built m"
proof -
  define S where "S = sort_key sd_stream_id ss"
  have S: "set S = set ss" "length S = length ss" "sort_key sd_stream_id S = S"
    by (simp_all add: S_def sort_key_id_if_sorted)
  have new: "ss \<noteq> []" "distinct (map sd_stream_id ss)"
    and m: "m = \<lparr> sm_segment_id = i, sm_created_wall_time_ns = t, sm_schema_id = a, sm_installation_id = b,
            sm_build_id = c, sm_streams = S \<rparr>"
    using assms(1) by (simp_all add: segment_metadata_new_Ok_iff S_def)
  have "S \<noteq> []" using S(2) new(1) by (metis length_0_conv)
  moreover have "distinct (map sd_stream_id S)" using new(2) by (simp add: distinct_map S_def)
  ultimately show ?thesis
    using assms S m unfolding segment_metadata_built_def segment_metadata_new_Ok_iff list_all_iff
    by (simp add: S_def)
qed

lemma contains_stream_iff: "contains_stream m i \<longleftrightarrow> i \<in> sd_stream_id ` set (sm_streams m)"
  by (auto simp: contains_stream_def list_ex_iff)

subsection \<open>What is written\<close>

definition stream_bytes :: "StreamDescriptor \<Rightarrow> string" where
  "stream_bytes s = to_be_bytes 4 (sd_stream_id s) @ to_be_bytes 2 (length (sd_source_name s))
     @ to_be_bytes 2 (length (sd_stream_name s)) @ sd_source_name s @ sd_stream_name s"

abbreviation streams_bytes :: "StreamDescriptor list \<Rightarrow> string" where
  "streams_bytes ss \<equiv> concat (map stream_bytes ss)"

abbreviation stream_built :: "StreamDescriptor \<Rightarrow> bool" where
  "stream_built s \<equiv> sd_stream_id s \<le> u32_max
     \<and> stream_descriptor_new (sd_stream_id s) (sd_source_name s) (sd_stream_name s) = Ok s"

definition prologue_fields :: "SegmentMetadata \<Rightarrow> string" where
  "prologue_fields m = PROLOGUE_MAGIC @ to_be_bytes 2 FORMAT_VERSION @ to_be_bytes 2 (prologue_size m)
     @ to_be_bytes 4 PROLOGUE_FLAGS @ sm_segment_id m @ i64_to_be_bytes (sm_created_wall_time_ns m)
     @ to_be_bytes 2 (length (sm_schema_id m)) @ to_be_bytes 2 (length (sm_installation_id m))
     @ to_be_bytes 2 (length (sm_build_id m)) @ to_be_bytes 2 (length (sm_streams m))
     @ sm_schema_id m @ sm_installation_id m @ sm_build_id m @ streams_bytes (sm_streams m)"

lemma length_PROLOGUE_MAGIC [simp]: "length PROLOGUE_MAGIC = 8"
  by (simp add: PROLOGUE_MAGIC_def)

lemma length_stream_bytes [simp]: "length (stream_bytes s) = stream_size s"
  by (simp add: stream_bytes_def STREAM_FIXED_LENGTH_def)

lemma length_streams_bytes [simp]: "length (streams_bytes ss) = sum_list (map stream_size ss)"
  by (induction ss) simp_all

lemma identifier_u16: "wal_identifier v \<Longrightarrow> length v \<le> u16_max"
  by (simp add: MAX_IDENTIFIER_LENGTH_def u16_max_def)

lemma encode_streams_built: "list_all stream_built ss \<Longrightarrow> encode_streams ss = Ok (streams_bytes ss)"
proof (induction ss)
  case (Cons s ss)
  then have "length (sd_source_name s) \<le> u16_max" "length (sd_stream_name s) \<le> u16_max"
    using identifier_u16 by (auto simp: stream_descriptor_new_Ok_iff)
  then show ?case using Cons by (simp add: push_length_def stream_bytes_def)
qed simp

lemma built_facts:
  assumes "segment_metadata_built m"
  shows "length (sm_segment_id m) = 16" "i64_min \<le> sm_created_wall_time_ns m" "sm_created_wall_time_ns m \<le> i64_max"
    "wal_identifier (sm_schema_id m)" "wal_identifier (sm_installation_id m)" "wal_identifier (sm_build_id m)"
    "list_all stream_built (sm_streams m)" "length (sm_streams m) \<le> MAX_STREAMS" "length (sm_streams m) \<le> u16_max"
    "distinct (map sd_stream_id (sm_streams m))" "sorted (map sd_stream_id (sm_streams m))"
    "prologue_size m \<le> u16_max"
    "segment_metadata_new (sm_segment_id m) (sm_created_wall_time_ns m) (sm_schema_id m)
          (sm_installation_id m) (sm_build_id m) (sm_streams m) = Ok m"
proof -
  have new: "segment_metadata_new (sm_segment_id m) (sm_created_wall_time_ns m) (sm_schema_id m)
          (sm_installation_id m) (sm_build_id m) (sm_streams m) = Ok m"
    using assms by (simp add: segment_metadata_built_def)
  note facts = new [unfolded segment_metadata_new_Ok_iff]
  have "sm_streams m = sort_key sd_stream_id (sm_streams m)"
    using facts by (metis SegmentMetadata.select_convs(6))
  then show "sorted (map sd_stream_id (sm_streams m))" by (metis sorted_sort_key)
  show "length (sm_streams m) \<le> u16_max" using facts by (simp add: MAX_STREAMS_def u16_max_def)
  show "i64_min \<le> sm_created_wall_time_ns m" using facts by (simp add: i64_min_def)
qed (use assms in \<open>simp_all add: segment_metadata_built_def segment_metadata_new_Ok_iff\<close>)

lemma length_prologue_fields:
  "length (sm_segment_id m) = 16 \<Longrightarrow> length (prologue_fields m) + CHECKSUM_LENGTH = prologue_size m"
  by (simp add: prologue_fields_def prologue_size_def FIXED_HEADER_LENGTH_def bei64.width)

lemma prologue_encode_built:
  assumes "segment_metadata_built m"
  shows "prologue_encode crc m = Ok (prologue_fields m @ crc_bytes crc (prologue_fields m))"
proof -
  note facts = built_facts [OF assms]
  have "push_lengths [length (sm_schema_id m), length (sm_installation_id m), length (sm_build_id m)]
      = Ok (to_be_bytes 2 (length (sm_schema_id m)) @ to_be_bytes 2 (length (sm_installation_id m))
            @ to_be_bytes 2 (length (sm_build_id m)))"
    using facts(4-6) [THEN identifier_u16] by (simp add: push_length_def)
  moreover have "prologue_encoded_length m = Ok (prologue_size m)"
    using facts(12) by (simp add: prologue_encoded_length_Ok_iff)
  ultimately show ?thesis
    using facts(9,12) encode_streams_built [OF facts(7)]
    by (simp add: prologue_encode_def prologue_fields_def Let_def not_less del: push_lengths.simps)
qed

subsection \<open>What is read back\<close>

lemma identifier_utf8: "list_all identifier_byte v \<Longrightarrow> utf8_valid v"
proof (induction v)
  case (Cons c v)
  then have "(of_char c :: nat) < 0x80" by (auto simp: identifier_byte_def Let_def)
  then show ?case using Cons by (simp add: Let_def)
qed simp

lemma read_identifier_Ok_iff:
  "read_identifier bytes c limit n = Ok (v, c') \<longleftrightarrow>
     n \<le> MAX_IDENTIFIER_LENGTH \<and> c + n \<le> u64_max \<and> c + n \<le> limit \<and> v = slice_at c n bytes \<and> c' = c + n \<and> utf8_valid v"
  by (auto simp: read_identifier_def result_simps machine_simps split: if_splits)

lemma read_identifier_written:
  assumes "length pre = c" "wal_identifier v" "c + length v \<le> limit" "limit \<le> u64_max"
  shows "read_identifier (pre @ v @ post) c limit (length v) = Ok (v, c + length v)"
  using assms by (simp add: read_identifier_Ok_iff slice_at_def identifier_utf8)

lemma stream_bytes_read:
  assumes "stream_built s" "length pre = c"
  shows "read_u32 (pre @ stream_bytes s @ post) c = sd_stream_id s"
    "read_u16 (pre @ stream_bytes s @ post) (c + 4) = length (sd_source_name s)"
    "read_u16 (pre @ stream_bytes s @ post) (c + 4 + 2) = length (sd_stream_name s)"
proof -
  have "length (sd_source_name s) \<le> u16_max" "length (sd_stream_name s) \<le> u16_max"
    using assms(1) identifier_u16 by (auto simp: stream_descriptor_new_Ok_iff)
  then show "read_u32 (pre @ stream_bytes s @ post) c = sd_stream_id s"
    "read_u16 (pre @ stream_bytes s @ post) (c + 4) = length (sd_source_name s)"
    "read_u16 (pre @ stream_bytes s @ post) (c + 4 + 2) = length (sd_stream_name s)"
    using assms by (simp_all add: read_u32_def read_u16_def stream_bytes_def slice_at_skip slice_at_front
        be16.read_back be32.read_back)
qed

lemma read_streams_written:
  assumes "list_all stream_built ss" "distinct (map sd_stream_id ss)" "seen \<inter> sd_stream_id ` set ss = {}"
    and "length pre = c" "c + length (streams_bytes ss) \<le> limit" "limit \<le> u64_max"
  shows "read_streams (pre @ streams_bytes ss @ post) limit h (length ss) c seen = Ok (ss, c + length (streams_bytes ss))"
  using assms
proof (induction ss arbitrary: pre c seen)
  case (Cons s ss)
  let ?bytes = "pre @ streams_bytes (s # ss) @ post"
  let ?rest = "streams_bytes ss @ post"
  let ?head = "to_be_bytes 4 (sd_stream_id s) @ to_be_bytes 2 (length (sd_source_name s)) @ to_be_bytes 2 (length (sd_stream_name s))"
  have built: "stream_built s" and new: "stream_descriptor_new (sd_stream_id s) (sd_source_name s) (sd_stream_name s) = Ok s"
    using Cons.prems(1) by simp_all
  then have names: "wal_identifier (sd_source_name s)" "wal_identifier (sd_stream_name s)"
    by (auto simp: stream_descriptor_new_Ok_iff)
  have bytes: "?bytes = pre @ stream_bytes s @ ?rest" by simp
  have source: "read_identifier ?bytes (c + STREAM_FIXED_LENGTH) limit (length (sd_source_name s))
      = Ok (sd_source_name s, c + STREAM_FIXED_LENGTH + length (sd_source_name s))"
    using read_identifier_written [of "pre @ ?head" "c + STREAM_FIXED_LENGTH" "sd_source_name s" limit "sd_stream_name s @ ?rest"]
      names(1) Cons.prems(4-6) by (simp add: stream_bytes_def STREAM_FIXED_LENGTH_def)
  have stream: "read_identifier ?bytes (c + STREAM_FIXED_LENGTH + length (sd_source_name s)) limit (length (sd_stream_name s))
      = Ok (sd_stream_name s, c + stream_size s)"
    using read_identifier_written [of "pre @ ?head @ sd_source_name s" "c + STREAM_FIXED_LENGTH + length (sd_source_name s)"
        "sd_stream_name s" limit ?rest]
      names(2) Cons.prems(4-6) by (simp add: stream_bytes_def STREAM_FIXED_LENGTH_def)
  have "read_streams ((pre @ stream_bytes s) @ ?rest) limit h (length ss) (c + stream_size s) (insert (sd_stream_id s) seen)
      = Ok (ss, c + stream_size s + length (streams_bytes ss))"
    using Cons.prems by (intro Cons.IH) auto
  moreover have "checked_add u64_max c STREAM_FIXED_LENGTH = Some (c + STREAM_FIXED_LENGTH)" "c + STREAM_FIXED_LENGTH \<le> limit"
    using Cons.prems(5,6) by (simp_all add: checked_add_def)
  moreover have "sd_stream_id s \<notin> seen" using Cons.prems(3) by simp
  ultimately show ?case
    using source stream new stream_bytes_read [OF built Cons.prems(4), of ?rest]
    by (simp add: bytes)
qed simp

lemma read_streams_read:
  assumes "read_streams bytes limit h k c seen = Ok (ss, c')" "c \<le> limit" "limit \<le> length bytes"
  shows "length ss = k \<and> list_all stream_built ss \<and> c' \<le> limit \<and> c' = c + length (streams_bytes ss)
    \<and> slice_at c (length (streams_bytes ss)) bytes = streams_bytes ss"
  using assms
proof (induction k arbitrary: c seen ss)
  case 0
  then show ?case by (simp add: slice_at_def)
next
  case (Suc k)
  let ?src = "read_u16 bytes (c + 4)" and ?str = "read_u16 bytes (c + 4 + 2)"
  let ?c1 = "c + STREAM_FIXED_LENGTH" let ?c2 = "?c1 + ?src" let ?c3 = "?c2 + ?str"
  let ?s = "\<lparr> sd_stream_id = read_u32 bytes c, sd_source_name = slice_at ?c1 ?src bytes,
     sd_stream_name = slice_at ?c2 ?str bytes \<rparr>"
  from Suc.prems(1) obtain tl where fixed: "?c1 \<le> limit"
    and source: "read_identifier bytes ?c1 limit ?src = Ok (slice_at ?c1 ?src bytes, ?c2)"
    and stream: "read_identifier bytes ?c2 limit ?str = Ok (slice_at ?c2 ?str bytes, ?c3)"
    and new: "stream_descriptor_new (read_u32 bytes c) (slice_at ?c1 ?src bytes) (slice_at ?c2 ?str bytes) = Ok ?s"
    and rest: "read_streams bytes limit h k ?c3 (insert (read_u32 bytes c) seen) = Ok (tl, c')"
    and ss: "ss = ?s # tl"
    by (auto simp: result_simps machine_simps read_identifier_Ok_iff stream_descriptor_new_Ok_iff Let_def split: if_splits)
  have c3: "?c3 \<le> limit" using stream by (simp add: read_identifier_Ok_iff)
  note IH = Suc.IH [OF rest c3 Suc.prems(3)]
  have head: "to_be_bytes 4 (read_u32 bytes c) = slice_at c 4 bytes"
    "to_be_bytes 2 ?src = slice_at (c + 4) 2 bytes" "to_be_bytes 2 ?str = slice_at (c + 4 + 2) 2 bytes"
    using fixed Suc.prems(3)
    by (simp_all add: read_u32_def read_u16_def be32.write_slice be16.write_slice STREAM_FIXED_LENGTH_def)
  have lens: "length (slice_at ?c1 ?src bytes) = ?src" "length (slice_at ?c2 ?str bytes) = ?str"
    using c3 Suc.prems(3) by simp_all
  then have size: "stream_size ?s = STREAM_FIXED_LENGTH + ?src + ?str" by simp
  have "stream_bytes ?s = slice_at c 8 bytes @ slice_at ?c1 (?src + ?str) bytes"
    using lens head slice_at_append [of c 4 bytes 4] slice_at_append [of "c + 4" 2 bytes 2] slice_at_append [of ?c1 ?src bytes ?str]
    by (simp add: stream_bytes_def flip: append_assoc)
  then have "stream_bytes ?s = slice_at c (STREAM_FIXED_LENGTH + ?src + ?str) bytes"
    using slice_at_append [of c 8 bytes "?src + ?str"] by (simp add: STREAM_FIXED_LENGTH_def add.assoc)
  moreover define s where "s = ?s"
  moreover define n where "n = STREAM_FIXED_LENGTH + ?src + ?str"
  ultimately have s: "stream_bytes s = slice_at c n bytes" "length (stream_bytes s) = n" "ss = s # tl" and c3_n: "?c3 = c + n"
    using ss c3 Suc.prems(3) by simp_all
  have "slice_at c (n + length (streams_bytes tl)) bytes = stream_bytes s @ streams_bytes tl"
    using IH s(1) unfolding c3_n by (simp add: slice_at_append [symmetric])
  moreover have "length (streams_bytes ss) = n + length (streams_bytes tl)" "streams_bytes ss = stream_bytes s @ streams_bytes tl"
    using s(2) by (simp_all only: s(3) list.map concat.simps length_append)
  moreover have "stream_built s"
    using new be32.slice_valid [of c bytes] fixed Suc.prems(3)
    by (simp add: s_def read_u32_def STREAM_FIXED_LENGTH_def)
  ultimately show ?case
    using IH unfolding c3_n by (simp add: s(3) del: length_streams_bytes list.map concat.simps)
qed

lemma prologue_fields_read:
  assumes "segment_metadata_built m"
  shows "take 8 (prologue_fields m @ rest) = PROLOGUE_MAGIC"
    "read_u16 (prologue_fields m @ rest) 8 = FORMAT_VERSION"
    "read_u16 (prologue_fields m @ rest) 10 = prologue_size m"
    "read_u32 (prologue_fields m @ rest) 12 = PROLOGUE_FLAGS"
    "slice_at 16 16 (prologue_fields m @ rest) = sm_segment_id m"
    "i64_from_be_bytes (slice_at 32 8 (prologue_fields m @ rest)) = sm_created_wall_time_ns m"
    "read_u16 (prologue_fields m @ rest) 40 = length (sm_schema_id m)"
    "read_u16 (prologue_fields m @ rest) 42 = length (sm_installation_id m)"
    "read_u16 (prologue_fields m @ rest) 44 = length (sm_build_id m)"
    "read_u16 (prologue_fields m @ rest) 46 = length (sm_streams m)"
proof -
  note facts = built_facts [OF assms]
  note names = facts(4-6) [THEN identifier_u16]
  have "FORMAT_VERSION \<le> u16_max" "PROLOGUE_FLAGS \<le> u32_max"
    by (simp_all add: FORMAT_VERSION_def PROLOGUE_FLAGS_def u16_max_def)
  then show "take 8 (prologue_fields m @ rest) = PROLOGUE_MAGIC"
    "read_u16 (prologue_fields m @ rest) 8 = FORMAT_VERSION"
    "read_u16 (prologue_fields m @ rest) 10 = prologue_size m"
    "read_u32 (prologue_fields m @ rest) 12 = PROLOGUE_FLAGS"
    "slice_at 16 16 (prologue_fields m @ rest) = sm_segment_id m"
    "i64_from_be_bytes (slice_at 32 8 (prologue_fields m @ rest)) = sm_created_wall_time_ns m"
    "read_u16 (prologue_fields m @ rest) 40 = length (sm_schema_id m)"
    "read_u16 (prologue_fields m @ rest) 42 = length (sm_installation_id m)"
    "read_u16 (prologue_fields m @ rest) 44 = length (sm_build_id m)"
    "read_u16 (prologue_fields m @ rest) 46 = length (sm_streams m)"
    using facts(1-3,9,12) names
    by (simp_all add: prologue_fields_def read_u16_def read_u32_def slice_at_skip slice_at_front bei64.width
        be16.read_back be32.read_back bei64.read_back)
qed

lemma prologue_parts_read:
  fixes rest :: string
  assumes "segment_metadata_built m"
  defines "bytes \<equiv> prologue_fields m @ rest" and "limit \<equiv> prologue_size m - CHECKSUM_LENGTH"
  defines "c1 \<equiv> FIXED_HEADER_LENGTH + length (sm_schema_id m)"
  defines "c2 \<equiv> c1 + length (sm_installation_id m)"
  defines "c3 \<equiv> c2 + length (sm_build_id m)"
  shows "read_identifier bytes FIXED_HEADER_LENGTH limit (length (sm_schema_id m)) = Ok (sm_schema_id m, c1)"
    "read_identifier bytes c1 limit (length (sm_installation_id m)) = Ok (sm_installation_id m, c2)"
    "read_identifier bytes c2 limit (length (sm_build_id m)) = Ok (sm_build_id m, c3)"
    "read_streams bytes limit h (length (sm_streams m)) c3 {} = Ok (sm_streams m, limit)"
proof -
  note facts = built_facts [OF assms(1)]
  define front where "front = PROLOGUE_MAGIC @ to_be_bytes 2 FORMAT_VERSION @ to_be_bytes 2 (prologue_size m)
     @ to_be_bytes 4 PROLOGUE_FLAGS @ sm_segment_id m @ i64_to_be_bytes (sm_created_wall_time_ns m)
     @ to_be_bytes 2 (length (sm_schema_id m)) @ to_be_bytes 2 (length (sm_installation_id m))
     @ to_be_bytes 2 (length (sm_build_id m)) @ to_be_bytes 2 (length (sm_streams m))"
  have front: "length front = FIXED_HEADER_LENGTH"
    using facts(1) by (simp add: front_def FIXED_HEADER_LENGTH_def bei64.width)
  have bytes: "bytes = front @ sm_schema_id m @ sm_installation_id m @ sm_build_id m @ streams_bytes (sm_streams m) @ rest"
    by (simp add: bytes_def prologue_fields_def front_def)
  have limit: "limit = c3 + length (streams_bytes (sm_streams m))"
    by (simp add: limit_def prologue_size_def c1_def c2_def c3_def)
  have max: "limit \<le> u64_max" using facts(12) by (simp add: limit_def u16_max_def u64_max_def)
  show "read_identifier bytes FIXED_HEADER_LENGTH limit (length (sm_schema_id m)) = Ok (sm_schema_id m, c1)"
    unfolding bytes c1_def
    by (rule read_identifier_written) (use front facts(4) max in \<open>simp_all add: limit c1_def c2_def c3_def\<close>)
  show "read_identifier bytes c1 limit (length (sm_installation_id m)) = Ok (sm_installation_id m, c2)"
    using read_identifier_written [of "front @ sm_schema_id m" c1 "sm_installation_id m" limit] front facts(5) max
    by (simp add: bytes limit c1_def c2_def c3_def)
  show "read_identifier bytes c2 limit (length (sm_build_id m)) = Ok (sm_build_id m, c3)"
    using read_identifier_written [of "front @ sm_schema_id m @ sm_installation_id m" c2 "sm_build_id m" limit] front facts(6) max
    by (simp add: bytes limit c1_def c2_def c3_def)
  show "read_streams bytes limit h (length (sm_streams m)) c3 {} = Ok (sm_streams m, limit)"
    using read_streams_written [of "sm_streams m" "{}" "front @ sm_schema_id m @ sm_installation_id m @ sm_build_id m" c3 limit rest h]
      facts(7,10) max front
    by (simp add: bytes limit c1_def c2_def c3_def)
qed

lemma prologue_decode_written:
  assumes "segment_metadata_built m" "prologue_encode crc m = Ok enc"
  shows "prologue_decode crc (enc @ rest) = Ok \<lparr> dp_metadata = m, dp_encoded_length = length enc \<rparr>"
proof -
  note facts = built_facts [OF assms(1)]
  let ?rest = "crc_bytes crc (prologue_fields m) @ rest"
  let ?limit = "prologue_size m - CHECKSUM_LENGTH"
  have enc: "enc @ rest = prologue_fields m @ ?rest" "length enc = prologue_size m"
    using assms prologue_encode_built [OF assms(1), of crc] length_prologue_fields [OF facts(1)]
    by (auto simp: CHECKSUM_LENGTH_def)
  have limit: "length (prologue_fields m) = ?limit" using length_prologue_fields [OF facts(1)] by simp
  have size: "FIXED_HEADER_LENGTH + CHECKSUM_LENGTH \<le> prologue_size m" by (simp add: prologue_size_def)
  have check: "take ?limit (prologue_fields m @ ?rest) = prologue_fields m"
    "read_u32 (prologue_fields m @ ?rest) ?limit = unat (crc (prologue_fields m))"
    using limit crc_bytes_eq_iff [of "crc_bytes crc (prologue_fields m)" crc "prologue_fields m"]
    by (simp_all add: read_u32_def slice_at_skip slice_at_front)
  have len: "FIXED_HEADER_LENGTH \<le> length (prologue_fields m @ ?rest)" "prologue_size m \<le> length (prologue_fields m @ ?rest)"
    using enc(2) size limit by (simp_all add: CHECKSUM_LENGTH_def)
  have "canonical_stream_order (sm_streams m)" using facts(11) by (simp add: canonical_stream_order_def)
  then show ?thesis
    using size facts(8,12,13) len check
      prologue_fields_read [OF assms(1), of ?rest] prologue_parts_read(1-3) [OF assms(1), of ?rest]
      prologue_parts_read(4) [OF assms(1), of ?rest "prologue_size m"]
    unfolding prologue_decode_def enc
    by (simp add: Let_def MAX_HEADER_LENGTH_def not_less del: length_append)
qed

lemma prologue_decode_parts:
  assumes "prologue_decode crc bytes = Ok d"
  obtains limit schema_id c1 installation_id c2 build_id c3 streams where
    "limit + 4 = read_u16 bytes 10" "48 \<le> limit" "limit + 4 \<le> length bytes"
    "take 8 bytes = PROLOGUE_MAGIC" "read_u16 bytes 8 = FORMAT_VERSION" "read_u32 bytes 12 = PROLOGUE_FLAGS"
    "unat (crc (take limit bytes)) = read_u32 bytes limit"
    "read_identifier bytes 48 limit (read_u16 bytes 40) = Ok (schema_id, c1)"
    "read_identifier bytes c1 limit (read_u16 bytes 42) = Ok (installation_id, c2)"
    "read_identifier bytes c2 limit (read_u16 bytes 44) = Ok (build_id, c3)"
    "read_streams bytes limit (limit + 4) (read_u16 bytes 46) c3 {} = Ok (streams, limit)"
    "sorted (map sd_stream_id streams)"
    "segment_metadata_new (slice_at 16 16 bytes) (i64_from_be_bytes (slice_at 32 8 bytes))
       schema_id installation_id build_id streams = Ok (dp_metadata d)"
    "dp_encoded_length d = limit + 4"
proof -
  note decoded = assms [unfolded prologue_decode_def Let_def]
  let ?limit = "read_u16 bytes 10 - CHECKSUM_LENGTH"
  have h: "FIXED_HEADER_LENGTH + CHECKSUM_LENGTH \<le> read_u16 bytes 10"
    using decoded by (simp split: if_splits)
  have limit: "?limit + 4 = read_u16 bytes 10" "48 \<le> ?limit"
    using h by (simp_all add: FIXED_HEADER_LENGTH_def CHECKSUM_LENGTH_def)
  have checks: "?limit + 4 \<le> length bytes" "take 8 bytes = PROLOGUE_MAGIC" "read_u16 bytes 8 = FORMAT_VERSION"
    "read_u32 bytes 12 = PROLOGUE_FLAGS" "unat (crc (take ?limit bytes)) = read_u32 bytes ?limit"
    using decoded limit by (simp_all split: if_splits)
  obtain schema_id c1 installation_id c2 build_id c3 streams where parts:
    "read_identifier bytes FIXED_HEADER_LENGTH ?limit (read_u16 bytes 40) = Ok (schema_id, c1)"
    "read_identifier bytes c1 ?limit (read_u16 bytes 42) = Ok (installation_id, c2)"
    "read_identifier bytes c2 ?limit (read_u16 bytes 44) = Ok (build_id, c3)"
    "read_streams bytes ?limit (read_u16 bytes 10) (read_u16 bytes 46) c3 {} = Ok (streams, ?limit)"
    "canonical_stream_order streams"
    "segment_metadata_new (slice_at 16 16 bytes) (i64_from_be_bytes (slice_at 32 8 bytes))
       schema_id installation_id build_id streams = Ok (dp_metadata d)" "dp_encoded_length d = read_u16 bytes 10"
    using decoded by (auto simp: result_simps split: if_splits prod.splits)
  have fixed: "FIXED_HEADER_LENGTH = 48" by (simp add: FIXED_HEADER_LENGTH_def)
  show thesis
    using that [OF limit checks parts(1) [unfolded fixed] parts(2,3)] parts(4-7) limit(1)
    by (simp add: canonical_stream_order_def)
qed

lemma prologue_decode_read:
  assumes "prologue_decode crc bytes = Ok d"
  shows "segment_metadata_built (dp_metadata d) \<and> dp_encoded_length d \<le> length bytes
    \<and> prologue_encode crc (dp_metadata d) = Ok (take (dp_encoded_length d) bytes)"
proof -
  let ?m = "dp_metadata d"
  obtain limit schema_id c1 installation_id c2 build_id c3 streams where
    limit: "limit + 4 = read_u16 bytes 10" "48 \<le> limit" "limit + 4 \<le> length bytes"
    and fixed: "take 8 bytes = PROLOGUE_MAGIC" "read_u16 bytes 8 = FORMAT_VERSION" "read_u32 bytes 12 = PROLOGUE_FLAGS"
    and check: "unat (crc (take limit bytes)) = read_u32 bytes limit"
    and names: "read_identifier bytes 48 limit (read_u16 bytes 40) = Ok (schema_id, c1)"
    "read_identifier bytes c1 limit (read_u16 bytes 42) = Ok (installation_id, c2)"
    "read_identifier bytes c2 limit (read_u16 bytes 44) = Ok (build_id, c3)"
    and streams: "read_streams bytes limit (limit + 4) (read_u16 bytes 46) c3 {} = Ok (streams, limit)"
    and order: "sorted (map sd_stream_id streams)"
    and new: "segment_metadata_new (slice_at 16 16 bytes) (i64_from_be_bytes (slice_at 32 8 bytes))
       schema_id installation_id build_id streams = Ok ?m"
    and len: "dp_encoded_length d = limit + 4"
    by (rule prologue_decode_parts [OF assms])
  have c: "c1 = 48 + read_u16 bytes 40" "c2 = c1 + read_u16 bytes 42" "c3 = c2 + read_u16 bytes 44" "c3 \<le> limit"
    and v: "schema_id = slice_at 48 (read_u16 bytes 40) bytes" "installation_id = slice_at c1 (read_u16 bytes 42) bytes"
      "build_id = slice_at c2 (read_u16 bytes 44) bytes"
    using names by (auto simp: read_identifier_Ok_iff)
  have lens: "length schema_id = read_u16 bytes 40" "length installation_id = read_u16 bytes 42"
    "length build_id = read_u16 bytes 44"
    using c v limit(3) by simp_all
  have ss: "length streams = read_u16 bytes 46" "list_all stream_built streams"
    "limit = c3 + length (streams_bytes streams)" "slice_at c3 (length (streams_bytes streams)) bytes = streams_bytes streams"
    using read_streams_read [OF streams c(4)] limit(3) by simp_all
  have m: "?m = \<lparr> sm_segment_id = slice_at 16 16 bytes, sm_created_wall_time_ns = i64_from_be_bytes (slice_at 32 8 bytes),
      sm_schema_id = schema_id, sm_installation_id = installation_id, sm_build_id = build_id, sm_streams = streams \<rparr>"
    using new order by (simp add: segment_metadata_new_Ok_iff sort_key_id_if_sorted)
  have built: "segment_metadata_built ?m"
    using new limit ss(2) bei64.slice_valid [of 32 bytes] by (intro new_is_built [OF new]) auto
  have size: "prologue_size ?m = limit + 4"
    using ss(3) c lens
    by (simp add: m prologue_size_def FIXED_HEADER_LENGTH_def CHECKSUM_LENGTH_def)
  have written: "to_be_bytes 2 FORMAT_VERSION = slice_at 8 2 bytes" "to_be_bytes 2 (limit + 4) = slice_at 10 2 bytes"
    "to_be_bytes 4 PROLOGUE_FLAGS = slice_at 12 4 bytes" "i64_to_be_bytes (i64_from_be_bytes (slice_at 32 8 bytes)) = slice_at 32 8 bytes"
    "to_be_bytes 2 (read_u16 bytes 40) = slice_at 40 2 bytes" "to_be_bytes 2 (read_u16 bytes 42) = slice_at 42 2 bytes"
    "to_be_bytes 2 (read_u16 bytes 44) = slice_at 44 2 bytes" "to_be_bytes 2 (read_u16 bytes 46) = slice_at 46 2 bytes"
    using fixed limit be16.write_slice [of 8 bytes] be16.write_slice [of 10 bytes] be16.write_slice [of 40 bytes]
      be16.write_slice [of 42 bytes] be16.write_slice [of 44 bytes] be16.write_slice [of 46 bytes] be32.write_slice [of 12 bytes] bei64.write_slice [of 32 bytes]
    by (simp_all add: read_u16_def read_u32_def)
  have front: "take 8 bytes @ slice_at 8 2 bytes @ slice_at 10 2 bytes @ slice_at 12 4 bytes @ slice_at 16 16 bytes
      @ slice_at 32 8 bytes @ slice_at 40 2 bytes @ slice_at 42 2 bytes @ slice_at 44 2 bytes @ slice_at 46 2 bytes = take 48 bytes"
    using slice_at_append [of 0 8 bytes 2] slice_at_append [of 0 10 bytes 2] slice_at_append [of 0 12 bytes 4]
      slice_at_append [of 0 16 bytes 16] slice_at_append [of 0 32 bytes 8] slice_at_append [of 0 40 bytes 2]
      slice_at_append [of 0 42 bytes 2] slice_at_append [of 0 44 bytes 2] slice_at_append [of 0 46 bytes 2]
    by (simp add: slice_at_0 flip: append_assoc)
  have names_end: "take 48 bytes @ schema_id @ installation_id @ build_id @ streams_bytes streams = take limit bytes"
    using slice_at_append [of 0 48 bytes "read_u16 bytes 40"] slice_at_append [of 0 c1 bytes "read_u16 bytes 42"]
      slice_at_append [of 0 c2 bytes "read_u16 bytes 44"] slice_at_append [of 0 c3 bytes "length (streams_bytes streams)"]
      v c(1-3) [symmetric] ss(3,4)
    by (simp add: slice_at_0 flip: append_assoc)
  have fields: "prologue_fields ?m = take limit bytes"
    using names_end [unfolded front [symmetric] append_assoc] written fixed(1) lens ss(1) size
    by (simp add: prologue_fields_def m)
  have "crc_bytes crc (take limit bytes) = slice_at limit 4 bytes"
    using check limit(3) by (simp add: read_u32_def crc_bytes_eq_iff)
  then show ?thesis
    using prologue_encode_built [OF built, of crc] fields limit(3) len built slice_at_append [of 0 limit bytes 4]
    by (simp add: slice_at_0)
qed

subsection \<open>Property\<close>

text \<open>
  C25. Segment identities decode exactly. Decoding a prologue accepts a byte slice exactly when the
  slice begins with the encoding of an identity that the constructors accept, and it then returns
  that identity and the length of its encoding.
\<close>

theorem prologue_decode_exact:
  "prologue_decode crc bs = Ok d \<longleftrightarrow>
     (\<exists>enc rest. bs = enc @ rest \<and> segment_metadata_built (dp_metadata d)
        \<and> prologue_encode crc (dp_metadata d) = Ok enc \<and> dp_encoded_length d = length enc)"
proof
  assume "prologue_decode crc bs = Ok d"
  note read = prologue_decode_read [OF this]
  then show "\<exists>enc rest. bs = enc @ rest \<and> segment_metadata_built (dp_metadata d)
      \<and> prologue_encode crc (dp_metadata d) = Ok enc \<and> dp_encoded_length d = length enc"
    by (intro exI [of _ "take (dp_encoded_length d) bs"] exI [of _ "drop (dp_encoded_length d) bs"]) simp
next
  assume "\<exists>enc rest. bs = enc @ rest \<and> segment_metadata_built (dp_metadata d)
      \<and> prologue_encode crc (dp_metadata d) = Ok enc \<and> dp_encoded_length d = length enc"
  then show "prologue_decode crc bs = Ok d" using prologue_decode_written by auto
qed

end
