(* ===== verification/Wal_Recovery.thy ===== *)
theory Wal_Recovery
  imports Wal_Prologue BTree_Map
begin

text \<open>
  \<open>raw-wal/src/recovery.rs\<close>: reading a segment back after a crash. A file is its byte list; reads
  succeed, and the two calls that change the file when a torn tail is cut off may fail as \<open>DiskFaults\<close>
  says. A visitor is a function that is folded over the records in the order it is called with them,
  so the model returns the visited records. Memory reservations succeed.
\<close>

subsection \<open>Constants and data\<close>

definition TARGET_SEGMENT_LENGTH :: nat where "TARGET_SEGMENT_LENGTH = 256 * 1024 * 1024"
definition MAX_RECOVERABLE_SEGMENT_LENGTH :: nat where
  "MAX_RECOVERABLE_SEGMENT_LENGTH = TARGET_SEGMENT_LENGTH + HEADER_LENGTH + MAX_PAYLOAD_LENGTH + CHECKSUM_LENGTH"
definition MAX_COLLECTED_RECORDS :: nat where "MAX_COLLECTED_RECORDS = 65536"
definition MAX_COLLECTED_PAYLOAD_BYTES :: nat where "MAX_COLLECTED_PAYLOAD_BYTES = 16 * 1024 * 1024"
definition MAX_TRACKED_STREAM_EPOCHS :: nat where "MAX_TRACKED_STREAM_EPOCHS = 4096"
definition SEARCH_BUFFER_LENGTH :: nat where "SEARCH_BUFFER_LENGTH = 64 * 1024"
definition MAX_MAGIC_CANDIDATES :: nat where "MAX_MAGIC_CANDIDATES = 1024"

datatype CorruptionKind =
    InvalidMagic
  | InvalidHeaderLength
  | UnsupportedFlags
  | HeaderChecksumMismatch
  | FrameChecksumMismatch
  | PayloadTooLarge
  | IncompleteLegacyFrame
  | InvalidPartialTail
  | MixedFormat

datatype RecoveryError =
    Io
  | Prologue PrologueError
  | Corruption nat CorruptionKind
  | UnsupportedFormat nat nat
  | SequenceRegression nat nat nat nat nat
  | SegmentTooLarge nat nat
  | Capacity nat
  | CollectionLimit nat nat
  | StreamEpochLimit nat
  | UndeclaredStream nat nat

record RecoveredRecord =
  rr_metadata :: "RecordMetadata option"
  rr_payload :: string
  rr_offset :: nat
  rr_next_offset :: nat

record RecoverySummary =
  rs_format :: "WalFormat option"
  rs_record_count :: nat
  rs_last_valid_offset :: nat
  rs_truncated_bytes :: nat

record RecoveryReport =
  rp_records :: "RecoveredRecord list"
  rp_summary :: RecoverySummary

type_synonym sequences = "(nat \<times> nat, nat) btree"

abbreviation key_cmp :: "nat \<times> nat \<Rightarrow> nat \<times> nat \<Rightarrow> Ordering" where
  "key_cmp \<equiv> pair_cmp cmp_of cmp_of"

text \<open>Whether \<open>set_len\<close> and \<open>sync_all\<close> fail.\<close>

record DiskFaults =
  set_len_fails :: bool
  sync_all_fails :: bool

text \<open>What a scan carries from one record to the next, and the records it has visited.\<close>

record ScanState =
  sc_format :: "WalFormat option"
  sc_record_count :: nat
  sc_offset :: nat
  sc_last_sequences :: sequences
  sc_records :: "RecoveredRecord list"
  sc_encoded :: "string list"

datatype ScanStep = TornTail "WalFormat option" | Scanned ScanState

subsection \<open>Errors and partial headers\<close>

primrec map_frame_error :: "nat \<Rightarrow> FrameError \<Rightarrow> RecoveryError" where
  "map_frame_error offset (FrameError.UnsupportedSchema version) = UnsupportedFormat offset version"
| "map_frame_error offset FrameError.InvalidMagic = Corruption offset InvalidMagic"
| "map_frame_error offset (FrameError.InvalidHeaderLength _) = Corruption offset InvalidHeaderLength"
| "map_frame_error offset (FrameError.UnsupportedFlags _) = Corruption offset UnsupportedFlags"
| "map_frame_error offset FrameError.HeaderChecksumMismatch = Corruption offset HeaderChecksumMismatch"
| "map_frame_error offset FrameError.FrameChecksumMismatch = Corruption offset FrameChecksumMismatch"
| "map_frame_error offset FrameError.PayloadTooLarge = Corruption offset PayloadTooLarge"
| "map_frame_error offset FrameError.Incomplete = Corruption offset InvalidPartialTail"

definition legacy_prefix :: string where
  "legacy_prefix = MAGIC @ to_be_bytes 2 LEGACY_SCHEMA_VERSION"

definition current_prefix :: string where
  "current_prefix = MAGIC @ to_be_bytes 2 SCHEMA_VERSION"

definition valid_common_prefix :: "string \<Rightarrow> WalFormat option \<Rightarrow> bool" where
  "valid_common_prefix bytes segment_format =
     (case segment_format of
        Some LegacyV1 \<Rightarrow> bytes = take (length bytes) legacy_prefix
      | Some V2 \<Rightarrow> bytes = take (length bytes) current_prefix
      | None \<Rightarrow> bytes = take (length bytes) legacy_prefix \<or> bytes = take (length bytes) current_prefix)"

definition is_valid_partial_legacy_header_prefix :: "string \<Rightarrow> bool" where
  "is_valid_partial_legacy_header_prefix bytes =
     (if bytes = [] \<or> length bytes \<ge> LEGACY_HEADER_LENGTH then False
      else let n = min (length bytes) (length legacy_prefix)
           in if take n bytes \<noteq> take n legacy_prefix then False
              else if length bytes \<le> length legacy_prefix then True
              else let length_prefix = drop (length legacy_prefix) bytes
                   in from_be_bytes (length_prefix @ replicate (4 - length length_prefix) (char_of (0 :: nat)))
                      \<le> MAX_PAYLOAD_LENGTH)"

definition is_repairable_partial_header :: "string \<Rightarrow> WalFormat \<Rightarrow> bool" where
  "is_repairable_partial_header bytes format =
     (case format of
        LegacyV1 \<Rightarrow> is_valid_partial_legacy_header_prefix bytes
      | V2 \<Rightarrow> is_valid_partial_header_prefix bytes)"

subsection \<open>Searching for a later frame\<close>

definition header_length_of :: "WalFormat \<Rightarrow> nat" where
  "header_length_of format = (case format of LegacyV1 \<Rightarrow> LEGACY_HEADER_LENGTH | V2 \<Rightarrow> HEADER_LENGTH)"

definition format_of_version :: "nat \<Rightarrow> WalFormat option" where
  "format_of_version version =
     (if version = LEGACY_SCHEMA_VERSION then Some LegacyV1
      else if version = SCHEMA_VERSION then Some V2 else None)"

definition declared_payload_length :: "(string \<Rightarrow> 32 word) \<Rightarrow> WalFormat \<Rightarrow> string \<Rightarrow> (nat, FrameError) result" where
  "declared_payload_length crc format header =
     (case format of
        LegacyV1 \<Rightarrow> decode_legacy_header header
      | V2 \<Rightarrow> and_then (decode_v2_header crc header) (\<lambda>(_, n). Ok n))"

definition total_frame_length :: "nat \<Rightarrow> nat \<Rightarrow> nat option" where
  "total_frame_length header_length payload_length =
     (case checked_add u64_max header_length payload_length of
        None \<Rightarrow> None
      | Some n \<Rightarrow> checked_add u64_max n CHECKSUM_LENGTH)"

definition valid_frame_at :: "(string \<Rightarrow> 32 word) \<Rightarrow> string \<Rightarrow> nat \<Rightarrow> nat \<Rightarrow> bool" where
  "valid_frame_at crc file offset finish =
     (if finish - offset < 8 + 2 then False
      else let prefix = slice_at offset (8 + 2) file
           in if take 8 prefix \<noteq> MAGIC then False
              else case format_of_version (from_be_bytes (drop 8 prefix)) of
                     None \<Rightarrow> False
                   | Some format \<Rightarrow>
                       if finish - offset < header_length_of format then False
                       else case declared_payload_length crc format (slice_at offset (header_length_of format) file) of
                              Inl _ \<Rightarrow> False
                            | Inr payload_length \<Rightarrow>
                                (case total_frame_length (header_length_of format) payload_length of
                                   None \<Rightarrow> False
                                 | Some encoded_length \<Rightarrow>
                                     if finish - offset < encoded_length then False
                                     else is_ok (frame_decode crc (slice_at offset encoded_length file))))"

text \<open>
  The windows of one buffer; \<open>None\<close> is the early return with \<open>true\<close>, \<open>Some\<close> the candidate count to go on
  with.
\<close>

fun search_windows ::
  "(string \<Rightarrow> 32 word) \<Rightarrow> string \<Rightarrow> nat \<Rightarrow> nat \<Rightarrow> nat \<Rightarrow> string \<Rightarrow> nat \<Rightarrow> nat option" where
  "search_windows crc file start finish candidate_offset [] candidate_count = Some candidate_count"
| "search_windows crc file start finish candidate_offset (b # carry) candidate_count =
     (if length (b # carry) < 8 then Some candidate_count
      else if take 8 (b # carry) \<noteq> MAGIC \<or> candidate_offset < start
      then search_windows crc file start finish (candidate_offset + 1) carry candidate_count
      else if candidate_count + 1 > MAX_MAGIC_CANDIDATES then None
      else if valid_frame_at crc file candidate_offset finish then None
      else search_windows crc file start finish (candidate_offset + 1) carry (candidate_count + 1))"

function search_chunks :: "(string \<Rightarrow> 32 word) \<Rightarrow> string \<Rightarrow> nat \<Rightarrow> nat \<Rightarrow> nat \<Rightarrow> string \<Rightarrow> nat \<Rightarrow> bool" where
  "search_chunks crc file start finish scan_offset carry candidate_count =
     (if scan_offset < finish
      then let read_length = min (finish - scan_offset) SEARCH_BUFFER_LENGTH;
               carry' = carry @ slice_at scan_offset read_length file;
               base_offset = scan_offset - length carry
           in case search_windows crc file start finish base_offset carry' candidate_count of
                None \<Rightarrow> True
              | Some candidate_count' \<Rightarrow>
                  let retained = min (length carry') (8 - 1)
                  in search_chunks crc file start finish (scan_offset + read_length)
                       (drop (length carry' - retained) carry') candidate_count'
      else False)"
  by pat_completeness auto
termination
proof (relation "measure (\<lambda>(_, _, _, finish, scan_offset, _). finish - scan_offset)", goal_cases)
  case (2 crc content start finish scan_offset carry candidate_count read_length)
  then have "0 < read_length" by (simp add: SEARCH_BUFFER_LENGTH_def)
  then show ?case using 2(1) by simp
qed simp

declare search_chunks.simps [simp del]

definition contains_later_valid_frame :: "(string \<Rightarrow> 32 word) \<Rightarrow> string \<Rightarrow> nat \<Rightarrow> nat \<Rightarrow> bool" where
  "contains_later_valid_frame crc file start finish = search_chunks crc file start finish start [] 0"

subsection \<open>One record\<close>

definition validate_sequence :: "sequences \<Rightarrow> RecordMetadata \<Rightarrow> nat \<Rightarrow> (sequences, RecoveryError) result" where
  "validate_sequence last_sequences m offset =
     (let key = (rm_stream_id m, rm_connection_epoch m)
      in if \<not> bt_contains key_cmp key last_sequences \<and> length last_sequences \<ge> MAX_TRACKED_STREAM_EPOCHS
         then Err (StreamEpochLimit MAX_TRACKED_STREAM_EPOCHS)
         else case bt_get key_cmp key last_sequences of
                Some previous \<Rightarrow>
                  if rm_record_sequence m \<le> previous
                  then Err (SequenceRegression offset (rm_stream_id m) (rm_connection_epoch m) previous (rm_record_sequence m))
                  else Ok (bt_insert key_cmp key (rm_record_sequence m) last_sequences)
              | None \<Rightarrow> Ok (bt_insert key_cmp key (rm_record_sequence m) last_sequences))"

definition track_record ::
  "SegmentMetadata option \<Rightarrow> nat \<Rightarrow> RecordMetadata option \<Rightarrow> sequences \<Rightarrow> (sequences, RecoveryError) result" where
  "track_record segment offset metadata last_sequences =
     (case metadata of
        None \<Rightarrow> Ok last_sequences
      | Some m \<Rightarrow>
          if (case segment of Some s \<Rightarrow> \<not> contains_stream s (rm_stream_id m) | None \<Rightarrow> False)
          then Err (UndeclaredStream offset (rm_stream_id m))
          else validate_sequence last_sequences m offset)"

definition scan_record ::
  "(string \<Rightarrow> 32 word) \<Rightarrow> SegmentMetadata option \<Rightarrow> string \<Rightarrow> WalFormat \<Rightarrow> nat \<Rightarrow> nat \<Rightarrow> ScanState
   \<Rightarrow> (ScanState, RecoveryError) result" where
  "scan_record crc segment file format encoded_length next_offset st =
     (let offset = sc_offset st; frame_bytes = slice_at offset encoded_length file
      in and_then (map_err (frame_decode crc frame_bytes) (map_frame_error offset)) (\<lambda>decoded.
           if df_format decoded \<noteq> format then Err (Corruption offset MixedFormat)
           else and_then (track_record segment offset (df_metadata decoded) (sc_last_sequences st)) (\<lambda>sequences'.
                and_then (ok_or (checked_add u64_max (sc_record_count st) 1) (Capacity u64_max)) (\<lambda>count.
                  Ok \<lparr> sc_format = Some format, sc_record_count = count, sc_offset = next_offset,
                       sc_last_sequences = sequences',
                       sc_records = sc_records st
                         @ [\<lparr> rr_metadata = df_metadata decoded, rr_payload = df_payload decoded,
                              rr_offset = offset, rr_next_offset = next_offset \<rparr>],
                       sc_encoded = sc_encoded st @ [frame_bytes] \<rparr>))))"

definition scan_frame ::
  "(string \<Rightarrow> 32 word) \<Rightarrow> SegmentMetadata option \<Rightarrow> string \<Rightarrow> WalFormat \<Rightarrow> ScanState
   \<Rightarrow> (ScanStep, RecoveryError) result" where
  "scan_frame crc segment file format st =
     (let offset = sc_offset st; remaining = length file - offset; header_length = header_length_of format
      in if remaining < header_length then
           (if is_repairable_partial_header (drop offset file) format then Ok (TornTail (Some format))
            else Err (Corruption offset InvalidPartialTail))
         else and_then (map_err (declared_payload_length crc format (slice_at offset header_length file))
                          (map_frame_error offset)) (\<lambda>payload_length.
              and_then (ok_or (total_frame_length header_length payload_length) (Corruption offset PayloadTooLarge))
                (\<lambda>encoded_length.
              and_then (ok_or (checked_add u64_max offset encoded_length) (Corruption offset PayloadTooLarge))
                (\<lambda>next_offset.
                if next_offset > length file then
                  (if format = V2 \<and> \<not> contains_later_valid_frame crc file (offset + 1) (length file)
                   then Ok (TornTail (Some format))
                   else Err (Corruption offset IncompleteLegacyFrame))
                else and_then (scan_record crc segment file format encoded_length next_offset st)
                       (\<lambda>st'. Ok (Scanned st'))))))"

definition scan_step ::
  "(string \<Rightarrow> 32 word) \<Rightarrow> SegmentMetadata option \<Rightarrow> string \<Rightarrow> ScanState \<Rightarrow> (ScanStep, RecoveryError) result" where
  "scan_step crc segment file st =
     (let offset = sc_offset st; remaining = length file - offset
      in if remaining < 8 + 2 then
           (if valid_common_prefix (drop offset file) (sc_format st) then Ok (TornTail (sc_format st))
            else Err (Corruption offset InvalidPartialTail))
         else let prefix = slice_at offset (8 + 2) file
              in if take 8 prefix \<noteq> MAGIC then Err (Corruption offset InvalidMagic)
                 else let version = from_be_bytes (drop 8 prefix)
                      in case format_of_version version of
                           None \<Rightarrow> Err (UnsupportedFormat offset version)
                         | Some format \<Rightarrow>
                             if sc_format st \<noteq> None \<and> sc_format st \<noteq> Some format
                             then Err (Corruption offset MixedFormat)
                             else scan_frame crc segment file format st)"

subsection \<open>The loop\<close>

text \<open>Every record that is accepted moves the scan forward and stays within the file.\<close>

lemma total_frame_length_Some_iff:
  "total_frame_length h n = Some k \<longleftrightarrow> k = h + n + 4 \<and> h + n + 4 \<le> u64_max"
  by (auto simp: total_frame_length_def CHECKSUM_LENGTH_def machine_simps checked_add_def split: option.splits if_splits)

lemma scan_frame_ScannedE:
  assumes "scan_frame crc segment content format st = Ok (Scanned st')"
  obtains n where "declared_payload_length crc format (slice_at (sc_offset st) (header_length_of format) content) = Ok n"
    "sc_offset st + (header_length_of format + n + 4) \<le> length content"
    "scan_record crc segment content format (header_length_of format + n + 4)
       (sc_offset st + (header_length_of format + n + 4)) st = Ok st'"
  using assms
  by (auto simp: scan_frame_def Let_def result_simps machine_simps total_frame_length_Some_iff split: if_splits)

lemma scan_step_ScannedE:
  assumes "scan_step crc segment content st = Ok (Scanned st')"
  obtains format where "scan_frame crc segment content format st = Ok (Scanned st')"
    "sc_format st = None \<or> sc_format st = Some format"
  using assms by (auto simp: scan_step_def Let_def split: if_splits option.splits)

lemma scan_record_offset: "scan_record crc segment content format n next_offset st = Ok st' \<Longrightarrow> sc_offset st' = next_offset"
  by (auto simp: scan_record_def Let_def result_simps split: if_splits)

lemma scan_step_advances:
  assumes "scan_step crc segment content st = Ok (Scanned st')"
  shows "sc_offset st < sc_offset st'" "sc_offset st' \<le> length content"
proof -
  from assms obtain format where "scan_frame crc segment content format st = Ok (Scanned st')"
    by (rule scan_step_ScannedE)
  then show "sc_offset st < sc_offset st'" "sc_offset st' \<le> length content"
    by (auto elim!: scan_frame_ScannedE dest!: scan_record_offset)
qed

text \<open>The loop returns the state it ends in and whether it met a torn tail.\<close>

function scan_loop ::
  "(string \<Rightarrow> 32 word) \<Rightarrow> SegmentMetadata option \<Rightarrow> string \<Rightarrow> ScanState \<Rightarrow> ScanState \<times> (bool, RecoveryError) result" where
  "scan_loop crc segment content st =
     (if sc_offset st < length content
      then (case scan_step crc segment content st of
              Inl e \<Rightarrow> (st, Inl e)
            | Inr (TornTail format) \<Rightarrow> (st\<lparr>sc_format := format\<rparr>, Inr True)
            | Inr (Scanned st') \<Rightarrow> scan_loop crc segment content st')
      else (st, Inr False))"
  by pat_completeness auto
termination
  by (relation "measure (\<lambda>(_, _, content, st). length content - sc_offset st)")
    (simp_all add: scan_step_advances(1) diff_less_mono2)

declare scan_loop.simps [simp del]

definition repair_tail ::
  "DiskFaults \<Rightarrow> string \<Rightarrow> WalFormat option \<Rightarrow> nat \<Rightarrow> nat \<Rightarrow> nat \<Rightarrow> string \<times> (RecoverySummary, RecoveryError) result" where
  "repair_tail faults content format record_count last_valid_offset actual_length =
     (if set_len_fails faults then (content, Err Io)
      else (take last_valid_offset content,
            if sync_all_fails faults then Err Io
            else Ok \<lparr> rs_format = format, rs_record_count = record_count, rs_last_valid_offset = last_valid_offset,
                      rs_truncated_bytes = actual_length - last_valid_offset \<rparr>))"

definition handle_incomplete_tail ::
  "DiskFaults \<Rightarrow> bool \<Rightarrow> string \<Rightarrow> WalFormat option \<Rightarrow> nat \<Rightarrow> nat \<Rightarrow> nat
   \<Rightarrow> string \<times> (RecoverySummary, RecoveryError) result" where
  "handle_incomplete_tail faults allow_tail_repair content format record_count last_valid_offset actual_length =
     (if \<not> allow_tail_repair then (content, Err (Corruption last_valid_offset InvalidPartialTail))
      else repair_tail faults content format record_count last_valid_offset actual_length)"

definition scan_start :: "nat \<Rightarrow> WalFormat option \<Rightarrow> ScanState" where
  "scan_start offset expected_format =
     \<lparr> sc_format = expected_format, sc_record_count = 0, sc_offset = offset, sc_last_sequences = [],
       sc_records = [], sc_encoded = [] \<rparr>"

text \<open>A scan returns the file it leaves, the state with the visited records, and its result.\<close>

definition scan_with_from ::
  "(string \<Rightarrow> 32 word) \<Rightarrow> DiskFaults \<Rightarrow> string \<Rightarrow> nat \<Rightarrow> WalFormat option \<Rightarrow> SegmentMetadata option \<Rightarrow> bool
   \<Rightarrow> string \<times> ScanState \<times> (RecoverySummary, RecoveryError) result" where
  "scan_with_from crc faults content record_start_offset expected_format segment allow_tail_repair =
     (let st = scan_start record_start_offset expected_format; actual_length = length content
      in case checked_add u64_max MAX_RECOVERABLE_SEGMENT_LENGTH record_start_offset of
           None \<Rightarrow> (content, st, Err (Capacity u64_max))
         | Some maximum_length \<Rightarrow>
             if actual_length > maximum_length then (content, st, Err (SegmentTooLarge actual_length maximum_length))
             else if record_start_offset > actual_length
             then (content, st, Err (Corruption record_start_offset InvalidPartialTail))
             else (case scan_loop crc segment content st of
                     (st', Inl e) \<Rightarrow> (content, st', Err e)
                   | (st', Inr True) \<Rightarrow>
                       (let (content', r) = handle_incomplete_tail faults allow_tail_repair content (sc_format st')
                              (sc_record_count st') (sc_offset st') actual_length
                        in (content', st', r))
                   | (st', Inr False) \<Rightarrow>
                       (content, st', Ok \<lparr> rs_format = sc_format st', rs_record_count = sc_record_count st',
                          rs_last_valid_offset = sc_offset st', rs_truncated_bytes = 0 \<rparr>)))"

definition recover_with_from ::
  "(string \<Rightarrow> 32 word) \<Rightarrow> DiskFaults \<Rightarrow> string \<Rightarrow> nat \<Rightarrow> WalFormat option \<Rightarrow> SegmentMetadata option
   \<Rightarrow> string \<times> RecoveredRecord list \<times> (RecoverySummary, RecoveryError) result" where
  "recover_with_from crc faults content record_start_offset expected_format segment =
     (case scan_with_from crc faults content record_start_offset expected_format segment True of
        (content', st, r) \<Rightarrow> (content', sc_records st, r))"

definition recover_with ::
  "(string \<Rightarrow> 32 word) \<Rightarrow> DiskFaults \<Rightarrow> string \<Rightarrow> string \<times> RecoveredRecord list \<times> (RecoverySummary, RecoveryError) result" where
  "recover_with crc faults content = recover_with_from crc faults content 0 None None"

definition verify_with_from ::
  "(string \<Rightarrow> 32 word) \<Rightarrow> DiskFaults \<Rightarrow> string \<Rightarrow> nat \<Rightarrow> WalFormat option \<Rightarrow> SegmentMetadata option
   \<Rightarrow> string \<times> RecoveredRecord list \<times> (RecoverySummary, RecoveryError) result" where
  "verify_with_from crc faults content record_start_offset expected_format segment =
     (case scan_with_from crc faults content record_start_offset expected_format segment False of
        (content', st, r) \<Rightarrow> (content', sc_records st, r))"

definition verify_with_from_and_encoded ::
  "(string \<Rightarrow> 32 word) \<Rightarrow> DiskFaults \<Rightarrow> string \<Rightarrow> nat \<Rightarrow> WalFormat option \<Rightarrow> SegmentMetadata option
   \<Rightarrow> string \<times> RecoveredRecord list \<times> string list \<times> (RecoverySummary, RecoveryError) result" where
  "verify_with_from_and_encoded crc faults content record_start_offset expected_format segment =
     (case scan_with_from crc faults content record_start_offset expected_format segment False of
        (content', st, r) \<Rightarrow> (content', sc_records st, sc_encoded st, r))"

text \<open>The visitor of \<open>recover_from\<close> keeps records until one exceeds a limit.\<close>

definition collect_record ::
  "RecoveredRecord list \<times> nat \<times> bool \<Rightarrow> RecoveredRecord \<Rightarrow> RecoveredRecord list \<times> nat \<times> bool" where
  "collect_record = (\<lambda>(records, payload_bytes, exceeded) r.
     let next_payload_bytes = checked_add u64_max payload_bytes (length (rr_payload r))
     in if exceeded \<or> length records \<ge> MAX_COLLECTED_RECORDS
          \<or> (case next_payload_bytes of None \<Rightarrow> True | Some n \<Rightarrow> n > MAX_COLLECTED_PAYLOAD_BYTES)
        then (records, payload_bytes, True)
        else (records @ [r], payload_bytes + length (rr_payload r), exceeded))"

definition recover_from ::
  "(string \<Rightarrow> 32 word) \<Rightarrow> DiskFaults \<Rightarrow> string \<Rightarrow> nat \<Rightarrow> WalFormat option \<Rightarrow> SegmentMetadata option
   \<Rightarrow> string \<times> (RecoveryReport, RecoveryError) result" where
  "recover_from crc faults content record_start_offset expected_format segment =
     (case recover_with_from crc faults content record_start_offset expected_format segment of
        (content', visited, r) \<Rightarrow>
          (content', and_then r (\<lambda>summary.
             case foldl collect_record ([], 0, False) visited of
               (records, _, exceeded) \<Rightarrow>
                 if exceeded then Err (CollectionLimit MAX_COLLECTED_RECORDS MAX_COLLECTED_PAYLOAD_BYTES)
                 else Ok \<lparr> rp_records = records, rp_summary = summary \<rparr>)))"

definition recover :: "(string \<Rightarrow> 32 word) \<Rightarrow> DiskFaults \<Rightarrow> string \<Rightarrow> string \<times> (RecoveryReport, RecoveryError) result" where
  "recover crc faults content = recover_from crc faults content 0 None None"

end
