(* ===== verification/Wal_Search.thy ===== *)
theory Wal_Search
  imports Wal_Recovery
begin

text \<open>
  The search for a later frame in \<open>raw-wal/src/recovery.rs\<close> reads the file in bounded buffers that
  overlap by seven bytes. It is equivalent to trying every offset of the file.
\<close>

subsection \<open>Frames at an offset\<close>

text \<open>What the fixed parts of a frame say of its contents.\<close>

lemma version_of_format:
  "format_of_version (if format = LegacyV1 then LEGACY_SCHEMA_VERSION else SCHEMA_VERSION) = Some format"
  by (cases format) (simp_all add: format_of_version_def LEGACY_SCHEMA_VERSION_def SCHEMA_VERSION_def)

lemma frame_of_header:
  assumes "frame_of crc f enc"
  shows "take 8 enc = MAGIC" "format_of_version (from_be_bytes (slice_at 8 2 enc)) = Some (df_format f)"
    "length enc = header_length_of (df_format f) + length (df_payload f) + 4"
    "declared_payload_length crc (df_format f) (take (header_length_of (df_format f)) enc) = Ok (length (df_payload f))"
    "length enc \<le> u64_max"
proof -
  have "take 8 enc = MAGIC \<and> format_of_version (from_be_bytes (slice_at 8 2 enc)) = Some (df_format f)
    \<and> length enc = header_length_of (df_format f) + length (df_payload f) + 4
    \<and> declared_payload_length crc (df_format f) (take (header_length_of (df_format f)) enc) = Ok (length (df_payload f))
    \<and> length enc \<le> u64_max"
  proof (cases "df_metadata f")
    case None
    then have enc: "encode_legacy crc (df_payload f) = Ok enc" and f: "df_format f = LegacyV1"
      using assms by (simp_all add: frame_of_def)
    have p: "length (df_payload f) \<le> MAX_PAYLOAD_LENGTH" using enc by (simp add: encode_legacy_Ok_iff)
    note hd = legacy_header_read [OF p]
    have "declared_payload_length crc LegacyV1 (take 14 enc) = Ok (length (df_payload f))"
      using enc p hd [of "[]"]
      by (simp add: declared_payload_length_def decode_legacy_header_def encode_legacy_Ok_iff LEGACY_HEADER_LENGTH_def)
    moreover have "from_be_bytes (slice_at 8 2 enc) = LEGACY_SCHEMA_VERSION"
      using enc hd(2) [of "df_payload f @ crc_bytes crc (df_payload f)"]
      by (simp add: encode_legacy_Ok_iff read_u16_def VERSION_OFFSET_def)
    ultimately show ?thesis
      using enc f version_of_format [of LegacyV1] encoded_length_fits(2) [OF p]
      by (simp add: encode_legacy_Ok_iff header_length_of_def LEGACY_HEADER_LENGTH_def)
  next
    case (Some m)
    then have enc: "frame_encode crc m (df_payload f) = Ok enc" and f: "df_format f = V2" and m: "record_metadata_typed m"
      using assms by (simp_all add: frame_of_def)
    let ?n = "length (df_payload f)"
    have p: "rm_flags m = SUPPORTED_FLAGS" "?n \<le> MAX_PAYLOAD_LENGTH" using enc by (simp_all add: frame_encode_Ok_iff)
    have bytes: "enc = frame_header crc m ?n @ df_payload f @ crc_bytes crc (frame_header crc m ?n @ df_payload f)"
      using enc by (simp add: frame_encode_Ok_iff)
    have "take HEADER_LENGTH enc = frame_header crc m ?n" by (simp add: bytes)
    then have "declared_payload_length crc V2 (take HEADER_LENGTH enc) = Ok ?n"
      using decode_v2_header_written [OF m p, of crc "[]"] by (simp add: declared_payload_length_def)
    moreover have "from_be_bytes (slice_at 8 2 enc) = SCHEMA_VERSION" "take 8 enc = MAGIC"
      using header_fields_read(1,2) [OF m max_payload_u32 [OF p(2)], of "crc_bytes crc (header_fields m ?n) @ df_payload f
        @ crc_bytes crc (frame_header crc m ?n @ df_payload f)"]
      by (simp_all add: bytes frame_header_def read_u16_def VERSION_OFFSET_def)
    ultimately show ?thesis
      using f version_of_format [of V2] encoded_length_fits(1) [OF p(2)]
      by (simp add: bytes header_length_of_def)
  qed
  then show "take 8 enc = MAGIC" "format_of_version (from_be_bytes (slice_at 8 2 enc)) = Some (df_format f)"
    "length enc = header_length_of (df_format f) + length (df_payload f) + 4"
    "declared_payload_length crc (df_format f) (take (header_length_of (df_format f)) enc) = Ok (length (df_payload f))"
    "length enc \<le> u64_max"
    by simp_all
qed

lemma header_length_of_ge: "10 \<le> header_length_of format"
  by (cases format) (simp_all add: header_length_of_def LEGACY_HEADER_LENGTH_def HEADER_LENGTH_def)

text \<open>The same, for a frame that stands somewhere in a file.\<close>

lemma frame_in_file:
  assumes f: "frame_of crc f enc" and at: "drop off content = enc @ rest"
  shows "off + length enc \<le> length content"
    "take 8 (slice_at off 10 content) = MAGIC"
    "format_of_version (from_be_bytes (drop 8 (slice_at off 10 content))) = Some (df_format f)"
    "declared_payload_length crc (df_format f) (slice_at off (header_length_of (df_format f)) content) = Ok (length (df_payload f))"
    "slice_at off (length enc) content = enc"
proof -
  note hd = frame_of_header [OF f]
  have len: "10 \<le> length enc" "header_length_of (df_format f) \<le> length enc"
    using hd(3) header_length_of_ge [of "df_format f"] by simp_all
  have "length (drop off content) = length enc + length rest" unfolding at by simp
  then show "off + length enc \<le> length content" using len by simp
  show "slice_at off (length enc) content = enc" by (simp add: slice_at_def at)
  have "take 8 (slice_at off 10 content) = take 8 enc" "drop 8 (slice_at off 10 content) = slice_at 8 2 enc"
    "slice_at off (header_length_of (df_format f)) content = take (header_length_of (df_format f)) enc"
    using len by (simp_all add: slice_at_def at drop_take min_def)
  then show "take 8 (slice_at off 10 content) = MAGIC"
    "format_of_version (from_be_bytes (drop 8 (slice_at off 10 content))) = Some (df_format f)"
    "declared_payload_length crc (df_format f) (slice_at off (header_length_of (df_format f)) content) = Ok (length (df_payload f))"
    using hd by simp_all
qed

lemma valid_frame_at_iff:
  "valid_frame_at crc content off (length content) \<longleftrightarrow> is_ok (frame_decode crc (drop off content))"
proof
  assume "is_ok (frame_decode crc (drop off content))"
  then obtain f where "frame_decode crc (drop off content) = Ok f" by (cases "frame_decode crc (drop off content)") simp_all
  then obtain enc rest where at: "drop off content = enc @ rest" and f: "frame_of crc f enc"
    using frame_decode_read by blast
  note facts = frame_in_file [OF f at] frame_of_header(3,5) [OF f]
  have "10 \<le> length content - off" "header_length_of (df_format f) \<le> length content - off" "length enc \<le> length content - off"
    using facts(1,6) header_length_of_ge [of "df_format f"] by simp_all
  moreover have "total_frame_length (header_length_of (df_format f)) (length (df_payload f)) = Some (length enc)"
    using facts(6,7) by (simp add: total_frame_length_Some_iff)
  moreover have "is_ok (frame_decode crc enc)" using frame_decode_written [OF f, of "[]"] by simp
  ultimately show "valid_frame_at crc content off (length content)"
    using facts(2-5) by (simp add: valid_frame_at_def Let_def)
next
  assume "valid_frame_at crc content off (length content)"
  then obtain n where "is_ok (frame_decode crc (slice_at off n content))"
    by (auto simp: valid_frame_at_def Let_def split: if_splits option.splits sum.splits)
  then obtain f where "frame_decode crc (slice_at off n content) = Ok f"
    by (cases "frame_decode crc (slice_at off n content)") simp_all
  then obtain enc rest where at: "slice_at off n content = enc @ rest" and f: "frame_of crc f enc"
    using frame_decode_read by blast
  have "drop off content = enc @ rest @ drop n (drop off content)"
    using at by (metis append_assoc append_take_drop_id slice_at_def)
  then show "is_ok (frame_decode crc (drop off content))"
    using frame_decode_written [OF f] by simp
qed

subsection \<open>Candidates\<close>

abbreviation magic_at :: "string \<Rightarrow> nat \<Rightarrow> bool" where
  "magic_at content i \<equiv> slice_at i 8 content = MAGIC"

definition candidates :: "string \<Rightarrow> nat \<Rightarrow> nat \<Rightarrow> nat \<Rightarrow> nat list" where
  "candidates content start low high = filter (\<lambda>i. start \<le> i \<and> magic_at content i) [low..<high]"

lemma candidates_append: "a \<le> b \<Longrightarrow> b \<le> c \<Longrightarrow> candidates content start a c = candidates content start a b @ candidates content start b c"
  using upt_add_eq_append [of a b "c - b"] by (simp add: candidates_def)

lemma candidates_empty: "high \<le> low \<Longrightarrow> candidates content start low high = []"
  by (simp add: candidates_def)

lemma candidates_step:
  "low < high \<Longrightarrow> candidates content start low high =
     (if start \<le> low \<and> magic_at content low then [low] else []) @ candidates content start (low + 1) high"
  by (simp add: candidates_def upt_conv_Cons)

text \<open>The windows of one buffer are the offsets at which all eight bytes lie in the buffer.\<close>

lemma search_windows_exact:
  assumes "carry = slice_at off n content" "off + n \<le> length content" "count \<le> MAX_MAGIC_CANDIDATES"
  shows "search_windows crc content start finish off carry count =
    (if MAX_MAGIC_CANDIDATES < count + length (candidates content start off (off + n - 7))
        \<or> list_ex (\<lambda>i. valid_frame_at crc content i finish) (candidates content start off (off + n - 7))
     then None else Some (count + length (candidates content start off (off + n - 7))))"
  using assms
proof (induction carry arbitrary: off n count)
  case Nil
  then have "n = 0 \<or> off = length content" by (auto simp: slice_at_def)
  then have "n = 0" using Nil.prems(2) by auto
  then show ?case using Nil.prems(3) by (simp add: candidates_empty)
next
  case (Cons b carry)
  have n: "length (b # carry) = n" using Cons.prems(1,2) by simp
  then obtain k where k: "n = Suc k" by auto
  have tail: "carry = slice_at (off + 1) k content"
    using Cons.prems(1) by (simp add: slice_at_def k) (metis drop_Suc list.sel(3) tl_drop tl_take diff_Suc_1)
  show ?case
  proof (cases "n < 8")
    case True
    then show ?thesis using n Cons.prems(3) by (simp add: candidates_empty)
  next
    case False
    then have magic: "take 8 (b # carry) = slice_at off 8 content" and low: "off < off + n - 7"
      using Cons.prems(1) by (simp_all add: slice_at_def min_def)
    note cs = candidates_step [OF low, of content start]
    have IH: "search_windows crc content start finish (off + 1) carry count' =
      (if MAX_MAGIC_CANDIDATES < count' + length (candidates content start (off + 1) (off + n - 7))
          \<or> list_ex (\<lambda>i. valid_frame_at crc content i finish) (candidates content start (off + 1) (off + n - 7))
       then None else Some (count' + length (candidates content start (off + 1) (off + n - 7))))"
      if "count' \<le> MAX_MAGIC_CANDIDATES" for count'
      using Cons.IH [OF tail _ that] Cons.prems(2) by (simp add: k)
    show ?thesis
      using False n IH [OF Cons.prems(3)] IH [of "count + 1"] unfolding search_windows.simps magic cs
      by (auto simp: not_less)
  qed
qed

lemma search_chunks_exact:
  assumes "start \<le> scan_offset" "scan_offset \<le> length content" "count \<le> MAX_MAGIC_CANDIDATES"
    and carry: "carry = slice_at (scan_offset - length carry) (length carry) content" "length carry = min 7 (scan_offset - start)"
  shows "search_chunks crc content start (length content) scan_offset carry count \<longleftrightarrow>
    MAX_MAGIC_CANDIDATES < count + length (candidates content start (scan_offset - length carry) (length content - 7))
    \<or> list_ex (\<lambda>i. valid_frame_at crc content i (length content))
        (candidates content start (scan_offset - length carry) (length content - 7))"
  using assms
proof (induction "length content - scan_offset" arbitrary: scan_offset carry count rule: less_induct)
  case less
  let ?base = "scan_offset - length carry"
  let ?valid = "\<lambda>i. valid_frame_at crc content i (length content)"
  show ?case
  proof (cases "scan_offset < length content")
    case False
    then have "scan_offset = length content" using less.prems(2) by simp
    then have "candidates content start ?base (length content - 7) = []"
      using less.prems(1,5) by (cases "7 \<le> length content - start") (auto simp: candidates_def min_def)
    then show ?thesis using False less.prems(3) by (subst search_chunks.simps) simp
  next
    case True
    define r where "r = min (length content - scan_offset) SEARCH_BUFFER_LENGTH"
    define carry' where "carry' = carry @ slice_at scan_offset r content"
    define keep where "keep = min (length carry') 7"
    have r: "0 < r" "scan_offset + r \<le> length content"
      using True by (simp_all add: r_def SEARCH_BUFFER_LENGTH_def)
    have base: "?base + length carry = scan_offset" using less.prems(5) by (simp add: min_def)
    have carry': "carry' = slice_at ?base (length carry + r) content"
      using slice_at_append [of ?base "length carry" content r] less.prems(4) base by (simp add: carry'_def)
    have len: "length carry' = length carry + r" using r by (simp add: carry'_def)
    let ?mid = "?base + (length carry + r) - 7"
    let ?cs = "candidates content start ?base ?mid"
    have windows: "search_windows crc content start (length content) ?base carry' count =
      (if MAX_MAGIC_CANDIDATES < count + length ?cs \<or> list_ex ?valid ?cs then None else Some (count + length ?cs))"
      using base r by (intro search_windows_exact [OF carry'] less.prems(3)) simp
    let ?next = "scan_offset + r - keep"
    let ?rest = "candidates content start ?next (length content - 7)"
    have keep: "keep = min 7 (scan_offset + r - start)"
      using less.prems(1,5) len r(1) by (auto simp: keep_def min_def)
    define kept where "kept = drop (length carry' - keep) carry'"
    have kept_length: "length kept = keep" by (simp add: kept_def keep_def)
    have kept: "kept = slice_at (scan_offset + r - length kept) (length kept) content"
    proof -
      have "kept = slice_at (?base + (length carry' - keep)) (length carry' - (length carry' - keep)) content"
        unfolding kept_def by (subst (2) carry') (simp add: drop_slice_at len)
      moreover have "?base + (length carry' - keep) = ?next" "length carry' - (length carry' - keep) = keep"
        using base len by (simp_all add: keep_def min_def)
      ultimately show ?thesis unfolding kept_length by simp
    qed
    have IH: "search_chunks crc content start (length content) (scan_offset + r) kept count' \<longleftrightarrow>
       MAX_MAGIC_CANDIDATES < count' + length ?rest \<or> list_ex ?valid ?rest" if "count' \<le> MAX_MAGIC_CANDIDATES" for count'
      using less.hyps [OF _ _ r(2) that kept] r True less.prems(1) keep unfolding kept_length by simp
    have "candidates content start ?base (length content - 7) = ?cs @ ?rest"
    proof (cases "7 \<le> scan_offset + r - start")
      case True
      then have "?next = ?mid" "?base \<le> ?mid" using keep base less.prems(1,5) by (auto simp: min_def)
      then show ?thesis using r candidates_append [of ?base ?mid "length content - 7"] base by simp
    next
      case False
      then have "?next = start" "?base = start" "?mid \<le> ?base" using keep base less.prems(1,5) by (auto simp: min_def)
      then show ?thesis by (simp add: candidates_empty)
    qed
    moreover have "search_chunks crc content start (length content) scan_offset carry count \<longleftrightarrow>
      (case search_windows crc content start (length content) ?base carry' count of
         None \<Rightarrow> True
       | Some count' \<Rightarrow> search_chunks crc content start (length content) (scan_offset + r) kept count')"
      using True by (subst search_chunks.simps) (simp add: Let_def r_def carry'_def keep_def kept_def split: option.split)
    ultimately show ?thesis
      using windows IH [of "count + length ?cs"] by (auto simp: not_less)
  qed
qed

subsection \<open>Property\<close>

lemma decodable_has_magic:
  assumes "is_ok (frame_decode crc (drop i content))"
  shows "magic_at content i" "i < length content - 7"
  using assms by (auto simp: frame_decode_def slice_at_def split: if_splits)

text \<open>
  C23. The buffered search is exhaustive. Searching for a later frame answers yes exactly when some
  offset from the start on decodes as a complete frame, or when the eight magic bytes occur at more
  than 1,024 offsets; no occurrence across a buffer boundary is missed or counted twice.
\<close>

theorem later_frame_search_exact:
  "contains_later_valid_frame crc content start (length content) \<longleftrightarrow>
     MAX_MAGIC_CANDIDATES < card {i. start \<le> i \<and> slice_at i 8 content = MAGIC}
     \<or> (\<exists>i. start \<le> i \<and> is_ok (frame_decode crc (drop i content)))"
proof (cases "start \<le> length content")
  case True
  let ?cs = "candidates content start start (length content - 7)"
  have short: "i < length content - 7" if "magic_at content i" for i
    using arg_cong [OF that, of length] by simp
  have set: "set ?cs = {i. start \<le> i \<and> slice_at i 8 content = MAGIC}"
    using short by (auto simp: candidates_def)
  have "distinct ?cs" by (simp add: candidates_def)
  then have "length ?cs = card {i. start \<le> i \<and> slice_at i 8 content = MAGIC}"
    using distinct_card set by fastforce
  moreover have "list_ex (\<lambda>i. valid_frame_at crc content i (length content)) ?cs
      \<longleftrightarrow> (\<exists>i. start \<le> i \<and> is_ok (frame_decode crc (drop i content)))"
    using decodable_has_magic(1) set by (auto simp: list_ex_iff valid_frame_at_iff)
  ultimately show ?thesis
    using search_chunks_exact [of start start content 0 "[]" crc] True
    by (simp add: contains_later_valid_frame_def slice_at_def)
next
  case False
  then have "\<not> is_ok (frame_decode crc (drop i content))" "\<not> magic_at content i" if "start \<le> i" for i
    using that by (simp_all add: frame_decode_def slice_at_def MAGIC_def)
  then have "card {i. start \<le> i \<and> slice_at i 8 content = MAGIC} = 0"
    "\<not> (\<exists>i. start \<le> i \<and> is_ok (frame_decode crc (drop i content)))" by (auto intro: card_eq_0_iff [THEN iffD2])
  moreover have "\<not> contains_later_valid_frame crc content start (length content)"
    using False unfolding contains_later_valid_frame_def by (subst search_chunks.simps) simp
  ultimately show ?thesis by (simp only:) simp
qed

end
