(* ===== verification/Wal_Log.thy ===== *)
theory Wal_Log
  imports Wal_Search
begin

text \<open>
  What the scan of \<open>raw-wal/src/recovery.rs\<close> does on a whole file. The reference is a list of frames:
  the scan accepts exactly the longest run of frames that follow each other in the file, have one
  format, belong to declared streams and have increasing sequence numbers, and it then says whether
  the rest is a torn tail.
\<close>

subsection \<open>Runs of frames\<close>

fun frame_records :: "nat \<Rightarrow> DecodedFrame list \<Rightarrow> RecoveredRecord list" where
  "frame_records off [] = []"
| "frame_records off (f # fs) =
     \<lparr> rr_metadata = df_metadata f, rr_payload = df_payload f, rr_offset = off,
       rr_next_offset = off + df_encoded_length f \<rparr> # frame_records (off + df_encoded_length f) fs"

fun track_all ::
  "SegmentMetadata option \<Rightarrow> nat \<Rightarrow> DecodedFrame list \<Rightarrow> sequences \<Rightarrow> (sequences, RecoveryError) result" where
  "track_all segment off [] seqs = Ok seqs"
| "track_all segment off (f # fs) seqs =
     and_then (track_record segment off (df_metadata f) seqs) (track_all segment (off + df_encoded_length f) fs)"

definition frames_of :: "(string \<Rightarrow> 32 word) \<Rightarrow> WalFormat \<Rightarrow> DecodedFrame list \<Rightarrow> string list \<Rightarrow> bool" where
  "frames_of crc format fs encs \<longleftrightarrow> list_all2 (\<lambda>f enc. frame_of crc f enc \<and> df_format f = format) fs encs"

definition scan_advance ::
  "WalFormat \<Rightarrow> DecodedFrame list \<Rightarrow> string list \<Rightarrow> sequences \<Rightarrow> ScanState \<Rightarrow> ScanState" where
  "scan_advance format fs encs seqs st =
     \<lparr> sc_format = (if fs = [] then sc_format st else Some format), sc_record_count = sc_record_count st + length fs,
       sc_offset = sc_offset st + length (concat encs), sc_last_sequences = seqs,
       sc_records = sc_records st @ frame_records (sc_offset st) fs, sc_encoded = sc_encoded st @ encs \<rparr>"

lemma frames_of_simps [simp]:
  "frames_of crc format [] encs \<longleftrightarrow> encs = []"
  "frames_of crc format (f # fs) encs \<longleftrightarrow>
     (\<exists>enc encs'. encs = enc # encs' \<and> frame_of crc f enc \<and> df_format f = format \<and> frames_of crc format fs encs')"
  by (auto simp: frames_of_def list_all2_Cons1)

lemma frame_of_length: "frame_of crc f enc \<Longrightarrow> df_encoded_length f = length enc"
  by (simp add: frame_of_def)

lemma length_frame_records [simp]: "length (frame_records off fs) = length fs"
  by (induction fs arbitrary: off) simp_all

lemma scan_advance_Nil: "scan_advance format [] [] (sc_last_sequences st) st = st"
  by (simp add: scan_advance_def)

lemma scan_advance_Cons:
  assumes "frame_of crc f enc"
  shows "scan_advance format fs encs seqs' (scan_advance format [f] [enc] seqs st) = scan_advance format (f # fs) (enc # encs) seqs' st"
  using frame_of_length [OF assms] by (simp add: scan_advance_def add.assoc)

subsection \<open>One record\<close>

text \<open>Accepting a record of the format found at the head of the rest.\<close>

lemma scan_step_frame:
  assumes f: "frame_of crc f enc" and at: "drop (sc_offset st) content = enc @ rest"
    and format: "sc_format st = None \<or> sc_format st = Some (df_format f)"
    and track: "track_record segment (sc_offset st) (df_metadata f) (sc_last_sequences st) = Ok seqs"
    and bounds: "sc_record_count st < u64_max" "length content \<le> u64_max"
  shows "scan_step crc segment content st = Ok (Scanned (scan_advance (df_format f) [f] [enc] seqs st))"
proof -
  let ?off = "sc_offset st" and ?h = "header_length_of (df_format f)"
  note facts = frame_in_file [OF f at] and hd = frame_of_header [OF f]
  have "10 \<le> length enc" "?h \<le> length enc" using hd(3) header_length_of_ge [of "df_format f"] by simp_all
  then have len: "\<not> length content - ?off < 10" "\<not> length content - ?off < ?h" using facts(1) by simp_all
  have total: "total_frame_length ?h (length (df_payload f)) = Some (length enc)"
    using hd(3,5) by (simp add: total_frame_length_Some_iff)
  have next_offset: "checked_add u64_max ?off (length enc) = Some (?off + length enc)" "\<not> ?off + length enc > length content"
    using facts(1) bounds(2) by (simp_all add: checked_add_def)
  have "frame_decode crc enc = Ok f" using frame_decode_written [OF f, of "[]"] by simp
  then have "scan_record crc segment content (df_format f) (length enc) (?off + length enc) st
      = Ok (scan_advance (df_format f) [f] [enc] seqs st)"
    using track bounds(1) facts(5) frame_of_length [OF f]
    by (simp add: scan_record_def Let_def checked_add_def scan_advance_def)
  then have "scan_frame crc segment content (df_format f) st = Ok (Scanned (scan_advance (df_format f) [f] [enc] seqs st))"
    using len(2) total next_offset facts(4) by (simp add: scan_frame_def Let_def)
  then show ?thesis
    using len(1) facts(2,3) format by (auto simp: scan_step_def Let_def)
qed

text \<open>Nothing else is accepted.\<close>

lemma scan_step_ScannedD:
  assumes "scan_step crc segment content st = Ok (Scanned st')"
  shows "\<exists>f enc rest seqs. frame_of crc f enc \<and> drop (sc_offset st) content = enc @ rest
    \<and> (sc_format st = None \<or> sc_format st = Some (df_format f))
    \<and> track_record segment (sc_offset st) (df_metadata f) (sc_last_sequences st) = Ok seqs
    \<and> sc_record_count st < u64_max \<and> st' = scan_advance (df_format f) [f] [enc] seqs st"
proof -
  let ?off = "sc_offset st"
  from assms obtain format where frame: "scan_frame crc segment content format st = Ok (Scanned st')"
    and format: "sc_format st = None \<or> sc_format st = Some format"
    by (rule scan_step_ScannedE)
  from frame obtain n where n: "?off + (header_length_of format + n + 4) \<le> length content"
    and payload: "declared_payload_length crc format (slice_at ?off (header_length_of format) content) = Ok n"
    and rcd: "scan_record crc segment content format (header_length_of format + n + 4) (?off + (header_length_of format + n + 4)) st = Ok st'"
    by (rule scan_frame_ScannedE)
  let ?k = "header_length_of format + n + 4"
  from rcd obtain f seqs where f: "frame_decode crc (slice_at ?off ?k content) = Ok f" "df_format f = format"
    and track: "track_record segment ?off (df_metadata f) (sc_last_sequences st) = Ok seqs"
    and count: "sc_record_count st < u64_max"
    and st': "st' = \<lparr> sc_format = Some format, sc_record_count = sc_record_count st + 1, sc_offset = ?off + ?k,
      sc_last_sequences = seqs, sc_records = sc_records st @ [\<lparr> rr_metadata = df_metadata f, rr_payload = df_payload f,
        rr_offset = ?off, rr_next_offset = ?off + ?k \<rparr>], sc_encoded = sc_encoded st @ [slice_at ?off ?k content] \<rparr>"
    by (auto simp: scan_record_def Let_def result_simps machine_simps split: if_splits)
  from frame_decode_read [OF f(1)] obtain enc rest where at: "slice_at ?off ?k content = enc @ rest" and enc: "frame_of crc f enc"
    by blast
  have file_at: "drop ?off content = enc @ rest @ drop ?k (drop ?off content)"
    using at by (metis append_assoc append_take_drop_id slice_at_def)
  have "length (df_payload f) = n"
    using frame_in_file(4) [OF enc file_at] payload f(2) by simp
  then have "length enc = ?k" using frame_of_header(3) [OF enc] f(2) by simp
  moreover have "length (slice_at ?off ?k content) = ?k" using n by simp
  ultimately have rest: "rest = []" "slice_at ?off ?k content = enc" using at by simp_all
  have "st' = scan_advance (df_format f) [f] [enc] seqs st"
    using st' rest(2) \<open>length enc = ?k\<close> f(2) frame_of_length [OF enc] by (simp add: scan_advance_def)
  then show ?thesis using enc file_at format f(2) track count by blast
qed

subsection \<open>The whole scan\<close>

lemma frame_of_nonempty: "frame_of crc f enc \<Longrightarrow> enc \<noteq> []"
  using frame_of_header(3) by fastforce

lemma scan_loop_frames:
  assumes "frames_of crc format fs encs" "drop (sc_offset st) content = concat encs @ rest"
    and "fs = [] \<or> sc_format st = None \<or> sc_format st = Some format"
    and "track_all segment (sc_offset st) fs (sc_last_sequences st) = Ok seqs"
    and "sc_record_count st + length fs \<le> u64_max" "length content \<le> u64_max"
  shows "scan_loop crc segment content st = scan_loop crc segment content (scan_advance format fs encs seqs st)"
  using assms
proof (induction fs arbitrary: encs st)
  case Nil
  then show ?case using scan_advance_Nil [of format st] by simp
next
  case (Cons f fs)
  from Cons.prems(1) obtain enc encs' where encs: "encs = enc # encs'" "frame_of crc f enc" "df_format f = format"
    "frames_of crc format fs encs'" by auto
  from Cons.prems(4) obtain seqs1 where track: "track_record segment (sc_offset st) (df_metadata f) (sc_last_sequences st) = Ok seqs1"
    and tracks: "track_all segment (sc_offset st + df_encoded_length f) fs seqs1 = Ok seqs"
    by (auto simp: result_simps)
  let ?st1 = "scan_advance format [f] [enc] seqs1 st"
  have at: "drop (sc_offset st) content = enc @ concat encs' @ rest" using Cons.prems(2) encs(1) by simp
  have step: "scan_step crc segment content st = Ok (Scanned ?st1)"
    using scan_step_frame [OF encs(2) at _ track] Cons.prems(3,5,6) encs(3) by simp
  have "sc_offset st < length content"
    using at frame_of_nonempty [OF encs(2)] by (cases "sc_offset st < length content") auto
  then have "scan_loop crc segment content st = scan_loop crc segment content ?st1"
    by (subst scan_loop.simps) (simp add: step)
  also have "\<dots> = scan_loop crc segment content (scan_advance format fs encs' seqs ?st1)"
  proof (rule Cons.IH [OF encs(4)])
    have "drop (sc_offset ?st1) content = drop (length enc) (drop (sc_offset st) content)"
      by (simp add: scan_advance_def add.commute)
    then show "drop (sc_offset ?st1) content = concat encs' @ rest" by (simp add: at)
    show "track_all segment (sc_offset ?st1) fs (sc_last_sequences ?st1) = Ok seqs"
      using tracks frame_of_length [OF encs(2)] by (simp add: scan_advance_def)
  qed (use Cons.prems(5,6) in \<open>simp_all add: scan_advance_def\<close>)
  finally show ?case using scan_advance_Cons [OF encs(2)] encs(1) by simp
qed

text \<open>How the loop ends in a state.\<close>

definition scan_end ::
  "(string \<Rightarrow> 32 word) \<Rightarrow> SegmentMetadata option \<Rightarrow> string \<Rightarrow> ScanState
   \<Rightarrow> (ScanState \<times> (bool, RecoveryError) result) option" where
  "scan_end crc segment content st =
     (if sc_offset st < length content
      then (case scan_step crc segment content st of
              Inl e \<Rightarrow> Some (st, Inl e)
            | Inr (TornTail format) \<Rightarrow> Some (st\<lparr>sc_format := format\<rparr>, Inr True)
            | Inr (Scanned _) \<Rightarrow> None)
      else Some (st, Inr False))"

lemma scan_loop_end: "scan_end crc segment content st = Some r \<Longrightarrow> scan_loop crc segment content st = r"
  by (subst scan_loop.simps) (auto simp: scan_end_def split: if_splits sum.splits ScanStep.splits)

lemma scan_loop_run:
  "\<exists>format fs encs rest seqs. frames_of crc format fs encs \<and> drop (sc_offset st) content = concat encs @ rest
    \<and> (fs = [] \<or> sc_format st = None \<or> sc_format st = Some format)
    \<and> track_all segment (sc_offset st) fs (sc_last_sequences st) = Ok seqs
    \<and> (fs = [] \<or> sc_record_count st + length fs \<le> u64_max)
    \<and> scan_end crc segment content (scan_advance format fs encs seqs st) = Some (scan_loop crc segment content st)"
proof (induction crc segment content st rule: scan_loop.induct)
  case (1 crc segment content st)
  show ?case
  proof (cases "\<exists>st'. sc_offset st < length content \<and> scan_step crc segment content st = Ok (Scanned st')")
    case False
    have "scan_end crc segment content st = Some (scan_loop crc segment content st)"
      using False by (subst scan_loop.simps) (auto simp: scan_end_def split: sum.splits ScanStep.splits)
    then show ?thesis
      using scan_advance_Nil [of V2 st]
      by (intro exI [of _ V2] exI [of _ "[]"] exI [of _ "drop (sc_offset st) content"] exI [of _ "sc_last_sequences st"]) simp
  next
    case True
    then obtain st' where less: "sc_offset st < length content" and step: "scan_step crc segment content st = Ok (Scanned st')"
      by blast
    from scan_step_ScannedD [OF step] obtain f enc rest1 seqs1 where f: "frame_of crc f enc"
      and at: "drop (sc_offset st) content = enc @ rest1" and format: "sc_format st = None \<or> sc_format st = Some (df_format f)"
      and track: "track_record segment (sc_offset st) (df_metadata f) (sc_last_sequences st) = Ok seqs1"
      and count: "sc_record_count st < u64_max" and st': "st' = scan_advance (df_format f) [f] [enc] seqs1 st"
      by blast
    have loop: "scan_loop crc segment content st = scan_loop crc segment content st'"
      using less by (subst scan_loop.simps) (simp add: step)
    from "1.IH" [OF less step refl] obtain format' fs encs rest seqs where run: "frames_of crc format' fs encs"
      "drop (sc_offset st') content = concat encs @ rest" "fs = [] \<or> sc_format st' = None \<or> sc_format st' = Some format'"
      "track_all segment (sc_offset st') fs (sc_last_sequences st') = Ok seqs"
      "fs = [] \<or> sc_record_count st' + length fs \<le> u64_max"
      "scan_end crc segment content (scan_advance format' fs encs seqs st') = Some (scan_loop crc segment content st')"
      by blast
    let ?format = "df_format f"
    have same: "fs = [] \<or> format' = ?format" using run(3) by (auto simp: st' scan_advance_def)
    then have frames: "frames_of crc ?format (f # fs) (enc # encs)"
      and advance: "scan_advance format' fs encs seqs st' = scan_advance ?format (f # fs) (enc # encs) seqs st"
      using f run(1) scan_advance_Cons [OF f, of ?format fs encs seqs seqs1 st]
      by (auto simp: st' scan_advance_def)
    have "drop (sc_offset st') content = drop (length enc) (drop (sc_offset st) content)"
      by (simp add: st' scan_advance_def add.commute)
    then have "drop (sc_offset st) content = concat (enc # encs) @ rest" using at run(2) by simp
    moreover have "track_all segment (sc_offset st) (f # fs) (sc_last_sequences st) = Ok seqs"
      using track run(4) frame_of_length [OF f] by (simp add: st' scan_advance_def)
    moreover have "sc_record_count st + length (f # fs) \<le> u64_max"
      using count run(5) by (auto simp: st' scan_advance_def)
    ultimately show ?thesis using frames format run(6) advance loop by metis
  qed
qed

end
