(* ===== verification/Wal_Recovery_Correct.thy ===== *)
theory Wal_Recovery_Correct
  imports Wal_Log
begin

text \<open>
  What recovery promises of \<open>raw-wal/src/recovery.rs\<close>: it keeps exactly a run of complete frames,
  repeating it changes nothing, and it cuts off what a crash in the middle of a write leaves behind.
\<close>

subsection \<open>Sequence numbers\<close>

interpretation keys: rust_ord key_cmp "\<lambda>_. True"
  by (rule rust_ord_pair [OF lin.rust_ord_axioms lin.rust_ord_axioms, simplified])

abbreviation record_key :: "RecordMetadata \<Rightarrow> nat \<times> nat" where
  "record_key m \<equiv> (rm_stream_id m, rm_connection_epoch m)"

text \<open>Records of one stream and connection epoch have increasing sequence numbers.\<close>

definition record_before :: "RecoveredRecord \<Rightarrow> RecoveredRecord \<Rightarrow> bool" where
  "record_before r s \<longleftrightarrow>
     (case (rr_metadata r, rr_metadata s) of
        (Some m, Some n) \<Rightarrow> record_key m = record_key n \<longrightarrow> rm_record_sequence m < rm_record_sequence n
      | _ \<Rightarrow> True)"

definition declared_by :: "SegmentMetadata option \<Rightarrow> RecoveredRecord \<Rightarrow> bool" where
  "declared_by segment r \<longleftrightarrow>
     (case (segment, rr_metadata r) of
        (Some s, Some m) \<Rightarrow> contains_stream s (rm_stream_id m)
      | _ \<Rightarrow> True)"

lemma track_record_None [simp]: "track_record segment off None seqs = Ok seqs"
  by (simp add: track_record_def)

lemma track_record_Some_iff:
  "track_record segment off (Some m) seqs = Ok seqs' \<longleftrightarrow>
     (case segment of Some s \<Rightarrow> contains_stream s (rm_stream_id m) | None \<Rightarrow> True)
     \<and> (bt_contains key_cmp (record_key m) seqs \<or> length seqs < MAX_TRACKED_STREAM_EPOCHS)
     \<and> (\<forall>previous. bt_get key_cmp (record_key m) seqs = Some previous \<longrightarrow> previous < rm_record_sequence m)
     \<and> seqs' = bt_insert key_cmp (record_key m) (rm_record_sequence m) seqs"
  by (auto simp: track_record_def validate_sequence_def Let_def split: option.splits if_splits)

text \<open>A frame comes after the last recorded sequence number of its key, and so do all later ones.\<close>

definition after_all :: "sequences \<Rightarrow> RecoveredRecord \<Rightarrow> bool" where
  "after_all seqs r \<longleftrightarrow>
     (case rr_metadata r of
        None \<Rightarrow> True
      | Some m \<Rightarrow> \<forall>v. bt_get key_cmp (record_key m) seqs = Some v \<longrightarrow> v < rm_record_sequence m)"

lemma track_all_increasing:
  assumes "track_all segment off fs seqs = Ok seqs'" "bt_wf key_cmp (\<lambda>_. True) seqs"
  shows "sorted_wrt record_before (frame_records off fs) \<and> list_all (after_all seqs) (frame_records off fs)
    \<and> list_all (declared_by segment) (frame_records off fs)"
  using assms
proof (induction fs arbitrary: off seqs)
  case (Cons f fs)
  let ?r = "\<lparr> rr_metadata = df_metadata f, rr_payload = df_payload f, rr_offset = off,
    rr_next_offset = off + df_encoded_length f \<rparr>"
  let ?rs = "frame_records (off + df_encoded_length f) fs"
  from Cons.prems(1) obtain seqs1 where track: "track_record segment off (df_metadata f) seqs = Ok seqs1"
    and tracks: "track_all segment (off + df_encoded_length f) fs seqs1 = Ok seqs'"
    by (auto simp: result_simps)
  show ?case
  proof (cases "df_metadata f")
    case None
    then show ?thesis
      using Cons.IH [OF tracks] track Cons.prems(2) by (simp add: record_before_def after_all_def declared_by_def split: option.split)
  next
    case (Some m)
    note facts = track [unfolded Some track_record_Some_iff]
    then have seqs1: "seqs1 = bt_insert key_cmp (record_key m) (rm_record_sequence m) seqs" by simp
    have wf1: "bt_wf key_cmp (\<lambda>_. True) seqs1" using Cons.prems(2) by (simp add: seqs1 keys.wf_insert)
    note IH = Cons.IH [OF tracks wf1]
    have "after_all seqs s \<and> record_before ?r s" if "after_all seqs1 s" for s
      using that facts Cons.prems(2) Some
      by (cases "rr_metadata s") (auto simp: after_all_def record_before_def seqs1 keys.get_insert split: if_splits)
    moreover have "after_all seqs ?r" "declared_by segment ?r"
      using facts Some by (auto simp: after_all_def declared_by_def split: option.splits)
    ultimately show ?thesis using IH by (auto simp: list_all_iff)
  qed
qed simp

subsection \<open>What recovery keeps\<close>

definition record_encoding :: "(string \<Rightarrow> 32 word) \<Rightarrow> RecoveredRecord \<Rightarrow> string \<Rightarrow> bool" where
  "record_encoding crc r enc \<longleftrightarrow>
     (case rr_metadata r of
        None \<Rightarrow> encode_legacy crc (rr_payload r) = Ok enc
      | Some m \<Rightarrow> record_metadata_typed m \<and> frame_encode crc m (rr_payload r) = Ok enc)"

lemma frames_of_encodings: "frames_of crc format fs encs \<Longrightarrow> list_all2 (record_encoding crc) (frame_records off fs) encs"
  by (induction fs arbitrary: off encs) (auto simp: record_encoding_def frame_of_def split: option.splits)

lemma length_concat_frames: "frames_of crc format fs encs \<Longrightarrow> length fs \<le> length (concat encs)"
proof (induction fs arbitrary: encs)
  case (Cons f fs)
  then obtain enc encs' where "encs = enc # encs'" "frame_of crc f enc" "frames_of crc format fs encs'" by auto
  then show ?case using Cons.IH [of encs'] frame_of_nonempty [of crc f enc] by (cases enc) auto
qed simp

text \<open>Every scan is a run of frames followed by its verdict on the rest.\<close>

abbreviation recoverable :: "nat \<Rightarrow> string \<Rightarrow> bool" where
  "recoverable start content \<equiv>
     MAX_RECOVERABLE_SEGMENT_LENGTH + start \<le> u64_max \<and> start \<le> length content
     \<and> length content \<le> MAX_RECOVERABLE_SEGMENT_LENGTH + start"

lemma recover_with_from_loop:
  assumes "recoverable start content"
  shows "recover_with_from crc faults content start expected segment =
    (case scan_loop crc segment content (scan_start start expected) of
       (st, Inl e) \<Rightarrow> (content, sc_records st, Err e)
     | (st, Inr True) \<Rightarrow>
         (case repair_tail faults content (sc_format st) (sc_record_count st) (sc_offset st) (length content) of
            (content', r) \<Rightarrow> (content', sc_records st, r))
     | (st, Inr False) \<Rightarrow>
         (content, sc_records st, Ok \<lparr> rs_format = sc_format st, rs_record_count = sc_record_count st,
            rs_last_valid_offset = sc_offset st, rs_truncated_bytes = 0 \<rparr>))"
  using assms
  by (simp add: recover_with_from_def scan_with_from_def Let_def checked_add_def handle_incomplete_tail_def
      split: prod.splits sum.splits bool.splits)

lemma recover_Ok_recoverable:
  "recover_with_from crc faults content start expected segment = (content', recs, Ok s) \<Longrightarrow> recoverable start content"
  by (auto simp: recover_with_from_def scan_with_from_def Let_def machine_simps split: option.splits if_splits)

lemma scan_start_fields:
  "sc_offset (scan_start start expected) = start" "sc_format (scan_start start expected) = expected"
  "sc_record_count (scan_start start expected) = 0" "sc_last_sequences (scan_start start expected) = []"
  by (simp_all add: scan_start_def)

lemma recover_Ok_run:
  assumes "recover_with_from crc faults content start expected segment = (content', recs, Ok s)"
  obtains format fs encs rest seqs where "frames_of crc format fs encs" "drop start content = concat encs @ rest"
    "fs = [] \<or> expected = None \<or> expected = Some format" "track_all segment start fs [] = Ok seqs" "length fs \<le> u64_max"
    "content' = take (start + length (concat encs)) content" "recs = frame_records start fs"
    "rs_record_count s = length fs" "rs_last_valid_offset s = start + length (concat encs)"
    "rs_truncated_bytes s = length content - (start + length (concat encs))"
proof -
  note ok = recover_Ok_recoverable [OF assms]
  let ?st = "scan_start start expected"
  obtain format fs encs rest seqs where run: "frames_of crc format fs encs" "drop start content = concat encs @ rest"
    "fs = [] \<or> expected = None \<or> expected = Some format" "track_all segment start fs [] = Ok seqs"
    "fs = [] \<or> length fs \<le> u64_max"
    "scan_end crc segment content (scan_advance format fs encs seqs ?st) = Some (scan_loop crc segment content ?st)"
    using scan_loop_run [of crc ?st content segment] unfolding scan_start_fields add_0 by blast
  have len: "start + length (concat encs) \<le> length content"
    using arg_cong [OF run(2), of length] ok by auto
  note out = assms [unfolded recover_with_from_loop [OF ok]] and ended = run(6) [symmetric]
  have "content' = take (start + length (concat encs)) content \<and> recs = frame_records start fs
    \<and> rs_record_count s = length fs \<and> rs_last_valid_offset s = start + length (concat encs)
    \<and> rs_truncated_bytes s = length content - (start + length (concat encs))"
    using out ended len
    by (auto simp: scan_end_def scan_advance_def scan_start_def repair_tail_def
        split: if_splits sum.splits ScanStep.splits prod.splits bool.splits)
  then show thesis using that [OF run(1-4)] run(5) by auto
qed

text \<open>Recovering a file that consists of frames changes nothing.\<close>

lemma recover_frames:
  assumes ok: "recoverable start content" and "frames_of crc format fs encs" "drop start content = concat encs"
    and "fs = [] \<or> expected = None \<or> expected = Some format" "track_all segment start fs [] = Ok seqs"
  shows "recover_with_from crc faults content start expected segment =
    (content, frame_records start fs,
     Ok \<lparr> rs_format = (if fs = [] then expected else Some format), rs_record_count = length fs,
          rs_last_valid_offset = length content, rs_truncated_bytes = 0 \<rparr>)"
proof -
  let ?st = "scan_advance format fs encs seqs (scan_start start expected)"
  have len: "start + length (concat encs) = length content" "length content \<le> u64_max"
    using arg_cong [OF assms(3), of length] ok by auto
  then have "length fs \<le> u64_max" using length_concat_frames [OF assms(2)] by simp
  then have "scan_loop crc segment content (scan_start start expected) = scan_loop crc segment content ?st"
    using assms(2-5) len(2) by (intro scan_loop_frames [where rest = "[]"]) (simp_all add: scan_start_fields)
  also have "\<dots> = (?st, Inr False)"
    using len(1) by (intro scan_loop_end) (simp add: scan_end_def scan_advance_def scan_start_def)
  finally show ?thesis
    using len(1) unfolding recover_with_from_loop [OF ok] by (simp add: scan_advance_def scan_start_def)
qed

lemma frame_records_facts:
  assumes "track_all segment start fs [] = Ok seqs"
  shows "sorted_wrt record_before (frame_records start fs)" "list_all (declared_by segment) (frame_records start fs)"
  using track_all_increasing [OF assms] by simp_all

subsection \<open>Torn tails\<close>

text \<open>The first bytes of every current frame.\<close>

lemma frame_encode_header:
  assumes "frame_encode crc m p = Ok enc"
  shows "take HEADER_LENGTH enc = frame_header crc m (length p)" "length enc = HEADER_LENGTH + length p + 4"
  using assms by (simp_all add: frame_encode_Ok_iff)

lemma frame_encode_prefix:
  assumes "frame_encode crc m p = Ok enc"
  shows "take 10 enc = current_prefix"
    "take 16 enc = MAGIC @ to_be_bytes 2 SCHEMA_VERSION @ to_be_bytes 2 HEADER_LENGTH @ to_be_bytes 4 SUPPORTED_FLAGS"
proof -
  obtain rest where "enc = header_fields m (length p) @ rest" "rm_flags m = SUPPORTED_FLAGS"
    using assms by (auto simp: frame_encode_Ok_iff frame_header_def)
  then show "take 10 enc = current_prefix"
    "take 16 enc = MAGIC @ to_be_bytes 2 SCHEMA_VERSION @ to_be_bytes 2 HEADER_LENGTH @ to_be_bytes 4 SUPPORTED_FLAGS"
    by (simp_all add: header_fields_def current_prefix_def)
qed

lemma format_current: "format_of_version (from_be_bytes (drop 8 current_prefix)) = Some V2" "take 8 current_prefix = MAGIC"
  using be16.read_back [OF header_constants_u16(1)] version_of_format [of V2]
  by (simp_all add: current_prefix_def)

lemma torn_tail_step:
  assumes m: "record_metadata_typed m" and enc: "frame_encode crc m p = Ok enc" "enc = tail @ missing" "tail \<noteq> []" "missing \<noteq> []"
    and at: "drop (sc_offset st) content = tail" and format: "sc_format st = Some V2"
    and bound: "sc_offset st + length enc \<le> u64_max"
  shows "scan_step crc segment content st =
    (if length tail < HEADER_LENGTH \<or> \<not> contains_later_valid_frame crc content (sc_offset st + 1) (length content)
     then Ok (TornTail (Some V2)) else Err (Corruption (sc_offset st) IncompleteLegacyFrame))"
proof -
  let ?off = "sc_offset st"
  note pre = frame_encode_prefix [OF enc(1)] frame_encode_header [OF enc(1)]
  have remaining: "length content - ?off = length tail" using arg_cong [OF at, of length] by simp
  have slice: "slice_at ?off k content = take k tail" for k by (simp add: slice_at_def at)
  have short: "take k tail = take k enc" if "k \<le> length tail" for k using that enc(2) by simp
  show ?thesis
  proof (cases "length tail < 10")
    case True
    have "tail = take (length tail) (take 10 enc)" using True enc(2) by simp
    then have "tail = take (length tail) current_prefix" unfolding pre(1) .
    then have "valid_common_prefix tail (Some V2)" by (simp add: valid_common_prefix_def)
    then show ?thesis using True remaining format at by (simp add: scan_step_def HEADER_LENGTH_def)
  next
    case False
    have prefix: "slice_at ?off 10 content = current_prefix" using slice short [of 10] False pre(1) by simp
    have "scan_step crc segment content st = scan_frame crc segment content V2 st"
      using False remaining prefix format_current format by (simp add: scan_step_def Let_def)
    also have "\<dots> = (if length tail < HEADER_LENGTH \<or> \<not> contains_later_valid_frame crc content (?off + 1) (length content)
        then Ok (TornTail (Some V2)) else Err (Corruption ?off IncompleteLegacyFrame))"
    proof (cases "length tail < HEADER_LENGTH")
      case True
      have "take k tail = take k (take 16 enc)" if "k = min (length tail) 16" for k using that enc(2) by (simp add: min_def)
      then have "is_valid_partial_header_prefix tail"
        using True enc(3) unfolding pre(2) by (simp add: is_valid_partial_header_prefix_def Let_def)
      then show ?thesis
        using True remaining at by (simp add: scan_frame_def Let_def header_length_of_def is_repairable_partial_header_def)
    next
      case False
      have "slice_at ?off HEADER_LENGTH content = frame_header crc m (length p)"
        using slice short [of HEADER_LENGTH] False pre(3) by simp
      then have "declared_payload_length crc V2 (slice_at ?off HEADER_LENGTH content) = Ok (length p)"
        using decode_v2_header_written [OF m, of "length p" crc "[]"] enc(1)
        by (simp add: declared_payload_length_def frame_encode_Ok_iff)
      moreover have "total_frame_length HEADER_LENGTH (length p) = Some (length enc)"
        using bound pre(4) by (simp add: total_frame_length_Some_iff)
      moreover have "?off + length enc > length content"
        using remaining enc(2-4) by (cases missing) auto
      ultimately show ?thesis
        using False remaining bound by (simp add: scan_frame_def Let_def header_length_of_def checked_add_def)
    qed
    finally show ?thesis .
  qed
qed

text \<open>A run of frames with a torn frame behind it: the frames are kept and the rest is cut off.\<close>

lemma recover_torn:
  assumes ok: "recoverable start content" and start: "start \<le> u16_max" and frames: "frames_of crc V2 fs encs"
    and content: "drop start content = concat encs @ tail" and track: "track_all segment start fs [] = Ok seqs"
    and m: "record_metadata_typed m" and enc: "frame_encode crc m p = Ok enc" "enc = tail @ missing" "tail \<noteq> []" "missing \<noteq> []"
  defines "off \<equiv> start + length (concat encs)"
  shows "recover_with_from crc faults content start (Some V2) segment =
    (if length tail < HEADER_LENGTH \<or> \<not> contains_later_valid_frame crc content (off + 1) (length content)
     then (case repair_tail faults content (Some V2) (length fs) off (length content) of
             (content', r) \<Rightarrow> (content', frame_records start fs, r))
     else (content, frame_records start fs, Err (Corruption off IncompleteLegacyFrame)))"
proof -
  let ?st = "scan_advance V2 fs encs seqs (scan_start start (Some V2))"
  have st: "sc_offset ?st = off" "sc_format ?st = Some V2" "sc_record_count ?st = length fs"
    "sc_records ?st = frame_records start fs"
    by (simp_all add: scan_advance_def scan_start_def off_def)
  have len: "off + length tail = length content" "length content \<le> u64_max"
    using arg_cong [OF content, of length] ok by (auto simp: off_def)
  then have count: "length fs \<le> u64_max" using length_concat_frames [OF frames] by (simp add: off_def)
  have loop: "scan_loop crc segment content (scan_start start (Some V2)) = scan_loop crc segment content ?st"
    using frames content track len(2) count by (intro scan_loop_frames) (simp_all add: scan_start_fields)
  have "drop off content = drop (length (concat encs)) (drop start content)" by (simp add: off_def add.commute)
  then have at: "drop (sc_offset ?st) content = tail" by (simp add: content st(1))
  have "length enc \<le> MAX_RECOVERABLE_SEGMENT_LENGTH"
    using frame_encode_header(2) [OF enc(1)] enc(1)
    by (simp add: frame_encode_Ok_iff MAX_RECOVERABLE_SEGMENT_LENGTH_def TARGET_SEGMENT_LENGTH_def CHECKSUM_LENGTH_def)
  moreover have "off + length enc \<le> length content + length enc" using len(1) by simp
  ultimately have "off + length enc \<le> u64_max"
    using start ok
    by (simp add: MAX_RECOVERABLE_SEGMENT_LENGTH_def TARGET_SEGMENT_LENGTH_def MAX_PAYLOAD_LENGTH_def
        HEADER_LENGTH_def CHECKSUM_LENGTH_def u16_max_def u64_max_def)
  then have step: "scan_step crc segment content ?st =
    (if length tail < HEADER_LENGTH \<or> \<not> contains_later_valid_frame crc content (off + 1) (length content)
     then Ok (TornTail (Some V2)) else Err (Corruption off IncompleteLegacyFrame))"
    using torn_tail_step [OF m enc at st(2)] unfolding st(1) by blast
  have "off < length content" using len(1) enc(3) by (cases tail) auto
  then have "scan_loop crc segment content ?st =
    (if length tail < HEADER_LENGTH \<or> \<not> contains_later_valid_frame crc content (off + 1) (length content)
     then (?st\<lparr>sc_format := Some V2\<rparr>, Inr True) else (?st, Inl (Corruption off IncompleteLegacyFrame)))"
    using step st(1) by (intro scan_loop_end) (simp add: scan_end_def)
  then show ?thesis unfolding recover_with_from_loop [OF ok] loop using st by simp
qed

text \<open>
  C5. Recovery keeps a run of complete records and nothing else. When it succeeds, the file it leaves is
  the given file cut after the last complete record; between the prologue and that point stand exactly
  the encodings of the returned records, in order; their sequence numbers increase per stream and
  connection epoch and their streams are declared; and recovering that file again returns the same
  records, cuts nothing and leaves it unchanged, whatever the disk does.
\<close>

theorem recovery_sound:
  assumes "recover_with_from crc faults content start expected segment = (content', recs, Ok s)"
  shows "content' = take (rs_last_valid_offset s) content
    \<and> length content = rs_last_valid_offset s + rs_truncated_bytes s
    \<and> (\<exists>encs. list_all2 (record_encoding crc) recs encs \<and> content' = take start content @ concat encs)
    \<and> rs_record_count s = length recs \<and> sorted_wrt record_before recs \<and> list_all (declared_by segment) recs
    \<and> (\<exists>format. recover_with_from crc faults' content' start expected segment =
          (content', recs, Ok (s\<lparr>rs_format := format, rs_truncated_bytes := 0\<rparr>)))"
proof -
  note ok = recover_Ok_recoverable [OF assms]
  obtain format fs encs rest seqs where run: "frames_of crc format fs encs" "drop start content = concat encs @ rest"
    "fs = [] \<or> expected = None \<or> expected = Some format" "track_all segment start fs [] = Ok seqs" "length fs \<le> u64_max"
    and out: "content' = take (start + length (concat encs)) content" "recs = frame_records start fs"
    and s: "rs_record_count s = length fs" "rs_last_valid_offset s = start + length (concat encs)"
    "rs_truncated_bytes s = length content - (start + length (concat encs))"
    by (rule recover_Ok_run [OF assms])
  have len: "start + length (concat encs) \<le> length content"
    using arg_cong [OF run(2), of length] ok by auto
  have kept: "content' = take start content @ concat encs" using run(2) by (simp add: out(1) take_add)
  then have "drop start content' = concat encs" "recoverable start content'" using ok len by auto
  then have again: "recover_with_from crc faults' content' start expected segment = (content', recs,
      Ok \<lparr> rs_format = (if fs = [] then expected else Some format), rs_record_count = length fs,
           rs_last_valid_offset = length content', rs_truncated_bytes = 0 \<rparr>)"
    using recover_frames [OF _ run(1) _ run(3,4)] out(2) by simp
  have "\<lparr> rs_format = (if fs = [] then expected else Some format), rs_record_count = length fs,
           rs_last_valid_offset = length content', rs_truncated_bytes = 0 \<rparr>
      = s\<lparr>rs_format := if fs = [] then expected else Some format, rs_truncated_bytes := 0\<rparr>"
    using s len by (simp add: out(1))
  then have "\<exists>format. recover_with_from crc faults' content' start expected segment =
      (content', recs, Ok (s\<lparr>rs_format := format, rs_truncated_bytes := 0\<rparr>))"
    using again by metis
  moreover have "list_all2 (record_encoding crc) recs encs" using frames_of_encodings [OF run(1)] out(2) by simp
  ultimately show ?thesis
    using s len kept out frame_records_facts [OF run(4)] by (intro conjI) auto
qed

text \<open>An example: one complete record and five bytes of the next.\<close>

definition example_record :: RecordMetadata where
  "example_record = \<lparr> rm_flags = 0, rm_stream_id = 1, rm_connection_epoch = 1, rm_record_sequence = 7,
     rm_receive_wall_time_ns = 1, rm_receive_monotonic_time_ns = 1 \<rparr>"

definition example_frame :: "(string \<Rightarrow> 32 word) \<Rightarrow> string" where
  "example_frame crc = frame_header crc example_record 2 @ ''ab'' @ crc_bytes crc (frame_header crc example_record 2 @ ''ab'')"

lemma example_frame_encode: "frame_encode crc example_record ''ab'' = Ok (example_frame crc)"
  by (simp add: frame_encode_Ok_iff example_frame_def example_record_def SUPPORTED_FLAGS_def MAX_PAYLOAD_LENGTH_def
      numeral_2_eq_2)

lemma example_record_typed: "record_metadata_typed example_record"
  by (simp add: record_metadata_typed_def example_record_def u32_max_def u64_max_def i64_min_def i64_max_def)

lemma length_example_frame: "length (example_frame crc) = 66"
  by (simp add: example_frame_def HEADER_LENGTH_def)

lemma example_recovery:
  "recover_with_from crc \<lparr> set_len_fails = False, sync_all_fails = False \<rparr>
     (example_frame crc @ take 5 (example_frame crc)) 0 (Some V2) None =
   (example_frame crc,
    [\<lparr> rr_metadata = Some example_record, rr_payload = ''ab'', rr_offset = 0, rr_next_offset = 66 \<rparr>],
    Ok \<lparr> rs_format = Some V2, rs_record_count = 1, rs_last_valid_offset = 66, rs_truncated_bytes = 5 \<rparr>)"
proof -
  let ?f = "\<lparr> df_format = V2, df_metadata = Some example_record, df_payload = ''ab'', df_encoded_length = 66 \<rparr>"
  let ?enc = "example_frame crc"
  have "frames_of crc V2 [?f] [?enc]"
    using example_frame_encode [of crc] by (simp add: frame_of_def example_record_typed length_example_frame)
  moreover have "track_all None 0 [?f] [] = Ok [((1, 1), 7)]"
    by (simp add: track_record_def validate_sequence_def Let_def example_record_def MAX_TRACKED_STREAM_EPOCHS_def)
  moreover have "?enc = take 5 ?enc @ drop 5 ?enc" "take 5 ?enc \<noteq> []" "drop 5 ?enc \<noteq> []"
    using length_example_frame [of crc] by (auto simp: take_eq_Nil2)
  ultimately show ?thesis
    using recover_torn [of 0 "?enc @ take 5 ?enc" crc "[?f]" "[?enc]" "take 5 ?enc" None "[((1, 1), 7)]" example_record "''ab''" ?enc "drop 5 ?enc"
        "\<lparr> set_len_fails = False, sync_all_fails = False \<rparr>"]
      example_record_typed example_frame_encode [of crc] length_example_frame [of crc]
    by (simp add: repair_tail_def MAX_RECOVERABLE_SEGMENT_LENGTH_def TARGET_SEGMENT_LENGTH_def MAX_PAYLOAD_LENGTH_def
        HEADER_LENGTH_def CHECKSUM_LENGTH_def u64_max_def)
qed

theorem recovery_sound_witness:
  "recover_with_from (\<lambda>_. 0) \<lparr> set_len_fails = False, sync_all_fails = False \<rparr>
     (example_frame (\<lambda>_. 0) @ take 5 (example_frame (\<lambda>_. 0))) 0 (Some V2) None =
   (example_frame (\<lambda>_. 0),
    [\<lparr> rr_metadata = Some example_record, rr_payload = ''ab'', rr_offset = 0, rr_next_offset = 66 \<rparr>],
    Ok \<lparr> rs_format = Some V2, rs_record_count = 1, rs_last_valid_offset = 66, rs_truncated_bytes = 5 \<rparr>)
   \<and> (\<exists>format. recover_with_from (\<lambda>_. 0) \<lparr> set_len_fails = True, sync_all_fails = True \<rparr>
        (example_frame (\<lambda>_. 0)) 0 (Some V2) None =
      (example_frame (\<lambda>_. 0),
       [\<lparr> rr_metadata = Some example_record, rr_payload = ''ab'', rr_offset = 0, rr_next_offset = 66 \<rparr>],
       Ok \<lparr> rs_format = format, rs_record_count = 1, rs_last_valid_offset = 66, rs_truncated_bytes = 0 \<rparr>))"
  using recovery_sound [OF example_recovery [of "\<lambda>_. 0"], of "\<lparr> set_len_fails = True, sync_all_fails = True \<rparr>"]
    example_recovery [of "\<lambda>_. 0"]
  by simp

end
