(* ===== verification/Wal_Segment.thy ===== *)
theory Wal_Segment
  imports Wal_Recovery_Correct
begin

text \<open>
  \<open>raw-wal/src/segment.rs\<close>: the life of one segment file. The field \<open>file\<close> of a segment is two fields
  here: \<open>sg_file\<close>, the bytes that reading the file gives, and \<open>sg_synced\<close>, how many of them are known to be on the
  disk. Writing changes only the first; a successful \<open>sync_data\<close> or \<open>sync_all\<close> raises the second to the length of
  the file, and cutting the file off lowers it. What a crash does with the bytes beyond \<open>sg_synced\<close> is said in
  \<open>Wal_Durability\<close>. The advisory lock, the publication of a new file and the failures of writing and
  syncing are parameters; a failed write leaves any prefix of the bytes behind. Names of files and directories do
  not occur: creating, opening and locking a path end in one of the operations here or in an I/O error.
\<close>

subsection \<open>Data\<close>

datatype SegmentError =
    Frame FrameError
  | Prologue PrologueError
  | Recovery RecoveryError
  | Io
  | AlreadyOpen
  | FormatMismatch
  | InvalidFormat
  | PrologueRequired
  | UndeclaredStream nat
  | SequenceRegression nat nat nat nat
  | StreamEpochLimit nat
  | Poisoned

record DurableOffset =
  do_segment_id :: string
  do_frame_offset :: nat
  do_next_offset :: nat

record Segment =
  sg_file :: string
  sg_synced :: nat
  sg_segment_metadata :: "SegmentMetadata option"
  sg_record_start_offset :: nat
  sg_v2_sequences :: "sequences option"
  sg_poisoned :: bool

datatype LockOutcome = Acquired | WouldBlock | LockFails

text \<open>Where \<open>write_all\<close> stops, if it does, and whether \<open>sync_data\<close> fails.\<close>

record WriteFaults =
  write_stops :: "nat option"
  sync_data_fails :: bool

text \<open>\<open>File::sync_data\<close> and \<open>File::sync_all\<close>: on success every byte written so far is on the disk.\<close>

definition file_sync :: "bool \<Rightarrow> Segment \<Rightarrow> Segment \<times> (unit, SegmentError) result" where
  "file_sync fails seg =
     (if fails then (seg, Err Io) else (seg\<lparr>sg_synced := length (sg_file seg)\<rparr>, Ok ()))"

subsection \<open>Opening\<close>

definition acquire_exclusive_lock :: "LockOutcome \<Rightarrow> (unit, SegmentError) result" where
  "acquire_exclusive_lock lock =
     (case lock of Acquired \<Rightarrow> Ok () | WouldBlock \<Rightarrow> Err AlreadyOpen | LockFails \<Rightarrow> Err Io)"

definition segment_from_file :: "LockOutcome \<Rightarrow> string \<Rightarrow> nat \<Rightarrow> (Segment, SegmentError) result" where
  "segment_from_file lock content synced =
     and_then (acquire_exclusive_lock lock) (\<lambda>_.
       Ok \<lparr> sg_file = content, sg_synced = synced, sg_segment_metadata = None, sg_record_start_offset = 0, sg_v2_sequences = None,
            sg_poisoned = False \<rparr>)"

text \<open>\<open>create_v2\<close>; \<open>publish_fails\<close> stands for a failure of the temporary file, its sync or its renaming.\<close>

definition create_v2 ::
  "(string \<Rightarrow> 32 word) \<Rightarrow> LockOutcome \<Rightarrow> bool \<Rightarrow> SegmentMetadata \<Rightarrow> (Segment, SegmentError) result" where
  "create_v2 crc lock publish_fails metadata =
     and_then (map_err (prologue_encode crc metadata) Prologue) (\<lambda>encoded.
     and_then (acquire_exclusive_lock lock) (\<lambda>_.
       if publish_fails then Err Io
       else Ok \<lparr> sg_file = encoded, sg_synced = length encoded, sg_segment_metadata = Some metadata,
                 sg_record_start_offset = length encoded, sg_v2_sequences = Some [], sg_poisoned = False \<rparr>))"

definition has_prologue_magic :: "Segment \<Rightarrow> bool" where
  "has_prologue_magic seg \<longleftrightarrow> length (sg_file seg) \<ge> 8 \<and> take 8 (sg_file seg) = PROLOGUE_MAGIC"

definition load_prologue :: "(string \<Rightarrow> 32 word) \<Rightarrow> Segment \<Rightarrow> (Segment, SegmentError) result" where
  "load_prologue crc seg =
     and_then (map_err (declared_header_length (take 12 (sg_file seg))) Prologue) (\<lambda>header_length.
       if length (sg_file seg) < header_length then Err (Prologue PrologueError.Incomplete)
       else and_then (map_err (prologue_decode crc (take header_length (sg_file seg))) Prologue) (\<lambda>decoded.
              Ok (seg\<lparr>sg_record_start_offset := dp_encoded_length decoded,
                      sg_segment_metadata := Some (dp_metadata decoded), sg_v2_sequences := None\<rparr>)))"

definition open_v2_file ::
  "(string \<Rightarrow> 32 word) \<Rightarrow> LockOutcome \<Rightarrow> string \<Rightarrow> nat \<Rightarrow> (Segment, SegmentError) result" where
  "open_v2_file crc lock content synced =
     and_then (segment_from_file lock content synced) (\<lambda>seg.
       if \<not> has_prologue_magic seg then Err PrologueRequired else load_prologue crc seg)"

definition ensure_prologue_loaded_if_present :: "(string \<Rightarrow> 32 word) \<Rightarrow> Segment \<Rightarrow> (Segment, SegmentError) result" where
  "ensure_prologue_loaded_if_present crc seg =
     (if sg_segment_metadata seg = None \<and> has_prologue_magic seg then load_prologue crc seg else Ok seg)"

definition segment_error_to_recovery :: "SegmentError \<Rightarrow> RecoveryError" where
  "segment_error_to_recovery e =
     (case e of Prologue p \<Rightarrow> RecoveryError.Prologue p | Recovery r \<Rightarrow> r | _ \<Rightarrow> RecoveryError.Io)"

definition ensure_prologue_for_recovery :: "(string \<Rightarrow> 32 word) \<Rightarrow> Segment \<Rightarrow> (Segment, RecoveryError) result" where
  "ensure_prologue_for_recovery crc seg =
     map_err (ensure_prologue_loaded_if_present crc seg) segment_error_to_recovery"

definition record_only_format :: "Segment \<Rightarrow> (WalFormat option, SegmentError) result" where
  "record_only_format seg =
     (if sg_file seg = [] then Ok None
      else if length (sg_file seg) < 8 + 2 then Err InvalidFormat
      else if take 8 (sg_file seg) \<noteq> MAGIC then Err InvalidFormat
      else case format_of_version (from_be_bytes (slice_at 8 2 (sg_file seg))) of
             Some format \<Rightarrow> Ok (Some format)
           | None \<Rightarrow> Err InvalidFormat)"

subsection \<open>Recovery\<close>

text \<open>
  What a recovery leaves of the file. A successful one that cut bytes off has synced the file; one that
  failed may have cut it off without a sync.
\<close>

definition recovered_file :: "string \<Rightarrow> (RecoverySummary, RecoveryError) result \<Rightarrow> Segment \<Rightarrow> Segment" where
  "recovered_file content r seg =
     seg\<lparr>sg_file := content,
         sg_synced := (case r of
             Inr summary \<Rightarrow> if rs_truncated_bytes summary > 0 then length content else sg_synced seg
           | Inl _ \<Rightarrow> min (sg_synced seg) (length content))\<rparr>"

definition insert_record :: "sequences \<Rightarrow> RecoveredRecord \<Rightarrow> sequences" where
  "insert_record seqs r =
     (case rr_metadata r of
        Some m \<Rightarrow> bt_insert key_cmp (rm_stream_id m, rm_connection_epoch m) (rm_record_sequence m) seqs
      | None \<Rightarrow> seqs)"

definition sequences_of :: "RecoveredRecord list \<Rightarrow> sequences" where
  "sequences_of = foldl insert_record []"

definition segment_recover_with ::
  "(string \<Rightarrow> 32 word) \<Rightarrow> DiskFaults \<Rightarrow> Segment \<Rightarrow> Segment \<times> RecoveredRecord list \<times> (RecoverySummary, RecoveryError) result" where
  "segment_recover_with crc faults seg =
     (case ensure_prologue_for_recovery crc seg of
        Inl e \<Rightarrow> (seg, [], Err e)
      | Inr seg' \<Rightarrow>
          (case (if sg_segment_metadata seg' \<noteq> None
                 then recover_with_from crc faults (sg_file seg') (sg_record_start_offset seg') (Some V2)
                        (sg_segment_metadata seg')
                 else recover_with crc faults (sg_file seg')) of
             (content, visited, Inl e) \<Rightarrow> (recovered_file content (Inl e) seg', visited, Inl e)
           | (content, visited, Inr summary) \<Rightarrow>
               ((recovered_file content (Ok summary) seg')\<lparr>sg_v2_sequences := if rs_format summary = Some V2 then Some (sequences_of visited) else None\<rparr>,
                visited, Inr summary)))"

definition update_sequence_state_from_owned :: "RecoveredRecord list \<Rightarrow> RecoverySummary \<Rightarrow> Segment \<Rightarrow> Segment" where
  "update_sequence_state_from_owned records summary seg =
     (if rs_format summary \<noteq> Some V2 then seg\<lparr>sg_v2_sequences := None\<rparr>
      else seg\<lparr>sg_v2_sequences := Some (sequences_of records)\<rparr>)"

definition segment_recover ::
  "(string \<Rightarrow> 32 word) \<Rightarrow> DiskFaults \<Rightarrow> Segment \<Rightarrow> Segment \<times> (RecoveryReport, RecoveryError) result" where
  "segment_recover crc faults seg =
     (case ensure_prologue_for_recovery crc seg of
        Inl e \<Rightarrow> (seg, Err e)
      | Inr seg' \<Rightarrow>
          (case (if sg_segment_metadata seg' \<noteq> None
                 then recover_from crc faults (sg_file seg') (sg_record_start_offset seg') (Some V2)
                        (sg_segment_metadata seg')
                 else recover crc faults (sg_file seg')) of
             (content, Inl e) \<Rightarrow> (recovered_file content (Inl e) seg', Inl e)
           | (content, Inr report) \<Rightarrow>
               (update_sequence_state_from_owned (rp_records report) (rp_summary report)
                  (recovered_file content (Ok (rp_summary report)) seg'),
                Inr report)))"

definition verify_without_repair ::
  "(string \<Rightarrow> 32 word) \<Rightarrow> DiskFaults \<Rightarrow> Segment \<Rightarrow> Segment \<times> RecoveredRecord list \<times> (RecoverySummary, RecoveryError) result" where
  "verify_without_repair crc faults seg =
     (case ensure_prologue_for_recovery crc seg of
        Inl e \<Rightarrow> (seg, [], Err e)
      | Inr seg' \<Rightarrow>
          (case sg_segment_metadata seg' of
             None \<Rightarrow> (seg', [], Err RecoveryError.Io)
           | Some m \<Rightarrow>
               (case verify_with_from crc faults (sg_file seg') (sg_record_start_offset seg') (Some V2) (Some m) of
                  (content, visited, r) \<Rightarrow> (recovered_file content r seg', visited, r))))"

definition ensure_v2_sequences ::
  "(string \<Rightarrow> 32 word) \<Rightarrow> DiskFaults \<Rightarrow> Segment \<Rightarrow> Segment \<times> (unit, SegmentError) result" where
  "ensure_v2_sequences crc faults seg =
     (if sg_v2_sequences seg \<noteq> None then (seg, Ok ())
      else case recover_with_from crc faults (sg_file seg) (sg_record_start_offset seg) (Some V2) (sg_segment_metadata seg) of
             (content, visited, Inl e) \<Rightarrow> (recovered_file content (Inl e) seg, Err (Recovery e))
           | (content, visited, Inr summary) \<Rightarrow>
               if rs_format summary \<noteq> Some V2 then (recovered_file content (Ok summary) seg, Err FormatMismatch)
               else ((recovered_file content (Ok summary) seg)\<lparr>sg_v2_sequences := Some (sequences_of visited)\<rparr>, Ok ()))"

subsection \<open>Appending\<close>

definition ensure_writable :: "Segment \<Rightarrow> (unit, SegmentError) result" where
  "ensure_writable seg = (if sg_poisoned seg then Err Poisoned else Ok ())"

definition append_encoded_range ::
  "WriteFaults \<Rightarrow> string \<Rightarrow> Segment \<Rightarrow> Segment \<times> (nat \<times> nat, SegmentError) result" where
  "append_encoded_range disk encoded seg =
     (let frame_offset = length (sg_file seg)
      in case write_stops disk of
           Some k \<Rightarrow> (seg\<lparr>sg_file := sg_file seg @ take k encoded, sg_poisoned := True\<rparr>, Err Io)
         | None \<Rightarrow>
             (case file_sync (sync_data_fails disk) (seg\<lparr>sg_file := sg_file seg @ encoded\<rparr>) of
                (seg', Inl e) \<Rightarrow> (seg'\<lparr>sg_poisoned := True\<rparr>, Err Io)
              | (seg', Inr _) \<Rightarrow>
                  (case checked_add u64_max frame_offset (length encoded) of
                     None \<Rightarrow> (seg'\<lparr>sg_poisoned := True\<rparr>, Err Io)
                   | Some next_offset \<Rightarrow> (seg', Ok (frame_offset, next_offset)))))"

definition append_synced ::
  "(string \<Rightarrow> 32 word) \<Rightarrow> WriteFaults \<Rightarrow> string \<Rightarrow> Segment \<Rightarrow> Segment \<times> (nat, SegmentError) result" where
  "append_synced crc disk payload seg =
     (case and_then (ensure_writable seg) (\<lambda>_. ensure_prologue_loaded_if_present crc seg) of
        Inl e \<Rightarrow> (seg, Err e)
      | Inr seg1 \<Rightarrow>
          if sg_segment_metadata seg1 \<noteq> None then (seg1, Err FormatMismatch)
          else case record_only_format seg1 of
                 Inl e \<Rightarrow> (seg1, Err e)
               | Inr (Some V2) \<Rightarrow> (seg1, Err FormatMismatch)
               | Inr _ \<Rightarrow>
                   (case encode_legacy crc payload of
                      Inl e \<Rightarrow> (seg1, Err (Frame e))
                    | Inr encoded \<Rightarrow>
                        (case append_encoded_range disk encoded seg1 of
                           (seg2, Inl e) \<Rightarrow> (seg2, Err e)
                         | (seg2, Inr (frame_offset, next_offset)) \<Rightarrow> (seg2, Ok (next_offset - frame_offset)))))"

definition append_checks :: "SegmentMetadata \<Rightarrow> RecordMetadata \<Rightarrow> sequences \<Rightarrow> (unit, SegmentError) result" where
  "append_checks segment m seqs =
     (let key = (rm_stream_id m, rm_connection_epoch m)
      in if \<not> bt_contains key_cmp key seqs \<and> length seqs \<ge> MAX_TRACKED_STREAM_EPOCHS
         then Err (StreamEpochLimit MAX_TRACKED_STREAM_EPOCHS)
         else case bt_get key_cmp key seqs of
                Some previous \<Rightarrow>
                  if rm_record_sequence m \<le> previous
                  then Err (SequenceRegression (rm_stream_id m) (rm_connection_epoch m) previous (rm_record_sequence m))
                  else Ok ()
              | None \<Rightarrow> Ok ())"

definition append_frame ::
  "(string \<Rightarrow> 32 word) \<Rightarrow> WriteFaults \<Rightarrow> RecordMetadata \<Rightarrow> string \<Rightarrow> SegmentMetadata \<Rightarrow> sequences \<Rightarrow> Segment
   \<Rightarrow> Segment \<times> (DurableOffset, SegmentError) result" where
  "append_frame crc disk m payload segment seqs seg =
     (case and_then (append_checks segment m seqs) (\<lambda>_. map_err (frame_encode crc m payload) Frame) of
        Inl e \<Rightarrow> (seg, Err e)
      | Inr encoded \<Rightarrow>
          (case append_encoded_range disk encoded seg of
             (seg', Inl e) \<Rightarrow> (seg', Err e)
           | (seg', Inr (frame_offset, next_offset)) \<Rightarrow>
               (seg'\<lparr>sg_v2_sequences :=
                  Some (bt_insert key_cmp (rm_stream_id m, rm_connection_epoch m) (rm_record_sequence m) seqs)\<rparr>,
                Ok \<lparr> do_segment_id = sm_segment_id segment, do_frame_offset = frame_offset,
                     do_next_offset = next_offset \<rparr>)))"

definition append_record_synced ::
  "(string \<Rightarrow> 32 word) \<Rightarrow> DiskFaults \<Rightarrow> WriteFaults \<Rightarrow> RecordMetadata \<Rightarrow> string \<Rightarrow> Segment
   \<Rightarrow> Segment \<times> (DurableOffset, SegmentError) result" where
  "append_record_synced crc faults disk m payload seg =
     (case and_then (ensure_writable seg) (\<lambda>_. ensure_prologue_loaded_if_present crc seg) of
        Inl e \<Rightarrow> (seg, Err e)
      | Inr seg1 \<Rightarrow>
          (case sg_segment_metadata seg1 of
             None \<Rightarrow> (seg1, Err PrologueRequired)
           | Some segment \<Rightarrow>
               if \<not> contains_stream segment (rm_stream_id m) then (seg1, Err (UndeclaredStream (rm_stream_id m)))
               else (case ensure_v2_sequences crc faults seg1 of
                       (seg2, Inl e) \<Rightarrow> (seg2, Err e)
                     | (seg2, Inr _) \<Rightarrow>
                         (case sg_v2_sequences seg2 of
                            None \<Rightarrow> (seg2, Err Io)
                          | Some seqs \<Rightarrow> append_frame crc disk m payload segment seqs seg2))))"

definition segment_sync :: "bool \<Rightarrow> Segment \<Rightarrow> Segment \<times> (unit, SegmentError) result" where
  "segment_sync fails seg =
     (case file_sync fails seg of
        (seg', Inl e) \<Rightarrow> (seg'\<lparr>sg_poisoned := True\<rparr>, Err Io)
      | (seg', Inr _) \<Rightarrow> (seg', Ok ()))"

definition segment_sync_all :: "bool \<Rightarrow> Segment \<Rightarrow> Segment \<times> (unit, SegmentError) result" where
  "segment_sync_all fails seg =
     (case file_sync fails seg of
        (seg', Inl e) \<Rightarrow> (seg'\<lparr>sg_poisoned := True\<rparr>, Err Io)
      | (seg', Inr _) \<Rightarrow> (seg', Ok ()))"

text \<open>The identity of the prologue; the digest is BLAKE3.\<close>

definition prologue_identity :: "(string \<Rightarrow> string) \<Rightarrow> Segment \<Rightarrow> nat \<times> string" where
  "prologue_identity digest seg =
     (sg_record_start_offset seg, digest (take (sg_record_start_offset seg) (sg_file seg)))"

end
