(* ===== verification/Wal_Durability.thy ===== *)
theory Wal_Durability
  imports Wal_Segment "HOL-Library.Sublist"
begin

text \<open>
  The promise of the write-ahead log over \<open>raw-wal/src/segment.rs\<close>, \<open>recovery.rs\<close>, \<open>prologue.rs\<close> and
  \<open>frame.rs\<close>: what was acknowledged is recovered. The history of a segment is an inductive relation
  whose steps are the operations of the code with arbitrary disk failures and crashes. A crash keeps
  what was synced and may lose, cut, reorder or garble everything that was not.
\<close>

subsection \<open>Histories\<close>





subsection \<open>The file of a segment\<close>

text \<open>No complete frame begins here.\<close>

definition no_frame :: "(string \<Rightarrow> 32 word) \<Rightarrow> string \<Rightarrow> bool" where
  "no_frame crc tail \<longleftrightarrow> (\<forall>f enc. frame_of crc f enc \<and> df_format f = V2 \<longrightarrow> \<not> prefix enc tail)"


text \<open>What was acknowledged is in addition within the part of the file that is on the disk.\<close>

definition synced_inv :: "Segment \<Rightarrow> RecoveredRecord list \<Rightarrow> bool" where
  "synced_inv seg acked \<longleftrightarrow> sg_record_start_offset seg \<le> sg_synced seg \<and> sg_synced seg \<le> length (sg_file seg)
     \<and> (\<forall>r \<in> set acked. rr_next_offset r \<le> sg_synced seg)"











lemma no_frame_Nil [simp]: "no_frame crc []"
  using frame_of_nonempty by (auto simp: no_frame_def)



subsection \<open>Recovery of the file\<close>











subsection \<open>Crashes\<close>





subsection \<open>Operations of a segment\<close>





text \<open>A recovery keeps on the disk what was there of the acknowledged records.\<close>

lemma recovered_file_simps [simp]:
  "sg_file (recovered_file content r seg) = content"
  "sg_segment_metadata (recovered_file content r seg) = sg_segment_metadata seg"
  "sg_record_start_offset (recovered_file content r seg) = sg_record_start_offset seg"
  "sg_v2_sequences (recovered_file content r seg) = sg_v2_sequences seg"
  "sg_poisoned (recovered_file content r seg) = sg_poisoned seg"
  by (simp_all add: recovered_file_def)

lemma synced_inv_sequences [simp]: "synced_inv (seg\<lparr>sg_v2_sequences := q\<rparr>) acked = synced_inv seg acked"
  by (simp add: synced_inv_def)













subsection \<open>Properties\<close>







end
