(* ===== verification/Spec2Isabelle.thy ===== *)
theory Spec2Isabelle
  imports Decimal_Correct Domain Sync_Binance Kraken_Checksum Deribit_Mirror Sync_Bybit Connector_Lifecycle Watermark
    Wal_Durability
begin

text \<open>
  Crypto-intelligence: a verification library for the market-data core of a local market-risk runtime,
  written in Rust. The core takes venue messages from the wire to a trusted view of an order book:
  a message is appended to the write-ahead log (crate \<open>raw-wal\<close>), parsed into exact decimals
  (\<open>fixed-decimal\<close>) and identities (\<open>domain\<close>), wrapped in an event whose identity is a hash of its
  contents (\<open>event-envelope\<close>), handed by a venue synchronizer (\<open>connector-binance\<close>,
  \<open>connector-kraken\<close>, \<open>connector-deribit\<close>, \<open>connector-bybit\<close>) to the order-book engine (\<open>orderbook\<close>),
  while \<open>quality\<close> and \<open>connector-core\<close> track the health of the source and the life of the connector
  and the watermarks of \<open>feature-engine\<close> decide when a time window is final. File names below are
  relative to \<open>src/crates\<close>.

  \<^bold>\<open>Conventions.\<close> A Rust \<open>Result\<close> is a sum (\<open>Err\<close> is the left, \<open>Ok\<close> the right injection), the question
  mark is \<open>and_then\<close>, a method that changes its receiver returns the new receiver beside its result
  (\<open>call\<close>, \<open>and_do\<close>, \<open>reading\<close>), structs are records, enums are datatypes. Unsigned integers are natural
  numbers and signed ones integers; each operation that can leave its width is a definition of
  \<open>Prelude\<close> with the bound written out (\<open>checked_add\<close>, \<open>saturating_add\<close>, ...). CRC-32 is computed on
  32-bit words. A \<open>BTreeMap\<close> is a list sorted by the comparison of its keys (\<open>BTree_Map\<close>), whose laws are
  the locale \<open>rust_ord\<close>, interpreted for decimals, strings, numbers, queue priorities, stream keys and
  watermark keys. Bytes are characters and strings are UTF-8 byte lists.

  \<^bold>\<open>Decimals\<close> (\<open>fixed-decimal/src/lib.rs\<close>). \<open>Fixed_Decimal\<close> holds the type and every operation;
  \<open>Decimal_Canonical\<close>, \<open>Decimal_Text\<close>, \<open>Decimal_Order\<close>, \<open>Decimal_Arith\<close> and \<open>Decimal_Product\<close> prove
  the lemmas and \<open>Decimal_Correct\<close> the contract over rational values: text is a bijection with canonical
  decimals, comparison is the order of the values, and sums, products and exact quotients are exact and
  refuse only what has no representation. The loops \<open>factor_count\<close> and \<open>remove_factor\<close> are partial
  functions because they run forever on zero; it is proved that they return on every other value, and
  that the operations calling them always return.

  \<^bold>\<open>Identities and events.\<close> \<open>Domain\<close> is \<open>domain/src\<close>; \<open>Event_Payload\<close> and \<open>Event_Envelope\<close> are
  \<open>event-envelope/src/payload.rs\<close>, \<open>quality.rs\<close> and \<open>lib.rs\<close>: every payload with its validation, the metadata
  contract, the canonical writer and the checked constructors. \<open>Event_Identity\<close> shows, with the locale
  \<open>codec\<close> interpreted for every encoder, that two events have the same canonical bytes exactly when they agree in
  everything it covers, and, where the digest does not collide on the two, the same identity. The 25 fields of an
  envelope on the wire are the record \<open>WireEnvelope\<close>, written by \<open>envelope_serialize\<close> and read back by
  \<open>wire_metadata\<close> and \<open>envelope_from_wire\<close>: a reader accepts exactly what an accepted envelope writes. BLAKE3 and
  the JSON text of the fields are parameters.

  \<^bold>\<open>The order book\<close> (\<open>orderbook/src\<close>). \<open>Book_State\<close> is \<open>state.rs\<close>: configuration, sessions, and the quality
  evidence, whose counters, latency percentiles and score are shown to be functions of the recorded events of the
  last hour (for the latencies, of the last 4096 of them). \<open>L2_Book\<close> and \<open>L3_Book\<close> are the books of \<open>book.rs\<close>, \<open>Checksum\<close> is \<open>checksum.rs\<close>,
  \<open>Order_Book_Engine\<close> is the engine of \<open>lib.rs\<close> and \<open>Engine_Events\<close> its intake of envelopes with receipts.
  \<open>Engine_Invariant\<close> and \<open>Engine_Correct\<close> show that every reachable engine satisfies the invariant, that an
  applied delta is the overlay of its levels and is applied exactly when it may be, that a snapshot with its
  buffer is the replay of the buffered deltas, that a view is only readable while the book is trusted,
  that failures withdraw it, that only a snapshot restores it, and that a resynchronization followed by a snapshot
  does.

  \<^bold>\<open>Venue synchronizers.\<close> \<open>Book_Sync\<close> holds what they share: the locale \<open>book_synchronizer\<close> states that a
  synchronizer moves its engine only by the engine's methods and derives the invariant and the soundness of the
  views of every run; it is interpreted for the four venues. \<open>Sync_Binance\<close>, \<open>Sync_Kraken\<close>, \<open>Sync_Deribit\<close> and
  \<open>Sync_Bybit\<close> are the files \<open>book_sync.rs\<close> of the connectors, with the level readers of the Kraken and the
  Deribit \<open>parser.rs\<close>. Shown besides: Binance recovers at once from lost trust; the exact texts of Kraken mirror
  the engine (\<open>Kraken_Mirror\<close>) so that the venue's checksum decides about an update (\<open>Kraken_Checksum\<close>, where an
  update that empties the book is seen to be refused with the old levels still published); the map of Deribit contains what the engine shows and equals it within the depth (\<open>Deribit_Mirror\<close>, with an example
  of the level that is lost beyond it); Bybit applies messages in order. The property of this theory joins the four.

  \<^bold>\<open>Trackers.\<close> \<open>Two_Phase\<close> is the contract of a tracker that prepares a transition and commits it later (locales
  \<open>two_phase_tracker\<close> and \<open>timed_tracker\<close>): committed events are gapless and consecutive. It is interpreted in
  \<open>Source_Health\<close> (\<open>quality/src/source_health.rs\<close>) and \<open>Connector_Lifecycle\<close>
  (\<open>connector-core/src/lifecycle.rs\<close>), which add what their transition tables imply. \<open>Watermark\<close> is
  \<open>feature-engine/src/watermark.rs\<close> with the time window of \<open>window.rs\<close> and the entity hash of \<open>features/mod.rs\<close>:
  finality agrees with the frontier and is never taken back.

  \<^bold>\<open>Write-ahead log\<close> (\<open>raw-wal/src\<close>). \<open>Bytes\<close> has the big-endian fields (locale \<open>wire_field\<close>), \<open>Wal_Frame\<close>,
  \<open>Wal_Prologue\<close>, \<open>Wal_Recovery\<close> and \<open>Wal_Segment\<close> are \<open>frame.rs\<close>, \<open>prologue.rs\<close>, \<open>recovery.rs\<close> and
  \<open>segment.rs\<close>. \<open>Wal_Search\<close>, \<open>Wal_Log\<close>, \<open>Wal_Recovery_Correct\<close> and \<open>Wal_Durability\<close> show that decoding accepts
  exactly what encoding writes, that the buffered search finds exactly the later frames, that recovery keeps a run
  of complete frames and is idempotent, and that what was acknowledged is recovered under failing writes and
  syncs and crashes. A write may stop at any byte and a sync may fail; a sync that succeeds puts every byte written so
  far on the disk (\<open>sg_synced\<close> is how many are there). A crash (\<open>crash_image\<close>) keeps those bytes and leaves anything
  behind them, lost, cut, reordered or garbled, with one exception: a run of frames with correct checksums that
  begins behind the prologue was written there. That exception is the only thing assumed of CRC-32C, and only in the
  durability theorem, which also assumes that the file is within the size that recovery accepts; recovery may then
  still report an error, in the cases that theorem lists. BLAKE3 is a parameter. No loop has fuel: the scan and the
  search recurse with termination proofs on the bytes left.

  \<^bold>\<open>Not modelled.\<close> Numeric limits and the loops and closures inside a function are definitions here that translate
  part of the function they belong to. Left out are: segment sealing and rotation (\<open>raw-wal/src/seal.rs\<close>, \<open>manager.rs\<close>:
  directories and renaming); the JSON parsers, normalizers, metadata, sessions and capability tables of the
  connectors, whose messages are inputs here; channels and capture of \<open>connector-core\<close> and the collector runtime
  (asynchronous tasks); the coverage report and evidence digest of the watermarks, the window buffers, the materializer
  and the features, and all statistical crates, which compute with floating-point numbers; storage through
  SQLite and Parquet, the gRPC interface with its generated code, signing, encryption and release tooling (third-party
  libraries and file systems); the instrument registry, the consolidated market and the replay engine; crates that
  are placeholders; applications, tests and the Swift client. The lossy conversion of a decimal to floating point, the
  serde adapters that only call modelled functions, accessors and display names are left out as well. Reads of an
  open file and memory reservations are taken to succeed.
\<close>

section \<open>Properties that span components\<close>

text \<open>What the four venue synchronizers promise of a view, although each feeds the engine in its own way.\<close>

definition trusted_view :: "BookConfig \<Rightarrow> OrderBookEngine \<Rightarrow> BookSnapshotView \<Rightarrow> bool" where
  "trusted_view c e v \<longleftrightarrow> en_state e = Synchronized \<and> en_session e = Some (vw_session v)
     \<and> strictly_descending (vw_bids v) \<and> strictly_ascending (vw_asks v)
     \<and> length (vw_bids v) \<le> max_levels_per_side c \<and> length (vw_asks v) \<le> max_levels_per_side c"

text \<open>
  C6. Whichever venue it comes from and whatever messages, sessions, time-outs and disconnections preceded it,
  a book that a synchronizer lets its reader see is the book of a synchronized engine and of its current
  session, has bids in strictly falling and asks in strictly rising order, and is within the configured
  depth: this holds of Binance, Kraken, Deribit and Bybit.
\<close>

theorem synchronizers_publish_trusted_views:
  "(binance_opened c b \<and> binance_step\<^sup>*\<^sup>* b b' \<and> binance_snapshot b' = Ok v \<longrightarrow> trusted_view c (bn_engine b') v)
   \<and> (kraken_opened c k \<and> kraken_step\<^sup>*\<^sup>* k k' \<and> kraken_snapshot k' = Ok v \<longrightarrow> trusted_view c (kr_engine k') v)
   \<and> (deribit_opened c d \<and> deribit_step\<^sup>*\<^sup>* d d' \<and> deribit_snapshot d' = Ok v \<longrightarrow> trusted_view c (db_engine d') v)
   \<and> (bybit_opened c y \<and> bybit_step\<^sup>*\<^sup>* y y' \<and> bybit_snapshot y' = Ok v \<longrightarrow> trusted_view c (bb_engine y') v)"
  unfolding trusted_view_def binance_snapshot_def kraken_snapshot_def deribit_snapshot_def bybit_snapshot_def
  using binance.run_view kraken.run_view deribit.run_view bybit.run_view by blast

theorem synchronizers_publish_trusted_views_witness:
  "\<exists>v. bybit_snapshot (fst (bybit_apply_message example_bybit_message 5 example_bybit_started)) = Ok v
     \<and> trusted_view example_bybit (bb_engine (fst (bybit_apply_message example_bybit_message 5 example_bybit_started))) v"
proof -
  let ?y = "fst (bybit_apply_message example_bybit_message 5 example_bybit_started)"
  have opened: "bybit_opened example_bybit example_bybit_new" using example_bybit_opened by (auto simp: bybit_opened_def)
  have run: "bybit_step\<^sup>*\<^sup>* example_bybit_new ?y"
    by (rule rtranclp.rtrancl_into_rtrancl [OF example_bybit_run]) (rule bybit_applies [OF example_bybit_typed])
  have "bybit_apply_message example_bybit_message 5 example_bybit_started = (?y, Ok ApplyResult.Applied)"
    using example_bybit_applied by (simp add: prod_eq_iff)
  then obtain v where "bybit_snapshot ?y = Ok v"
    using bybit_applied(3) [OF bybit_run [OF opened example_bybit_run] example_bybit_typed _ bybit_run(1) [OF opened run]]
    by blast
  then show ?thesis using synchronizers_publish_trusted_views opened run by blast
qed

end
